(* ===== verification/Prelude.thy ===== *)
theory Prelude
  imports Main "HOL-Library.Word" "HOL-Library.Multiset"
begin

text \<open>
  Shared vocabulary of the development.

  The C++ sources signal an impossible situation in three ways: an \<open>assert\<close>, an
  \<open>llvm_unreachable\<close>, or an access of a container outside its bounds (undefined
  behaviour); an error of the input is reported with \<open>report_fatal_error\<close>, which ends the
  compilation. Each of them is a value of the datatype \<open>failure\<close>, and every fallible
  operation of the model returns \<open>'a result\<close>, with \<open>Inl\<close> for the failure. The
  operations are sequenced with \<open>rbind\<close>, whose rules are collected in
  \<open>result_simps\<close>.

  The second half holds the generic list facts the components share: access from the
  end of a vector, exchanging the first element of a list with another one, first
  position of an element, maps ordered by their keys, and the big-endian bytes of a number.
\<close>

named_theorems result_simps \<open>rewriting of sequenced fallible operations\<close>

section \<open>Failures and fallible results\<close>

datatype failure =
    AssertFailed string
  | Unreachable string
  | UndefinedBehaviour string
  | FatalError string

type_synonym 'a result = "failure + 'a"

definition rbind :: "'a result \<Rightarrow> ('a \<Rightarrow> 'b result) \<Rightarrow> 'b result" where
  "rbind r k = (case r of Inl e \<Rightarrow> Inl e | Inr x \<Rightarrow> k x)"

definition check_assert :: "bool \<Rightarrow> string \<Rightarrow> unit result" where
  "check_assert b msg = (if b then Inr () else Inl (AssertFailed msg))"

definition is_ok :: "'a result \<Rightarrow> bool" where
  "is_ok r = (case r of Inl _ \<Rightarrow> False | Inr _ \<Rightarrow> True)"

lemma rbind_Inr [simp, result_simps]: "rbind (Inr x) k = k x"
  by (simp add: rbind_def)

lemma rbind_Inl [simp, result_simps]: "rbind (Inl e) k = Inl e"
  by (simp add: rbind_def)

lemma rbind_Inr_right [simp, result_simps]: "rbind r Inr = r"
  by (cases r) simp_all

lemma rbind_assoc [result_simps]: "rbind (rbind r k) h = rbind r (\<lambda>x. rbind (k x) h)"
  by (cases r) simp_all

lemma rbind_eq_Inr [result_simps]:
  "rbind r k = Inr y \<longleftrightarrow> (\<exists>x. r = Inr x \<and> k x = Inr y)"
  by (cases r) simp_all

lemma rbind_split:
  "P (rbind r k) \<longleftrightarrow> (\<forall>e. r = Inl e \<longrightarrow> P (Inl e)) \<and> (\<forall>x. r = Inr x \<longrightarrow> P (k x))"
  by (cases r) simp_all

lemma rbind_if [result_simps]:
  "rbind (if b then r else r') k = (if b then rbind r k else rbind r' k)"
  by simp

lemma rbind_cong [fundef_cong]:
  "r = r' \<Longrightarrow> (\<And>x. r' = Inr x \<Longrightarrow> k x = k' x) \<Longrightarrow> rbind r k = rbind r' k'"
  by (cases r') simp_all

lemma check_assert_True [simp]: "check_assert True msg = Inr ()"
  by (simp add: check_assert_def)

lemma check_assert_eq_Inr [simp]: "check_assert b msg = Inr u \<longleftrightarrow> b"
  by (simp add: check_assert_def)

lemma check_assert_False [simp]: "check_assert False msg = Inl (AssertFailed msg)"
  by (simp add: check_assert_def)

lemma is_ok_simps [simp]: "is_ok (Inr x)" "\<not> is_ok (Inl e)"
  by (simp_all add: is_ok_def)

lemma is_ok_iff: "is_ok r \<longleftrightarrow> (\<exists>x. r = Inr x)"
  by (cases r) simp_all

text \<open>A loop over a list that carries a state and stops at the first failure.\<close>

fun foldM :: "('a \<Rightarrow> 's \<Rightarrow> 's result) \<Rightarrow> 'a list \<Rightarrow> 's \<Rightarrow> 's result" where
  "foldM f [] s = Inr s"
| "foldM f (x # xs) s = rbind (f x s) (foldM f xs)"

lemma foldM_append: "foldM f (xs @ ys) s = rbind (foldM f xs s) (foldM f ys)"
proof (induction xs arbitrary: s)
  case (Cons x xs)
  then have "foldM f (xs @ ys) = (\<lambda>t. rbind (foldM f xs t) (foldM f ys))" by (rule ext)
  then show ?case by (simp add: rbind_assoc)
qed simp

lemma foldM_invariant:
  assumes "foldM f xs s = Inr t" and "I s"
    and "\<And>x s t. x \<in> set xs \<Longrightarrow> I s \<Longrightarrow> f x s = Inr t \<Longrightarrow> I t"
  shows "I t"
  using assms
proof (induction xs arbitrary: s)
  case (Cons x xs)
  from Cons.prems(1) obtain u where u: "f x s = Inr u" and t: "foldM f xs u = Inr t"
    by (auto simp: rbind_eq_Inr)
  from u Cons.prems(2,3) have "I u" by (meson list.set_intros(1))
  with t show ?case using Cons.IH Cons.prems(3) by (meson list.set_intros(2))
qed simp

section \<open>Vectors read from the end\<close>

text \<open>
  \<open>v.rbegin()[d]\<close> of a C++ vector is the element at distance \<open>d\<close> from the last one.
\<close>

definition from_end :: "'a list \<Rightarrow> nat \<Rightarrow> 'a" where
  "from_end xs d = xs ! (length xs - 1 - d)"

lemma from_end_rev: "d < length xs \<Longrightarrow> from_end xs d = rev xs ! d"
  by (simp add: from_end_def rev_nth)

text \<open>Exchanging the first element of a list with the one at index \<open>d\<close>.\<close>

definition swap0 :: "nat \<Rightarrow> 'a list \<Rightarrow> 'a list" where
  "swap0 d xs = xs[0 := xs ! d, d := xs ! 0]"

lemma length_swap0 [simp]: "length (swap0 d xs) = length xs"
  by (simp add: swap0_def)

lemma swap0_0 [simp]: "swap0 0 xs = xs"
  by (simp add: swap0_def)

lemma swap0_Cons_Suc:
  "d < length xs \<Longrightarrow> swap0 (Suc d) (x # xs) = xs ! d # xs[d := x]"
  by (simp add: swap0_def)

lemma swap0_second [simp]: "swap0 (Suc 0) (x # y # zs) = y # x # zs"
  by (simp add: swap0_def)

lemma hd_swap0: "d < length xs \<Longrightarrow> swap0 d xs ! 0 = xs ! d"
  by (cases xs; cases d) (auto simp: swap0_def)

lemma nth_swap0:
  "d < length xs \<Longrightarrow> i < length xs \<Longrightarrow>
   swap0 d xs ! i = (if i = 0 then xs ! d else if i = d then xs ! 0 else xs ! i)"
  by (auto simp: swap0_def nth_list_update)

lemma swap0_involutive: "d < length xs \<Longrightarrow> swap0 d (swap0 d xs) = xs"
  by (rule nth_equalityI) (auto simp: nth_swap0 hd_swap0)

lemma mset_swap0: "d < length xs \<Longrightarrow> mset (swap0 d xs) = mset xs"
  unfolding swap0_def by (rule mset_swap) auto

lemma set_swap0 [simp]: "d < length xs \<Longrightarrow> set (swap0 d xs) = set xs"
  by (metis mset_swap0 set_mset_mset)

lemma map_swap0: "d < length xs \<Longrightarrow> map f (swap0 d xs) = swap0 d (map f xs)"
proof (rule nth_equalityI)
  fix i assume d: "d < length xs" and "i < length (map f (swap0 d xs))"
  then have i: "i < length xs" and "0 < length xs" by auto
  with d show "map f (swap0 d xs) ! i = swap0 d (map f xs) ! i" by (simp add: nth_swap0)
qed simp

section \<open>First position of an element\<close>

fun index_of :: "'a \<Rightarrow> 'a list \<Rightarrow> nat" where
  "index_of x [] = 0"
| "index_of x (y # ys) = (if x = y then 0 else Suc (index_of x ys))"

lemma index_of_less: "x \<in> set xs \<Longrightarrow> index_of x xs < length xs"
  by (induction xs) auto

lemma nth_index_of [simp]: "x \<in> set xs \<Longrightarrow> xs ! index_of x xs = x"
  by (induction xs) auto

lemma index_of_first: "i < index_of x xs \<Longrightarrow> i < length xs \<Longrightarrow> xs ! i \<noteq> x"
proof (induction xs arbitrary: i)
  case (Cons y ys)
  then show ?case by (cases i) (auto split: if_splits)
qed simp

lemma index_of_eqI:
  assumes "i < length xs" and "xs ! i = x" and "\<And>j. j < i \<Longrightarrow> xs ! j \<noteq> x"
  shows "index_of x xs = i"
  using assms
proof (induction xs arbitrary: i)
  case (Cons y ys)
  show ?case
  proof (cases i)
    case 0
    with Cons.prems show ?thesis by simp
  next
    case (Suc k)
    with Cons.prems(3)[of 0] have "x \<noteq> y" by simp
    moreover have "index_of x ys = k"
    proof (rule Cons.IH)
      show "ys ! j \<noteq> x" if "j < k" for j
        using Cons.prems(3)[of "Suc j"] that Suc by simp
    qed (use Cons.prems Suc in simp_all)
    ultimately show ?thesis using Suc by simp
  qed
qed simp

section \<open>Ordered maps\<close>

text \<open>
  A \<open>std::map\<close> with numbers as keys is the list of its entries in the order of the keys, the
  order in which it is traversed. \<open>map_put\<close> is the assignment \<open>m[k] = v\<close>, which replaces an entry;
  \<open>map_insert\<close> is \<open>insert\<close>, which keeps an entry that exists.
\<close>

fun map_put :: "nat \<Rightarrow> 'v \<Rightarrow> (nat \<times> 'v) list \<Rightarrow> (nat \<times> 'v) list" where
  "map_put k v [] = [(k, v)]"
| "map_put k v ((i, u) # m) =
     (if k < i then (k, v) # (i, u) # m
      else if k = i then (k, v) # m
      else (i, u) # map_put k v m)"

definition map_insert :: "nat \<Rightarrow> 'v \<Rightarrow> (nat \<times> 'v) list \<Rightarrow> (nat \<times> 'v) list" where
  "map_insert k v m = (case map_of m k of None \<Rightarrow> map_put k v m | Some _ \<Rightarrow> m)"

lemma map_of_map_put: "map_of (map_put k v m) = (map_of m)(k \<mapsto> v)"
  by (induction m) (auto simp: fun_eq_iff)

lemma map_put_snoc: "(\<And>i u. (i, u) \<in> set m \<Longrightarrow> i < k) \<Longrightarrow> map_put k v m = m @ [(k, v)]"
  by (induction m) fastforce+

lemma map_insert_snoc:
  assumes "\<And>i u. (i, u) \<in> set m \<Longrightarrow> i < k"
  shows "map_insert k v m = m @ [(k, v)]"
proof -
  have "map_of m k = None" using assms by (fastforce simp: map_of_eq_None_iff)
  then show ?thesis by (simp add: map_insert_def map_put_snoc assms)
qed

section \<open>Big-endian bytes\<close>

text \<open>The \<open>n\<close> low bytes of a number, most significant byte first, and their value.\<close>

fun be_bytes :: "nat \<Rightarrow> nat \<Rightarrow> 8 word list" where
  "be_bytes 0 v = []"
| "be_bytes (Suc n) v = be_bytes n (v div 256) @ [word_of_nat v]"

definition be_value :: "8 word list \<Rightarrow> nat" where
  "be_value bs = fold (\<lambda>b acc. acc * 256 + unat b) bs 0"

lemma length_be_bytes [simp]: "length (be_bytes n v) = n"
  by (induction n arbitrary: v) simp_all

lemma be_value_snoc [simp]: "be_value (bs @ [b]) = be_value bs * 256 + unat b"
  by (simp add: be_value_def)

lemma be_value_Nil [simp]: "be_value [] = 0"
  by (simp add: be_value_def)

lemma be_value_be_bytes: "be_value (be_bytes n v) = v mod 256 ^ n"
proof (induction n arbitrary: v)
  case (Suc n)
  have "be_value (be_bytes (Suc n) v) = (v div 256) mod 256 ^ n * 256 + v mod 256"
    using Suc by (simp add: unat_of_nat)
  also have "\<dots> = v mod 256 ^ Suc n"
    by (simp add: mod_mult2_eq)
  finally show ?case .
qed simp

end
