(* ===== verification/MachineIR.thy ===== *)
theory MachineIR
  imports Prelude
begin

text \<open>
  The machine-level program representation the passes of the EVM back end work on:
  registers, opcodes, operands, machine instructions, basic blocks and functions.

  The opcodes are the records of \<open>EVMInstrInfo.td\<close>. A \<open>defm NAME : ...\<close> of that file
  declares a register form \<open>NAME_r\<close> and a stack form \<open>NAME\<close> (multiclass \<open>RSInst\<close>); here
  they are \<open>R NAME\<close> and \<open>S NAME\<close> over one datatype of base names, and the instruction
  mapping \<open>getStackOpcode\<close>, which relates the two forms by their base name, is a
  function on opcodes. The numbered families \<open>PUSH1 .. PUSH32\<close>, \<open>DUP1 .. DUP16\<close> and
  \<open>SWAP1 .. SWAP16\<close> carry their number.
\<close>

section \<open>Registers\<close>

text \<open>
  Register 0 is \<open>NoRegister\<close>; \<open>FP\<close>, \<open>SP\<close> and \<open>GPR256\<close> are the physical registers of
  \<open>EVMRegisterInfo.td\<close>; everything else the passes see is a virtual register.
\<close>

datatype reg = NoRegister | FP | SP | GPR256 | VReg nat

fun isPhysicalRegister :: "reg \<Rightarrow> bool" where
  "isPhysicalRegister (VReg n) = False"
| "isPhysicalRegister NoRegister = False"
| "isPhysicalRegister r = True"

section \<open>Opcodes\<close>

text \<open>
  The base names the C++ of the back end mentions are constructors of \<open>base\<close>; the other
  instructions of the file, which the passes treat uniformly, are grouped as arithmetic,
  environment and system instructions.
\<close>

datatype (plugins only: code) alu_op =
    STOP | SDIV | MOD | SMOD | ADDMOD | MULMOD | EXP | AND' | OR' | XOR' | NOT' | ROL | ROR
  | BYTE | SHA3

datatype (plugins only: code) env_op =
    ADDRESS | BALANCE | ORIGIN | CALLER | CALLVALUE | CALLDATALOAD | CALLDATASIZE
  | CALLDATACOPY | CODESIZE | CODECOPY | GASPRICE | EXTCODESIZE | EXTCODECOPY
  | RETURNDATASIZE | RETURNDATACOPY | BLOCKHASH | COINBASE | TIMESTAMP | NUMBER
  | DIFFICULTY | GASLIMIT

datatype (plugins only: code) sys_op =
    MSTORE8 | SLOAD | SSTORE | MSIZE | GAS | JUMPTO | CREATE | CALL | CALLNODE | RETURN
  | DELEGATECALL | STATICCALL | CREATE2 | REVERT | INVALID | SELFDESTRUCT

datatype (plugins only: code) base =
    ADD | SUB | MUL | DIV | SIGNEXTEND | LT | GT | SLT | SGT | EQ | ISZERO | SHL | SHR | SAR
  | POP | MLOAD | MSTORE | JUMP | JUMPI | GETPC | JUMPDEST | PUSH nat
  | Alu alu_op | Env env_op | Sys sys_op

datatype (plugins only: code) opcode =
    R base
  | S base
  | SWAPn nat
  | DUPn nat
  | SWAP_r | DUP_r
  | JUMPSUB | BEGINSUB | RETURNSUB
  | Selectcc | ADJCALLSTACKDOWN | ADJCALLSTACKUP
  | pJUMPSUBVOID_r | pJUMPSUB_r | pJUMPSUB | pJUMPSUBV_r
  | pJUMPTO_r | pJUMPIF_r | pJUMPV | pRETURNSUB_r | pRETURNSUBVOID_r
  | pGETLOCAL_r | pPUTLOCAL_r | pSTACKARG_r | pSTACKARG
  | pADJFPUP_r | pADJFPUP | pADJFPDOWN_r | pADJFPDOWN
  | pMOVE_r
  | IMPLICIT_DEF | PHI

text \<open>
  The instruction mapping: the row of an instruction is its \<open>BaseName\<close>, the key column
  is \<open>StackBased = false\<close>, the value column \<open>StackBased = true\<close>. \<open>None\<close> is the \<open>-1\<close> the
  generated function returns for an instruction that has no partner.
\<close>

fun getStackOpcode :: "opcode \<Rightarrow> opcode option" where
  "getStackOpcode (R b) = Some (S b)"
| "getStackOpcode pADJFPUP_r = Some pADJFPUP"
| "getStackOpcode pADJFPDOWN_r = Some pADJFPDOWN"
| "getStackOpcode _ = None"

section \<open>Operands and instructions\<close>

text \<open>
  \<open>MO_Register r d\<close> is a register operand, a definition when \<open>d\<close> holds. \<open>MO_Immediate\<close>
  holds a signed 64-bit value, \<open>MO_CImmediate w v\<close> a constant of bit width \<open>w\<close>.
\<close>

datatype operand =
    MO_Register reg bool
  | MO_Immediate int
  | MO_CImmediate nat nat
  | MO_MachineBasicBlock nat
  | MO_BlockAddress string
  | MO_GlobalAddress string
  | MO_ExternalSymbol string
  | MO_FrameIndex int
  | MO_FPImmediate

fun isReg :: "operand \<Rightarrow> bool" where
  "isReg (MO_Register r d) = True"
| "isReg _ = False"

fun isDef :: "operand \<Rightarrow> bool" where
  "isDef (MO_Register r d) = d"
| "isDef _ = False"

fun isImm :: "operand \<Rightarrow> bool" where
  "isImm (MO_Immediate i) = True"
| "isImm _ = False"

fun isMBB :: "operand \<Rightarrow> bool" where
  "isMBB (MO_MachineBasicBlock b) = True"
| "isMBB _ = False"

fun getReg :: "operand \<Rightarrow> reg" where
  "getReg (MO_Register r d) = r"
| "getReg _ = NoRegister"

fun setReg :: "operand \<Rightarrow> reg \<Rightarrow> operand" where
  "setReg (MO_Register r d) r' = MO_Register r' d"
| "setReg mo r' = mo"

abbreviation useOf :: "reg \<Rightarrow> operand" where
  "useOf r \<equiv> MO_Register r False"

abbreviation defOf :: "reg \<Rightarrow> operand" where
  "defOf r \<equiv> MO_Register r True"

record minstr =
  mi_opcode :: opcode
  mi_operands :: "operand list"
  mi_flags :: "32 word"

abbreviation MI :: "opcode \<Rightarrow> operand list \<Rightarrow> minstr" where
  "MI opc ops \<equiv> \<lparr>mi_opcode = opc, mi_operands = ops, mi_flags = 0\<rparr>"

text \<open>
  The explicit definitions are the leading register operands marked as definitions, the
  explicit uses are the operands after them.
\<close>

definition explicit_defs :: "minstr \<Rightarrow> operand list" where
  "explicit_defs mi = takeWhile isDef (mi_operands mi)"

definition explicit_uses :: "minstr \<Rightarrow> operand list" where
  "explicit_uses mi = dropWhile isDef (mi_operands mi)"

definition def_regs :: "minstr \<Rightarrow> reg list" where
  "def_regs mi = map getReg (filter isDef (mi_operands mi))"

definition use_regs :: "minstr \<Rightarrow> reg list" where
  "use_regs mi = map getReg (filter (\<lambda>mo. isReg mo \<and> \<not> isDef mo) (mi_operands mi))"

record mbb =
  mbb_instrs :: "minstr list"
  mbb_preds :: "nat list"
  mbb_succs :: "nat list"

text \<open>A function is the list of its blocks in layout order; a block is named by its position.\<close>

type_synonym mfunction = "mbb list"

lemma explicit_defs_uses: "explicit_defs mi @ explicit_uses mi = mi_operands mi"
  by (simp add: explicit_defs_def explicit_uses_def)

lemma getStackOpcode_injective:
  "getStackOpcode a = Some c \<Longrightarrow> getStackOpcode b = Some c \<Longrightarrow> a = b"
  by (elim getStackOpcode.elims) auto

end
