(* ===== verification/StackStatus.thy ===== *)
theory StackStatus
  imports MachineIR
begin

text \<open>
  The class \<open>EVMStackStatus\<close> of \<open>EVMStackAllocAnalysis\<close>: the symbolic operand stack the
  allocator executes on while it inserts stack manipulation code.

  The vector \<open>stackElements\<close> has the top of the stack at its back. The abstraction
  \<open>view\<close> is the stack read from the top; the locale \<open>symbolic_stack\<close> states what its
  clients rely on (each operation, seen through \<open>view\<close>, is the EVM stack operation of the
  same name) and derives the facts they use. It is interpreted on the model of the class.
\<close>

section \<open>The class\<close>

record EVMStackStatus =
  stackElements :: "reg list"
  sizeOfXRegion :: "32 word"

definition getStackDepth :: "EVMStackStatus \<Rightarrow> nat" where
  "getStackDepth s = length (stackElements s)"

definition getSizeOfXRegion :: "EVMStackStatus \<Rightarrow> 32 word" where
  "getSizeOfXRegion s = sizeOfXRegion s"

definition getSizeOfLRegion :: "EVMStackStatus \<Rightarrow> 32 word" where
  "getSizeOfLRegion s = word_of_nat (getStackDepth s) - sizeOfXRegion s"

definition stack_empty :: "EVMStackStatus \<Rightarrow> bool" where
  "stack_empty s = (stackElements s = [])"

definition stack_get :: "EVMStackStatus \<Rightarrow> nat \<Rightarrow> reg result" where
  "stack_get s depth =
     (if depth < length (stackElements s) then Inr (from_end (stackElements s) depth)
      else Inl (UndefinedBehaviour ''rbegin()[depth]''))"

definition stack_swap :: "nat \<Rightarrow> EVMStackStatus \<Rightarrow> EVMStackStatus result" where
  "stack_swap depth s =
     (if depth = 0 then Inr s
      else let es = stackElements s; n = length es in
        if \<not> 2 \<le> n then Inl (AssertFailed ''stackElements.size() >= 2'')
        else if n \<le> depth then Inl (UndefinedBehaviour ''iter_swap'')
        else Inr (s\<lparr>stackElements :=
               es[n - 1 := es ! (n - 1 - depth), n - 1 - depth := es ! (n - 1)]\<rparr>))"

definition stack_dup :: "nat \<Rightarrow> EVMStackStatus \<Rightarrow> EVMStackStatus result" where
  "stack_dup depth s =
     (if depth < length (stackElements s)
      then Inr (s\<lparr>stackElements := stackElements s @ [from_end (stackElements s) depth]\<rparr>)
      else Inl (UndefinedBehaviour ''*(rbegin() + depth)''))"

definition stack_pop :: "EVMStackStatus \<Rightarrow> (reg \<times> EVMStackStatus) result" where
  "stack_pop s =
     (if stackElements s = [] then Inl (UndefinedBehaviour ''back()'')
      else Inr (last (stackElements s), s\<lparr>stackElements := butlast (stackElements s)\<rparr>))"

definition stack_push :: "reg \<Rightarrow> EVMStackStatus \<Rightarrow> EVMStackStatus" where
  "stack_push r s = s\<lparr>stackElements := stackElements s @ [r]\<rparr>"

definition pushElementToXRegion :: "EVMStackStatus \<Rightarrow> EVMStackStatus" where
  "pushElementToXRegion s = s\<lparr>sizeOfXRegion := sizeOfXRegion s + 1\<rparr>"

definition popElementFromXRegion :: "EVMStackStatus \<Rightarrow> EVMStackStatus" where
  "popElementFromXRegion s = s\<lparr>sizeOfXRegion := sizeOfXRegion s - 1\<rparr>"

definition stack_clear :: "EVMStackStatus \<Rightarrow> EVMStackStatus" where
  "stack_clear s = s\<lparr>stackElements := [], sizeOfXRegion := 0\<rparr>"

definition instantiateXRegionStack ::
    "reg list \<Rightarrow> EVMStackStatus \<Rightarrow> EVMStackStatus result" where
  "instantiateXRegionStack xs s =
     (if getStackDepth s = 0
      then Inr (s\<lparr>stackElements := stackElements s @ xs,
                  sizeOfXRegion := word_of_nat (length xs)\<rparr>)
      else Inl (AssertFailed ''getStackDepth() == 0''))"

text \<open>The loop of \<open>findRegDepth\<close>: depths from \<open>d\<close> upwards, \<open>k\<close> of them left.\<close>

fun find_loop :: "reg \<Rightarrow> reg list \<Rightarrow> nat \<Rightarrow> nat \<Rightarrow> nat result" where
  "find_loop r es d 0 = Inl (Unreachable ''Cannot find register on stack'')"
| "find_loop r es d (Suc k) =
     (if from_end es d = r then Inr d else find_loop r es (Suc d) k)"

definition findRegDepth :: "reg \<Rightarrow> EVMStackStatus \<Rightarrow> nat result" where
  "findRegDepth r s = find_loop r (stackElements s) 0 (getStackDepth s)"

section \<open>What the clients rely on\<close>

definition view :: "EVMStackStatus \<Rightarrow> reg list" where
  "view s = rev (stackElements s)"

locale symbolic_stack =
  fixes view' :: "'s \<Rightarrow> 'r list"
    and push' :: "'r \<Rightarrow> 's \<Rightarrow> 's"
    and pop' :: "'s \<Rightarrow> ('r \<times> 's) result"
    and dup' :: "nat \<Rightarrow> 's \<Rightarrow> 's result"
    and swap' :: "nat \<Rightarrow> 's \<Rightarrow> 's result"
    and find' :: "'r \<Rightarrow> 's \<Rightarrow> nat result"
  assumes view_push: "view' (push' r s) = r # view' s"
    and pop_ok: "view' s = r # rs \<Longrightarrow> \<exists>t. pop' s = Inr (r, t) \<and> view' t = rs"
    and dup_ok: "d < length (view' s) \<Longrightarrow>
      \<exists>t. dup' d s = Inr t \<and> view' t = view' s ! d # view' s"
    and swap_ok: "d < length (view' s) \<Longrightarrow>
      \<exists>t. swap' d s = Inr t \<and> view' t = swap0 d (view' s)"
    and find_ok: "r \<in> set (view' s) \<Longrightarrow> find' r s = Inr (index_of r (view' s))"
    and find_fail: "r \<notin> set (view' s) \<Longrightarrow> \<not> is_ok (find' r s)"
begin

text \<open>Duplicating a register that is on the stack puts it on the top and keeps the rest.\<close>

lemma find_dup:
  assumes "r \<in> set (view' s)"
  shows "\<exists>t. rbind (find' r s) (\<lambda>d. dup' d s) = Inr t \<and> view' t = r # view' s"
  using dup_ok [OF index_of_less [OF assms]] assms by (simp add: find_ok)

text \<open>Exchanging a register with the top keeps the multiset of the stack.\<close>

lemma find_swap:
  assumes "r \<in> set (view' s)"
  shows "\<exists>t. rbind (find' r s) (\<lambda>d. swap' d s) = Inr t \<and>
             hd (view' t) = r \<and> mset (view' t) = mset (view' s)"
proof -
  let ?d = "index_of r (view' s)"
  have d: "?d < length (view' s)" using assms by (rule index_of_less)
  obtain t where t: "swap' ?d s = Inr t" "view' t = swap0 ?d (view' s)"
    using swap_ok [OF d] by blast
  have "hd (view' t) = r"
    using d assms t(2) hd_swap0 [OF d] by (simp add: hd_conv_nth flip: length_greater_0_conv)
  with t d assms show ?thesis by (simp add: find_ok mset_swap0)
qed

text \<open>A push is undone by a pop.\<close>

lemma push_pop: "\<exists>t. pop' (push' r s) = Inr (r, t) \<and> view' t = view' s"
  by (rule pop_ok) (rule view_push)

end

section \<open>The class keeps the contract\<close>

lemma length_view [simp]: "length (view s) = getStackDepth s"
  by (simp add: view_def getStackDepth_def)

lemma find_loop_view:
  "d + k = length es \<Longrightarrow>
   find_loop r es d k =
     (if r \<in> set (drop d (rev es)) then Inr (d + index_of r (drop d (rev es)))
      else Inl (Unreachable ''Cannot find register on stack''))"
proof (induction k arbitrary: d)
  case (Suc k)
  then have d: "d < length es" by simp
  then have "drop d (rev es) = from_end es d # drop (Suc d) (rev es)"
    by (simp add: from_end_rev Cons_nth_drop_Suc)
  then show ?case using Suc by auto
qed simp

lemma findRegDepth_view:
  "findRegDepth r s =
     (if r \<in> set (view s) then Inr (index_of r (view s))
      else Inl (Unreachable ''Cannot find register on stack''))"
  by (simp add: findRegDepth_def find_loop_view view_def getStackDepth_def)

lemma stack_swap_view:
  assumes "d < length (view s)"
  shows "\<exists>t. stack_swap d s = Inr t \<and> view t = swap0 d (view s) \<and>
             sizeOfXRegion t = sizeOfXRegion s"
proof (cases "d = 0")
  case True
  then show ?thesis by (simp add: stack_swap_def)
next
  case False
  let ?es = "stackElements s"
  have n: "d < length ?es" using assms by (simp add: view_def)
  have "rev (?es[length ?es - 1 := ?es ! (length ?es - 1 - d),
                 length ?es - 1 - d := ?es ! (length ?es - 1)]) = swap0 d (rev ?es)"
  proof -
    from n have "rev ?es ! 0 = ?es ! (length ?es - 1)" by (subst rev_nth) auto
    with n show ?thesis by (simp add: swap0_def rev_update rev_nth)
  qed
  with n False show ?thesis by (simp add: stack_swap_def view_def Let_def)
qed

lemma stack_dup_view:
  "d < length (view s) \<Longrightarrow>
   \<exists>t. stack_dup d s = Inr t \<and> view t = view s ! d # view s \<and>
       sizeOfXRegion t = sizeOfXRegion s"
  by (simp add: stack_dup_def view_def from_end_rev)

lemma stack_pop_view:
  "view s = r # rs \<Longrightarrow>
   \<exists>t. stack_pop s = Inr (r, t) \<and> view t = rs \<and> sizeOfXRegion t = sizeOfXRegion s"
  unfolding stack_pop_def view_def
  by (metis (no_types, lifting) EVMStackStatus.select_convs(1) EVMStackStatus.simps(2)
      EVMStackStatus.simps(3) EVMStackStatus.surjective butlast_snoc last_snoc list.discI
      rev.simps(2) rev_is_Nil_conv rev_rev_ident EVMStackStatus.update_convs(1))

lemma view_push [simp]: "view (stack_push r s) = r # view s"
  by (simp add: view_def stack_push_def)

interpretation st: symbolic_stack view stack_push stack_pop stack_dup stack_swap findRegDepth
proof
  show "view (stack_push r s) = r # view s" for r s by simp
  show "\<exists>t. stack_pop s = Inr (r, t) \<and> view t = rs" if "view s = r # rs" for s r rs
    using stack_pop_view [OF that] by blast
  show "\<exists>t. stack_dup d s = Inr t \<and> view t = view s ! d # view s"
    if "d < length (view s)" for d s
    using stack_dup_view [OF that] by blast
  show "\<exists>t. stack_swap d s = Inr t \<and> view t = swap0 d (view s)"
    if "d < length (view s)" for d s
    using stack_swap_view [OF that] by blast
qed (simp_all add: findRegDepth_view)

end
