(* ===== verification/EdgeSets.thy ===== *)
theory EdgeSets
  imports MachineIR
begin

text \<open>
  The class \<open>EdgeSets\<close> of \<open>EVMStackAllocAnalysis\<close>: the control-flow edges of a function
  are numbered and put into sets, such that two edges with a common source block or a
  common target block are in one set (the stack must have one layout on all of them).

  The main fact is that \<open>computeEdgeSets\<close> computes exactly the partition generated by
  "has the source or the target block in common": it never merges more and never less.
\<close>

section \<open>The class\<close>

text \<open>An edge is a pair of block pointers; \<open>None\<close> is \<open>NULL\<close>.\<close>

type_synonym edge = "nat option \<times> nat option"

record EdgeSets =
  edgeIndex2EdgeSet :: "(nat \<times> nat) list"
  edgeIndex :: "(nat \<times> edge) list"

definition reset_edge_sets :: "EdgeSets \<Rightarrow> EdgeSets" where
  "reset_edge_sets es = es\<lparr>edgeIndex2EdgeSet := [], edgeIndex := []\<rparr>"

definition getEdgeSetIndex :: "EdgeSets \<Rightarrow> edge \<Rightarrow> nat result" where
  "getEdgeSetIndex es e =
     (case find (\<lambda>p. snd p = e) (edgeIndex es) of
        None \<Rightarrow> Inl (Unreachable ''Cannot find edge index.'')
      | Some p \<Rightarrow>
          (case map_of (edgeIndex2EdgeSet es) (fst p) of
             None \<Rightarrow> Inl (AssertFailed ''Cannot find edge set!'')
           | Some k \<Rightarrow> Inr k))"

definition getEdgeIndex :: "EdgeSets \<Rightarrow> edge \<Rightarrow> nat result" where
  "getEdgeIndex es e =
     (case find (\<lambda>p. snd p = e) (edgeIndex es) of
        None \<Rightarrow> Inl (Unreachable ''Cannot find edge index.'')
      | Some p \<Rightarrow> Inr (fst p))"

definition getEdge :: "EdgeSets \<Rightarrow> nat \<Rightarrow> edge result" where
  "getEdge es k =
     (case map_of (edgeIndex es) k of
        None \<Rightarrow> Inl (AssertFailed ''result != edgeIndex.end()'')
      | Some e \<Rightarrow> Inr e)"

text \<open>\<open>edgeIndex[edgeIndex.size()] = edge\<close>, after the assertion that the key is free.\<close>

definition add_edge :: "edge \<Rightarrow> EdgeSets \<Rightarrow> EdgeSets result" where
  "add_edge e es =
     (let key = length (edgeIndex es) in
      if key \<in> fst ` set (edgeIndex es) then Inl (AssertFailed ''Trying to emplace edge indexes.'')
      else Inr (es\<lparr>edgeIndex := map_put key e (edgeIndex es)\<rparr>))"

text \<open>
  The loop over the blocks keeps a set of visited blocks; the layout lists each block
  once, so no block is ever skipped, and the model numbers the blocks by position. Entries
  that are in the tables before stay there; \<open>reset\<close> removes them.
\<close>

definition collectEdges :: "mfunction \<Rightarrow> EdgeSets \<Rightarrow> EdgeSets result" where
  "collectEdges MF es =
     (if MF = [] then Inl (UndefinedBehaviour ''front()'')
      else foldM (\<lambda>b. foldM (\<lambda>next. add_edge (Some b, Some next)) (mbb_succs (MF ! b)))
             [0..<length MF]
             (es\<lparr>edgeIndex := map_put 1 (Some (length MF - 1), None)
                (map_put 0 (None, Some 0) (edgeIndex es))\<rparr>))"

definition mergeEdgeSets :: "edge \<Rightarrow> edge \<Rightarrow> EdgeSets \<Rightarrow> EdgeSets result" where
  "mergeEdgeSets edge1 edge2 es =
     rbind (getEdgeSetIndex es edge1) (\<lambda>edgeSet1.
     rbind (getEdgeSetIndex es edge2) (\<lambda>edgeSet2.
       if edgeSet1 = edgeSet2 then Inr es
       else Inr (es\<lparr>edgeIndex2EdgeSet :=
         map (\<lambda>(k, s). (k, if s = edgeSet2 then edgeSet1 else s)) (edgeIndex2EdgeSet es)\<rparr>)))"

definition merge_preds :: "mfunction \<Rightarrow> nat \<Rightarrow> EdgeSets \<Rightarrow> EdgeSets result" where
  "merge_preds MF b =
     (case mbb_preds (MF ! b) of
        first # rest \<Rightarrow>
          foldM (\<lambda>q. mergeEdgeSets (Some first, Some b) (Some q, Some b)) rest
      | [] \<Rightarrow> Inr)"

definition merge_succs :: "mfunction \<Rightarrow> nat \<Rightarrow> EdgeSets \<Rightarrow> EdgeSets result" where
  "merge_succs MF b =
     (case mbb_succs (MF ! b) of
        first # rest \<Rightarrow>
          foldM (\<lambda>q. mergeEdgeSets (Some b, Some first) (Some b, Some q)) rest
      | [] \<Rightarrow> Inr)"

definition computeEdgeSets :: "mfunction \<Rightarrow> EdgeSets \<Rightarrow> EdgeSets result" where
  "computeEdgeSets MF es =
     rbind (collectEdges MF es) (\<lambda>es.
       foldM (\<lambda>b es. rbind (merge_preds MF b es) (merge_succs MF b)) [0..<length MF]
         (es\<lparr>edgeIndex2EdgeSet :=
            fold (\<lambda>(k, _). map_insert k k) (edgeIndex es) (edgeIndex2EdgeSet es)\<rparr>))"

section \<open>The specification\<close>

text \<open>Predecessor and successor lists describe the same edges, between existing blocks.\<close>

definition wf_cfg :: "mfunction \<Rightarrow> bool" where
  "wf_cfg MF \<longleftrightarrow> MF \<noteq> [] \<and>
     (\<forall>b < length MF. (\<forall>s \<in> set (mbb_succs (MF ! b)). s < length MF) \<and>
                      (\<forall>p \<in> set (mbb_preds (MF ! b)). p < length MF)) \<and>
     (\<forall>b < length MF. \<forall>s < length MF.
        s \<in> set (mbb_succs (MF ! b)) \<longleftrightarrow> b \<in> set (mbb_preds (MF ! s)))"

definition cfg_edges :: "mfunction \<Rightarrow> edge list" where
  "cfg_edges MF =
     concat (map (\<lambda>b. map (\<lambda>s. (Some b, Some s)) (mbb_succs (MF ! b))) [0..<length MF])"

definition all_edges :: "mfunction \<Rightarrow> edge list" where
  "all_edges MF = [(None, Some 0), (Some (length MF - 1), None)] @ cfg_edges MF"

text \<open>Two edges between blocks that have their source or their target in common.\<close>

definition share_block :: "mfunction \<Rightarrow> edge \<Rightarrow> edge \<Rightarrow> bool" where
  "share_block MF a b \<longleftrightarrow> a \<in> set (cfg_edges MF) \<and> b \<in> set (cfg_edges MF) \<and>
     (fst a = fst b \<or> snd a = snd b)"

definition same_set :: "EdgeSets \<Rightarrow> edge \<Rightarrow> edge \<Rightarrow> bool" where
  "same_set es a b \<longleftrightarrow> (\<exists>k. getEdgeSetIndex es a = Inr k \<and> getEdgeSetIndex es b = Inr k)"

section \<open>Numbering the edges\<close>

definition numbered :: "edge list \<Rightarrow> (nat \<times> edge) list" where
  "numbered xs = zip [0..<length xs] xs"

lemma numbered_snoc: "numbered (xs @ [x]) = numbered xs @ [(length xs, x)]"
  by (simp add: numbered_def)

lemma keys_numbered: "map fst (numbered xs) = [0..<length xs]"
  and edges_numbered: "map snd (numbered xs) = xs"
  by (simp_all add: numbered_def)

lemma numbered_less: "(i, e) \<in> set (numbered xs) \<Longrightarrow> i < length xs"
  by (auto simp: numbered_def in_set_zip)

lemma insert_numbered:
  "fold (\<lambda>(k, _). map_insert k k) (numbered xs) [] = map (\<lambda>(k, _). (k, k)) (numbered xs)"
proof (induction xs rule: rev_induct)
  case (snoc x xs)
  have "map_insert (length xs) (length xs) (map (\<lambda>(k, _). (k, k)) (numbered xs)) =
      map (\<lambda>(k, _). (k, k)) (numbered xs) @ [(length xs, length xs)]"
    by (rule map_insert_snoc) (auto dest: numbered_less)
  with snoc show ?case by (simp add: numbered_snoc)
qed (simp add: numbered_def)

lemma add_edge_numbered:
  "edgeIndex es = numbered xs \<Longrightarrow>
   add_edge e es = Inr (es\<lparr>edgeIndex := numbered (xs @ [e])\<rparr>)"
proof -
  assume es: "edgeIndex es = numbered xs"
  have "fst ` set (numbered xs) = set [0..<length xs]"
    by (metis keys_numbered set_map)
  moreover have "map_put (length xs) e (numbered xs) = numbered xs @ [(length xs, e)]"
    using numbered_less by (rule map_put_snoc)
  moreover have "length (numbered xs) = length xs" by (simp add: numbered_def)
  ultimately show ?thesis using es by (simp add: add_edge_def Let_def numbered_snoc)
qed

lemma add_edges_numbered:
  "edgeIndex es = numbered xs \<Longrightarrow>
   foldM (\<lambda>s. add_edge (f s)) ss es = Inr (es\<lparr>edgeIndex := numbered (xs @ map f ss)\<rparr>)"
proof (induction ss arbitrary: es xs)
  case (Cons s ss)
  have "edgeIndex (es\<lparr>edgeIndex := numbered (xs @ [f s])\<rparr>) = numbered (xs @ [f s])" by simp
  from Cons.IH [OF this] show ?case
    by (simp add: add_edge_numbered [OF Cons.prems])
qed simp

lemma collect_loop:
  "edgeIndex es = numbered xs \<Longrightarrow>
   foldM (\<lambda>b. foldM (\<lambda>s. add_edge (Some b, Some s)) (mbb_succs (MF ! b))) bs es =
   Inr (es\<lparr>edgeIndex := numbered (xs @
     concat (map (\<lambda>b. map (\<lambda>s. (Some b, Some s)) (mbb_succs (MF ! b))) bs))\<rparr>)"
proof (induction bs arbitrary: es xs)
  case (Cons b bs)
  let ?xs = "xs @ map (\<lambda>s. (Some b, Some s)) (mbb_succs (MF ! b))"
  have "edgeIndex (es\<lparr>edgeIndex := numbered ?xs\<rparr>) = numbered ?xs" by simp
  from Cons.IH [OF this] show ?case
    by (simp add: add_edges_numbered [OF Cons.prems])
qed simp

lemma collectEdges_ok:
  "MF \<noteq> [] \<Longrightarrow> edgeIndex es = [] \<Longrightarrow>
   collectEdges MF es = Inr (es\<lparr>edgeIndex := numbered (all_edges MF)\<rparr>)"
  unfolding collectEdges_def all_edges_def cfg_edges_def
  by (subst collect_loop [where xs = "[(None, Some 0), (Some (length MF - 1), None)]"])
    (simp_all add: numbered_def)

section \<open>Merging\<close>

text \<open>
  \<open>tracks es xs c\<close>: the class numbers the edges \<open>xs\<close> and puts the edge \<open>e\<close> into the set
  \<open>c e\<close>.
\<close>

definition tracks :: "EdgeSets \<Rightarrow> edge list \<Rightarrow> (edge \<Rightarrow> nat) \<Rightarrow> bool" where
  "tracks es xs c \<longleftrightarrow> edgeIndex es = numbered xs \<and>
     map fst (edgeIndex2EdgeSet es) = [0..<length xs] \<and>
     (\<forall>e \<in> set xs. getEdgeSetIndex es e = Inr (c e))"

lemma find_snd_numbered:
  "e \<in> set xs \<Longrightarrow> \<exists>k. find (\<lambda>p. snd p = e) (numbered xs) = Some (k, e) \<and> k < length xs"
proof -
  assume "e \<in> set xs"
  then have "e \<in> snd ` set (numbered xs)" by (metis edges_numbered set_map)
  then have "find (\<lambda>p. snd p = e) (numbered xs) \<noteq> None" by (auto simp: find_None_iff)
  then obtain p where p: "find (\<lambda>p. snd p = e) (numbered xs) = Some p" by blast
  then have "p \<in> set (numbered xs)" "snd p = e"
    by (auto simp: find_Some_iff)
  then have "fst p < length xs" by (auto simp: numbered_def in_set_zip)
  with p \<open>snd p = e\<close> show ?thesis by (metis prod.collapse)
qed

lemma tracks_merge:
  assumes "tracks es xs c" and "e1 \<in> set xs" and "e2 \<in> set xs"
  shows "\<exists>es'. mergeEdgeSets e1 e2 es = Inr es' \<and>
           tracks es' xs (\<lambda>e. if c e = c e2 then c e1 else c e)"
proof -
  have ei: "edgeIndex es = numbered xs"
    and ks: "map fst (edgeIndex2EdgeSet es) = [0..<length xs]"
    and g: "\<And>e. e \<in> set xs \<Longrightarrow> getEdgeSetIndex es e = Inr (c e)"
    using assms(1) by (auto simp: tracks_def)
  show ?thesis
  proof (cases "c e1 = c e2")
    case True
    then have "(\<lambda>e. if c e = c e2 then c e1 else c e) = c" by (rule_tac ext) simp
    with True assms g show ?thesis by (auto simp: mergeEdgeSets_def)
  next
    case False
    let ?upd = "\<lambda>s. if s = c e2 then c e1 else s"
    let ?es = "es\<lparr>edgeIndex2EdgeSet := map (\<lambda>(k, s). (k, ?upd s)) (edgeIndex2EdgeSet es)\<rparr>"
    have "getEdgeSetIndex ?es e = Inr (?upd (c e))" if e: "e \<in> set xs" for e
    proof -
      obtain k where k: "find (\<lambda>p. snd p = e) (numbered xs) = Some (k, e)"
        using find_snd_numbered [OF e] by blast
      from g [OF e] ei k have "map_of (edgeIndex2EdgeSet es) k = Some (c e)"
        by (simp add: getEdgeSetIndex_def split: option.splits)
      then have "map_of (map (\<lambda>(k, s). (k, ?upd s)) (edgeIndex2EdgeSet es)) k = Some (?upd (c e))"
        by (simp add: map_of_map)
      with ei k show ?thesis by (simp add: getEdgeSetIndex_def)
    qed
    then have "tracks ?es xs (\<lambda>e. if c e = c e2 then c e1 else c e)"
      using ei ks by (simp add: tracks_def comp_def case_prod_beta)
    moreover have "mergeEdgeSets e1 e2 es = Inr ?es"
      using False assms g by (simp add: mergeEdgeSets_def)
    ultimately show ?thesis by blast
  qed
qed

section \<open>Partitions and the generated equivalence\<close>

lemma equivclp_respects:
  assumes "equivclp r a b" and "\<And>x y. r x y \<Longrightarrow> f x = f y"
  shows "f a = f b"
  using assms(1)
  by (induction rule: equivclp_induct) (auto dest: assms(2))

text \<open>\<open>c\<close> describes, on the edges \<open>D\<close>, the equivalence generated by the pairs \<open>ps\<close>.\<close>

definition partition_of :: "edge set \<Rightarrow> (edge \<times> edge) list \<Rightarrow> (edge \<Rightarrow> nat) \<Rightarrow> bool" where
  "partition_of D ps c \<longleftrightarrow>
     (\<forall>a \<in> D. \<forall>b \<in> D. c a = c b \<longleftrightarrow> equivclp (\<lambda>x y. (x, y) \<in> set ps) a b)"

lemma partition_of_merge:
  assumes "partition_of D ps c" and "set ps \<subseteq> D \<times> D" and "e1 \<in> D" and "e2 \<in> D"
  shows "partition_of D (ps @ [(e1, e2)]) (\<lambda>e. if c e = c e2 then c e1 else c e)"
  unfolding partition_of_def
proof (intro ballI iffI)
  let ?r = "\<lambda>x y. (x, y) \<in> set (ps @ [(e1, e2)])"
  let ?c = "\<lambda>e. if c e = c e2 then c e1 else c e"
  fix a b assume a: "a \<in> D" and b: "b \<in> D"
  have old: "equivclp ?r x y" if "x \<in> D" "y \<in> D" "c x = c y" for x y
  proof -
    have "equivclp (\<lambda>x y. (x, y) \<in> set ps) x y"
      using assms(1) that by (auto simp: partition_of_def)
    then show ?thesis
      by (induction rule: equivclp_induct) (auto intro: equivclp_into_equivclp)
  qed
  have new: "equivclp ?r e1 e2" by (rule r_into_equivclp) simp
  {
    assume "?c a = ?c b"
    then consider "c a = c b" | "c a = c e2" "c e1 = c b" | "c b = c e2" "c a = c e1"
      by (auto split: if_splits)
    then show "equivclp ?r a b"
    proof cases
      case 1
      with a b show ?thesis by (rule_tac old)
    next
      case 2
      have "equivclp ?r a e2" "equivclp ?r e1 b"
        by (rule old [OF a assms(4) 2(1)], rule old [OF assms(3) b 2(2)])
      with new show ?thesis by (meson equivclp_sym equivclp_trans)
    next
      case 3
      have "equivclp ?r a e1" "equivclp ?r e2 b"
        by (rule old [OF a assms(3) 3(2)], rule old [OF assms(4) b 3(1) [symmetric]])
      with new show ?thesis by (meson equivclp_trans)
    qed
  next
    assume "equivclp ?r a b"
    then show "?c a = ?c b"
    proof (rule equivclp_respects)
      fix x y assume "?r x y"
      then consider "(x, y) \<in> set ps" | "x = e1" "y = e2" by auto
      then show "?c x = ?c y"
      proof cases
        case 1
        then have "c x = c y"
          using assms(1,2) by (auto simp: partition_of_def)
        then show ?thesis by simp
      qed simp
    qed
  }
qed

text \<open>A run of merges along a list of pairs.\<close>

lemma merges_partition:
  assumes "tracks es xs c" and "partition_of (set xs) ps c"
    and "set ps \<subseteq> set xs \<times> set xs" and "set qs \<subseteq> set xs \<times> set xs"
  shows "\<exists>es' c'. foldM (\<lambda>q. mergeEdgeSets (fst q) (snd q)) qs es = Inr es' \<and>
           tracks es' xs c' \<and> partition_of (set xs) (ps @ qs) c'"
  using assms
proof (induction qs arbitrary: es c ps)
  case Nil
  then show ?case by auto
next
  case (Cons q qs)
  obtain e1 e2 where q: "q = (e1, e2)" by (rule prod.exhaust)
  with Cons.prems have e: "e1 \<in> set xs" "e2 \<in> set xs" by auto
  from tracks_merge [OF Cons.prems(1) e] obtain es1 where
    es1: "mergeEdgeSets e1 e2 es = Inr es1"
    and t1: "tracks es1 xs (\<lambda>e. if c e = c e2 then c e1 else c e)" by blast
  have p1: "partition_of (set xs) (ps @ [(e1, e2)]) (\<lambda>e. if c e = c e2 then c e1 else c e)"
    using Cons.prems(2,3) e by (rule partition_of_merge)
  have "set (ps @ [(e1, e2)]) \<subseteq> set xs \<times> set xs" using Cons.prems(3) e by simp
  from Cons.IH [OF t1 p1 this] Cons.prems(4) show ?case by (simp add: q es1)
qed

section \<open>The pairs the class merges\<close>

definition pred_pairs :: "mfunction \<Rightarrow> nat \<Rightarrow> (edge \<times> edge) list" where
  "pred_pairs MF b =
     (case mbb_preds (MF ! b) of [] \<Rightarrow> []
      | p # ps \<Rightarrow> map (\<lambda>q. ((Some p, Some b), (Some q, Some b))) ps)"

definition succ_pairs :: "mfunction \<Rightarrow> nat \<Rightarrow> (edge \<times> edge) list" where
  "succ_pairs MF b =
     (case mbb_succs (MF ! b) of [] \<Rightarrow> []
      | p # ps \<Rightarrow> map (\<lambda>q. ((Some b, Some p), (Some b, Some q))) ps)"

definition join_pairs :: "mfunction \<Rightarrow> (edge \<times> edge) list" where
  "join_pairs MF = concat (map (\<lambda>b. pred_pairs MF b @ succ_pairs MF b) [0..<length MF])"

lemma foldM_map: "foldM f (map g xs) s = foldM (\<lambda>x. f (g x)) xs s"
proof (induction xs arbitrary: s)
  case (Cons x xs)
  then have "foldM f (map g xs) = foldM (\<lambda>x. f (g x)) xs" by (rule ext)
  then show ?case by simp
qed simp

lemma merge_block_pairs:
  "rbind (merge_preds MF b es) (merge_succs MF b) =
   foldM (\<lambda>q. mergeEdgeSets (fst q) (snd q)) (pred_pairs MF b @ succ_pairs MF b) es"
proof -
  have "merge_preds MF b = foldM (\<lambda>q. mergeEdgeSets (fst q) (snd q)) (pred_pairs MF b)"
    and "merge_succs MF b = foldM (\<lambda>q. mergeEdgeSets (fst q) (snd q)) (succ_pairs MF b)"
    by (auto simp: merge_preds_def pred_pairs_def merge_succs_def succ_pairs_def foldM_map
        fun_eq_iff split: list.split)
  then show ?thesis by (simp add: foldM_append)
qed

lemma foldM_concat:
  "foldM f (concat (map g bs)) s = foldM (\<lambda>b. foldM f (g b)) bs s"
proof (induction bs arbitrary: s)
  case (Cons b bs)
  then have "foldM f (concat (map g bs)) = foldM (\<lambda>b. foldM f (g b)) bs" by (rule ext)
  then show ?case by (simp add: foldM_append)
qed simp

lemma computeEdgeSets_join:
  "MF \<noteq> [] \<Longrightarrow> computeEdgeSets MF (reset_edge_sets es) =
     foldM (\<lambda>q. mergeEdgeSets (fst q) (snd q)) (join_pairs MF)
       (es\<lparr>edgeIndex := numbered (all_edges MF),
           edgeIndex2EdgeSet := map (\<lambda>(k, _). (k, k)) (numbered (all_edges MF))\<rparr>)"
  by (simp add: computeEdgeSets_def reset_edge_sets_def collectEdges_ok insert_numbered
      merge_block_pairs join_pairs_def foldM_concat)

lemma cfg_edges_iff:
  "(Some b, Some s) \<in> set (cfg_edges MF) \<longleftrightarrow> b < length MF \<and> s \<in> set (mbb_succs (MF ! b))"
  by (auto simp: cfg_edges_def)

lemma cfg_edgesE:
  assumes "e \<in> set (cfg_edges MF)"
  obtains b s where "e = (Some b, Some s)" and "b < length MF" and "s \<in> set (mbb_succs (MF ! b))"
  using assms by (auto simp: cfg_edges_def)

lemma wf_cfg_succ:
  "wf_cfg MF \<Longrightarrow> b < length MF \<Longrightarrow> s \<in> set (mbb_succs (MF ! b)) \<Longrightarrow>
   s < length MF \<and> b \<in> set (mbb_preds (MF ! s))"
  unfolding wf_cfg_def by blast

lemma edges_of_preds:
  "wf_cfg MF \<Longrightarrow> b < length MF \<Longrightarrow> p \<in> set (mbb_preds (MF ! b)) \<Longrightarrow>
   (Some p, Some b) \<in> set (cfg_edges MF)"
  unfolding cfg_edges_iff wf_cfg_def by blast

lemma join_pairs_share:
  assumes "wf_cfg MF" and "(x, y) \<in> set (join_pairs MF)"
  shows "share_block MF x y"
proof -
  from assms(2) obtain b where b: "b < length MF"
    and cases: "(x, y) \<in> set (pred_pairs MF b) \<or> (x, y) \<in> set (succ_pairs MF b)"
    by (auto simp: join_pairs_def)
  from cases show ?thesis
  proof
    assume "(x, y) \<in> set (pred_pairs MF b)"
    then obtain p ps q where "mbb_preds (MF ! b) = p # ps" "q \<in> set ps"
      "x = (Some p, Some b)" "y = (Some q, Some b)"
      by (cases "mbb_preds (MF ! b)") (auto simp: pred_pairs_def)
    with assms(1) b show ?thesis by (auto simp: share_block_def intro: edges_of_preds)
  next
    assume "(x, y) \<in> set (succ_pairs MF b)"
    then obtain p ps q where "mbb_succs (MF ! b) = p # ps" "q \<in> set ps"
      "x = (Some b, Some p)" "y = (Some b, Some q)"
      by (cases "mbb_succs (MF ! b)") (auto simp: succ_pairs_def)
    with b show ?thesis by (auto simp: share_block_def cfg_edges_iff)
  qed
qed

lemma star_pairs:
  assumes "\<And>q. q \<in> set ps \<Longrightarrow> r (f p) (f q)" and "x \<in> set (p # ps)" and "y \<in> set (p # ps)"
  shows "equivclp r (f x) (f y)"
proof -
  have "equivclp r (f p) (f z)" if "z \<in> set (p # ps)" for z
    using that assms(1) by (auto intro: r_into_equivclp)
  with assms(2,3) show ?thesis by (meson equivclp_sym equivclp_trans)
qed

lemma share_joined:
  assumes "wf_cfg MF" and "share_block MF x y"
  shows "equivclp (\<lambda>a b. (a, b) \<in> set (join_pairs MF)) x y"
proof -
  let ?r = "\<lambda>a b. (a, b) \<in> set (join_pairs MF)"
  from assms(2) obtain b s b' s' where x: "x = (Some b, Some s)" and y: "y = (Some b', Some s')"
    and b: "b < length MF" "s \<in> set (mbb_succs (MF ! b))"
    and b': "b' < length MF" "s' \<in> set (mbb_succs (MF ! b'))"
    and eq: "b = b' \<or> s = s'"
    by (auto simp: share_block_def elim!: cfg_edgesE)
  from eq show ?thesis
  proof
    assume "b = b'"
    obtain p ps where ps: "mbb_succs (MF ! b) = p # ps" using b(2) by (cases "mbb_succs (MF ! b)") auto
    have "equivclp ?r (Some b, Some s) (Some b, Some s')"
    proof (rule star_pairs [where f = "\<lambda>q. (Some b, Some q)" and p = p and ps = ps])
      show "?r (Some b, Some p) (Some b, Some q)" if "q \<in> set ps" for q
        using that b(1) ps by (force simp: join_pairs_def succ_pairs_def)
    qed (use b b' ps \<open>b = b'\<close> in simp_all)
    with x y \<open>b = b'\<close> show ?thesis by simp
  next
    assume "s = s'"
    have s: "s < length MF" "b \<in> set (mbb_preds (MF ! s))" "b' \<in> set (mbb_preds (MF ! s))"
      using wf_cfg_succ [OF assms(1) b] wf_cfg_succ [OF assms(1) b'] \<open>s = s'\<close> by simp_all
    obtain p ps where ps: "mbb_preds (MF ! s) = p # ps" using s(2) by (cases "mbb_preds (MF ! s)") auto
    have "equivclp ?r (Some b, Some s) (Some b', Some s)"
    proof (rule star_pairs [where f = "\<lambda>q. (Some q, Some s)" and p = p and ps = ps])
      show "?r (Some p, Some s) (Some q, Some s)" if "q \<in> set ps" for q
        using that s(1) ps by (force simp: join_pairs_def pred_pairs_def)
    qed (use s ps in simp_all)
    with x y \<open>s = s'\<close> show ?thesis by simp
  qed
qed

lemma equivclp_join_share:
  assumes "wf_cfg MF"
  shows "equivclp (\<lambda>a b. (a, b) \<in> set (join_pairs MF)) x y \<longleftrightarrow> equivclp (share_block MF) x y"
proof
  assume "equivclp (\<lambda>a b. (a, b) \<in> set (join_pairs MF)) x y"
  then show "equivclp (share_block MF) x y"
    by (induction rule: equivclp_induct)
      (auto dest: join_pairs_share [OF assms] intro: equivclp_into_equivclp)
next
  assume "equivclp (share_block MF) x y"
  then show "equivclp (\<lambda>a b. (a, b) \<in> set (join_pairs MF)) x y"
  proof (induction rule: equivclp_induct)
    case (step y z)
    let ?r = "\<lambda>a b. (a, b) \<in> set (join_pairs MF)"
    from step.hyps(2) have "equivclp ?r y z"
      using share_joined [OF assms, of y z] share_joined [OF assms, of z y, THEN equivclp_sym]
      by blast
    with step.IH show ?case by (rule equivclp_trans)
  qed simp
qed

lemma tracks_initial:
  assumes "edgeIndex es = numbered xs"
    and "edgeIndex2EdgeSet es = map (\<lambda>(k, _). (k, k)) (numbered xs)"
  shows "\<exists>c. tracks es xs c \<and> partition_of (set xs) [] c"
proof -
  let ?c = "\<lambda>e. fst (the (find (\<lambda>p. snd p = e) (numbered xs)))"
  have get: "getEdgeSetIndex es e = Inr (?c e) \<and> (?c e, e) \<in> set (numbered xs)"
    if e: "e \<in> set xs" for e
  proof -
    obtain k where k: "find (\<lambda>p. snd p = e) (numbered xs) = Some (k, e)" "k < length xs"
      using find_snd_numbered [OF e] by blast
    have "map_of (map (\<lambda>(k, _). (k, k)) (numbered xs)) k = Some k"
    proof (rule map_of_is_SomeI)
      have "(k, xs ! k) \<in> set (numbered xs)"
        using k(2) by (auto simp: numbered_def in_set_zip intro!: exI [of _ k])
      then show "(k, k) \<in> set (map (\<lambda>(k, _). (k, k)) (numbered xs))" by force
    qed (simp add: comp_def case_prod_beta keys_numbered)
    moreover have "(k, e) \<in> set (numbered xs)" using k(1) by (metis find_Some_iff nth_mem)
    ultimately show ?thesis using k(1) assms by (simp add: getEdgeSetIndex_def)
  qed
  have inj: "a = b" if "a \<in> set xs" "b \<in> set xs" "?c a = ?c b" for a b
    using get [OF that(1)] get [OF that(2)] that(3) by (auto simp: numbered_def in_set_zip)
  have keys: "map fst (edgeIndex2EdgeSet es) = [0..<length xs]"
    by (simp add: assms(2) comp_def case_prod_beta keys_numbered)
  have "tracks es xs ?c" using assms(1) keys get by (simp add: tracks_def)
  moreover have "partition_of (set xs) [] ?c"
  proof -
    have "equivclp (\<lambda>x y. (x, y) \<in> set []) a b \<longleftrightarrow> a = b" for a b :: edge
      using equivclp_respects [of "\<lambda>x y. (x, y) \<in> set []" a b id] by auto
    then show ?thesis using inj by (auto simp: partition_of_def)
  qed
  ultimately show ?thesis by blast
qed

section \<open>The partition is the generated one\<close>

lemma computeEdgeSets_partition:
  assumes "wf_cfg MF"
  shows "\<exists>es. computeEdgeSets MF (reset_edge_sets es0) = Inr es \<and>
    (\<forall>a \<in> set (all_edges MF). \<forall>b \<in> set (all_edges MF).
       same_set es a b \<longleftrightarrow> equivclp (share_block MF) a b)"
proof -
  let ?xs = "all_edges MF"
  let ?es = "es0\<lparr>edgeIndex := numbered ?xs,
      edgeIndex2EdgeSet := map (\<lambda>(k, _). (k, k)) (numbered ?xs)\<rparr>"
  have ne: "MF \<noteq> []" using assms by (simp add: wf_cfg_def)
  obtain c where c: "tracks ?es ?xs c" "partition_of (set ?xs) [] c"
    using tracks_initial [of ?es ?xs] by auto
  have sub: "set (join_pairs MF) \<subseteq> set ?xs \<times> set ?xs"
  proof
    fix q assume "q \<in> set (join_pairs MF)"
    then have "share_block MF (fst q) (snd q)" using join_pairs_share [OF assms] by simp
    then show "q \<in> set ?xs \<times> set ?xs"
      by (simp add: share_block_def all_edges_def mem_Times_iff)
  qed
  obtain es c' where es: "computeEdgeSets MF (reset_edge_sets es0) = Inr es"
    and t: "tracks es ?xs c'" and p: "partition_of (set ?xs) (join_pairs MF) c'"
    using merges_partition [OF c _ sub] by (auto simp: computeEdgeSets_join [OF ne])
  have "same_set es a b \<longleftrightarrow> equivclp (share_block MF) a b"
    if "a \<in> set ?xs" "b \<in> set ?xs" for a b
  proof -
    from t that have "same_set es a b \<longleftrightarrow> c' a = c' b"
      by (auto simp: same_set_def tracks_def)
    also from p that have "\<dots> \<longleftrightarrow> equivclp (\<lambda>x y. (x, y) \<in> set (join_pairs MF)) a b"
      by (simp add: partition_of_def)
    also have "\<dots> \<longleftrightarrow> equivclp (share_block MF) a b"
      by (rule equivclp_join_share [OF assms])
    finally show ?thesis .
  qed
  with es show ?thesis by blast
qed

end
