(* ===== verification/StackAlloc.thy ===== *)
theory StackAlloc
  imports StackStatus EdgeSets
begin

text \<open>
  The pass \<open>EVMStackAlloc\<close> (\<open>EVMStackAllocAnalysis.cpp\<close>), which decides for each virtual
  register whether it lives on the operand stack or in a memory slot of the frame and
  inserts the stack manipulation code. This theory holds its state and its operations,
  in the order of the source; what is proved of them is in the theories \<open>StackAllocUses\<close>,
  \<open>StackAllocTotal\<close>, \<open>StackAllocSlots\<close>, \<open>StackAllocBlock\<close> and \<open>StackAllocRegion\<close>.

  The function under compilation is an input of the pass together with the result of the
  \<open>LiveIntervals\<close> analysis. The block being rewritten is a zipper around the instruction
  \<open>MI\<close> the source is looking at: \<open>pre\<close> is the code already placed before \<open>MI\<close>, \<open>post\<close> the
  code placed between \<open>MI\<close> and the next instruction of the original block. Inserting
  before \<open>MI\<close> appends to \<open>pre\<close>; \<open>insertAfter(MI, ...)\<close> puts the new instruction directly
  behind \<open>MI\<close>, in front of what was inserted there before.

  Slot indexes are numbers that grow with the layout: a block start and the original
  instructions have even indexes, an instruction the pass inserts beside an original one
  has the odd index next to it.
\<close>

section \<open>Types\<close>

datatype StackRegion = NONSTACK | X_STACK | L_STACK | NO_ALLOCATION

record StackAssignment =
  region :: StackRegion
  slot :: nat

record RegUseType =
  isLastUse :: bool
  isMemUse :: bool
  stackDepth :: nat
  use_reg :: reg

type_synonym MOPUseType = "nat \<times> RegUseType"

text \<open>
  The inputs of the pass: the function and, for each register, the segments of its live
  interval (start and end at the resolution of slots, four to an index).
\<close>

record analyses =
  MF :: mfunction
  intervals :: "reg \<Rightarrow> (nat \<times> nat) list"

record alloc =
  regAssignments :: "reg \<rightharpoonup> StackAssignment"
  cur_X :: "reg set"
  cur_L :: "reg set"
  cur_M :: "reg set"
  stack :: EVMStackStatus
  memoryAssignment :: "reg list"
  edgeset2assignment :: "nat \<rightharpoonup> reg list \<times> reg list"
  edgeSets :: EdgeSets
  memoryFrameSize :: nat
  mri_uses :: "(reg \<times> nat) list"
  mri_defs :: "reg list"
  pre :: "minstr list"
  post :: "minstr list"

text \<open>
  The instruction under consideration: its block, its slot index, itself, and whether it
  is the last instruction of the original block.
\<close>

record site =
  at_mbb :: nat
  at_slot :: nat
  at_mi :: minstr
  at_last :: bool

definition MAXIMUM_STACK_DEPTH :: nat where
  "MAXIMUM_STACK_DEPTH = 15"

section \<open>Slot indexes and register uses\<close>

definition getMBBStartIdx :: "mfunction \<Rightarrow> nat \<Rightarrow> nat" where
  "getMBBStartIdx F b = sum_list (map (\<lambda>m. 2 * (length (mbb_instrs m) + 1)) (take b F))"

definition getMBBEndIdx :: "mfunction \<Rightarrow> nat \<Rightarrow> nat" where
  "getMBBEndIdx F b = getMBBStartIdx F (Suc b)"

definition getInstructionIndex :: "mfunction \<Rightarrow> nat \<Rightarrow> nat \<Rightarrow> nat" where
  "getInstructionIndex F b i = getMBBStartIdx F b + 2 * (i + 1)"

definition block_uses :: "mfunction \<Rightarrow> nat \<Rightarrow> (reg \<times> nat) list" where
  "block_uses F b =
     concat (map (\<lambda>(i, mi). map (\<lambda>r. (r, getInstructionIndex F b i)) (use_regs mi))
       (enumerate 0 (mbb_instrs (F ! b))))"

definition function_uses :: "mfunction \<Rightarrow> (reg \<times> nat) list" where
  "function_uses F = concat (map (block_uses F) [0..<length F])"

definition function_defs :: "mfunction \<Rightarrow> reg list" where
  "function_defs F = concat (map (\<lambda>m. concat (map def_regs (mbb_instrs m))) F)"

definition uses_of :: "alloc \<Rightarrow> reg \<Rightarrow> nat list" where
  "uses_of st r = map snd (filter (\<lambda>u. fst u = r) (mri_uses st))"

definition use_nodbg_empty :: "alloc \<Rightarrow> reg \<Rightarrow> bool" where
  "use_nodbg_empty st r = (uses_of st r = [])"

definition hasOneUse :: "alloc \<Rightarrow> reg \<Rightarrow> bool" where
  "hasOneUse st r = (length (uses_of st r) = 1)"

definition hasOneDef :: "alloc \<Rightarrow> reg \<Rightarrow> bool" where
  "hasOneDef st r = (length (filter (\<lambda>d. d = r) (mri_defs st)) = 1)"

definition getRegNumUses :: "alloc \<Rightarrow> reg \<Rightarrow> nat" where
  "getRegNumUses st r = length (uses_of st r)"

definition getDefRegister :: "minstr \<Rightarrow> reg result" where
  "getDefRegister mi =
     (case explicit_defs mi of
        [] \<Rightarrow> Inl (UndefinedBehaviour ''defs().begin()'')
      | [d] \<Rightarrow> Inr (getReg d)
      | _ \<Rightarrow> Inl (AssertFailed ''numDefs <= 1''))"

definition li_isLocal :: "(nat \<times> nat) list \<Rightarrow> nat \<Rightarrow> nat \<Rightarrow> bool result" where
  "li_isLocal segs startIdx endIdx =
     (if segs = [] then Inl (AssertFailed ''Call to beginIndex() on empty range.'')
      else Inr (4 * startIdx < fst (hd segs) \<and> snd (last segs) < 4 * endIdx + 3))"

definition defIsLocal :: "analyses \<Rightarrow> site \<Rightarrow> bool result" where
  "defIsLocal A w =
     rbind (getDefRegister (at_mi w)) (\<lambda>defReg.
       let segs = intervals A defReg in
       if 1 < length segs then Inr False
       else li_isLocal segs (getMBBStartIdx (MF A) (at_mbb w)) (getMBBEndIdx (MF A) (at_mbb w)))"

definition rangeContainsRegUses :: "alloc \<Rightarrow> reg \<Rightarrow> nat \<Rightarrow> nat \<Rightarrow> bool" where
  "rangeContainsRegUses st r beginSlot endSlot =
     (\<exists>u \<in> set (uses_of st r). beginSlot < u \<and> u < endSlot)"

definition sucessorsContainRegUses :: "analyses \<Rightarrow> alloc \<Rightarrow> reg \<Rightarrow> nat \<Rightarrow> bool" where
  "sucessorsContainRegUses A st r b =
     (\<exists>u \<in> set (uses_of st r). \<exists>s \<in> set (mbb_succs (MF A ! b)). getMBBStartIdx (MF A) s < u)"

definition regIsDeadAtBeginningOfMBB :: "analyses \<Rightarrow> alloc \<Rightarrow> reg \<Rightarrow> nat \<Rightarrow> bool" where
  "regIsDeadAtBeginningOfMBB A st r b =
     (if rangeContainsRegUses st r (getMBBStartIdx (MF A) b) (getMBBEndIdx (MF A) b) then False
      else if sucessorsContainRegUses A st r b then False
      else True)"

definition regIsLastUse :: "analyses \<Rightarrow> alloc \<Rightarrow> site \<Rightarrow> reg \<Rightarrow> bool" where
  "regIsLastUse A st w r =
     (if hasOneUse st r then True
      else \<not> rangeContainsRegUses st r (at_slot w)
                (getMBBEndIdx (MF A) (length (MF A) - 1)))"

text \<open>
  \<open>hasUsesAfterInSameBB\<close>, as written: the end of the block is that of the block of each
  use, not of the block of \<open>MI\<close>.
\<close>

definition hasUsesAfterInSameBB ::
    "analyses \<Rightarrow> alloc \<Rightarrow> reg \<Rightarrow> nat \<Rightarrow> (nat \<Rightarrow> nat) \<Rightarrow> bool result" where
  "hasUsesAfterInSameBB A st r FstUse block_of_slot =
     (if use_nodbg_empty st r
      then Inl (AssertFailed ''Empty use registers should not have a use.'')
      else if hasOneUse st r then Inr False
      else Inr (\<exists>u \<in> set (uses_of st r).
             FstUse < u \<and> u < getMBBEndIdx (MF A) (block_of_slot u)))"

definition successorsHaveUses :: "reg \<Rightarrow> minstr \<Rightarrow> bool" where
  "successorsHaveUses r mi = True"

section \<open>Assignments\<close>

text \<open>\<open>DenseMap::insert\<close> keeps an entry that is already there.\<close>

definition insert_assignment :: "reg \<Rightarrow> StackRegion \<Rightarrow> nat \<Rightarrow> alloc \<Rightarrow> alloc" where
  "insert_assignment r reg_ion sl st =
     (if regAssignments st r = None
      then st\<lparr>regAssignments := (regAssignments st)(r \<mapsto> \<lparr>region = reg_ion, slot = sl\<rparr>)\<rparr>
      else st)"

definition getStackAssignment :: "alloc \<Rightarrow> reg \<Rightarrow> StackAssignment result" where
  "getStackAssignment st r =
     (case regAssignments st r of
        None \<Rightarrow> Inl (AssertFailed ''Cannot find stack assignment for register.'')
      | Some SA \<Rightarrow> Inr SA)"

text \<open>\<open>DenseMap::lookup\<close> gives a default value for a missing key.\<close>

definition lookup_assignment :: "alloc \<Rightarrow> reg \<Rightarrow> StackAssignment" where
  "lookup_assignment st r =
     (case regAssignments st r of None \<Rightarrow> \<lparr>region = NONSTACK, slot = 0\<rparr> | Some SA \<Rightarrow> SA)"

section \<open>Memory slots\<close>

definition updateMemoryFrameSize :: "nat \<Rightarrow> alloc \<Rightarrow> alloc" where
  "updateMemoryFrameSize s st =
     st\<lparr>memoryFrameSize := (if s < memoryFrameSize st then memoryFrameSize st else s)\<rparr>"

text \<open>
  The search loop assigns the first empty slot it finds and leaves its number in \<open>slot\<close>,
  which starts as 0; the test after the loop takes 0 for "nothing found".
\<close>

fun slot_loop :: "reg \<Rightarrow> nat \<Rightarrow> reg list \<Rightarrow> reg list \<times> nat" where
  "slot_loop r i [] = ([], 0)"
| "slot_loop r i (m # ms) =
     (if m = NoRegister then (r # ms, i)
      else case slot_loop r (Suc i) ms of (ms', sl) \<Rightarrow> (m # ms', sl))"

definition allocateMemorySlot :: "reg \<Rightarrow> alloc \<Rightarrow> (nat \<times> alloc) result" where
  "allocateMemorySlot r st =
     (if r = NoRegister then Inl (AssertFailed ''Incoming registers cannot be zero.'')
      else case slot_loop r 0 (memoryAssignment st) of (mem, sl) \<Rightarrow>
        if sl = 0
        then Inr (length mem,
               updateMemoryFrameSize (length (mem @ [r])) (st\<lparr>memoryAssignment := mem @ [r]\<rparr>))
        else Inr (sl, st\<lparr>memoryAssignment := mem\<rparr>))"

definition trim_slots :: "reg list \<Rightarrow> reg list" where
  "trim_slots mem = rev (dropWhile (\<lambda>m. m = NoRegister) (rev mem))"

fun clear_slot :: "reg \<Rightarrow> reg list \<Rightarrow> reg list option" where
  "clear_slot r [] = None"
| "clear_slot r (m # ms) =
     (if r = m then Some (NoRegister # ms) else map_option (Cons m) (clear_slot r ms))"

definition deallocateMemorySlot :: "reg \<Rightarrow> alloc \<Rightarrow> alloc result" where
  "deallocateMemorySlot r st =
     (case clear_slot r (memoryAssignment st) of
        None \<Rightarrow> Inl (Unreachable ''Cannot find allocated memory slot'')
      | Some mem \<Rightarrow> Inr (st\<lparr>memoryAssignment := trim_slots mem\<rparr>))"

text \<open>
  \<open>allocateXRegion\<close> works on a copy of the edge set's assignment: the map only gains the
  default entry \<open>operator[]\<close> creates.
\<close>

definition allocateXRegion :: "nat \<Rightarrow> reg \<Rightarrow> alloc \<Rightarrow> (nat \<times> alloc) result" where
  "allocateXRegion setIndex r st =
     (let ESA = (case edgeset2assignment st setIndex of None \<Rightarrow> ([], []) | Some e \<Rightarrow> e);
          st = st\<lparr>edgeset2assignment := (edgeset2assignment st)(setIndex \<mapsto> ESA)\<rparr>;
          x_region = fst ESA
      in if r \<in> set x_region then Inl (AssertFailed ''Inserting duplicate element in X region.'')
         else Inr (Suc (length x_region), st\<lparr>stack := pushElementToXRegion (stack st)\<rparr>))"

definition getCurrentStackDepth :: "alloc \<Rightarrow> nat" where
  "getCurrentStackDepth st = card (cur_L st) + card (cur_X st)"

definition pruneStackDepth :: "alloc \<Rightarrow> alloc result" where
  "pruneStackDepth st =
     (if getCurrentStackDepth st < MAXIMUM_STACK_DEPTH then Inr st
      else Inl (Unreachable ''unimplemented.''))"

section \<open>Inserting stack manipulation code\<close>

definition emit :: "minstr \<Rightarrow> alloc \<Rightarrow> alloc" where
  "emit mi st = st\<lparr>pre := pre st @ [mi]\<rparr>"

definition emit_after :: "minstr \<Rightarrow> alloc \<Rightarrow> alloc" where
  "emit_after mi st = st\<lparr>post := mi # post st\<rparr>"

definition with_stack ::
    "(EVMStackStatus \<Rightarrow> EVMStackStatus result) \<Rightarrow> alloc \<Rightarrow> alloc result" where
  "with_stack f st = rbind (f (stack st)) (\<lambda>s. Inr (st\<lparr>stack := s\<rparr>))"

definition drop_top :: "EVMStackStatus \<Rightarrow> EVMStackStatus result" where
  "drop_top s = rbind (stack_pop s) (\<lambda>(r, s'). Inr s')"

abbreviation DUP_MI :: "nat \<Rightarrow> minstr" where
  "DUP_MI n \<equiv> MI DUP_r [MO_Immediate (int n)]"

abbreviation SWAP_MI :: "nat \<Rightarrow> minstr" where
  "SWAP_MI n \<equiv> MI SWAP_r [MO_Immediate (int n)]"

abbreviation POP_MI :: minstr where
  "POP_MI \<equiv> MI (R POP) []"

abbreviation GETLOCAL_MI :: "reg \<Rightarrow> nat \<Rightarrow> minstr" where
  "GETLOCAL_MI r n \<equiv> MI pGETLOCAL_r [defOf r, MO_Immediate (int n)]"

abbreviation PUTLOCAL_MI :: "reg \<Rightarrow> nat \<Rightarrow> minstr" where
  "PUTLOCAL_MI r n \<equiv> MI pPUTLOCAL_r [useOf r, MO_Immediate (int n)]"

definition insertLoadFromMemoryBefore :: "reg \<Rightarrow> nat \<Rightarrow> alloc \<Rightarrow> alloc" where
  "insertLoadFromMemoryBefore r memSlot st =
     (let st = emit (GETLOCAL_MI r memSlot) st
      in st\<lparr>mri_defs := r # mri_defs st, stack := stack_push r (stack st)\<rparr>)"

definition insertDupBefore :: "nat \<Rightarrow> alloc \<Rightarrow> alloc result" where
  "insertDupBefore index st =
     (if index = 0 then Inl (AssertFailed ''index > 0'')
      else with_stack (stack_dup (index - 1)) (emit (DUP_MI index) st))"

definition insertStoreToMemoryAfter :: "site \<Rightarrow> reg \<Rightarrow> nat \<Rightarrow> alloc \<Rightarrow> alloc" where
  "insertStoreToMemoryAfter w r memSlot st =
     (emit_after (PUTLOCAL_MI r memSlot) st)\<lparr>mri_uses := (r, at_slot w + 1) # mri_uses st\<rparr>"

definition insertStoreToMemoryBefore :: "site \<Rightarrow> reg \<Rightarrow> nat \<Rightarrow> alloc \<Rightarrow> alloc" where
  "insertStoreToMemoryBefore w r memSlot st =
     (emit (PUTLOCAL_MI r memSlot) st)\<lparr>mri_uses := (r, at_slot w - 1) # mri_uses st\<rparr>"

definition insertPopAfter :: "alloc \<Rightarrow> alloc result" where
  "insertPopAfter st = with_stack drop_top (emit_after POP_MI st)"

definition insertPopBefore :: "alloc \<Rightarrow> alloc result" where
  "insertPopBefore st = with_stack drop_top (emit POP_MI st)"

definition insertSwapAfter :: "nat \<Rightarrow> alloc \<Rightarrow> alloc result" where
  "insertSwapAfter index st = with_stack (stack_swap index) (emit_after (SWAP_MI index) st)"

definition insertSwapBefore :: "nat \<Rightarrow> alloc \<Rightarrow> alloc result" where
  "insertSwapBefore index st = with_stack (stack_swap index) (emit (SWAP_MI index) st)"

definition SwapRegToTop :: "reg \<Rightarrow> alloc \<Rightarrow> alloc result" where
  "SwapRegToTop r st =
     rbind (findRegDepth r (stack st)) (\<lambda>depth.
       if depth \<noteq> 0 then insertSwapBefore depth st else Inr st)"

definition DupRegToTop :: "reg \<Rightarrow> alloc \<Rightarrow> alloc result" where
  "DupRegToTop r st =
     rbind (findRegDepth r (stack st)) (\<lambda>depth. insertDupBefore (depth + 1) st)"

section \<open>Uses\<close>

text \<open>
  \<open>liveIntervalWithinSameEdgeSet\<close>: the edge sets met by the blocks of the uses; the block
  of a use is found from its slot index.
\<close>

definition block_edges :: "analyses \<Rightarrow> nat \<Rightarrow> edge list" where
  "block_edges A b =
     map (\<lambda>p. (Some p, Some b)) (mbb_preds (MF A ! b)) @
     map (\<lambda>s. (Some b, Some s)) (mbb_succs (MF A ! b))"

definition block_of_slot :: "analyses \<Rightarrow> nat \<Rightarrow> nat" where
  "block_of_slot A u = length (takeWhile (\<lambda>b. getMBBEndIdx (MF A) b \<le> u) [0..<length (MF A)])"

definition liveIntervalWithinSameEdgeSet :: "analyses \<Rightarrow> reg \<Rightarrow> alloc \<Rightarrow> bool result" where
  "liveIntervalWithinSameEdgeSet A defReg st =
     rbind (foldM (\<lambda>e ks. rbind (getEdgeSetIndex (edgeSets st) e) (\<lambda>k. Inr (List.insert k ks)))
              (concat (map (\<lambda>u. block_edges A (block_of_slot A u)) (uses_of st defReg))) [])
       (\<lambda>edgeSetIndices.
          if edgeSetIndices = [] then Inl (AssertFailed ''Edge set cannot be empty.'')
          else Inr (length edgeSetIndices = 1))"

definition reg_use :: "analyses \<Rightarrow> alloc \<Rightarrow> site \<Rightarrow> reg \<Rightarrow> RegUseType result" where
  "reg_use A st w useReg =
     (case regAssignments st useReg of
        None \<Rightarrow> Inl (AssertFailed ''regAssignments.find(useReg) != regAssignments.end()'')
      | Some SA \<Rightarrow>
          if region SA = NO_ALLOCATION
          then Inl (AssertFailed ''Cannot see unused register use.'')
          else let lastUse = regIsLastUse A st w useReg in
            if region SA = NONSTACK
            then Inr \<lparr>isLastUse = lastUse, isMemUse = True, stackDepth = slot SA,
                       use_reg = useReg\<rparr>
            else rbind (findRegDepth useReg (stack st)) (\<lambda>depth.
                   Inr \<lparr>isLastUse = lastUse, isMemUse = False, stackDepth = depth,
                        use_reg = useReg\<rparr>))"

fun use_types ::
    "analyses \<Rightarrow> alloc \<Rightarrow> site \<Rightarrow> nat \<Rightarrow> operand list \<Rightarrow> MOPUseType list result" where
  "use_types A st w index [] = Inr []"
| "use_types A st w index (MOP # MOPs) =
     (if \<not> isReg MOP then use_types A st w (Suc index) MOPs
      else rbind (reg_use A st w (getReg MOP)) (\<lambda>RUT.
           rbind (use_types A st w (Suc index) MOPs) (\<lambda>rest. Inr ((index, RUT) # rest))))"

text \<open>The number of explicit uses, and the description of those that are registers.\<close>

definition calculateUseRegs ::
    "analyses \<Rightarrow> alloc \<Rightarrow> site \<Rightarrow> (nat \<times> MOPUseType list) result" where
  "calculateUseRegs A st w =
     rbind (use_types A st w 0 (explicit_uses (at_mi w))) (\<lambda>useTypes.
       Inr (length (explicit_uses (at_mi w)), useTypes))"

definition getUseOperand :: "site \<Rightarrow> nat \<Rightarrow> operand result" where
  "getUseOperand w i =
     (let n = i + length (explicit_defs (at_mi w)) in
      if n < length (mi_operands (at_mi w)) then Inr (mi_operands (at_mi w) ! n)
      else Inl (AssertFailed ''getOperand() out of range!''))"

definition loadOperandFromMemoryIfNeeded :: "RegUseType \<Rightarrow> alloc \<Rightarrow> alloc result" where
  "loadOperandFromMemoryIfNeeded u st =
     (if \<not> isMemUse u then Inr st
      else rbind (getStackAssignment st (use_reg u)) (\<lambda>SA.
           rbind (check_assert (region SA = NONSTACK) ''SA.region == NONSTACK'') (\<lambda>_.
             Inr (insertLoadFromMemoryBefore (use_reg u) (slot SA) st))))"

definition handleOperandLiveness ::
    "analyses \<Rightarrow> site \<Rightarrow> RegUseType \<Rightarrow> operand \<Rightarrow> alloc \<Rightarrow> alloc result" where
  "handleOperandLiveness A w useType MOP st =
     rbind (check_assert (isReg MOP \<and> use_reg useType = getReg MOP) ''MOP.isReg()'') (\<lambda>_.
     rbind (getStackAssignment st (use_reg useType)) (\<lambda>SA.
       if regIsLastUse A st w (getReg MOP) \<and> region SA = X_STACK
       then Inr (st\<lparr>cur_X := cur_X st - {use_reg useType},
                    stack := popElementFromXRegion (stack st)\<rparr>)
       else Inr st))"

definition handleUnaryOpcode ::
    "analyses \<Rightarrow> site \<Rightarrow> MOPUseType \<Rightarrow> alloc \<Rightarrow> alloc result" where
  "handleUnaryOpcode A w u st =
     rbind (check_assert (fst u = 0) ''op.first == 0'') (\<lambda>_.
     rbind (getUseOperand w (fst u)) (\<lambda>MOP.
     rbind (getStackAssignment st (use_reg (snd u))) (\<lambda>SA.
     rbind (handleOperandLiveness A w (snd u) MOP st) (\<lambda>st.
       if region SA = NONSTACK
       then Inr (insertLoadFromMemoryBefore (use_reg (snd u)) (slot SA) st)
       else rbind (findRegDepth (use_reg (snd u)) (stack st)) (\<lambda>depth.
         if regIsLastUse A st w (getReg MOP)
         then (if depth \<noteq> 0 then insertSwapBefore depth st else Inr st)
         else insertDupBefore (depth + 1) st)))))"

text \<open>
  Case 4 of \<open>handleBinaryOpcode\<close>: both registers are on the stack. The four groups of the
  source (which of the two uses are last uses) are the four branches.
\<close>

definition both_last_uses :: "reg \<Rightarrow> reg \<Rightarrow> nat \<Rightarrow> nat \<Rightarrow> alloc \<Rightarrow> alloc result" where
  "both_last_uses reg1 reg2 depth1 depth2 st =
     (if depth1 = 0 \<and> depth2 = 1 then Inr st
      else if depth1 = 0 \<and> depth2 \<noteq> 1
      then rbind (check_assert (2 \<le> depth2) ''depth2 >= 2'') (\<lambda>_.
           rbind (insertSwapBefore 1 st) (\<lambda>st.
           rbind (SwapRegToTop reg2 st) (\<lambda>st.
             SwapRegToTop reg1 st)))
      else if depth1 \<noteq> 0 \<and> depth2 = 1 then SwapRegToTop reg1 st
      else if depth1 = 1 \<and> depth2 = 0 then insertSwapBefore 1 st
      else rbind (SwapRegToTop reg2 st) (\<lambda>st.
           rbind (insertSwapBefore 1 st) (\<lambda>st.
             SwapRegToTop reg1 st)))"

definition first_last_use :: "reg \<Rightarrow> reg \<Rightarrow> nat \<Rightarrow> nat \<Rightarrow> alloc \<Rightarrow> alloc result" where
  "first_last_use reg1 reg2 depth1 depth2 st =
     (if depth1 = 0 \<and> depth2 = 1
      then rbind (DupRegToTop reg2 st) (SwapRegToTop reg1)
      else if depth1 = 0 \<and> depth2 \<noteq> 1
      then rbind (DupRegToTop reg2 st) (SwapRegToTop reg1)
      else if depth1 \<noteq> 0 \<and> depth2 = 1 then SwapRegToTop reg1 st
      else rbind (DupRegToTop reg2 st) (\<lambda>st.
           rbind (insertSwapBefore 1 st) (SwapRegToTop reg1)))"

definition handleBinaryOnStack ::
    "bool \<Rightarrow> bool \<Rightarrow> reg \<Rightarrow> reg \<Rightarrow> alloc \<Rightarrow> alloc result" where
  "handleBinaryOnStack lastUse1 lastUse2 reg1 reg2 st =
     rbind (findRegDepth reg1 (stack st)) (\<lambda>depth1.
     rbind (findRegDepth reg2 (stack st)) (\<lambda>depth2.
       if lastUse1 \<and> lastUse2 then both_last_uses reg1 reg2 depth1 depth2 st
       else if lastUse1 then first_last_use reg1 reg2 depth1 depth2 st
       else if lastUse2 then rbind (SwapRegToTop reg2 st) (DupRegToTop reg1)
       else rbind (DupRegToTop reg2 st) (DupRegToTop reg1)))"

text \<open>The four cases of \<open>handleBinaryOpcode\<close>: which of the two registers is in memory.\<close>

definition binary_operands ::
    "bool \<Rightarrow> bool \<Rightarrow> reg \<Rightarrow> StackAssignment \<Rightarrow> reg \<Rightarrow> StackAssignment \<Rightarrow> alloc \<Rightarrow> alloc result" where
  "binary_operands last1 last2 reg1 SA1 reg2 SA2 st =
     (if region SA1 = NONSTACK \<and> region SA2 = NONSTACK
      then Inr (insertLoadFromMemoryBefore reg1 (slot SA1)
                 (insertLoadFromMemoryBefore reg2 (slot SA2) st))
      else if region SA1 = NONSTACK
      then rbind (check_assert (region SA2 \<noteq> NO_ALLOCATION) ''SA2.region'') (\<lambda>_.
           rbind (if last2 then SwapRegToTop reg2 st else DupRegToTop reg2 st) (\<lambda>st.
             Inr (insertLoadFromMemoryBefore reg1 (slot SA1) st)))
      else if region SA2 = NONSTACK
      then rbind (check_assert (region SA1 \<noteq> NO_ALLOCATION) ''SA1.region'') (\<lambda>_.
             if last1
             then rbind (SwapRegToTop reg1 st) (\<lambda>st.
                    SwapRegToTop reg1 (insertLoadFromMemoryBefore reg2 (slot SA2) st))
             else DupRegToTop reg1 (insertLoadFromMemoryBefore reg2 (slot SA2) st))
      else rbind (check_assert (region SA1 \<noteq> NO_ALLOCATION \<and> region SA2 \<noteq> NO_ALLOCATION)
                    ''SA1.region, SA2.region'') (\<lambda>_.
             handleBinaryOnStack last1 last2 reg1 reg2 st))"

definition handleBinaryOpcode ::
    "analyses \<Rightarrow> site \<Rightarrow> MOPUseType \<Rightarrow> MOPUseType \<Rightarrow> alloc \<Rightarrow> alloc result" where
  "handleBinaryOpcode A w op1 op2 st =
     rbind (check_assert (fst op1 = 0 \<and> fst op2 = 1) ''op1.first == 0 && op2.first == 1'') (\<lambda>_.
     rbind (getUseOperand w (fst op1)) (\<lambda>MOP1.
     rbind (getUseOperand w (fst op2)) (\<lambda>MOP2.
     rbind (handleOperandLiveness A w (snd op1) MOP1 st) (\<lambda>st.
     rbind (handleOperandLiveness A w (snd op2) MOP2 st) (\<lambda>st.
     rbind (getStackAssignment st (use_reg (snd op1))) (\<lambda>SA1.
     rbind (getStackAssignment st (use_reg (snd op2))) (\<lambda>SA2.
       binary_operands (regIsLastUse A st w (getReg MOP1)) (regIsLastUse A st w (getReg MOP2))
         (use_reg (snd op1)) SA1 (use_reg (snd op2)) SA2 st)))))))"

definition arbitrary_operand :: "MOPUseType \<Rightarrow> alloc \<Rightarrow> alloc result" where
  "arbitrary_operand u st =
     (let r = use_reg (snd u) in
      rbind (getStackAssignment st r) (\<lambda>SA.
        if isMemUse (snd u)
        then rbind (check_assert (region SA = NONSTACK) ''SA.region == NONSTACK'') (\<lambda>_.
               Inr (insertLoadFromMemoryBefore r (slot SA) st))
        else rbind (check_assert (region SA \<noteq> NONSTACK) ''SA.region != NONSTACK'') (\<lambda>_.
             rbind (findRegDepth r (stack st)) (\<lambda>depth.
               insertDupBefore (depth + 1) st))))"

definition handleArbitraryOpcode :: "MOPUseType list \<Rightarrow> alloc \<Rightarrow> alloc result" where
  "handleArbitraryOpcode useTypes = foldM arbitrary_operand (rev useTypes)"

definition pop_use :: "MOPUseType \<Rightarrow> alloc \<Rightarrow> alloc result" where
  "pop_use u st =
     rbind (stack_pop (stack st)) (\<lambda>(r, s).
     rbind (check_assert (r = use_reg (snd u)) ''reg == useTypes[i].second.reg'') (\<lambda>_.
       Inr (st\<lparr>stack := s\<rparr>)))"

definition handleUses :: "analyses \<Rightarrow> site \<Rightarrow> alloc \<Rightarrow> alloc result" where
  "handleUses A w st =
     rbind (calculateUseRegs A st w) (\<lambda>(n, useTypes).
     rbind (case useTypes of
              [] \<Rightarrow> Inr st
            | [u] \<Rightarrow> handleUnaryOpcode A w u st
            | [u, v] \<Rightarrow> handleBinaryOpcode A w u v st
            | _ \<Rightarrow> handleArbitraryOpcode useTypes st) (\<lambda>st.
       foldM pop_use useTypes st))"

text \<open>\<open>handleSingleUse\<close>, an earlier version of the handling of one operand.\<close>

definition handleSingleUse :: "analyses \<Rightarrow> site \<Rightarrow> operand \<Rightarrow> alloc \<Rightarrow> (bool \<times> alloc) result" where
  "handleSingleUse A w MOP st =
     (if \<not> isReg MOP then Inr (False, st)
      else let useReg = getReg MOP in
      case regAssignments st useReg of
        None \<Rightarrow> Inl (AssertFailed ''regAssignments.find(useReg) != regAssignments.end()'')
      | Some SA \<Rightarrow>
          if region SA = NO_ALLOCATION then Inr (False, st)
          else rbind
            (if regIsLastUse A st w useReg
             then (case region SA of
                NONSTACK \<Rightarrow> Inr (insertLoadFromMemoryBefore useReg (slot SA) st)
              | X_STACK \<Rightarrow> rbind (findRegDepth useReg (stack st)) (\<lambda>depth.
                           rbind (insertSwapBefore depth st) (\<lambda>st.
                             Inr (st\<lparr>cur_X := cur_X st - {useReg}\<rparr>)))
              | L_STACK \<Rightarrow> rbind (findRegDepth useReg (stack st)) (\<lambda>depth.
                             insertSwapBefore depth st)
              | NO_ALLOCATION \<Rightarrow> Inl (Unreachable ''Impossible case''))
             else (case region SA of
                NONSTACK \<Rightarrow>
                  (let st = insertLoadFromMemoryBefore useReg (slot SA) st
                   in Inr (st\<lparr>stack := stack_push useReg (stack st)\<rparr>))
              | X_STACK \<Rightarrow> rbind (findRegDepth useReg (stack st)) (\<lambda>depth. insertDupBefore depth st)
              | L_STACK \<Rightarrow> rbind (findRegDepth useReg (stack st)) (\<lambda>depth. insertDupBefore depth st)
              | NO_ALLOCATION \<Rightarrow> Inl (Unreachable ''Impossible case'')))
            (\<lambda>st. Inr (True, st)))"

section \<open>Definitions\<close>

definition store_def :: "reg \<Rightarrow> alloc \<Rightarrow> (nat \<times> alloc) result" where
  "store_def defReg st =
     rbind (allocateMemorySlot defReg (st\<lparr>cur_M := insert defReg (cur_M st)\<rparr>)) (\<lambda>(sl, st).
       Inr (sl, insert_assignment defReg NONSTACK sl st))"

text \<open>
  The branch for the transfer stack is disabled in the source (\<open>false && ...\<close>) and has no
  counterpart here.
\<close>

definition handleDef :: "analyses \<Rightarrow> site \<Rightarrow> alloc \<Rightarrow> alloc result" where
  "handleDef A w st =
     (if explicit_defs (at_mi w) = [] then Inr st
      else rbind (getDefRegister (at_mi w)) (\<lambda>defReg.
        let to_memory = rbind (store_def defReg st) (\<lambda>(sl, st).
              Inr (insertStoreToMemoryAfter w defReg sl st))
        in if hasOneDef st defReg
           then if use_nodbg_empty st defReg
             then insertPopAfter (insert_assignment defReg NO_ALLOCATION 0 st)
             else rbind (defIsLocal A w) (\<lambda>local.
               if local
               then let st = insert_assignment defReg L_STACK 0 st
                    in Inr (st\<lparr>cur_L := insert defReg (cur_L st),
                               stack := stack_push defReg (stack st)\<rparr>)
               else to_memory)
           else to_memory))"

section \<open>Dead registers\<close>

text \<open>
  \<open>cleanUpDeadRegisters\<close> inserts in front of the instruction that follows \<open>MI\<close> when the
  pass arrives there (a store \<open>handleDef\<close> has inserted, or the next original instruction),
  so the code it inserts, \<open>cs\<close>, keeps its order. When \<open>MI\<close> ends the block it uses the
  \<open>After\<close> insertions instead.
\<close>

definition cleanup_use ::
    "bool \<Rightarrow> MOPUseType \<Rightarrow> minstr list \<times> alloc \<Rightarrow> (minstr list \<times> alloc) result" where
  "cleanup_use at_end mut ca =
     (case ca of (cs, st) \<Rightarrow>
      if \<not> isLastUse (snd mut) then Inr (cs, st)
      else rbind (findRegDepth (use_reg (snd mut)) (stack st)) (\<lambda>depth.
        if at_end
        then rbind (if depth \<noteq> 0 then insertSwapAfter depth st else Inr st) (\<lambda>st.
             rbind (insertPopAfter st) (\<lambda>st. Inr (cs, st)))
        else rbind (if depth \<noteq> 0 then with_stack (stack_swap depth) st else Inr st) (\<lambda>st.
             rbind (with_stack drop_top st) (\<lambda>st.
               Inr (cs @ (if depth \<noteq> 0 then [SWAP_MI depth] else []) @ [POP_MI], st)))))"

definition cleanUpDeadRegisters :: "analyses \<Rightarrow> site \<Rightarrow> alloc \<Rightarrow> alloc result" where
  "cleanUpDeadRegisters A w st =
     (if length (explicit_uses (at_mi w)) \<le> 2 then Inr st
      else rbind (calculateUseRegs A st w) (\<lambda>(uses, useTypes).
           rbind (check_assert (2 < uses \<and> 2 < length useTypes)
                    ''uses > 2 && useTypes.size() > 2'') (\<lambda>_.
           rbind (foldM (cleanup_use (at_last w \<and> post st = [])) useTypes ([], st)) (\<lambda>(cs, st).
             Inr (st\<lparr>post := cs @ post st\<rparr>)))))"

section \<open>Blocks\<close>

text \<open>
  Stack arguments of the entry block. \<open>acc\<close> is the rewritten code of the arguments handled
  so far (the source goes from the last one to the first), \<open>pre\<close> what is inserted in front
  of the first other instruction.
\<close>

definition stack_arg ::
    "analyses \<Rightarrow> site \<Rightarrow> minstr \<Rightarrow> minstr list \<times> alloc \<Rightarrow> (minstr list \<times> alloc) result" where
  "stack_arg A w stackargMI ca =
     (case ca of (acc, st) \<Rightarrow>
      rbind (getDefRegister stackargMI) (\<lambda>r.
        if use_nodbg_empty st r
        then rbind (with_stack drop_top (insert_assignment r NO_ALLOCATION 0 st)) (\<lambda>st.
               Inr (POP_MI # stackargMI # acc, st))
        else rbind (defIsLocal A (w\<lparr>at_mi := stackargMI\<rparr>)) (\<lambda>local.
          if local
          then let st = insert_assignment r L_STACK 0 st
               in Inr (stackargMI # acc, st\<lparr>cur_L := insert r (cur_L st)\<rparr>)
          else rbind (store_def r st) (\<lambda>(sl, st).
               rbind (SwapRegToTop r st) (\<lambda>st.
               let st = insertStoreToMemoryBefore w r sl st in
               rbind (stack_pop (stack st)) (\<lambda>(pop_stackreg, s).
               rbind (check_assert (r = pop_stackreg) ''reg == pop_stackreg'') (\<lambda>_.
                 Inr (stackargMI # acc, st\<lparr>stack := s\<rparr>))))))))"

definition is_stackarg :: "minstr \<Rightarrow> bool" where
  "is_stackarg mi = (mi_opcode mi = pSTACKARG_r)"

text \<open>
  The result is the code in front of the first instruction to be analysed and the number
  of original instructions that have been consumed.
\<close>

definition tryToAnalyzeStackArgs ::
    "analyses \<Rightarrow> nat \<Rightarrow> alloc \<Rightarrow> (nat \<times> minstr list \<times> alloc) result" where
  "tryToAnalyzeStackArgs A b st =
     (if b \<noteq> 0 then Inr (0, [], st)
      else let instrs = mbb_instrs (MF A ! b);
               stackargs = takeWhile is_stackarg instrs;
               n = length stackargs
      in rbind (check_assert (getStackDepth (stack st) = 0) ''stack.getStackDepth() == 0'') (\<lambda>_.
         if n = length instrs then Inl (UndefinedBehaviour ''*SI'')
         else let st = fold (\<lambda>mi st. st\<lparr>stack := stack_push (getReg (hd (mi_operands mi))) (stack st)\<rparr>)
                         stackargs (st\<lparr>pre := []\<rparr>);
                  w = \<lparr>at_mbb = b, at_slot = getInstructionIndex (MF A) b n, at_mi = instrs ! n,
                       at_last = (Suc n = length instrs)\<rparr>
         in rbind (foldM (stack_arg A w) (rev stackargs) ([], st)) (\<lambda>(acc, st).
              Inr (n, acc @ pre st, st))))"

definition pop_dead_x :: "analyses \<Rightarrow> nat \<Rightarrow> reg \<Rightarrow> alloc \<Rightarrow> alloc result" where
  "pop_dead_x A b xreg st =
     (if regIsDeadAtBeginningOfMBB A st xreg b
      then rbind (SwapRegToTop xreg st) (\<lambda>st.
           rbind (insertPopBefore st) (\<lambda>st.
             Inr (st\<lparr>stack := popElementFromXRegion (stack st)\<rparr>)))
      else Inr st)"

lemma length_clear_slot: "clear_slot r ms = Some ms' \<Longrightarrow> length ms' = length ms"
  by (induction ms arbitrary: ms') (auto split: if_splits)

lemma length_trim_slots: "length (trim_slots ms) \<le> length ms"
  by (simp add: trim_slots_def) (metis length_dropWhile_le length_rev)

lemma deallocateMemorySlot_shrinks:
  "deallocateMemorySlot r st = Inr st' \<Longrightarrow>
   length (memoryAssignment st') \<le> length (memoryAssignment st)"
  by (auto simp: deallocateMemorySlot_def split: option.splits dest!: length_clear_slot)
     (metis length_trim_slots)

text \<open>The loop that frees the memory slots of dead registers; the vector may shrink.\<close>

function free_dead_slots :: "analyses \<Rightarrow> nat \<Rightarrow> nat \<Rightarrow> alloc \<Rightarrow> alloc result" where
  "free_dead_slots A b i st =
     (if i < length (memoryAssignment st)
      then let r = memoryAssignment st ! i in
        if r = NoRegister then free_dead_slots A b (Suc i) st
        else if regIsDeadAtBeginningOfMBB A st r b
        then rbind (deallocateMemorySlot r st) (\<lambda>st'.
               free_dead_slots A b (Suc i) (st'\<lparr>cur_X := cur_X st' - {r}\<rparr>))
        else free_dead_slots A b (Suc i) st
      else Inr st)"
  by pat_completeness auto
termination
  by (relation "measure (\<lambda>(A, b, i, st). length (memoryAssignment st) - i)")
     (auto dest!: deallocateMemorySlot_shrinks)

declare free_dead_slots.simps [simp del]

definition push_x :: "reg \<Rightarrow> alloc \<Rightarrow> alloc" where
  "push_x r st =
     (let s = stack_push r (stack st)
      in st\<lparr>stack := (if region (lookup_assignment st r) = X_STACK then pushElementToXRegion s
                      else s)\<rparr>)"

definition beginOfBlockUpdates :: "analyses \<Rightarrow> nat \<Rightarrow> alloc \<Rightarrow> alloc result" where
  "beginOfBlockUpdates A b st =
     (case mbb_preds (MF A ! b) of
        [] \<Rightarrow> Inr st
      | Pred # _ \<Rightarrow>
          rbind (getEdgeSetIndex (edgeSets st) (Some Pred, Some b)) (\<lambda>setIndex.
          let ESA = (case edgeset2assignment st setIndex of None \<Rightarrow> ([], []) | Some e \<Rightarrow> e);
              xStack = fst ESA;
              st = st\<lparr>edgeset2assignment := (edgeset2assignment st)(setIndex \<mapsto> ESA)\<rparr>;
              st = (fold push_x xStack st)\<lparr>memoryAssignment := snd ESA\<rparr>
          in rbind (foldM (pop_dead_x A b) xStack st) (free_dead_slots A b 0)))"

definition mergeEdgesetAssigments :: "nat \<Rightarrow> reg list \<times> reg list \<Rightarrow> alloc \<Rightarrow> alloc" where
  "mergeEdgesetAssigments edgeSetIndex EA st =
     st\<lparr>edgeset2assignment := (edgeset2assignment st)(edgeSetIndex \<mapsto> EA)\<rparr>"

definition endOfBlockUpdates :: "analyses \<Rightarrow> nat \<Rightarrow> alloc \<Rightarrow> alloc result" where
  "endOfBlockUpdates A b st =
     rbind (check_assert (word_of_nat (getStackDepth (stack st)) = getSizeOfXRegion (stack st))
              ''L Region elements are still on the stack at end of MBB.'') (\<lambda>_.
       case mbb_succs (MF A ! b) of
         [] \<Rightarrow> Inr st
       | NextMBB # _ \<Rightarrow>
           rbind (getEdgeSetIndex (edgeSets st) (Some b, Some NextMBB)) (\<lambda>k.
             Inr (mergeEdgesetAssigments k
                   (stackElements (stack st), memoryAssignment st) st)))"

text \<open>
  One instruction: first consume, then create, then clean up. The zipper starts empty, and
  the code of the instruction is appended to the code of the block.
\<close>

definition analyzeInstr ::
    "analyses \<Rightarrow> site \<Rightarrow> minstr list \<times> alloc \<Rightarrow> (minstr list \<times> alloc) result" where
  "analyzeInstr A w ca =
     (case ca of (code, st) \<Rightarrow>
      rbind (check_assert (mi_opcode (at_mi w) \<noteq> pSTACKARG_r)
               ''MI.getOpcode() != EVM::pSTACKARG_r'') (\<lambda>_.
      rbind (handleUses A w (st\<lparr>pre := [], post := []\<rparr>)) (\<lambda>st.
      rbind (handleDef A w st) (\<lambda>st.
      rbind (cleanUpDeadRegisters A w st) (\<lambda>st.
        Inr (code @ pre st @ [at_mi w] @ post st, st))))))"

definition sites :: "mfunction \<Rightarrow> nat \<Rightarrow> site list" where
  "sites F b =
     map (\<lambda>(i, mi). \<lparr>at_mbb = b, at_slot = getInstructionIndex F b i, at_mi = mi,
                      at_last = (Suc i = length (mbb_instrs (F ! b)))\<rparr>)
       (enumerate 0 (mbb_instrs (F ! b)))"

definition analyzeBasicBlock ::
    "analyses \<Rightarrow> nat \<Rightarrow> minstr list list \<times> alloc \<Rightarrow> (minstr list list \<times> alloc) result" where
  "analyzeBasicBlock A b ca =
     (case ca of (codes, st) \<Rightarrow>
      if mbb_instrs (MF A ! b) = [] then Inr (codes @ [[]], st)
      else rbind (tryToAnalyzeStackArgs A b (st\<lparr>stack := stack_clear (stack st), pre := []\<rparr>))
        (\<lambda>(n, args, st).
           rbind (beginOfBlockUpdates A b (st\<lparr>pre := []\<rparr>)) (\<lambda>st.
           rbind (foldM (analyzeInstr A) (drop n (sites (MF A) b)) (pre st @ args, st))
             (\<lambda>(code, st). rbind (endOfBlockUpdates A b st) (\<lambda>st. Inr (codes @ [code], st))))))"

definition initialize_alloc :: "alloc \<Rightarrow> alloc" where
  "initialize_alloc st =
     st\<lparr>edgeSets := reset_edge_sets (edgeSets st), regAssignments := Map.empty,
        cur_X := {}, cur_L := {}, cur_M := {}, edgeset2assignment := Map.empty\<rparr>"

text \<open>\<open>memoryAssignment\<close> is not reset: it still holds what the previous function left.\<close>

definition allocateRegistersToStack ::
    "analyses \<Rightarrow> alloc \<Rightarrow> (minstr list list \<times> alloc) result" where
  "allocateRegistersToStack A st =
     (let st = initialize_alloc st in
      rbind (computeEdgeSets (MF A) (edgeSets st)) (\<lambda>es.
        foldM (analyzeBasicBlock A) [0..<length (MF A)] ([], st\<lparr>edgeSets := es\<rparr>)))"

definition runOnMachineFunction_alloc :: "analyses \<Rightarrow> alloc \<Rightarrow> (mfunction \<times> alloc) result" where
  "runOnMachineFunction_alloc A st =
     (let st = st\<lparr>mri_uses := function_uses (MF A), mri_defs := function_defs (MF A)\<rparr> in
      rbind (allocateRegistersToStack A st) (\<lambda>(codes, st).
        Inr (map2 (\<lambda>m c. m\<lparr>mbb_instrs := c\<rparr>) (MF A) codes, st)))"

end
