(* ===== verification/StackAllocUses.thy ===== *)
theory StackAllocUses
  imports StackAlloc
begin

text \<open>
  What the code inserted in front of an instruction does. A small reference machine
  executes the manipulation instructions on a stack of values and on the locals of the
  frame. The simulation lemmas say that the symbolic stack the allocator keeps describes
  the stack of the machine at every point: running the inserted code takes the values of
  the old symbolic stack to the values of the new one.
\<close>

section \<open>Reference machine for the inserted code\<close>

type_synonym 'v frame = "'v list \<times> (nat \<Rightarrow> 'v)"

definition exec_manip :: "minstr \<Rightarrow> 'v frame \<Rightarrow> 'v frame option" where
  "exec_manip mi f =
     (case f of (s, loc) \<Rightarrow>
      case (mi_opcode mi, mi_operands mi) of
        (DUP_r, [MO_Immediate n]) \<Rightarrow>
          if 1 \<le> n \<and> nat n \<le> length s then Some (s ! (nat n - 1) # s, loc) else None
      | (SWAP_r, [MO_Immediate n]) \<Rightarrow>
          if 0 \<le> n \<and> nat n < length s then Some (swap0 (nat n) s, loc) else None
      | (R POP, []) \<Rightarrow> (case s of [] \<Rightarrow> None | v # vs \<Rightarrow> Some (vs, loc))
      | (pGETLOCAL_r, [_, MO_Immediate n]) \<Rightarrow> Some (loc (nat n) # s, loc)
      | (pPUTLOCAL_r, [_, MO_Immediate n]) \<Rightarrow>
          (case s of [] \<Rightarrow> None | v # vs \<Rightarrow> Some (vs, loc(nat n := v)))
      | _ \<Rightarrow> None)"

fun run_manip :: "minstr list \<Rightarrow> 'v frame \<Rightarrow> 'v frame option" where
  "run_manip [] f = Some f"
| "run_manip (mi # mis) f =
     (case exec_manip mi f of None \<Rightarrow> None | Some g \<Rightarrow> run_manip mis g)"

lemma run_manip_append:
  "run_manip (xs @ ys) f = (case run_manip xs f of None \<Rightarrow> None | Some g \<Rightarrow> run_manip ys g)"
  by (induction xs arbitrary: f) (auto split: option.splits)

lemma exec_manip_simps [simp]:
  "exec_manip (DUP_MI n) (s, loc) =
     (if 1 \<le> n \<and> n \<le> length s then Some (s ! (n - 1) # s, loc) else None)"
  "exec_manip (SWAP_MI n) (s, loc) = (if n < length s then Some (swap0 n s, loc) else None)"
  "exec_manip POP_MI (s, loc) = (case s of [] \<Rightarrow> None | v # vs \<Rightarrow> Some (vs, loc))"
  "exec_manip (GETLOCAL_MI r n) (s, loc) = Some (loc n # s, loc)"
  "exec_manip (PUTLOCAL_MI r n) (s, loc) =
     (case s of [] \<Rightarrow> None | v # vs \<Rightarrow> Some (vs, loc(n := v)))"
  by (auto simp: exec_manip_def split: list.splits)

text \<open>The five kinds of instruction the allocator inserts.\<close>

datatype manip = Dup nat | Swap nat | Pop | Get reg nat | Put reg nat

fun manip_mi :: "manip \<Rightarrow> minstr" where
  "manip_mi (Dup n) = DUP_MI n"
| "manip_mi (Swap n) = SWAP_MI n"
| "manip_mi Pop = POP_MI"
| "manip_mi (Get r k) = GETLOCAL_MI r k"
| "manip_mi (Put r k) = PUTLOCAL_MI r k"

section \<open>The simulation relation\<close>

text \<open>The fields an insertion in front of \<open>MI\<close> does not touch.\<close>

definition same_base :: "alloc \<Rightarrow> alloc \<Rightarrow> bool" where
  "same_base st st' \<longleftrightarrow>
     regAssignments st' = regAssignments st \<and> memoryAssignment st' = memoryAssignment st \<and>
     edgeset2assignment st' = edgeset2assignment st \<and> edgeSets st' = edgeSets st \<and>
     memoryFrameSize st' = memoryFrameSize st \<and> mri_uses st' = mri_uses st \<and>
     post st' = post st"

text \<open>
  \<open>sim \<rho> loc st st'\<close>: the code inserted between \<open>st\<close> and \<open>st'\<close> takes the machine from the
  values of the symbolic stack of \<open>st\<close> to those of \<open>st'\<close> and leaves the locals alone;
  only registers that have an assignment come onto the symbolic stack.
\<close>

definition sim :: "(reg \<Rightarrow> 'v) \<Rightarrow> (nat \<Rightarrow> 'v) \<Rightarrow> alloc \<Rightarrow> alloc \<Rightarrow> bool" where
  "sim \<rho> loc st st' \<longleftrightarrow> same_base st st' \<and>
     (\<forall>r \<in> set (view (stack st')). r \<in> set (view (stack st)) \<or> regAssignments st r \<noteq> None) \<and>
     (\<exists>ms. pre st' = pre st @ map manip_mi ms \<and>
        run_manip (map manip_mi ms) (map \<rho> (view (stack st)), loc) =
          Some (map \<rho> (view (stack st')), loc))"

text \<open>The locals hold the values of the registers that live in memory.\<close>

definition mem_ok :: "(reg \<Rightarrow> 'v) \<Rightarrow> (nat \<Rightarrow> 'v) \<Rightarrow> alloc \<Rightarrow> reg set \<Rightarrow> bool" where
  "mem_ok \<rho> loc st rs \<longleftrightarrow>
     (\<forall>r \<in> rs. \<forall>SA. regAssignments st r = Some SA \<longrightarrow> region SA = NONSTACK \<longrightarrow>
        loc (slot SA) = \<rho> r)"

lemma same_base_refl [simp]: "same_base st st"
  by (simp add: same_base_def)

lemma sim_refl [simp]: "sim \<rho> loc st st"
  by (auto simp: sim_def intro: exI [of _ "[]"])

lemma sim_trans: "sim \<rho> loc st st' \<Longrightarrow> sim \<rho> loc st' st'' \<Longrightarrow> sim \<rho> loc st st''"
  unfolding sim_def same_base_def
  by (elim conjE exE, intro conjI exI [where x = "_ @ _"]) (auto simp: run_manip_append)

lemma sim_step:
  assumes "same_base st st'" and "pre st' = pre st @ [manip_mi mi]"
    and "exec_manip (manip_mi mi) (map \<rho> (view (stack st)), loc) = Some (map \<rho> (view (stack st')), loc)"
    and "\<forall>r \<in> set (view (stack st')). r \<in> set (view (stack st)) \<or> regAssignments st r \<noteq> None"
  shows "sim \<rho> loc st st'"
  unfolding sim_def using assms by (auto intro: exI [of _ "[mi]"])

lemma sim_assignments: "sim \<rho> loc st st' \<Longrightarrow> regAssignments st' = regAssignments st"
  by (simp add: sim_def same_base_def)

lemma sim_uses: "sim \<rho> loc st st' \<Longrightarrow> mri_uses st' = mri_uses st"
  by (simp add: sim_def same_base_def)

lemma regIsLastUse_uses: "mri_uses st' = mri_uses st \<Longrightarrow> regIsLastUse A st' w r = regIsLastUse A st w r"
  by (simp add: regIsLastUse_def hasOneUse_def uses_of_def rangeContainsRegUses_def)

section \<open>Single insertions\<close>

lemma stack_swap_Inr:
  "stack_swap d s = Inr t \<Longrightarrow>
   (d = 0 \<and> t = s \<or> d < length (view s)) \<and> view t = swap0 d (view s) \<and> sizeOfXRegion t = sizeOfXRegion s"
  using stack_swap_view [of d s]
  by (cases "d < length (view s)")
     (auto simp: stack_swap_def getStackDepth_def Let_def split: if_splits)

lemma stack_dup_Inr:
  "stack_dup d s = Inr t \<Longrightarrow>
   d < length (view s) \<and> view t = view s ! d # view s \<and> sizeOfXRegion t = sizeOfXRegion s"
  using stack_dup_view [of d s]
  by (cases "d < length (view s)") (auto simp: stack_dup_def getStackDepth_def split: if_splits)

lemma stack_pop_Inr:
  "stack_pop s = Inr (r, t) \<Longrightarrow> view s = r # view t \<and> sizeOfXRegion t = sizeOfXRegion s"
  by (cases "stackElements s" rule: rev_cases)
     (auto simp: stack_pop_def view_def)

lemma insertDupBefore_sim:
  "insertDupBefore n st = Inr st' \<Longrightarrow>
   sim \<rho> loc st st' \<and> view (stack st') = view (stack st) ! (n - 1) # view (stack st) \<and>
   n - 1 < length (view (stack st))"
proof -
  assume "insertDupBefore n st = Inr st'"
  then obtain t where n: "0 < n" and t: "stack_dup (n - 1) (stack st) = Inr t"
    and st': "st' = (emit (DUP_MI n) st)\<lparr>stack := t\<rparr>"
    by (auto simp: insertDupBefore_def with_stack_def emit_def rbind_eq_Inr split: if_splits)
  from stack_dup_Inr [OF t] n show ?thesis
    by (auto simp: st' emit_def same_base_def intro!: sim_step [where mi = "Dup n"])
qed

lemma insertSwapBefore_sim:
  assumes "insertSwapBefore n st = Inr st'" and "n \<noteq> 0"
  shows "sim \<rho> loc st st' \<and> view (stack st') = swap0 n (view (stack st)) \<and>
    n < length (view (stack st))"
proof -
  obtain t where t: "stack_swap n (stack st) = Inr t"
    and st': "st' = (emit (SWAP_MI n) st)\<lparr>stack := t\<rparr>"
    using assms by (auto simp: insertSwapBefore_def with_stack_def emit_def rbind_eq_Inr)
  from stack_swap_Inr [OF t] assms(2) show ?thesis
    by (auto simp: st' emit_def same_base_def map_swap0 intro!: sim_step [where mi = "Swap n"])
qed

lemma insertLoad_sim:
  assumes "mem_ok \<rho> loc st {r}" and "regAssignments st r = Some SA" and "region SA = NONSTACK"
  shows "sim \<rho> loc st (insertLoadFromMemoryBefore r (slot SA) st)"
  using assms
  by (auto simp: insertLoadFromMemoryBefore_def emit_def same_base_def mem_ok_def Let_def
      intro!: sim_step [where mi = "Get r (slot SA)"])

lemma view_insertLoad [simp]:
  "view (stack (insertLoadFromMemoryBefore r n st)) = r # view (stack st)"
  by (simp add: insertLoadFromMemoryBefore_def emit_def Let_def)

lemma insertLoad_fields [simp]:
  "regAssignments (insertLoadFromMemoryBefore r n st) = regAssignments st"
  "mri_uses (insertLoadFromMemoryBefore r n st) = mri_uses st"
  by (simp_all add: insertLoadFromMemoryBefore_def emit_def Let_def)

lemma findRegDepth_Inr:
  "findRegDepth r s = Inr d \<longleftrightarrow> r \<in> set (view s) \<and> d = index_of r (view s)"
  by (auto simp: findRegDepth_view)

lemma DupRegToTop_sim:
  "DupRegToTop r st = Inr st' \<Longrightarrow>
   sim \<rho> loc st st' \<and> r \<in> set (view (stack st)) \<and> view (stack st') = r # view (stack st)"
  unfolding DupRegToTop_def
  by (auto simp: rbind_eq_Inr findRegDepth_Inr dest!: insertDupBefore_sim [where \<rho> = \<rho> and loc = loc])

lemma SwapRegToTop_sim:
  "SwapRegToTop r st = Inr st' \<Longrightarrow>
   sim \<rho> loc st st' \<and> r \<in> set (view (stack st)) \<and>
   view (stack st') = swap0 (index_of r (view (stack st))) (view (stack st))"
  unfolding SwapRegToTop_def
  by (auto simp: rbind_eq_Inr findRegDepth_Inr split: if_splits
      dest!: insertSwapBefore_sim [where \<rho> = \<rho> and loc = loc])

section \<open>Operands in front of an instruction\<close>

text \<open>The registers an instruction reads, in operand order.\<close>

definition operand_regs :: "minstr \<Rightarrow> reg list" where
  "operand_regs mi = map getReg (filter isReg (explicit_uses mi))"

lemma use_types_regs:
  "use_types A st w i ops = Inr uts \<Longrightarrow>
   map (\<lambda>u. use_reg (snd u)) uts = map getReg (filter isReg ops)"
proof (induction ops arbitrary: i uts)
  case (Cons MOP ops)
  then show ?case
    by (auto simp: rbind_eq_Inr reg_use_def Let_def split: if_splits option.splits)
qed simp

lemma calculateUseRegs_regs:
  "calculateUseRegs A st w = Inr (n, uts) \<Longrightarrow>
   map (\<lambda>u. use_reg (snd u)) uts = operand_regs (at_mi w)"
  by (auto simp: calculateUseRegs_def rbind_eq_Inr operand_regs_def dest: use_types_regs)

lemma handleOperandLiveness_sim:
  "handleOperandLiveness A w u MOP st = Inr st' \<Longrightarrow>
   sim \<rho> loc st st' \<and> view (stack st') = view (stack st) \<and> use_reg u = getReg MOP"
  by (auto simp: handleOperandLiveness_def rbind_eq_Inr popElementFromXRegion_def view_def sim_def
      same_base_def split: if_splits intro: exI [of _ "[]"])

lemma getStackAssignment_Inr:
  "getStackAssignment st r = Inr SA \<longleftrightarrow> regAssignments st r = Some SA"
  by (auto simp: getStackAssignment_def split: option.splits)

lemma mem_ok_subset: "mem_ok \<rho> loc st rs \<Longrightarrow> rs' \<subseteq> rs \<Longrightarrow> mem_ok \<rho> loc st rs'"
  by (auto simp: mem_ok_def)

lemma mem_ok_sim: "mem_ok \<rho> loc st rs \<Longrightarrow> sim \<rho> loc st st' \<Longrightarrow> mem_ok \<rho> loc st' rs"
  by (simp add: mem_ok_def sim_assignments)

lemma handleUnaryOpcode_sim:
  assumes "handleUnaryOpcode A w u st = Inr st'" and "mem_ok \<rho> loc st {use_reg (snd u)}"
  shows "sim \<rho> loc st st'"
proof -
  obtain MOP SA st1 where 1: "handleOperandLiveness A w (snd u) MOP st = Inr st1"
    and SA: "regAssignments st (use_reg (snd u)) = Some SA"
    and 2: "(if region SA = NONSTACK
       then Inr (insertLoadFromMemoryBefore (use_reg (snd u)) (slot SA) st1)
       else rbind (findRegDepth (use_reg (snd u)) (stack st1)) (\<lambda>depth.
         if regIsLastUse A st1 w (getReg MOP)
         then (if depth \<noteq> 0 then insertSwapBefore depth st1 else Inr st1)
         else insertDupBefore (depth + 1) st1)) = Inr st'"
    using assms(1) by (auto simp: handleUnaryOpcode_def rbind_eq_Inr getStackAssignment_Inr)
  from handleOperandLiveness_sim [OF 1] have s1: "sim \<rho> loc st st1" by blast
  have "sim \<rho> loc st1 st'"
  proof (cases "region SA = NONSTACK")
    case True
    with 2 SA s1 assms(2) show ?thesis
      by (auto intro!: insertLoad_sim dest: mem_ok_sim simp: sim_assignments [OF s1])
  next
    case False
    with 2 show ?thesis
      by (auto simp: rbind_eq_Inr split: if_splits
          dest: insertSwapBefore_sim [where \<rho> = \<rho> and loc = loc]
                insertDupBefore_sim [where \<rho> = \<rho> and loc = loc])
  qed
  with s1 show ?thesis by (rule sim_trans)
qed

text \<open>Sequencing: a property of runs that is transitive and holds of each step.\<close>

lemma rbind_sim:
  assumes "rbind r k = Inr st'" and "\<And>st1. r = Inr st1 \<Longrightarrow> sim \<rho> loc st st1"
    and "\<And>st1. r = Inr st1 \<Longrightarrow> k st1 = Inr st' \<Longrightarrow> sim \<rho> loc st1 st'"
  shows "sim \<rho> loc st st'"
  using assms by (auto simp: rbind_eq_Inr intro: sim_trans)

lemma insertSwapBefore_1_sim: "insertSwapBefore (Suc 0) st = Inr st' \<Longrightarrow> sim \<rho> loc st st'"
  using insertSwapBefore_sim [of "Suc 0"] by blast

lemmas manip_sims =
  DupRegToTop_sim [THEN conjunct1] SwapRegToTop_sim [THEN conjunct1] insertSwapBefore_1_sim

lemma both_last_uses_sim: "both_last_uses r1 r2 d1 d2 st = Inr st' \<Longrightarrow> sim \<rho> loc st st'"
  unfolding both_last_uses_def
  by (auto split: if_splits elim!: rbind_sim intro: manip_sims simp: check_assert_def)

lemma first_last_use_sim: "first_last_use r1 r2 d1 d2 st = Inr st' \<Longrightarrow> sim \<rho> loc st st'"
  unfolding first_last_use_def
  by (auto split: if_splits elim!: rbind_sim intro: manip_sims)

lemma handleBinaryOnStack_sim:
  "handleBinaryOnStack l1 l2 r1 r2 st = Inr st' \<Longrightarrow> sim \<rho> loc st st'"
  unfolding handleBinaryOnStack_def rbind_eq_Inr [of "findRegDepth _ _"]
  by (auto split: if_splits elim!: rbind_sim
      intro: manip_sims both_last_uses_sim first_last_use_sim)

lemma handleBinaryOpcode_sim:
  assumes "handleBinaryOpcode A w u v st = Inr st'"
    and "mem_ok \<rho> loc st {use_reg (snd u), use_reg (snd v)}"
  shows "sim \<rho> loc st st'"
proof -
  let ?r1 = "use_reg (snd u)" and ?r2 = "use_reg (snd v)"
  obtain MOP1 MOP2 st1 st2 SA1 SA2
    where 1: "handleOperandLiveness A w (snd u) MOP1 st = Inr st1"
      and 2: "handleOperandLiveness A w (snd v) MOP2 st1 = Inr st2"
      and SA1: "regAssignments st2 ?r1 = Some SA1"
      and SA2: "regAssignments st2 ?r2 = Some SA2"
      and 3: "binary_operands (regIsLastUse A st2 w (getReg MOP1))
        (regIsLastUse A st2 w (getReg MOP2)) ?r1 SA1 ?r2 SA2 st2 = Inr st'"
    using assms(1)
    by (auto simp: handleBinaryOpcode_def rbind_eq_Inr getStackAssignment_Inr)
  have s2: "sim \<rho> loc st st2"
    using handleOperandLiveness_sim [OF 1] handleOperandLiveness_sim [OF 2] sim_trans by blast
  have m: "mem_ok \<rho> loc st' {?r1}" "mem_ok \<rho> loc st' {?r2}" if "sim \<rho> loc st2 st'" for st'
    using assms(2) mem_ok_sim [OF _ sim_trans [OF s2 that]] mem_ok_subset by blast+
  have load: "sim \<rho> loc st2 (insertLoadFromMemoryBefore ?r1 (slot SA1) st1)"
    if "sim \<rho> loc st2 st1" "region SA1 = NONSTACK" for st1
    using that(1) insertLoad_sim [OF m(1) [OF that(1)] _ that(2)] SA1 sim_assignments [OF that(1)]
    by (metis sim_trans)
  have load2: "sim \<rho> loc st2 (insertLoadFromMemoryBefore ?r2 (slot SA2) st1)"
    if "sim \<rho> loc st2 st1" "region SA2 = NONSTACK" for st1
    using that(1) insertLoad_sim [OF m(2) [OF that(1)] _ that(2)] SA2 sim_assignments [OF that(1)]
    by (metis sim_trans)
  have "sim \<rho> loc st2 st'"
    using 3
    by (auto simp: binary_operands_def rbind_eq_Inr split: if_splits
        intro: load [OF load2 [OF sim_refl]] load [OF manip_sims(1)] load [OF manip_sims(2)]
          handleBinaryOnStack_sim sim_trans [OF load2 [OF sim_refl] manip_sims(1)]
          sim_trans [OF load2 [OF manip_sims(2)] manip_sims(2)])
  with s2 show ?thesis by (rule sim_trans)
qed

lemma arbitrary_operand_sim:
  assumes "arbitrary_operand u st = Inr st'" and "mem_ok \<rho> loc st {use_reg (snd u)}"
  shows "sim \<rho> loc st st'"
  using assms
  by (auto simp: arbitrary_operand_def rbind_eq_Inr getStackAssignment_Inr Let_def split: if_splits
      intro!: insertLoad_sim dest: insertDupBefore_sim [where \<rho> = \<rho> and loc = loc])

lemma arbitrary_operands_sim:
  assumes "foldM arbitrary_operand us st = Inr st'"
    and "mem_ok \<rho> loc st ((\<lambda>u. use_reg (snd u)) ` set us)"
  shows "sim \<rho> loc st st'"
  using assms
proof (induction us arbitrary: st)
  case (Cons u us)
  then obtain st1 where 1: "arbitrary_operand u st = Inr st1"
    and 2: "foldM arbitrary_operand us st1 = Inr st'" by (auto simp: rbind_eq_Inr)
  have s: "sim \<rho> loc st st1"
    using 1 Cons.prems(2) by (auto intro: arbitrary_operand_sim mem_ok_subset)
  moreover have "sim \<rho> loc st1 st'"
  proof (rule Cons.IH [OF 2])
    show "mem_ok \<rho> loc st1 ((\<lambda>u. use_reg (snd u)) ` set us)"
      by (rule mem_ok_sim [OF mem_ok_subset [OF Cons.prems(2)] s]) auto
  qed
  ultimately show ?case by (rule sim_trans)
qed simp

lemma pop_use_Inr:
  "pop_use u st = Inr st' \<longleftrightarrow>
   (\<exists>s. stack_pop (stack st) = Inr (use_reg (snd u), s) \<and> st' = st\<lparr>stack := s\<rparr>)"
  by (auto simp: pop_use_def rbind_eq_Inr)

lemma pop_uses:
  assumes "foldM pop_use us st = Inr st'"
  shows "view (stack st) = map (\<lambda>u. use_reg (snd u)) us @ view (stack st') \<and>
         st' = st\<lparr>stack := stack st'\<rparr>"
  using assms
proof (induction us arbitrary: st)
  case (Cons u us)
  then obtain s where p: "stack_pop (stack st) = Inr (use_reg (snd u), s)"
    and "foldM pop_use us (st\<lparr>stack := s\<rparr>) = Inr st'"
    using pop_use_Inr by (fastforce simp: rbind_eq_Inr)
  from Cons.IH [OF this(2)] stack_pop_Inr [OF p] show ?case by simp
qed simp

lemma handleUses_sim:
  assumes "handleUses A w st = Inr st'"
    and "mem_ok \<rho> loc st (set (operand_regs (at_mi w)))"
  shows "same_base st st' \<and>
     (\<forall>r \<in> set (view (stack st')). r \<in> set (view (stack st)) \<or> regAssignments st r \<noteq> None) \<and>
     (\<exists>ms. pre st' = pre st @ map manip_mi ms \<and>
     run_manip (map manip_mi ms) (map \<rho> (view (stack st)), loc) =
       Some (map \<rho> (operand_regs (at_mi w)) @ map \<rho> (view (stack st')), loc))"
proof -
  obtain n uts st1 where u: "calculateUseRegs A st w = Inr (n, uts)"
    and 1: "(case uts of [] \<Rightarrow> Inr st | [u] \<Rightarrow> handleUnaryOpcode A w u st
            | [u, v] \<Rightarrow> handleBinaryOpcode A w u v st
            | _ \<Rightarrow> handleArbitraryOpcode uts st) = Inr st1"
    and 2: "foldM pop_use uts st1 = Inr st'"
    using assms(1) by (auto simp: handleUses_def rbind_eq_Inr)
  note regs = calculateUseRegs_regs [OF u]
  have m: "mem_ok \<rho> loc st ((\<lambda>u. use_reg (snd u)) ` set uts)"
    using assms(2) by (simp flip: regs)
  have "sim \<rho> loc st st1"
    using 1 m arbitrary_operands_sim [of "rev uts" st st1]
    by (auto simp: handleArbitraryOpcode_def split: list.splits
        intro: handleUnaryOpcode_sim handleBinaryOpcode_sim)
  moreover obtain t where "st' = st1\<lparr>stack := t\<rparr>"
    and "view (stack st1) = operand_regs (at_mi w) @ view t"
    using pop_uses [OF 2] regs by (metis alloc.select_convs(5) alloc.surjective alloc.update_convs(5))
  ultimately show ?thesis
    unfolding sim_def same_base_def by simp
qed

end
