(* ===== verification/StackAllocTotal.thy ===== *)
theory StackAllocTotal
  imports StackAllocUses
begin

text \<open>
  When the handling of operands succeeds, and what it leaves on the symbolic stack. Loads,
  duplications and exchanges are described on the list \<open>view\<close>; the lemma \<open>handleUses_ok\<close>
  puts the operand counts together, and the last section shows the two situations it
  excludes to be real ones.
\<close>

section \<open>Exchanges on lists\<close>

lemma swap0_front: "r \<in> set l \<Longrightarrow> \<exists>zs. swap0 (index_of r l) l = r # zs"
  using hd_swap0 [of "index_of r l" l] index_of_less [of r l]
  by (cases "swap0 (index_of r l) l") (auto simp flip: length_greater_0_conv dest: arg_cong [of _ _ length])

lemma swap0_over_second:
  assumes "r1 \<in> set (y # r2 # ys)" and "r1 \<noteq> r2"
  shows "\<exists>zs. swap0 (index_of r1 (y # r2 # ys)) (y # r2 # ys) = r1 # r2 # zs"
proof (cases "r1 = y")
  case False
  with assms have "r1 \<in> set ys" by simp
  then show ?thesis using False assms by (simp add: swap0_def index_of_less)
qed simp

lemma index_of_0: "r \<in> set l \<Longrightarrow> index_of r l = 0 \<longleftrightarrow> (\<exists>zs. l = r # zs)"
  by (cases l) auto

lemma index_of_1:
  "r \<in> set l \<Longrightarrow> index_of r l = Suc 0 \<longleftrightarrow> (\<exists>x zs. l = x # r # zs \<and> x \<noteq> r)"
  by (cases l rule: remdups_adj.cases) auto

lemma mset_swap_front: "r \<in> set l \<Longrightarrow> mset (swap0 (index_of r l) l) = mset l"
  by (simp add: mset_swap0 index_of_less)

section \<open>Insertions succeed\<close>

lemma insertSwapBefore_ok:
  "0 < n \<Longrightarrow> n < length (view (stack st)) \<Longrightarrow>
   \<exists>st'. insertSwapBefore n st = Inr st' \<and> view (stack st') = swap0 n (view (stack st)) \<and>
     same_base st st'"
  using stack_swap_view [of n "stack st"]
  by (auto simp: insertSwapBefore_def with_stack_def emit_def rbind_eq_Inr same_base_def)

lemma SwapRegToTop_ok:
  "r \<in> set (view (stack st)) \<Longrightarrow>
   \<exists>st'. SwapRegToTop r st = Inr st' \<and> same_base st st' \<and>
     view (stack st') = swap0 (index_of r (view (stack st))) (view (stack st))"
  using insertSwapBefore_ok [of "index_of r (view (stack st))" st] index_of_less [of r "view (stack st)"]
  by (auto simp: SwapRegToTop_def findRegDepth_view)

lemma DupRegToTop_ok:
  "r \<in> set (view (stack st)) \<Longrightarrow>
   \<exists>st'. DupRegToTop r st = Inr st' \<and> same_base st st' \<and> view (stack st') = r # view (stack st)"
  using stack_dup_view [of "index_of r (view (stack st))" "stack st"] index_of_less [of r "view (stack st)"]
  by (auto simp: DupRegToTop_def findRegDepth_view insertDupBefore_def with_stack_def emit_def
      rbind_eq_Inr same_base_def)

lemma same_base_trans: "same_base a b \<Longrightarrow> same_base b c \<Longrightarrow> same_base a c"
  by (simp add: same_base_def)

text \<open>The outcome of an operand sequence, as a predicate on results.\<close>

definition leaves :: "alloc \<Rightarrow> reg list \<Rightarrow> reg multiset \<Rightarrow> alloc result \<Rightarrow> bool" where
  "leaves st rs rest res \<longleftrightarrow>
     (\<exists>st' zs. res = Inr st' \<and> same_base st st' \<and> view (stack st') = rs @ zs \<and> mset zs = rest)"

lemma leavesI:
  "res = Inr st' \<Longrightarrow> view (stack st') = rs @ zs \<Longrightarrow> mset zs = rest \<Longrightarrow> same_base st st' \<Longrightarrow>
   leaves st rs rest res"
  by (auto simp: leaves_def)

lemma leaves_swap_over:
  assumes "same_base st st1" and "view (stack st1) = y # r2 # ys"
    and "r1 \<in> set (y # r2 # ys)" and "r1 \<noteq> r2"
  shows "leaves st [r1, r2] (mset (view (stack st1)) - {#r1, r2#}) (SwapRegToTop r1 st1)"
proof -
  from SwapRegToTop_ok [of r1 st1] assms(2,3)
  obtain st' where st': "SwapRegToTop r1 st1 = Inr st'" "same_base st1 st'"
    and v: "view (stack st') = swap0 (index_of r1 (y # r2 # ys)) (y # r2 # ys)" by auto
  from swap0_over_second [OF assms(3,4)] v obtain zs where zs: "view (stack st') = r1 # r2 # zs"
    by auto
  moreover have "mset (view (stack st')) = mset (view (stack st1))"
    unfolding v assms(2) by (rule mset_swap_front [OF assms(3)])
  ultimately have "mset zs = mset (view (stack st1)) - {#r1, r2#}"
    by (metis add_mset_add_single add_mset_diff_bothsides diff_empty mset.simps(2))
  then show ?thesis
    unfolding leaves_def using st' zs same_base_trans [OF assms(1)] by auto
qed

lemma both_last_uses_ok:
  assumes 1: "r1 \<in> set (view (stack st))" and 2: "r2 \<in> set (view (stack st))" and ne: "r1 \<noteq> r2"
  shows "leaves st [r1, r2] (mset (view (stack st)) - {#r1, r2#})
    (both_last_uses r1 r2 (index_of r1 (view (stack st))) (index_of r2 (view (stack st))) st)"
proof -
  let ?v = "view (stack st)"
  consider (in_place) zs where "?v = r1 # r2 # zs"
    | (second) x zs where "?v = r1 # x # zs" "x \<noteq> r2" "r2 \<in> set zs"
    | (first) y zs where "?v = y # r2 # zs" "y \<noteq> r1" "y \<noteq> r2" "r1 \<in> set zs"
    | (reversed) zs where "?v = r2 # r1 # zs"
    | (neither) "index_of r1 ?v \<noteq> 0" "index_of r2 ?v \<noteq> 1"
        "\<not> (index_of r1 ?v = 1 \<and> index_of r2 ?v = 0)"
  proof (cases ?v rule: remdups_adj.cases)
    case (3 x y zs)
    with 1 2 ne that show thesis
      by (cases "x = r1"; cases "y = r2"; cases "x = r2"; cases "y = r1") auto
  qed (use 1 2 ne in auto)
  then show ?thesis
  proof cases
    case in_place
    then show ?thesis using ne by (auto simp: both_last_uses_def leaves_def)
  next
    case second
    obtain s1 where s1: "insertSwapBefore 1 st = Inr s1" "same_base st s1"
      and v1: "view (stack s1) = x # r1 # zs"
      using insertSwapBefore_ok [of 1 st] second by auto
    have in1: "r2 \<in> set (view (stack s1))" using second v1 by simp
    obtain s2 where s2: "SwapRegToTop r2 s1 = Inr s2" "same_base s1 s2"
      and v2: "view (stack s2) = swap0 (index_of r2 (x # r1 # zs)) (x # r1 # zs)"
      using SwapRegToTop_ok [OF in1] v1 by auto
    then obtain ws where ws: "view (stack s2) = r2 # r1 # ws"
      using swap0_over_second [of r2 x r1 zs] second ne by auto
    have "mset (view (stack s2)) = mset ?v"
      unfolding v2 using mset_swap_front [OF in1] v1 second by simp
    then have m: "mset ws = mset ?v - {#r1, r2#}" using ws by (simp flip: \<open>_ = mset ?v\<close>)
    obtain s3 where s3: "SwapRegToTop r1 s2 = Inr s3" "same_base s2 s3"
      and v3: "view (stack s3) = [r1, r2] @ ws"
      using SwapRegToTop_ok [of r1 s2] ws ne by auto
    have "both_last_uses r1 r2 (index_of r1 ?v) (index_of r2 ?v) st = Inr s3"
      using second ne s1(1) s2(1) s3(1) by (simp add: both_last_uses_def)
    then show ?thesis
      using v3 m same_base_trans [OF same_base_trans [OF s1(2) s2(2)] s3(2)] by (rule leavesI)
  next
    case first
    then show ?thesis
      using leaves_swap_over [of st st y r2 zs r1] ne by (auto simp: both_last_uses_def)
  next
    case reversed
    then show ?thesis
      using insertSwapBefore_ok [of 1 st] ne by (auto simp: both_last_uses_def leaves_def)
  next
    case neither
    obtain s1 where s1: "SwapRegToTop r2 st = Inr s1" "same_base st s1"
      and v1: "view (stack s1) = swap0 (index_of r2 ?v) ?v"
      using SwapRegToTop_ok [OF 2] by auto
    then obtain zs where zs: "view (stack s1) = r2 # zs" using swap0_front [OF 2] by auto
    have m1: "mset (view (stack s1)) = mset ?v" unfolding v1 using 2 by (rule mset_swap_front)
    then have "r1 \<in> set zs" using 1 zs ne by (metis set_ConsD set_mset_mset)
    then obtain z zs' where z: "zs = z # zs'" by (cases zs) auto
    obtain s2 where s2: "insertSwapBefore 1 s1 = Inr s2" "same_base s1 s2"
      and v2: "view (stack s2) = z # r2 # zs'"
      using insertSwapBefore_ok [of 1 s1] zs z by auto
    have "leaves st [r1, r2] (mset (view (stack s2)) - {#r1, r2#}) (SwapRegToTop r1 s2)"
      using leaves_swap_over [OF _ v2 _ ne] \<open>r1 \<in> set zs\<close> z s1 s2 same_base_trans by auto
    moreover have "mset (view (stack s2)) = mset ?v" using m1 zs z v2 by (simp add: add_mset_commute)
    ultimately show ?thesis using neither s1 s2 by (auto simp: both_last_uses_def)
  qed
qed

lemma first_last_use_ok:
  assumes 1: "r1 \<in> set (view (stack st))" and 2: "r2 \<in> set (view (stack st))" and ne: "r1 \<noteq> r2"
    and ok: "index_of r1 (view (stack st)) = 0 \<or> index_of r2 (view (stack st)) \<noteq> 1"
  shows "leaves st [r1, r2] (mset (view (stack st)) - {#r1#})
    (first_last_use r1 r2 (index_of r1 (view (stack st))) (index_of r2 (view (stack st))) st)"
proof -
  let ?v = "view (stack st)"
  obtain s1 where s1: "DupRegToTop r2 st = Inr s1" "same_base st s1"
    and v1: "view (stack s1) = r2 # ?v"
    using DupRegToTop_ok [OF 2] by auto
  show ?thesis
  proof (cases "index_of r1 ?v = 0")
    case True
    then obtain zs where zs: "?v = r1 # zs" using index_of_0 [OF 1] by auto
    obtain s2 where "SwapRegToTop r1 s1 = Inr s2" "same_base s1 s2"
      and "view (stack s2) = r1 # r2 # zs"
      using SwapRegToTop_ok [of r1 s1] v1 zs ne by auto
    then show ?thesis
      using True zs s1 same_base_trans by (auto simp: first_last_use_def leaves_def)
  next
    case False
    then obtain z zs where z: "?v = z # zs" using 1 by (cases ?v) auto
    obtain s2 where s2: "insertSwapBefore 1 s1 = Inr s2" "same_base s1 s2"
      and v2: "view (stack s2) = z # r2 # zs"
      using insertSwapBefore_ok [of 1 s1] v1 z by auto
    have "leaves st [r1, r2] (mset (view (stack s2)) - {#r1, r2#}) (SwapRegToTop r1 s2)"
      using leaves_swap_over [OF _ v2 _ ne] 1 z s1 s2 same_base_trans by auto
    moreover have "mset (view (stack s2)) - {#r1, r2#} = mset ?v - {#r1#}"
      using v2 z by (simp add: add_mset_commute)
    ultimately show ?thesis using False ok s1 s2 by (auto simp: first_last_use_def)
  qed
qed

text \<open>
  Both operands on the stack: they end up on the top in operand order, and exactly the
  registers whose last use this is leave the rest of the stack.
\<close>

lemma handleBinaryOnStack_ok:
  assumes "r1 \<in> set (view (stack st))" and "r2 \<in> set (view (stack st))"
    and "l1 \<and> l2 \<Longrightarrow> r1 \<noteq> r2" and "l1 \<noteq> l2 \<Longrightarrow> r1 \<noteq> r2"
    and "l1 \<and> \<not> l2 \<Longrightarrow> index_of r1 (view (stack st)) = 0 \<or> index_of r2 (view (stack st)) \<noteq> 1"
  shows "leaves st [r1, r2]
    (mset (view (stack st)) - (if l1 then {#r1#} else {#}) - (if l2 then {#r2#} else {#}))
    (handleBinaryOnStack l1 l2 r1 r2 st)"
proof -
  consider "l1" "l2" | "l1" "\<not> l2" | "\<not> l1" "l2" | "\<not> l1" "\<not> l2" by blast
  then show ?thesis
  proof cases
    case 1
    then show ?thesis using both_last_uses_ok [OF assms(1,2)] assms(1-3)
      by (simp add: handleBinaryOnStack_def findRegDepth_view add_mset_commute)
  next
    case 2
    then show ?thesis using first_last_use_ok [OF assms(1,2)] assms
      by (simp add: handleBinaryOnStack_def findRegDepth_view)
  next
    case 3
    obtain s1 where s1: "SwapRegToTop r2 st = Inr s1" "same_base st s1"
      and v1: "view (stack s1) = swap0 (index_of r2 (view (stack st))) (view (stack st))"
      using SwapRegToTop_ok [OF assms(2)] by auto
    obtain zs where zs: "view (stack s1) = r2 # zs" using swap0_front [OF assms(2)] v1 by auto
    have m: "mset (r2 # zs) = mset (view (stack st))"
      using mset_swap_front [OF assms(2)] v1 zs by simp
    then have "r1 \<in> set (view (stack s1))"
      unfolding zs using assms(1) by (metis set_mset_mset)
    from DupRegToTop_ok [OF this] obtain s2 where "DupRegToTop r1 s1 = Inr s2"
      "same_base s1 s2" "view (stack s2) = r1 # r2 # zs" using zs by auto
    then show ?thesis using 3 s1 assms(1,2) same_base_trans m
      by (auto simp: handleBinaryOnStack_def findRegDepth_view leaves_def)
         (metis add_mset_remove_trivial)
  next
    case 4
    obtain s1 where "DupRegToTop r2 st = Inr s1" "same_base st s1"
      "view (stack s1) = r2 # view (stack st)" using DupRegToTop_ok [OF assms(2)] by auto
    then show ?thesis using DupRegToTop_ok [of r1 s1] 4 assms(1,2) same_base_trans
      by (auto simp: handleBinaryOnStack_def findRegDepth_view leaves_def)
  qed
qed

section \<open>All operand counts\<close>

definition in_memory :: "alloc \<Rightarrow> reg \<Rightarrow> bool" where
  "in_memory st r = (case regAssignments st r of None \<Rightarrow> False | Some SA \<Rightarrow> region SA = NONSTACK)"

definition on_stack :: "alloc \<Rightarrow> reg \<Rightarrow> bool" where
  "on_stack st r =
     (case regAssignments st r of None \<Rightarrow> False
      | Some SA \<Rightarrow> region SA = L_STACK \<and> r \<in> set (view (stack st)))"

definition operands_ready :: "alloc \<Rightarrow> minstr \<Rightarrow> bool" where
  "operands_ready st mi =
     list_all (\<lambda>MOP. isReg MOP \<and> (in_memory st (getReg MOP) \<or> on_stack st (getReg MOP)))
       (explicit_uses mi)"

text \<open>
  The two patterns the source does not handle: one register as both operands at its last
  use, and a first operand at its last use below the top while the second operand, used
  again later, is directly below the top.
\<close>

definition unsupported_pair :: "analyses \<Rightarrow> alloc \<Rightarrow> site \<Rightarrow> bool" where
  "unsupported_pair A st w =
     (case operand_regs (at_mi w) of
        [r1, r2] \<Rightarrow>
          on_stack st r1 \<and> on_stack st r2 \<and> regIsLastUse A st w r1 \<and>
          (r1 = r2 \<or> \<not> regIsLastUse A st w r2 \<and> index_of r1 (view (stack st)) \<noteq> 0 \<and>
             index_of r2 (view (stack st)) = 1)
      | _ \<Rightarrow> False)"

definition consumed :: "analyses \<Rightarrow> alloc \<Rightarrow> site \<Rightarrow> reg list" where
  "consumed A st w =
     (if 2 < length (operand_regs (at_mi w)) then []
      else filter (\<lambda>r. on_stack st r \<and> regIsLastUse A st w r) (operand_regs (at_mi w)))"

lemma ready_cases:
  assumes "operands_ready st mi" and "r \<in> set (operand_regs mi)"
  obtains (mem) SA where "regAssignments st r = Some SA" "region SA = NONSTACK"
      "in_memory st r" "\<not> on_stack st r"
  | (stk) SA where "regAssignments st r = Some SA" "region SA = L_STACK"
      "r \<in> set (view (stack st))" "on_stack st r" "\<not> in_memory st r"
proof -
  from assms have "in_memory st r \<or> on_stack st r"
    by (auto simp: operands_ready_def operand_regs_def list_all_iff)
  then show thesis
    by (cases "regAssignments st r") (auto simp: in_memory_def on_stack_def intro: mem stk)
qed

lemma use_types_ok:
  assumes "list_all (\<lambda>MOP. isReg MOP \<and> (in_memory st (getReg MOP) \<or> on_stack st (getReg MOP))) ops"
  shows "\<exists>uts. use_types A st w i ops = Inr uts \<and> map fst uts = [i..<i + length ops] \<and>
    map (\<lambda>u. use_reg (snd u)) uts = map getReg ops \<and>
    (\<forall>u \<in> set uts. isMemUse (snd u) = in_memory st (use_reg (snd u)))"
  using assms
proof (induction ops arbitrary: i)
  case (Cons MOP ops)
  from Cons.IH [of "Suc i"] Cons.prems obtain uts where
    "use_types A st w (Suc i) ops = Inr uts" "map fst uts = [Suc i..<Suc i + length ops]"
    "map (\<lambda>u. use_reg (snd u)) uts = map getReg ops"
    "\<forall>u \<in> set uts. isMemUse (snd u) = in_memory st (use_reg (snd u))" by auto
  moreover have "\<exists>u. reg_use A st w (getReg MOP) = Inr u \<and> use_reg u = getReg MOP \<and>
      isMemUse u = in_memory st (getReg MOP)"
    using Cons.prems
    by (auto simp: reg_use_def in_memory_def on_stack_def Let_def findRegDepth_view
        split: option.splits)
  ultimately show ?case using Cons.prems
    by (auto simp: upt_conv_Cons simp del: upt_Suc)
qed simp

lemma operands_ready_regs:
  "operands_ready st mi \<Longrightarrow> explicit_uses mi = ops \<Longrightarrow>
   operand_regs mi = map getReg ops \<and> list_all isReg ops"
  by (auto simp: operands_ready_def operand_regs_def list_all_iff filter_id_conv)

lemma calculateUseRegs_ok:
  assumes "operands_ready st (at_mi w)"
  obtains uts where "calculateUseRegs A st w = Inr (length uts, uts)"
    "map fst uts = [0..<length uts]"
    "map (\<lambda>u. use_reg (snd u)) uts = operand_regs (at_mi w)"
    "\<forall>u \<in> set uts. isMemUse (snd u) = in_memory st (use_reg (snd u))"
proof -
  obtain uts where u: "use_types A st w 0 (explicit_uses (at_mi w)) = Inr uts"
    "map fst uts = [0..<length (explicit_uses (at_mi w))]"
    "map (\<lambda>u. use_reg (snd u)) uts = map getReg (explicit_uses (at_mi w))"
    "\<forall>u \<in> set uts. isMemUse (snd u) = in_memory st (use_reg (snd u))"
    using use_types_ok [of st "explicit_uses (at_mi w)" A w 0] assms
    by (auto simp: operands_ready_def)
  then have "length uts = length (explicit_uses (at_mi w))" by (metis length_map)
  with u operands_ready_regs [OF assms refl] show thesis
    by (intro that [of uts]) (auto simp: calculateUseRegs_def)
qed

lemma handleOperandLiveness_L:
  assumes "regAssignments st r = Some SA" and "region SA \<noteq> X_STACK"
    and "isReg MOP" and "use_reg u = r" and "getReg MOP = r"
  shows "handleOperandLiveness A w u MOP st = Inr st"
  using assms by (simp add: handleOperandLiveness_def getStackAssignment_def)

lemma getUseOperand_nth:
  "i < length (explicit_uses (at_mi w)) \<Longrightarrow>
   getUseOperand w i = Inr (explicit_uses (at_mi w) ! i)"
proof -
  assume i: "i < length (explicit_uses (at_mi w))"
  have "mi_operands (at_mi w) = explicit_defs (at_mi w) @ explicit_uses (at_mi w)"
    by (simp add: explicit_defs_uses)
  with i show ?thesis by (simp add: getUseOperand_def nth_append Let_def)
qed

lemma same_base_load: "same_base st (insertLoadFromMemoryBefore r n st)"
  by (simp add: same_base_def insertLoadFromMemoryBefore_def emit_def Let_def)

text \<open>The specification of one operand: where it was, and what is left without it.\<close>

lemma unary_ok:
  assumes ready: "operands_ready st (at_mi w)" and one: "operand_regs (at_mi w) = [r]"
    and u: "fst u = 0" "use_reg (snd u) = r"
  shows "leaves st [r]
    (mset (view (stack st)) - (if on_stack st r \<and> regIsLastUse A st w r then {#r#} else {#}))
    (handleUnaryOpcode A w u st)"
proof -
  obtain MOP where MOP: "explicit_uses (at_mi w) = [MOP]" "isReg MOP" "getReg MOP = r"
    using operands_ready_regs [OF ready refl] one by (auto simp: list_all_iff)
  have r: "r \<in> set (operand_regs (at_mi w))" using one by simp
  show ?thesis using ready r
  proof (cases rule: ready_cases)
    case (mem SA)
    then show ?thesis using MOP u
      by (auto simp: handleUnaryOpcode_def getUseOperand_nth getStackAssignment_def
          handleOperandLiveness_L intro!: leavesI [where zs = "view (stack st)"] same_base_load)
  next
    case (stk SA)
    then have h: "handleUnaryOpcode A w u st =
        (if regIsLastUse A st w r then SwapRegToTop r st else DupRegToTop r st)"
      using MOP u
      by (simp add: handleUnaryOpcode_def getUseOperand_nth getStackAssignment_def
          handleOperandLiveness_L SwapRegToTop_def DupRegToTop_def findRegDepth_view)
    obtain zs where zs: "swap0 (index_of r (view (stack st))) (view (stack st)) = r # zs"
      using swap0_front [OF stk(3)] by auto
    then have "mset zs = mset (view (stack st)) - {#r#}"
      using mset_swap_front [OF stk(3)] by (metis add_mset_remove_trivial mset.simps(2))
    then show ?thesis
      unfolding h using SwapRegToTop_ok [OF stk(3)] DupRegToTop_ok [OF stk(3)] zs stk(4)
      by (auto intro!: leavesI)
  qed
qed

lemma binary_ok:
  assumes ready: "operands_ready st (at_mi w)" and two: "operand_regs (at_mi w) = [r1, r2]"
    and u: "fst u = 0" "use_reg (snd u) = r1" and v: "fst v = 1" "use_reg (snd v) = r2"
    and ok: "\<not> unsupported_pair A st w"
  shows "leaves st [r1, r2] (mset (view (stack st)) - mset (consumed A st w))
    (handleBinaryOpcode A w u v st)"
proof -
  obtain MOP1 MOP2 where MOP: "explicit_uses (at_mi w) = [MOP1, MOP2]" "isReg MOP1" "isReg MOP2"
    "getReg MOP1 = r1" "getReg MOP2 = r2"
    using operands_ready_regs [OF ready refl] two by (auto simp: list_all_iff)
  have r: "r1 \<in> set (operand_regs (at_mi w))" "r2 \<in> set (operand_regs (at_mi w))"
    using two by simp_all
  note defs = handleBinaryOpcode_def binary_operands_def getUseOperand_nth getStackAssignment_def
    handleOperandLiveness_L MOP u v Let_def consumed_def two
  show ?thesis using ready r(1)
  proof (cases rule: ready_cases)
    case m1: (mem SA1)
    show ?thesis using ready r(2)
    proof (cases rule: ready_cases)
      case (mem SA2)
      with m1 show ?thesis
        by (auto simp: defs intro!: leavesI [where zs = "view (stack st)"]
            same_base_load same_base_trans [OF same_base_load same_base_load])
    next
      case (stk SA2)
      obtain zs where zs: "swap0 (index_of r2 (view (stack st))) (view (stack st)) = r2 # zs"
        using swap0_front [OF stk(3)] by auto
      then have "mset zs = mset (view (stack st)) - {#r2#}"
        using mset_swap_front [OF stk(3)] by (metis add_mset_remove_trivial mset.simps(2))
      with m1 stk zs show ?thesis
        using SwapRegToTop_ok [OF stk(3)] DupRegToTop_ok [OF stk(3)]
        by (auto simp: defs intro!: leavesI same_base_trans [OF _ same_base_load])
    qed
  next
    case s1: (stk SA1)
    show ?thesis using ready r(2)
    proof (cases rule: ready_cases)
      case (mem SA2)
      obtain zs where zs: "swap0 (index_of r1 (view (stack st))) (view (stack st)) = r1 # zs"
        using swap0_front [OF s1(3)] by auto
      then have m: "mset zs = mset (view (stack st)) - {#r1#}"
        using mset_swap_front [OF s1(3)] by (metis add_mset_remove_trivial mset.simps(2))
      have ne: "r1 \<noteq> r2" using s1 mem by auto
      show ?thesis
      proof (cases "regIsLastUse A st w r1")
        case True
        obtain t where t: "SwapRegToTop r1 st = Inr t" "same_base st t" "view (stack t) = r1 # zs"
          using SwapRegToTop_ok [OF s1(3)] zs by auto
        let ?t = "insertLoadFromMemoryBefore r2 (slot SA2) t"
        obtain t' where t': "SwapRegToTop r1 ?t = Inr t'" "same_base ?t t'"
          "view (stack t') = [r1, r2] @ zs"
          using SwapRegToTop_ok [of r1 ?t] t(3) ne by auto
        then have "same_base st t'"
          using same_base_trans [OF same_base_trans [OF t(2) same_base_load]] by blast
        with True s1 mem t(1) t' m show ?thesis by (simp add: defs leavesI)
      next
        case False
        let ?t = "insertLoadFromMemoryBefore r2 (slot SA2) st"
        obtain t' where t': "DupRegToTop r1 ?t = Inr t'" "same_base ?t t'"
          "view (stack t') = [r1, r2] @ view (stack st)"
          using DupRegToTop_ok [of r1 ?t] s1(3) by auto
        then have "same_base st t'" using same_base_trans [OF same_base_load] by blast
        with False s1 mem t' show ?thesis by (simp add: defs leavesI)
      qed
    next
      case (stk SA2)
      let ?l1 = "regIsLastUse A st w r1" and ?l2 = "regIsLastUse A st w r2"
      have "leaves st [r1, r2] (mset (view (stack st)) - (if ?l1 then {#r1#} else {#}) -
          (if ?l2 then {#r2#} else {#})) (handleBinaryOnStack ?l1 ?l2 r1 r2 st)"
        using ok s1 stk two
        by (intro handleBinaryOnStack_ok) (auto simp: unsupported_pair_def)
      with s1 stk show ?thesis
        by (simp add: defs add_mset_commute split: if_splits)
    qed
  qed
qed

lemma arbitrary_ok:
  assumes "\<forall>u \<in> set us. isMemUse (snd u) = in_memory st (use_reg (snd u)) \<and>
      (in_memory st (use_reg (snd u)) \<or> on_stack st (use_reg (snd u)))"
  shows "\<exists>st'. foldM arbitrary_operand us st = Inr st' \<and> same_base st st' \<and>
    view (stack st') = rev (map (\<lambda>u. use_reg (snd u)) us) @ view (stack st)"
  using assms
proof (induction us arbitrary: st)
  case (Cons u us)
  let ?r = "use_reg (snd u)"
  obtain t where t: "arbitrary_operand u st = Inr t" "same_base st t"
    "view (stack t) = ?r # view (stack st)"
  proof (cases "in_memory st ?r")
    case True
    then obtain SA where "regAssignments st ?r = Some SA" "region SA = NONSTACK"
      by (auto simp: in_memory_def split: option.splits)
    with True Cons.prems show thesis
      by (intro that [of "insertLoadFromMemoryBefore ?r (slot SA) st"])
         (simp_all add: arbitrary_operand_def getStackAssignment_def same_base_load)
  next
    case False
    with Cons.prems have "on_stack st ?r" "\<not> isMemUse (snd u)" by auto
    then obtain SA where SA: "regAssignments st ?r = Some SA" "region SA = L_STACK"
      and v: "?r \<in> set (view (stack st))" by (auto simp: on_stack_def split: option.splits)
    from DupRegToTop_ok [OF v] obtain t where "DupRegToTop ?r st = Inr t" "same_base st t"
      "view (stack t) = ?r # view (stack st)" by auto
    with SA \<open>\<not> isMemUse (snd u)\<close> show thesis
      by (intro that) (simp_all add: arbitrary_operand_def getStackAssignment_def DupRegToTop_def)
  qed
  have "in_memory t r = in_memory st r" for r using t(2) by (simp add: in_memory_def same_base_def)
  moreover have "on_stack st r \<Longrightarrow> on_stack t r" for r
    using t(2,3) by (auto simp: on_stack_def same_base_def split: option.splits)
  ultimately have "\<exists>st'. foldM arbitrary_operand us t = Inr st' \<and> same_base t st' \<and>
    view (stack st') = rev (map (\<lambda>u. use_reg (snd u)) us) @ view (stack t)"
    using Cons.prems by (intro Cons.IH) (metis list.set_intros(2))
  with t show ?case using same_base_trans by auto
qed simp

lemma pop_uses_ok:
  "view (stack st) = map (\<lambda>u. use_reg (snd u)) us @ zs \<Longrightarrow>
   \<exists>s. foldM pop_use us st = Inr (st\<lparr>stack := s\<rparr>) \<and> view s = zs"
proof (induction us arbitrary: st)
  case Nil
  then show ?case by (intro exI [of _ "stack st"]) simp
next
  case (Cons u us)
  then obtain s where "stack_pop (stack st) = Inr (use_reg (snd u), s)"
    "view s = map (\<lambda>u. use_reg (snd u)) us @ zs"
    using stack_pop_view [of "stack st"] by auto
  with Cons.IH [of "st\<lparr>stack := s\<rparr>"] show ?case by (auto simp: pop_use_def)
qed

lemma handleUses_from_leaves:
  assumes u: "calculateUseRegs A st w = Inr (n, uts)"
    and l: "leaves st (operand_regs (at_mi w)) rest
      (case uts of [] \<Rightarrow> Inr st | [u] \<Rightarrow> handleUnaryOpcode A w u st
       | [u, v] \<Rightarrow> handleBinaryOpcode A w u v st | _ \<Rightarrow> handleArbitraryOpcode uts st)"
  shows "\<exists>st'. handleUses A w st = Inr st' \<and> same_base st st' \<and> mset (view (stack st')) = rest"
proof -
  obtain st1 zs where 1: "(case uts of [] \<Rightarrow> Inr st | [u] \<Rightarrow> handleUnaryOpcode A w u st
       | [u, v] \<Rightarrow> handleBinaryOpcode A w u v st | _ \<Rightarrow> handleArbitraryOpcode uts st) = Inr st1"
    and b: "same_base st st1" and v: "view (stack st1) = operand_regs (at_mi w) @ zs"
    and m: "mset zs = rest" using l by (auto simp: leaves_def)
  obtain s where "foldM pop_use uts st1 = Inr (st1\<lparr>stack := s\<rparr>)" "view s = zs"
    using pop_uses_ok [of st1 uts zs] v calculateUseRegs_regs [OF u] by auto
  with u 1 b m show ?thesis by (auto simp: handleUses_def same_base_def)
qed

lemma handleUses_ok:
  assumes ready: "operands_ready st (at_mi w)" and ok: "\<not> unsupported_pair A st w"
  shows "\<exists>st'. handleUses A w st = Inr st' \<and> same_base st st' \<and>
    mset (view (stack st')) = mset (view (stack st)) - mset (consumed A st w)"
proof -
  obtain uts where u: "calculateUseRegs A st w = Inr (length uts, uts)"
    and idx: "map fst uts = [0..<length uts]"
    and regs: "map (\<lambda>u. use_reg (snd u)) uts = operand_regs (at_mi w)"
    and mem: "\<forall>u \<in> set uts. isMemUse (snd u) = in_memory st (use_reg (snd u))"
    using calculateUseRegs_ok [OF ready] by blast
  show ?thesis
  proof (rule handleUses_from_leaves [OF u])
    consider "uts = []" | u where "uts = [u]" | u v where "uts = [u, v]"
      | x y z zs where "uts = x # y # z # zs" by (metis list.exhaust)
    then show "leaves st (operand_regs (at_mi w))
        (mset (view (stack st)) - mset (consumed A st w))
        (case uts of [] \<Rightarrow> Inr st | [u] \<Rightarrow> handleUnaryOpcode A w u st
         | [u, v] \<Rightarrow> handleBinaryOpcode A w u v st | _ \<Rightarrow> handleArbitraryOpcode uts st)"
    proof cases
      case 1
      then show ?thesis using regs by (simp add: leaves_def consumed_def)
    next
      case (2 u)
      then have "operand_regs (at_mi w) = [use_reg (snd u)]" "fst u = 0" using regs idx by simp_all
      then show ?thesis using unary_ok [OF ready _ _ refl, of u A] 2
        by (auto simp: consumed_def)
    next
      case (3 u v)
      then have "operand_regs (at_mi w) = [use_reg (snd u), use_reg (snd v)]" "fst u = 0" "fst v = 1"
        using regs idx by (simp_all add: upt_rec)
      then show ?thesis using binary_ok [OF ready _ _ refl _ refl ok, of u v] 3 by simp
    next
      case (4 x y z zs)
      have "\<forall>u \<in> set (rev uts). isMemUse (snd u) = in_memory st (use_reg (snd u)) \<and>
          (in_memory st (use_reg (snd u)) \<or> on_stack st (use_reg (snd u)))"
      proof
        fix u assume "u \<in> set (rev uts)"
        then have "use_reg (snd u) \<in> set (operand_regs (at_mi w))" "u \<in> set uts"
          by (auto simp flip: regs)
        with mem ready_cases [OF ready] show "isMemUse (snd u) = in_memory st (use_reg (snd u)) \<and>
          (in_memory st (use_reg (snd u)) \<or> on_stack st (use_reg (snd u)))" by metis
      qed
      from arbitrary_ok [OF this] obtain st' where "handleArbitraryOpcode uts st = Inr st'"
        "same_base st st'" "view (stack st') = operand_regs (at_mi w) @ view (stack st)"
        using regs by (auto simp: handleArbitraryOpcode_def simp flip: rev_map)
      moreover have "consumed A st w = []" using 4 regs by (simp add: consumed_def flip: regs)
      ultimately show ?thesis using 4 by (auto simp: leaves_def)
    qed
  qed
qed

section \<open>The patterns that are not supported\<close>

text \<open>
  With the first operand at its last use below the top and the second one directly below
  the top, the code is that of two last uses: the second register is consumed.
\<close>

lemma second_operand_lost:
  assumes "r1 \<in> set (view (stack st))" and "r2 \<in> set (view (stack st))" and "r1 \<noteq> r2"
    and "index_of r1 (view (stack st)) \<noteq> 0" and "index_of r2 (view (stack st)) = 1"
  shows "leaves st [r1, r2] (mset (view (stack st)) - {#r1, r2#})
    (handleBinaryOnStack True False r1 r2 st)"
proof -
  have "handleBinaryOnStack True False r1 r2 st = handleBinaryOnStack True True r1 r2 st"
    using assms
    by (simp add: handleBinaryOnStack_def findRegDepth_view first_last_use_def both_last_uses_def)
  with handleBinaryOnStack_ok [OF assms(1,2), of True True] assms(3) show ?thesis
    by (simp add: add_mset_commute)
qed

text \<open>One register as both operands at its last use: never two copies on the top.\<close>

lemma same_register_twice:
  assumes "distinct (view (stack st))" and "use_reg (snd u) = r" and "use_reg (snd v) = r"
  shows "\<not> is_ok (rbind (handleBinaryOnStack True True r r st) (foldM pop_use [u, v]))"
proof
  assume "is_ok (rbind (handleBinaryOnStack True True r r st) (foldM pop_use [u, v]))"
  then obtain st1 st2 where 1: "handleBinaryOnStack True True r r st = Inr st1"
    and 2: "foldM pop_use [u, v] st1 = Inr st2" by (auto simp: is_ok_iff rbind_eq_Inr)
  have "view (stack st1) = r # r # view (stack st2)" using pop_uses [OF 2] assms by simp
  moreover have "mset (view (stack st1)) = mset (view (stack st))"
  proof -
    have swap: "mset (view (stack b)) = mset (view (stack a))" if "SwapRegToTop r a = Inr b" for a b
      using SwapRegToTop_sim [OF that, of "\<lambda>_. ()" "\<lambda>_. ()"] by (auto simp: mset_swap_front)
    have swap1: "mset (view (stack b)) = mset (view (stack a))"
      if "insertSwapBefore (Suc 0) a = Inr b" for a b
      using insertSwapBefore_sim [OF that, of "\<lambda>_. ()" "\<lambda>_. ()"] by (auto simp: mset_swap0)
    show ?thesis using 1
      by (auto simp: handleBinaryOnStack_def both_last_uses_def rbind_eq_Inr split: if_splits
          dest!: swap swap1)
  qed
  ultimately have "\<not> distinct (view (stack st))" by (metis distinct.simps(2) list.set_intros(1) mset_eq_imp_distinct_iff)
  with assms(1) show False by blast
qed

end
