(* ===== verification/StackAllocSlots.thy ===== *)
theory StackAllocSlots
  imports StackAllocUses
begin

text \<open>
  The memory slots of the frame: allocation never hands out a slot that is in use, keeps
  the contents of the others and grows the frame size with the vector; freeing undoes an
  allocation at the end of the vector. The one exception, an empty slot 0, is shown too.
\<close>

section \<open>Allocation\<close>

lemma slot_loop_none:
  "NoRegister \<notin> set mem \<Longrightarrow> slot_loop r i mem = (mem, 0)"
  by (induction mem arbitrary: i) auto

lemma slot_loop_some:
  "NoRegister \<in> set mem \<Longrightarrow>
   slot_loop r i mem = (mem[index_of NoRegister mem := r], i + index_of NoRegister mem)"
  by (induction mem arbitrary: i) auto

lemma allocateMemorySlot_cases:
  assumes "r \<noteq> NoRegister"
  shows "allocateMemorySlot r st =
    (let mem = memoryAssignment st; k = index_of NoRegister mem in
     if NoRegister \<notin> set mem
     then Inr (length mem, updateMemoryFrameSize (Suc (length mem)) (st\<lparr>memoryAssignment := mem @ [r]\<rparr>))
     else if k = 0
     then Inr (length mem, updateMemoryFrameSize (Suc (length mem))
                (st\<lparr>memoryAssignment := mem[0 := r] @ [r]\<rparr>))
     else Inr (k, st\<lparr>memoryAssignment := mem[k := r]\<rparr>))"
  using assms
  by (simp add: allocateMemorySlot_def slot_loop_none slot_loop_some Let_def)

definition held :: "alloc \<Rightarrow> reg \<Rightarrow> nat \<Rightarrow> bool" where
  "held st r sl \<longleftrightarrow> sl < length (memoryAssignment st) \<and> memoryAssignment st ! sl = r"

text \<open>An allocation succeeds, returns a slot that was free and keeps every held slot.\<close>

lemma allocateMemorySlot_ok:
  assumes "r \<noteq> NoRegister"
  obtains sl st' where "allocateMemorySlot r st = Inr (sl, st')"
    and "held st' r sl" and "\<And>q. q \<noteq> NoRegister \<Longrightarrow> \<not> held st q sl"
    and "\<And>q k. q \<noteq> NoRegister \<Longrightarrow> held st q k \<Longrightarrow> held st' q k"
    and "\<And>q k. q \<noteq> r \<Longrightarrow> held st' q k \<Longrightarrow> held st q k"
    and "st' = st\<lparr>memoryAssignment := memoryAssignment st', memoryFrameSize := memoryFrameSize st'\<rparr>"
proof -
  let ?mem = "memoryAssignment st" and ?k = "index_of NoRegister (memoryAssignment st)"
  have k: "?k < length ?mem" "?mem ! ?k = NoRegister" if "NoRegister \<in> set ?mem"
    using that by (auto simp: index_of_less)
  consider "NoRegister \<notin> set ?mem" | "NoRegister \<in> set ?mem" "?k = 0"
    | "NoRegister \<in> set ?mem" "?k \<noteq> 0" by blast
  then show thesis
  proof cases
    case 1
    with assms show thesis
      by (intro that [of "length ?mem"
            "updateMemoryFrameSize (Suc (length ?mem)) (st\<lparr>memoryAssignment := ?mem @ [r]\<rparr>)"])
         (auto simp: allocateMemorySlot_cases Let_def held_def updateMemoryFrameSize_def nth_append
           less_Suc_eq)
  next
    case 2
    with assms k show thesis
      by (intro that [of "length ?mem"
            "updateMemoryFrameSize (Suc (length ?mem)) (st\<lparr>memoryAssignment := ?mem[0 := r] @ [r]\<rparr>)"])
         (auto simp: allocateMemorySlot_cases Let_def held_def updateMemoryFrameSize_def nth_append
           less_Suc_eq nth_list_update intro!: gr0I)
  next
    case 3
    with assms k show thesis
      by (intro that [of ?k "st\<lparr>memoryAssignment := ?mem[?k := r]\<rparr>"])
         (auto simp: allocateMemorySlot_cases Let_def held_def nth_list_update)
  qed
qed

text \<open>The slots in use by distinct registers, and the frame that has room for all of them.\<close>

definition slots_distinct :: "alloc \<Rightarrow> bool" where
  "slots_distinct st = distinct (filter (\<lambda>m. m \<noteq> NoRegister) (memoryAssignment st))"

definition frame_covers :: "alloc \<Rightarrow> bool" where
  "frame_covers st = (length (memoryAssignment st) \<le> memoryFrameSize st)"

lemma filter_update_slot:
  "k < length mem \<Longrightarrow> mem ! k = NoRegister \<Longrightarrow> r \<noteq> NoRegister \<Longrightarrow>
   mset (filter (\<lambda>m. m \<noteq> NoRegister) (mem[k := r])) =
   add_mset r (mset (filter (\<lambda>m. m \<noteq> NoRegister) mem))"
proof (induction mem arbitrary: k)
  case (Cons m mem)
  then show ?case by (cases k) (auto simp: add_mset_commute)
qed simp

lemma distinct_mset_iff: "mset xs = mset ys \<Longrightarrow> distinct xs = distinct ys"
  by (rule mset_eq_imp_distinct_iff)

lemma allocateMemorySlot_distinct:
  assumes "r \<noteq> NoRegister" and "r \<notin> set (memoryAssignment st)" and "slots_distinct st"
    and "memoryAssignment st = [] \<or> memoryAssignment st ! 0 \<noteq> NoRegister"
    and "allocateMemorySlot r st = Inr (sl, st')"
  shows "slots_distinct st'"
proof (cases "NoRegister \<in> set (memoryAssignment st)")
  case True
  let ?mem = "memoryAssignment st" and ?k = "index_of NoRegister (memoryAssignment st)"
  have k: "?k < length ?mem" "?mem ! ?k = NoRegister" using True by (auto simp: index_of_less)
  moreover have "?k \<noteq> 0" using True k assms(4) by (metis length_pos_if_in_set less_numeral_extra(3) list.size(3))
  ultimately have st': "memoryAssignment st' = ?mem[?k := r]"
    using assms(1,5) True by (auto simp: allocateMemorySlot_cases Let_def)
  have "distinct (r # filter (\<lambda>m. m \<noteq> NoRegister) ?mem)"
    using assms(2,3) by (auto simp: slots_distinct_def)
  then show ?thesis
    unfolding slots_distinct_def st'
    using distinct_mset_iff [of "filter (\<lambda>m. m \<noteq> NoRegister) (?mem[?k := r])"
        "r # filter (\<lambda>m. m \<noteq> NoRegister) ?mem"] filter_update_slot [OF k assms(1)] by simp
next
  case False
  with assms show ?thesis
    by (auto simp: allocateMemorySlot_cases Let_def slots_distinct_def updateMemoryFrameSize_def)
qed

lemma allocateMemorySlot_frame:
  assumes "frame_covers st" and "allocateMemorySlot r st = Inr (sl, st')"
  shows "frame_covers st' \<and> sl < memoryFrameSize st'"
proof -
  have r: "r \<noteq> NoRegister" using assms(2) by (auto simp: allocateMemorySlot_def)
  show ?thesis
    using assms index_of_less [of NoRegister "memoryAssignment st"]
    by (auto simp: allocateMemorySlot_cases [OF r] Let_def frame_covers_def
        updateMemoryFrameSize_def split: if_splits)
qed

text \<open>An empty slot 0 is filled and, being taken for "none found", not used: two slots.\<close>

lemma allocateMemorySlot_slot0:
  assumes "r \<noteq> NoRegister" and "memoryAssignment st = NoRegister # mem"
  shows "\<exists>st'. allocateMemorySlot r st = Inr (Suc (length mem), st') \<and>
    held st' r 0 \<and> held st' r (Suc (length mem)) \<and> \<not> slots_distinct st'"
  using assms
  by (auto simp: allocateMemorySlot_def held_def slots_distinct_def updateMemoryFrameSize_def)

section \<open>Release\<close>

lemma clear_slot_snoc: "r \<notin> set mem \<Longrightarrow> clear_slot r (mem @ [r]) = Some (mem @ [NoRegister])"
  by (induction mem) auto

lemma trim_slots_snoc [simp]: "trim_slots (mem @ [NoRegister]) = trim_slots mem"
  by (simp add: trim_slots_def)

lemma trim_slots_empty [simp]: "trim_slots [NoRegister] = []"
  by (simp add: trim_slots_def)

lemma trim_slots_id: "mem = [] \<or> last mem \<noteq> NoRegister \<Longrightarrow> trim_slots mem = mem"
  by (cases mem rule: rev_cases) (auto simp: trim_slots_def)

lemma clear_slot_update:
  "k < length mem \<Longrightarrow> r \<notin> set mem \<Longrightarrow> clear_slot r (mem[k := r]) = Some (mem[k := NoRegister])"
proof (induction mem arbitrary: k)
  case (Cons m mem)
  then show ?case by (cases k) auto
qed simp

text \<open>Freeing a slot right after its allocation gives the old assignment back.\<close>

lemma allocate_deallocate:
  assumes "r \<noteq> NoRegister" and "r \<notin> set (memoryAssignment st)"
    and "memoryAssignment st = [] \<or> last (memoryAssignment st) \<noteq> NoRegister"
    and "memoryAssignment st = [] \<or> memoryAssignment st ! 0 \<noteq> NoRegister"
    and "allocateMemorySlot r st = Inr (sl, st')"
  shows "\<exists>st''. deallocateMemorySlot r st' = Inr st'' \<and>
    memoryAssignment st'' = memoryAssignment st"
proof (cases "NoRegister \<in> set (memoryAssignment st)")
  case True
  let ?mem = "memoryAssignment st" and ?k = "index_of NoRegister (memoryAssignment st)"
  have k: "?k < length ?mem" "?mem ! ?k = NoRegister" using True by (auto simp: index_of_less)
  moreover have "?k \<noteq> 0" using True k assms(4) by (metis length_pos_if_in_set less_numeral_extra(3) list.size(3))
  ultimately have st': "st' = st\<lparr>memoryAssignment := ?mem[?k := r]\<rparr>"
    using assms(1,5) True by (auto simp: allocateMemorySlot_cases Let_def)
  have "?mem[?k := NoRegister] = ?mem" using k by (metis list_update_id)
  with clear_slot_update [OF k(1) assms(2)] assms(3) show ?thesis
    by (simp add: st' deallocateMemorySlot_def trim_slots_id)
next
  case False
  with assms show ?thesis
    by (auto simp: allocateMemorySlot_cases Let_def deallocateMemorySlot_def
        updateMemoryFrameSize_def clear_slot_snoc trim_slots_id)
qed

lemma clear_slot_spec:
  "clear_slot r mem = (if r \<in> set mem then Some (mem[index_of r mem := NoRegister]) else None)"
  by (induction mem) auto

text \<open>Freeing keeps the slots of the other registers.\<close>

lemma trim_slots_held:
  "q \<noteq> NoRegister \<Longrightarrow> k < length mem \<Longrightarrow> mem ! k = q \<Longrightarrow>
   k < length (trim_slots mem) \<and> trim_slots mem ! k = q"
proof (induction mem rule: rev_induct)
  case (snoc m mem)
  then show ?case
    by (cases "m = NoRegister") (auto simp: nth_append trim_slots_id less_Suc_eq split: if_splits)
qed simp

lemma deallocateMemorySlot_held:
  assumes "deallocateMemorySlot r st = Inr st'" and "held st q k" and "q \<noteq> r" and "q \<noteq> NoRegister"
  shows "held st' q k"
proof -
  have m: "memoryAssignment st' =
      trim_slots ((memoryAssignment st)[index_of r (memoryAssignment st) := NoRegister])"
    using assms(1) by (auto simp: deallocateMemorySlot_def clear_slot_spec split: if_splits)
  have "index_of r (memoryAssignment st) \<noteq> k"
    using assms by (auto simp: held_def deallocateMemorySlot_def clear_slot_spec split: if_splits)
  then show ?thesis
    unfolding held_def m using assms(2,4)
    by (intro trim_slots_held) (auto simp: held_def)
qed

end
