(* ===== verification/StackAllocBlock.thy ===== *)
theory StackAllocBlock
  imports StackAllocTotal StackAllocSlots
begin

text \<open>
  Correctness of the allocation of a straight-line run of instructions. The register
  machine gives every instruction the value \<open>f mi vs\<close>, a function of the instruction and of
  its operand values; the stack machine runs the rewritten code, an original instruction
  popping its operands and pushing its value. The simulation lemma relates the two as long
  as every instruction meets \<open>site_ok\<close>.
\<close>

section \<open>The two machines\<close>

definition is_manip :: "minstr \<Rightarrow> bool" where
  "is_manip mi = (mi_opcode mi \<in> {DUP_r, SWAP_r, R POP, pGETLOCAL_r, pPUTLOCAL_r})"

type_synonym 'v semantics = "minstr \<Rightarrow> 'v list \<Rightarrow> 'v"

definition exec_code :: "'v semantics \<Rightarrow> minstr \<Rightarrow> 'v frame \<Rightarrow> 'v frame option" where
  "exec_code f mi fr =
     (if is_manip mi then exec_manip mi fr
      else case fr of (s, loc) \<Rightarrow>
        let n = length (operand_regs mi) in
        if n \<le> length s
        then Some ((if explicit_defs mi = [] then [] else [f mi (take n s)]) @ drop n s, loc)
        else None)"

fun run_code :: "'v semantics \<Rightarrow> minstr list \<Rightarrow> 'v frame \<Rightarrow> 'v frame option" where
  "run_code f [] fr = Some fr"
| "run_code f (mi # mis) fr =
     (case exec_code f mi fr of None \<Rightarrow> None | Some fr' \<Rightarrow> run_code f mis fr')"

definition reg_step :: "'v semantics \<Rightarrow> minstr \<Rightarrow> (reg \<Rightarrow> 'v) \<Rightarrow> reg \<Rightarrow> 'v" where
  "reg_step f mi \<rho> =
     (case explicit_defs mi of
        [] \<Rightarrow> \<rho>
      | mo # _ \<Rightarrow> \<rho>(getReg mo := f mi (map \<rho> (operand_regs mi))))"

lemma run_code_append:
  "run_code f (xs @ ys) fr =
     (case run_code f xs fr of None \<Rightarrow> None | Some fr' \<Rightarrow> run_code f ys fr')"
  by (induction xs arbitrary: fr) (auto split: option.splits)

lemma exec_manip_is_manip: "exec_manip mi fr = Some fr' \<Longrightarrow> is_manip mi"
  by (auto simp: exec_manip_def is_manip_def split: prod.splits opcode.splits base.splits)

lemma run_manip_is_manip: "run_manip xs fr = Some fr' \<Longrightarrow> mi \<in> set xs \<Longrightarrow> is_manip mi"
  by (induction xs arbitrary: fr) (auto split: option.splits dest: exec_manip_is_manip)

lemma run_manip_code: "run_manip xs fr = Some fr' \<Longrightarrow> run_code f xs fr = Some fr'"
proof (induction xs arbitrary: fr)
  case (Cons mi mis)
  then show ?case
    by (auto simp: exec_code_def split: option.splits dest: exec_manip_is_manip)
qed simp

section \<open>Conditions on an instruction\<close>

definition mem_held :: "alloc \<Rightarrow> reg \<Rightarrow> bool" where
  "mem_held st r =
     (case regAssignments st r of None \<Rightarrow> True
      | Some SA \<Rightarrow> region SA = NONSTACK \<longrightarrow>
          slot SA < length (memoryAssignment st) \<and> memoryAssignment st ! slot SA = r)"

text \<open>
  The register defined here is defined for the first time, and used somewhere; a register
  operand that lives in memory still owns its slot.
\<close>

definition site_ok :: "alloc \<Rightarrow> site \<Rightarrow> bool" where
  "site_ok st w \<longleftrightarrow>
     \<not> is_manip (at_mi w) \<and> list_all (mem_held st) (operand_regs (at_mi w)) \<and>
     (case explicit_defs (at_mi w) of
        [] \<Rightarrow> True
      | mo # _ \<Rightarrow> getReg mo \<noteq> NoRegister \<and> regAssignments st (getReg mo) = None \<and>
          getReg mo \<notin> set (view (stack st)) \<and> \<not> use_nodbg_empty st (getReg mo))"

text \<open>
  An instruction with more than two operands is followed by the clean-up of its dead
  operands, which requires its result, if any, on the stack, and a following instruction.
\<close>

definition cleanup_ok :: "site \<Rightarrow> alloc \<Rightarrow> bool" where
  "cleanup_ok w st' \<longleftrightarrow>
     length (explicit_uses (at_mi w)) \<le> 2 \<or>
     \<not> at_last w \<and>
     (case explicit_defs (at_mi w) of
        [] \<Rightarrow> True
      | mo # _ \<Rightarrow> (case regAssignments st' (getReg mo) of
            None \<Rightarrow> False | Some SA \<Rightarrow> region SA = L_STACK))"

definition locals_ok :: "(reg \<Rightarrow> 'v) \<Rightarrow> (nat \<Rightarrow> 'v) \<Rightarrow> alloc \<Rightarrow> bool" where
  "locals_ok \<rho> loc st \<longleftrightarrow>
     (\<forall>r SA. regAssignments st r = Some SA \<longrightarrow> region SA = NONSTACK \<longrightarrow> held st r (slot SA) \<longrightarrow>
        r \<noteq> NoRegister \<and> loc (slot SA) = \<rho> r)"

lemma locals_mem_ok:
  assumes "locals_ok \<rho> loc st" and "list_all (mem_held st) rs"
  shows "mem_ok \<rho> loc st (set rs)"
  unfolding mem_ok_def
proof (intro ballI allI impI)
  fix r SA assume "r \<in> set rs" and *: "regAssignments st r = Some SA" "region SA = NONSTACK"
  then have "held st r (slot SA)" using assms(2) by (auto simp: list_all_iff mem_held_def held_def)
  with assms(1) * show "loc (slot SA) = \<rho> r" by (simp add: locals_ok_def)
qed

section \<open>Definitions\<close>

text \<open>The two ways a first definition is placed.\<close>

definition placed_on_stack :: "reg \<Rightarrow> alloc \<Rightarrow> alloc \<Rightarrow> bool" where
  "placed_on_stack d st st' \<longleftrightarrow>
     view (stack st') = d # view (stack st) \<and> pre st' = pre st \<and> post st' = post st \<and>
     regAssignments st' = (regAssignments st)(d \<mapsto> \<lparr>region = L_STACK, slot = 0\<rparr>) \<and>
     memoryAssignment st' = memoryAssignment st"

definition placed_in_memory :: "reg \<Rightarrow> nat \<Rightarrow> alloc \<Rightarrow> alloc \<Rightarrow> bool" where
  "placed_in_memory d sl st st' \<longleftrightarrow>
     stack st' = stack st \<and> pre st' = pre st \<and> post st' = PUTLOCAL_MI d sl # post st \<and>
     regAssignments st' = (regAssignments st)(d \<mapsto> \<lparr>region = NONSTACK, slot = sl\<rparr>) \<and>
     (\<forall>q. q \<noteq> NoRegister \<longrightarrow> \<not> held st q sl) \<and>
     (\<forall>q k. q \<noteq> d \<longrightarrow> held st' q k \<longrightarrow> held st q k)"

lemma handleDef_placed:
  assumes run: "handleDef A w st = Inr st'" and d: "explicit_defs (at_mi w) = mo # mos"
    and fresh: "getReg mo \<noteq> NoRegister" "regAssignments st (getReg mo) = None"
    and used: "\<not> use_nodbg_empty st (getReg mo)"
  shows "placed_on_stack (getReg mo) st st' \<or> (\<exists>sl. placed_in_memory (getReg mo) sl st st')"
proof -
  let ?d = "getReg mo"
  have g: "getDefRegister (at_mi w) = Inr ?d"
    using run d by (cases mos) (auto simp: handleDef_def getDefRegister_def)
  consider "st' = (insert_assignment ?d L_STACK 0 st)\<lparr>cur_L := insert ?d (cur_L st),
      stack := stack_push ?d (stack st)\<rparr>"
    | sl st1 where "store_def ?d st = Inr (sl, st1)" "st' = insertStoreToMemoryAfter w ?d sl st1"
    using run d g used
    by (auto simp: handleDef_def rbind_eq_Inr Let_def insert_assignment_def split: if_splits)
  then show ?thesis
  proof cases
    case 1
    then show ?thesis using fresh by (simp add: insert_assignment_def placed_on_stack_def)
  next
    case (2 sl st1)
    let ?st = "st\<lparr>cur_M := insert ?d (cur_M st)\<rparr>"
    obtain st2 where a: "allocateMemorySlot ?d ?st = Inr (sl, st2)"
      and st1: "st1 = insert_assignment ?d NONSTACK sl st2"
      using 2(1) by (auto simp: store_def_def rbind_eq_Inr)
    obtain sl' st2' where b: "allocateMemorySlot ?d ?st = Inr (sl', st2')"
      "\<And>q. q \<noteq> NoRegister \<Longrightarrow> \<not> held ?st q sl'"
      "\<And>q k. q \<noteq> ?d \<Longrightarrow> held st2' q k \<Longrightarrow> held ?st q k"
      "st2' = ?st\<lparr>memoryAssignment := memoryAssignment st2', memoryFrameSize := memoryFrameSize st2'\<rparr>"
      using allocateMemorySlot_ok [OF fresh(1), of ?st] by metis
    from a b(1) have e: "sl' = sl" "st2' = st2" by simp_all
    obtain m n where "st2 = ?st\<lparr>memoryAssignment := m, memoryFrameSize := n\<rparr>"
      using b(4) unfolding e by blast
    then have f: "regAssignments st2 = regAssignments st" "stack st2 = stack st" "pre st2 = pre st"
      "post st2 = post st" by simp_all
    have "placed_in_memory ?d sl st st'"
      using 2(2) st1 f fresh(2) b(2,3)
      by (simp add: e placed_in_memory_def insertStoreToMemoryAfter_def emit_after_def
          insert_assignment_def held_def)
    then show ?thesis by blast
  qed
qed

section \<open>Clean-up\<close>

lemma with_stack_Inr: "with_stack g st = Inr st' \<longleftrightarrow> (\<exists>s. g (stack st) = Inr s \<and> st' = st\<lparr>stack := s\<rparr>)"
  by (auto simp: with_stack_def rbind_eq_Inr)

lemma drop_top_Inr: "drop_top s = Inr s' \<Longrightarrow> \<exists>r. view s = r # view s'"
  by (auto simp: drop_top_def rbind_eq_Inr dest!: stack_pop_Inr)

lemma cleanup_use_sim:
  assumes "cleanup_use False u (cs, st) = Inr (cs', st')"
  shows "\<exists>new s. cs' = cs @ new \<and> st' = st\<lparr>stack := s\<rparr> \<and>
    run_manip new (map \<rho> (view (stack st)), loc) = Some (map \<rho> (view s), loc)"
proof (cases "isLastUse (snd u)")
  case False
  with assms show ?thesis by (intro exI [of _ "[]"] exI [of _ "stack st"]) (auto simp: cleanup_use_def)
next
  case True
  with assms obtain d st1 s where
    1: "(if d \<noteq> 0 then with_stack (stack_swap d) st else Inr st) = Inr st1"
    and 2: "drop_top (stack st1) = Inr s" and st': "st' = st1\<lparr>stack := s\<rparr>"
    and cs': "cs' = cs @ (if d \<noteq> 0 then [SWAP_MI d] else []) @ [POP_MI]"
    by (auto simp: cleanup_use_def rbind_eq_Inr with_stack_Inr)
  obtain r where r: "view (stack st1) = r # view s" using drop_top_Inr [OF 2] by blast
  show ?thesis
  proof (cases "d = 0")
    case True
    then show ?thesis using 1 r st' cs' by (intro exI [of _ "[POP_MI]"] exI [of _ s]) auto
  next
    case False
    then obtain t where t: "stack_swap d (stack st) = Inr t" "st1 = st\<lparr>stack := t\<rparr>"
      using 1 by (auto simp: with_stack_Inr)
    from stack_swap_Inr [OF t(1)] False r t(2)
    have "d < length (view (stack st))" "swap0 d (view (stack st)) = r # view s" by auto
    then have "swap0 d (map \<rho> (view (stack st))) = \<rho> r # map \<rho> (view s)"
      using map_swap0 [of d "view (stack st)" \<rho>] by simp
    with False t(2) st' cs' \<open>d < length (view (stack st))\<close> show ?thesis
      by (intro exI [of _ "[SWAP_MI d, POP_MI]"] exI [of _ s]) auto
  qed
qed

lemma cleanup_uses_sim:
  assumes "foldM (cleanup_use False) us (cs, st) = Inr (cs', st')"
  shows "\<exists>new s. cs' = cs @ new \<and> st' = st\<lparr>stack := s\<rparr> \<and>
    run_manip new (map \<rho> (view (stack st)), loc) = Some (map \<rho> (view s), loc)"
  using assms
proof (induction us arbitrary: cs st)
  case Nil
  then show ?case by (intro exI [of _ "[]"] exI [of _ "stack st"]) auto
next
  case (Cons u us)
  then obtain cs1 st1 where 1: "cleanup_use False u (cs, st) = Inr (cs1, st1)"
    and 2: "foldM (cleanup_use False) us (cs1, st1) = Inr (cs', st')"
    by (auto simp: rbind_eq_Inr)
  from cleanup_use_sim [OF 1, of \<rho> loc] obtain n1 s1 where n1: "cs1 = cs @ n1"
    "st1 = st\<lparr>stack := s1\<rparr>"
    "run_manip n1 (map \<rho> (view (stack st)), loc) = Some (map \<rho> (view s1), loc)" by blast
  from Cons.IH [OF 2] obtain n2 s2 where "cs' = cs1 @ n2" "st' = st1\<lparr>stack := s2\<rparr>"
    "run_manip n2 (map \<rho> (view (stack st1)), loc) = Some (map \<rho> (view s2), loc)" by blast
  with n1 show ?case by (intro exI [of _ "n1 @ n2"] exI [of _ s2]) (simp add: run_manip_append)
qed

text \<open>Outside the end of a block and with no store waiting, the clean-up is a simulation.\<close>

lemma cleanUpDeadRegisters_sim:
  assumes "cleanUpDeadRegisters A w st = Inr st'"
    and "length (explicit_uses (at_mi w)) \<le> 2 \<or> \<not> at_last w"
  shows "\<exists>new s. st' = st\<lparr>stack := s, post := new @ post st\<rparr> \<and>
    (length (explicit_uses (at_mi w)) \<le> 2 \<longrightarrow> new = []) \<and>
    run_manip new (map \<rho> (view (stack st)), loc) = Some (map \<rho> (view s), loc)"
proof (cases "length (explicit_uses (at_mi w)) \<le> 2")
  case True
  with assms(1) show ?thesis
    by (intro exI [of _ "[]"] exI [of _ "stack st"]) (auto simp: cleanUpDeadRegisters_def)
next
  case False
  with assms obtain us cs st1 where "foldM (cleanup_use False) us ([], st) = Inr (cs, st1)"
    and st': "st' = st1\<lparr>post := cs @ post st1\<rparr>"
    by (auto simp: cleanUpDeadRegisters_def rbind_eq_Inr)
  from cleanup_uses_sim [OF this(1), of \<rho> loc] obtain s where "st1 = st\<lparr>stack := s\<rparr>"
    "run_manip cs (map \<rho> (view (stack st)), loc) = Some (map \<rho> (view s), loc)" by auto
  with st' False show ?thesis by (intro exI [of _ cs] exI [of _ s]) simp
qed

section \<open>One instruction\<close>

lemma exec_original:
  assumes "\<not> is_manip mi"
  shows "exec_code f mi (map \<rho> (operand_regs mi) @ s, loc) =
    Some ((if explicit_defs mi = [] then [] else [f mi (map \<rho> (operand_regs mi))]) @ s, loc)"
  using assms by (simp add: exec_code_def Let_def)

lemma map_fun_upd_fresh: "d \<notin> set xs \<Longrightarrow> map (\<rho>(d := v)) xs = map \<rho> xs"
  by simp

text \<open>
  After the instruction and its definition: the machine stack is the symbolic stack and,
  after the pending stores, the locals agree.
\<close>

lemma handleDef_sim:
  fixes f :: "'v semantics" and \<rho> :: "reg \<Rightarrow> 'v"
  assumes run: "handleDef A w st = Inr st'" and ok: "site_ok st0 w"
    and same: "regAssignments st = regAssignments st0" "mri_uses st = mri_uses st0"
    and nv: "\<And>r. r \<in> set (view (stack st)) \<Longrightarrow> r \<in> set (view (stack st0)) \<or> regAssignments st0 r \<noteq> None"
    and loc: "locals_ok \<rho> loc st" and post: "post st = []"
  defines "\<rho>' \<equiv> reg_step f (at_mi w) \<rho>"
  shows "pre st' = pre st \<and> list_all is_manip (post st') \<and> (\<exists>loc'. run_code f (at_mi w # post st')
      (map \<rho> (operand_regs (at_mi w)) @ map \<rho> (view (stack st)), loc) =
      Some (map \<rho>' (view (stack st')), loc') \<and> locals_ok \<rho>' loc' st')"
proof (cases "explicit_defs (at_mi w)")
  case Nil
  then have "st' = st" "\<rho>' = \<rho>" using run by (simp_all add: handleDef_def \<rho>'_def reg_step_def)
  moreover have "\<not> is_manip (at_mi w)" using ok by (simp add: site_ok_def)
  ultimately show ?thesis using Nil loc post by (simp add: exec_original)
next
  case (Cons mo mos)
  let ?d = "getReg mo" and ?v = "f (at_mi w) (map \<rho> (operand_regs (at_mi w)))"
  have m: "\<not> is_manip (at_mi w)" and d: "?d \<noteq> NoRegister" "regAssignments st ?d = None"
    "?d \<notin> set (view (stack st0))" "\<not> use_nodbg_empty st ?d"
    using ok Cons same by (simp_all add: site_ok_def use_nodbg_empty_def uses_of_def)
  have dv: "?d \<notin> set (view (stack st))" using nv [of ?d] d same by auto
  have \<rho>': "\<rho>' = \<rho>(?d := ?v)" using Cons by (simp add: \<rho>'_def reg_step_def)
  from handleDef_placed [OF run Cons d(1,2,4)] show ?thesis
  proof (elim disjE exE)
    assume p: "placed_on_stack ?d st st'"
    then have "locals_ok \<rho>' loc st'"
      using loc by (auto simp: locals_ok_def placed_on_stack_def \<rho>' held_def)
    with p m Cons dv post show ?thesis
      by (simp add: placed_on_stack_def exec_original \<rho>' map_fun_upd_fresh del: map_fun_upd)
  next
    fix sl assume p: "placed_in_memory ?d sl st st'"
    have "locals_ok \<rho>' (loc(sl := ?v)) st'"
      unfolding locals_ok_def
    proof (intro allI impI)
      fix r SA assume a: "regAssignments st' r = Some SA" "region SA = NONSTACK" "held st' r (slot SA)"
      show "r \<noteq> NoRegister \<and> (loc(sl := ?v)) (slot SA) = \<rho>' r"
      proof (cases "r = ?d")
        case True
        with a p d(1) show ?thesis by (auto simp: placed_in_memory_def \<rho>')
      next
        case False
        with a p have h: "held st r (slot SA)" "regAssignments st r = Some SA"
          by (simp_all add: placed_in_memory_def)
        with loc a(2) have "r \<noteq> NoRegister" "loc (slot SA) = \<rho> r" by (simp_all add: locals_ok_def)
        moreover from this h p have "slot SA \<noteq> sl" by (auto simp: placed_in_memory_def)
        ultimately show ?thesis using False by (simp add: \<rho>')
      qed
    qed
    moreover have "exec_code f (PUTLOCAL_MI ?d sl) (?v # s, loc) = Some (s, loc(sl := ?v))" for s
      by (simp add: exec_code_def is_manip_def)
    ultimately show ?thesis using p m Cons dv post
      by (auto simp: placed_in_memory_def exec_original \<rho>' map_fun_upd_fresh is_manip_def
          simp del: map_fun_upd)
  qed
qed

lemma analyzeInstr_sim:
  fixes f :: "'v semantics" and \<rho> :: "reg \<Rightarrow> 'v"
  assumes run: "analyzeInstr A w (code, st) = Inr (code', st')"
    and ok: "site_ok st w" and clean: "cleanup_ok w st'" and loc: "locals_ok \<rho> loc st"
  shows "\<exists>new loc'. code' = code @ new \<and> (\<forall>mi \<in> set new. is_manip mi \<or> mi = at_mi w) \<and>
    locals_ok (reg_step f (at_mi w) \<rho>) loc' st' \<and>
    run_code f new (map \<rho> (view (stack st)), loc) =
      Some (map (reg_step f (at_mi w) \<rho>) (view (stack st')), loc')"
proof -
  let ?st = "st\<lparr>pre := [], post := []\<rparr>" and ?\<rho> = "reg_step f (at_mi w) \<rho>"
  obtain st1 st2 where 1: "handleUses A w ?st = Inr st1" and 2: "handleDef A w st1 = Inr st2"
    and 3: "cleanUpDeadRegisters A w st2 = Inr st'"
    and code': "code' = code @ pre st' @ [at_mi w] @ post st'"
    using run by (auto simp: analyzeInstr_def rbind_eq_Inr)
  have "mem_ok \<rho> loc ?st (set (operand_regs (at_mi w)))"
    using locals_mem_ok [OF loc, of "operand_regs (at_mi w)"] ok by (simp add: site_ok_def mem_ok_def)
  from handleUses_sim [OF 1 this] obtain c1 where b: "same_base ?st st1"
    and nv: "\<And>r. r \<in> set (view (stack st1)) \<Longrightarrow> r \<in> set (view (stack st)) \<or> regAssignments st r \<noteq> None"
    and c1: "pre st1 = c1" "run_manip c1 (map \<rho> (view (stack st)), loc) =
       Some (map \<rho> (operand_regs (at_mi w)) @ map \<rho> (view (stack st1)), loc)"
    by auto
  have "locals_ok \<rho> loc st1" using loc b by (simp add: locals_ok_def same_base_def held_def)
  with handleDef_sim [OF 2 ok _ _ nv, of \<rho> loc f] b obtain loc' where pre2: "pre st2 = pre st1"
    and post2: "list_all is_manip (post st2)" and r2: "run_code f (at_mi w # post st2)
      (map \<rho> (operand_regs (at_mi w)) @ map \<rho> (view (stack st1)), loc) =
      Some (map ?\<rho> (view (stack st2)), loc')" and l2: "locals_ok ?\<rho> loc' st2"
    by (auto simp: same_base_def)
  obtain new s where st': "st' = st2\<lparr>stack := s, post := new @ post st2\<rparr>"
    and short: "length (explicit_uses (at_mi w)) \<le> 2 \<Longrightarrow> new = []"
    and r3: "run_manip new (map ?\<rho> (view (stack st2)), loc') = Some (map ?\<rho> (view s), loc')"
    using cleanUpDeadRegisters_sim [OF 3, of ?\<rho> loc'] clean by (auto simp: cleanup_ok_def)
  have "run_code f (at_mi w # post st')
      (map \<rho> (operand_regs (at_mi w)) @ map \<rho> (view (stack st1)), loc) =
      Some (map ?\<rho> (view (stack st')), loc')"
  proof (cases "post st2 = []")
    case True
    then show ?thesis using r2 run_manip_code [OF r3]
      by (auto simp: st' split: option.splits)
  next
    case False
    have "new = []"
    proof (rule ccontr)
      assume n: "new \<noteq> []"
      with short have "2 < length (explicit_uses (at_mi w))" by force
      with clean n have c: "case explicit_defs (at_mi w) of [] \<Rightarrow> True
          | mo # _ \<Rightarrow> (case regAssignments st2 (getReg mo) of
              None \<Rightarrow> False | Some SA \<Rightarrow> region SA = L_STACK)"
        by (simp add: cleanup_ok_def st' split: list.splits)
      have p1: "post st1 = []" using b by (simp add: same_base_def)
      show False
      proof (cases "explicit_defs (at_mi w)")
        case Nil
        with 2 have "st2 = st1" by (simp add: handleDef_def)
        with False p1 show False by simp
      next
        case (Cons mo mos)
        with ok b have "getReg mo \<noteq> NoRegister" "regAssignments st1 (getReg mo) = None"
          "\<not> use_nodbg_empty st1 (getReg mo)"
          by (simp_all add: site_ok_def same_base_def use_nodbg_empty_def uses_of_def)
        from handleDef_placed [OF 2 Cons this] c Cons False p1 show False
          by (auto simp: placed_on_stack_def placed_in_memory_def)
      qed
    qed
    then show ?thesis using r2 r3 by (simp add: st')
  qed
  moreover have "locals_ok ?\<rho> loc' st'" using l2 by (simp add: st' locals_ok_def held_def)
  moreover have "\<forall>mi \<in> set (pre st' @ [at_mi w] @ post st'). is_manip mi \<or> mi = at_mi w"
    using run_manip_is_manip [OF c1(2)] run_manip_is_manip [OF r3] post2 c1(1) pre2
    by (auto simp: st' list_all_iff)
  ultimately show ?thesis
    using run_manip_code [OF c1(2)] code' c1(1) pre2
    by (intro exI [of _ "pre st' @ [at_mi w] @ post st'"] exI [of _ loc'])
       (simp add: st' run_code_append)
qed

section \<open>A run of instructions\<close>

fun sites_ok :: "analyses \<Rightarrow> site list \<Rightarrow> minstr list \<times> alloc \<Rightarrow> bool" where
  "sites_ok A [] ca = True"
| "sites_ok A (w # ws) ca =
     (site_ok (snd ca) w \<and>
      (case analyzeInstr A w ca of
         Inl _ \<Rightarrow> False
       | Inr ca' \<Rightarrow> cleanup_ok w (snd ca') \<and> sites_ok A ws ca'))"

definition reg_run :: "'v semantics \<Rightarrow> site list \<Rightarrow> (reg \<Rightarrow> 'v) \<Rightarrow> reg \<Rightarrow> 'v" where
  "reg_run f ws = fold (\<lambda>w. reg_step f (at_mi w)) ws"

lemma analyzeInstrs_sim:
  fixes f :: "'v semantics" and \<rho> :: "reg \<Rightarrow> 'v"
  assumes "sites_ok A ws (code, st)" and "locals_ok \<rho> loc st"
  shows "\<exists>new st' loc'. foldM (analyzeInstr A) ws (code, st) = Inr (code @ new, st') \<and>
    (\<forall>mi \<in> set new. is_manip mi \<or> mi \<in> at_mi ` set ws) \<and>
    locals_ok (reg_run f ws \<rho>) loc' st' \<and>
    run_code f new (map \<rho> (view (stack st)), loc) =
      Some (map (reg_run f ws \<rho>) (view (stack st')), loc')"
  using assms
proof (induction ws arbitrary: code st \<rho> loc)
  case Nil
  then show ?case by (auto simp: reg_run_def)
next
  case (Cons w ws)
  from Cons.prems(1) obtain c1 st1 where 1: "analyzeInstr A w (code, st) = Inr (c1, st1)"
    and ok: "site_ok st w" "cleanup_ok w st1" "sites_ok A ws (c1, st1)"
    by (auto split: sum.splits)
  from analyzeInstr_sim [OF 1 ok(1,2) Cons.prems(2), of f] obtain n1 loc1 where n1: "c1 = code @ n1"
    and m1: "\<forall>mi \<in> set n1. is_manip mi \<or> mi = at_mi w" and l1: "locals_ok (reg_step f (at_mi w) \<rho>) loc1 st1"
    and r1: "run_code f n1 (map \<rho> (view (stack st)), loc) =
      Some (map (reg_step f (at_mi w) \<rho>) (view (stack st1)), loc1)" by blast
  from Cons.IH [OF ok(3) l1] obtain n2 st' loc' where
    "foldM (analyzeInstr A) ws (c1, st1) = Inr (c1 @ n2, st')"
    "\<forall>mi \<in> set n2. is_manip mi \<or> mi \<in> at_mi ` set ws"
    "locals_ok (reg_run f ws (reg_step f (at_mi w) \<rho>)) loc' st'"
    "run_code f n2 (map (reg_step f (at_mi w) \<rho>) (view (stack st1)), loc1) =
      Some (map (reg_run f ws (reg_step f (at_mi w) \<rho>)) (view (stack st')), loc')" by blast
  with 1 n1 m1 r1 show ?case
    by (intro exI [of _ "n1 @ n2"] exI [of _ st'] exI [of _ loc'])
       (auto simp: run_code_append reg_run_def)
qed

end
