(* ===== verification/FunctionInfo.thy ===== *)
theory FunctionInfo
  imports MachineIR
begin

text \<open>
  Facts about a function and about the target the passes share: \<open>EVMMachineFunctionInfo.h\<close>
  (memory indexes, stackified registers, the size of the frame), \<open>EVMSubtarget.h\<close> (the
  addresses of the frame and stack pointers, the family of PUSH opcodes) and \<open>EVMUtils.cpp\<close>
  (comment flags packed into the assembly printer flags of an instruction).
\<close>

section \<open>EVMSubtarget\<close>

record EVMSubtarget =
  HasSubroutine :: bool
  AllocatedGlobalSlots :: "64 word"

definition updateAllocatedGlobalSlots :: "64 word \<Rightarrow> EVMSubtarget \<Rightarrow> EVMSubtarget" where
  "updateAllocatedGlobalSlots new_val ST = ST\<lparr>AllocatedGlobalSlots := new_val\<rparr>"

definition getFramePointer :: "EVMSubtarget \<Rightarrow> 32 word" where
  "getFramePointer ST = ucast (AllocatedGlobalSlots ST * 32)"

definition getStackPointer :: "EVMSubtarget \<Rightarrow> 32 word" where
  "getStackPointer ST = getFramePointer ST + 32"

definition get_push_opcode :: "nat \<Rightarrow> opcode result" where
  "get_push_opcode len =
     (if 1 \<le> len \<and> len \<le> 32 then Inr (S (PUSH len))
      else Inl (Unreachable ''incorrect size or unimplemented''))"

record function_decl =
  fn_name :: string
  fn_isDeclaration :: bool
  fn_isIntrinsic :: bool

definition isMainFunction :: "function_decl \<Rightarrow> bool" where
  "isMainFunction F = (fn_name F = ''solidity.main'' \<or> fn_name F = ''main'')"

definition shouldSkipFunction :: "function_decl \<Rightarrow> bool" where
  "shouldSkipFunction F = (fn_isDeclaration F \<or> fn_isIntrinsic F \<or> isMainFunction F)"

section \<open>EVMMachineFunctionInfo\<close>

text \<open>
  \<open>reg2index\<close> is a \<open>DenseMap\<close>; its size matters, so it is the list of its entries.
  \<open>StackSize\<close> is \<open>MachineFrameInfo::getStackSize\<close>.
\<close>

record EVMMachineFunctionInfo =
  VarArgsFrameIndex :: int
  VarArgsSaveSize :: int
  NumStackArgs :: nat
  VRegStackified :: "bool list"
  reg2index :: "(reg \<times> nat) list"
  mfi_memoryFrameSize :: "32 word"
  FrameIndexSize :: nat
  StackSize :: int

definition new_MFI :: EVMMachineFunctionInfo where
  "new_MFI = \<lparr>VarArgsFrameIndex = 0, VarArgsSaveSize = 0, NumStackArgs = 0, VRegStackified = [],
     reg2index = [], mfi_memoryFrameSize = 0, FrameIndexSize = 0, StackSize = 0\<rparr>"

definition setFrameIndexSize :: "nat \<Rightarrow> EVMMachineFunctionInfo \<Rightarrow> EVMMachineFunctionInfo result" where
  "setFrameIndexSize newFI MFI =
     rbind (check_assert (FrameIndexSize MFI < newFI)
              ''new frameindex should be greater than previous one.'') (\<lambda>_.
       Inr (MFI\<lparr>FrameIndexSize := newFI\<rparr>))"

text \<open>\<open>unique_def\<close> is \<open>MachineRegisterInfo::getUniqueVRegDef\<close>, as a predicate.\<close>

definition stackifyVReg ::
    "(reg \<Rightarrow> bool) \<Rightarrow> nat \<Rightarrow> EVMMachineFunctionInfo \<Rightarrow> EVMMachineFunctionInfo result" where
  "stackifyVReg unique_def I MFI =
     rbind (check_assert (unique_def (VReg I)) ''getUniqueVRegDef(VReg)'') (\<lambda>_.
       let bits = VRegStackified MFI;
           bits = (if length bits \<le> I then bits @ replicate (I + 1 - length bits) False else bits)
       in Inr (MFI\<lparr>VRegStackified := bits[I := True]\<rparr>))"

fun isVRegStackified :: "reg \<Rightarrow> EVMMachineFunctionInfo \<Rightarrow> bool" where
  "isVRegStackified (VReg I) MFI =
     (if length (VRegStackified MFI) \<le> I then False else VRegStackified MFI ! I)"
| "isVRegStackified r MFI = False"

definition get_memory_index :: "reg \<Rightarrow> EVMMachineFunctionInfo \<Rightarrow> nat result" where
  "get_memory_index r MFI =
     (case map_of (reg2index MFI) r of
        None \<Rightarrow> Inl (AssertFailed ''reg2index.find(reg) != reg2index.end()'')
      | Some i \<Rightarrow> Inr i)"

definition mfi_updateMemoryFrameSize :: "32 word \<Rightarrow> EVMMachineFunctionInfo \<Rightarrow> EVMMachineFunctionInfo" where
  "mfi_updateMemoryFrameSize s MFI =
     MFI\<lparr>mfi_memoryFrameSize := (if s < mfi_memoryFrameSize MFI then mfi_memoryFrameSize MFI else s)\<rparr>"

definition allocate_memory_index ::
    "reg \<Rightarrow> EVMMachineFunctionInfo \<Rightarrow> (nat \<times> EVMMachineFunctionInfo) result" where
  "allocate_memory_index r MFI =
     (if map_of (reg2index MFI) r \<noteq> None
      then rbind (get_memory_index r MFI) (\<lambda>i. Inr (i, MFI))
      else let index = length (reg2index MFI)
           in Inr (index, mfi_updateMemoryFrameSize (word_of_nat index)
                     (MFI\<lparr>reg2index := reg2index MFI @ [(r, index)]\<rparr>)))"

definition getNumAllocatedIndexInFunction :: "EVMMachineFunctionInfo \<Rightarrow> 32 word result" where
  "getNumAllocatedIndexInFunction MFI =
     rbind (check_assert (StackSize MFI mod 32 = 0) ''reservedSize % 32 == 0'') (\<lambda>_.
       Inr (word_of_int (uint (mfi_memoryFrameSize MFI) + StackSize MFI div 32)))"

section \<open>Comment flags\<close>

datatype AsmComments = PUTLOCAL | GETLOCAL | SUBROUTINE_BEGIN | SUBROUTINE_END
  | RETURN_FROM_SUBROUTINE

fun comment_code :: "AsmComments \<Rightarrow> 32 word" where
  "comment_code PUTLOCAL = 0"
| "comment_code GETLOCAL = 1"
| "comment_code SUBROUTINE_BEGIN = 2"
| "comment_code SUBROUTINE_END = 3"
| "comment_code RETURN_FROM_SUBROUTINE = 4"

definition TAsmComments :: "32 word" where
  "TAsmComments = 4"

definition BuildCommentFlags :: "AsmComments \<Rightarrow> 16 word \<Rightarrow> 32 word" where
  "BuildCommentFlags commentFlag val =
     or (or TAsmComments (push_bit 4 (comment_code commentFlag))) (push_bit 16 (ucast val))"

text \<open>The comment kind is given by its code, as the cast to the enumeration has it.\<close>

definition ParseCommentFlags :: "32 word \<Rightarrow> (32 word \<times> 16 word) result" where
  "ParseCommentFlags input =
     rbind (check_assert (and input TAsmComments \<noteq> 0) ''input & MachineInstr::TAsmComments'') (\<lambda>_.
       Inr (and (drop_bit 4 input) (push_bit (4 - 1) 1), ucast (drop_bit 16 input)))"

section \<open>Lemmas\<close>

lemma stackify_isVRegStackified:
  "stackifyVReg u I MFI = Inr MFI' \<Longrightarrow>
   isVRegStackified r MFI' \<longleftrightarrow> r = VReg I \<or> isVRegStackified r MFI"
  by (cases r) (auto simp: stackifyVReg_def Let_def nth_list_update nth_append rbind_eq_Inr
      split: if_splits)

text \<open>The entries of \<open>reg2index\<close> are numbered in the order of their allocation.\<close>

definition indexes_ok :: "EVMMachineFunctionInfo \<Rightarrow> bool" where
  "indexes_ok MFI \<longleftrightarrow>
     distinct (map fst (reg2index MFI)) \<and> map snd (reg2index MFI) = [0..<length (reg2index MFI)]"

lemma indexes_ok_new [simp]: "indexes_ok new_MFI"
  by (simp add: indexes_ok_def new_MFI_def)

lemma map_of_None_fst: "map_of xs r = None \<longleftrightarrow> r \<notin> fst ` set xs"
  by (simp add: map_of_eq_None_iff)

lemma allocate_memory_index_ok:
  assumes "indexes_ok MFI"
  obtains i MFI' where "allocate_memory_index r MFI = Inr (i, MFI')" "indexes_ok MFI'"
    "get_memory_index r MFI' = Inr i"
    "\<And>q j. get_memory_index q MFI = Inr j \<Longrightarrow> get_memory_index q MFI' = Inr j"
proof (cases "map_of (reg2index MFI) r")
  case (Some i)
  with assms show thesis
    by (intro that [of i MFI]) (auto simp: allocate_memory_index_def get_memory_index_def)
next
  case None
  let ?n = "length (reg2index MFI)"
  let ?M = "mfi_updateMemoryFrameSize (word_of_nat ?n) (MFI\<lparr>reg2index := reg2index MFI @ [(r, ?n)]\<rparr>)"
  have r: "reg2index ?M = reg2index MFI @ [(r, ?n)]"
    by (simp add: mfi_updateMemoryFrameSize_def)
  have "indexes_ok ?M" using assms None by (simp add: indexes_ok_def r map_of_None_fst)
  moreover have "get_memory_index r ?M = Inr ?n"
    using None by (simp add: get_memory_index_def r map_add_def)
  moreover have "get_memory_index q MFI = Inr j \<Longrightarrow> get_memory_index q ?M = Inr j" for q j
    by (auto simp: get_memory_index_def r map_add_def split: option.splits)
  ultimately show thesis using None by (intro that [of ?n ?M]) (auto simp: allocate_memory_index_def Let_def)
qed

lemma memory_index_injective:
  assumes "indexes_ok MFI" and "get_memory_index q MFI = Inr i" and "get_memory_index r MFI = Inr i"
  shows "q = r"
proof -
  have "(q, i) \<in> set (reg2index MFI)" "(r, i) \<in> set (reg2index MFI)"
    using assms(2,3) by (auto simp: get_memory_index_def split: option.splits dest: map_of_SomeD)
  moreover have "inj_on snd (set (reg2index MFI))"
    using assms(1) by (metis indexes_ok_def distinct_map distinct_upt)
  ultimately show ?thesis by (metis Pair_inject inj_onD snd_conv)
qed

lemma memory_index_less:
  assumes "indexes_ok MFI" and "get_memory_index q MFI = Inr i"
  shows "i < length (reg2index MFI)"
proof -
  have "i \<in> set (map snd (reg2index MFI))"
    using assms(2) by (force simp: get_memory_index_def split: option.splits dest: map_of_SomeD)
  with assms(1) show ?thesis by (simp only: indexes_ok_def) simp
qed

text \<open>
  What a flag word carries: bit 2 marks it, the kind starts at bit 4, the value at bit 16.
  The mask of \<open>ParseCommentFlags\<close> selects the fourth bit of the kind only.
\<close>

lemma comment_code_take_bit: "take_bit 3 (comment_code c) = comment_code c"
  by (cases c) simp_all

lemma comment_code_bit: "bit (comment_code c) n \<Longrightarrow> n < 3"
  using comment_code_take_bit [of c] by (metis bit_take_bit_iff)

lemma bit_4: "bit (4 :: 32 word) n \<longleftrightarrow> n = 2" "bit (4 :: nat) n \<longleftrightarrow> n = 2"
    "bit (4 :: int) n \<longleftrightarrow> n = 2"
  using bit_exp_iff [of 2 n, where ?'a = "32 word"] bit_exp_iff [of 2 n, where ?'a = nat]
    bit_exp_iff [of 2 n, where ?'a = int] by auto

lemma bit_8: "bit (8 :: 32 word) n \<longleftrightarrow> n = 3" "bit (8 :: nat) n \<longleftrightarrow> n = 3"
    "bit (8 :: int) n \<longleftrightarrow> n = 3"
  using bit_exp_iff [of 3 n, where ?'a = "32 word"] bit_exp_iff [of 3 n, where ?'a = nat]
    bit_exp_iff [of 3 n, where ?'a = int] by auto

lemma BuildCommentFlags_bit:
  "bit (BuildCommentFlags c v) n \<longleftrightarrow>
   n < 32 \<and> (n = 2 \<or> 4 \<le> n \<and> bit (comment_code c) (n - 4) \<or> 16 \<le> n \<and> bit v (n - 16))"
  by (auto simp: BuildCommentFlags_def TAsmComments_def bit_4 bit_simps bit_or_iff)

lemma parse_build_kind:
  "and (drop_bit 4 (BuildCommentFlags c v)) (push_bit (4 - 1) 1) = (0 :: 32 word)"
proof (rule bit_word_eqI)
  fix n assume "n < LENGTH(32)"
  then show "bit (and (drop_bit 4 (BuildCommentFlags c v)) (push_bit (4 - 1) 1)) n = bit (0 :: 32 word) n"
    using comment_code_bit [of c n] by (auto simp: bit_simps BuildCommentFlags_bit bit_and_iff bit_8)
qed

lemma parse_build_value: "ucast (drop_bit 16 (BuildCommentFlags c v)) = v"
proof (rule bit_word_eqI)
  fix n assume "n < LENGTH(16)"
  then show "bit (ucast (drop_bit 16 (BuildCommentFlags c v)) :: 16 word) n = bit v n"
    using comment_code_bit [of c "12 + n"] by (auto simp: bit_simps BuildCommentFlags_bit)
qed

lemma build_marked: "and (BuildCommentFlags c v) TAsmComments \<noteq> 0"
proof -
  have "bit (and (BuildCommentFlags c v) TAsmComments) 2"
    by (simp add: bit_and_iff BuildCommentFlags_bit TAsmComments_def bit_4 bit_simps)
  then show ?thesis by (metis bit_0_eq bot_apply bot_bool_def)
qed

end
