(* ===== verification/ConvertRegToStack.thy ===== *)
theory ConvertRegToStack
  imports FunctionInfo
begin

text \<open>
  The pass \<open>EVMConvertRegToStack\<close> (\<open>EVMConvertRegToStack.cpp\<close>): every register-form
  instruction is replaced by its stack form and loses its register operands; calls and
  returns, which have no stack form, are expanded into the calling sequence.
\<close>

section \<open>Numbered opcodes\<close>

definition getSWAPOpcode :: "nat \<Rightarrow> opcode result" where
  "getSWAPOpcode idx =
     (if 1 \<le> idx \<and> idx \<le> 16 then Inr (SWAPn idx) else Inl (Unreachable ''invalid index''))"

definition getDUPOpcode :: "nat \<Rightarrow> opcode result" where
  "getDUPOpcode idx =
     (if 1 \<le> idx \<and> idx \<le> 16 then Inr (DUPn idx) else Inl (Unreachable ''invalid index''))"

text \<open>The immediate of a SWAP or DUP, read as an \<open>unsigned\<close>.\<close>

definition imm_operand :: "minstr \<Rightarrow> nat result" where
  "imm_operand mi =
     (case mi_operands mi of
        MO_Immediate i # _ \<Rightarrow> Inr (unat (word_of_int i :: 32 word))
      | _ \<Rightarrow> Inl (AssertFailed ''Wrong MachineOperand accessor''))"

definition convertSWAP :: "minstr \<Rightarrow> minstr list result" where
  "convertSWAP mi =
     rbind (imm_operand mi) (\<lambda>swapIdx.
     rbind (getSWAPOpcode (if 16 < swapIdx then 16 else swapIdx)) (\<lambda>opc.
       Inr [MI opc []]))"

definition convertDUP :: "minstr \<Rightarrow> minstr list result" where
  "convertDUP mi =
     rbind (imm_operand mi) (\<lambda>dupIdx.
     rbind (check_assert (dupIdx \<le> 16) ''invalid DUP'') (\<lambda>_.
     rbind (getDUPOpcode dupIdx) (\<lambda>opc.
       Inr [MI opc []])))"

section \<open>The calling sequence\<close>

abbreviation PUSH32 :: "int \<Rightarrow> minstr" where
  "PUSH32 i \<equiv> MI (S (PUSH 32)) [MO_Immediate i]"

text \<open>
  In front of the call: save the frame pointer in the slot behind the frame and set the
  frame and stack pointers to the next word.
\<close>

definition call_prologue :: "EVMSubtarget \<Rightarrow> 32 word \<Rightarrow> minstr list" where
  "call_prologue ST index =
     (let fpaddr = uint (getFramePointer ST); spaddr = uint (getStackPointer ST) in
      [PUSH32 fpaddr, MI (S MLOAD) [], MI (DUPn 1) [], PUSH32 (uint (index * 32)),
       MI (S ADD) [], MI (S MSTORE) [],
       PUSH32 fpaddr, MI (S MLOAD) [], PUSH32 (uint ((index + 1) * 32)), MI (S ADD) [],
       MI (DUPn 1) [],
       PUSH32 fpaddr, MI (S MSTORE) [],
       PUSH32 spaddr, MI (S MSTORE) []])"

text \<open>The return address, put below the arguments, with the callee on the top.\<close>

definition return_address :: "nat \<Rightarrow> minstr list result" where
  "return_address uses =
     rbind (getSWAPOpcode uses) (\<lambda>swap.
       Inr [MI (S (PUSH 1)) [MO_Immediate 4], MI (S GETPC) [], MI (S ADD) [],
            \<lparr>mi_opcode = swap, mi_operands = [],
             mi_flags = BuildCommentFlags SUBROUTINE_BEGIN 0\<rparr>])"

text \<open>Behind the call: restore the frame pointer from the word below the callee's frame.\<close>

definition call_epilogue :: "EVMSubtarget \<Rightarrow> minstr list" where
  "call_epilogue ST =
     (let fpaddr = uint (getFramePointer ST) in
      [MI (S JUMPDEST) [],
       PUSH32 fpaddr, MI (S MLOAD) [], PUSH32 32, MI (SWAPn 1) [], MI (S SUB) [], MI (S MLOAD) [],
       PUSH32 fpaddr, MI (S MSTORE) []])"

section \<open>The pass\<close>

definition strip_registers :: "opcode \<Rightarrow> minstr \<Rightarrow> minstr result" where
  "strip_registers opc mi =
     rbind (check_assert (list_all isReg (mi_operands mi))
              ''By design we should only see register operands at this point'') (\<lambda>_.
       Inr (mi\<lparr>mi_opcode := opc, mi_operands := []\<rparr>))"

definition convert_call ::
    "EVMSubtarget \<Rightarrow> EVMMachineFunctionInfo \<Rightarrow> minstr \<Rightarrow> minstr list result" where
  "convert_call ST MFI mi =
     rbind (getNumAllocatedIndexInFunction MFI) (\<lambda>n.
     let index = n + 1 in
       if HasSubroutine ST
       then rbind (strip_registers JUMPSUB mi) (\<lambda>mi'.
              Inr (call_prologue ST index @ [mi'] @ call_epilogue ST))
       else rbind (return_address (length (explicit_uses mi))) (\<lambda>ra.
            rbind (strip_registers (S JUMP) mi) (\<lambda>mi'.
              Inr (call_prologue ST index @ ra @ [mi'] @ call_epilogue ST))))"

text \<open>
  The test \<open>RegOpcode == EVM::pJUMPSUB_r || EVM::pJUMPSUBVOID_r\<close> is true for every opcode
  (the second operand is a non-zero constant): every instruction without a stack form that
  is not a return gets the calling sequence.
\<close>

definition convert_instr ::
    "EVMSubtarget \<Rightarrow> EVMMachineFunctionInfo \<Rightarrow> minstr \<Rightarrow> minstr list result" where
  "convert_instr ST MFI mi =
     (let opc = mi_opcode mi in
      if opc = R (PUSH 32)
      then rbind (check_assert (length (mi_operands mi) = 2)
                    ''PUSH32_r's number of operands must be 2.'') (\<lambda>_.
           if \<not> isReg (mi_operands mi ! 1) then Inr [MI (S (PUSH 32)) [mi_operands mi ! 1]]
           else Inr [MI (DUPn 1) []])
      else if opc = pSTACKARG_r
      then Inr [mi\<lparr>mi_opcode := pSTACKARG, mi_operands := tl (mi_operands mi)\<rparr>]
      else if opc = SWAP_r then convertSWAP mi
      else if opc = DUP_r then convertDUP mi
      else if opc = pMOVE_r then Inr []
      else rbind (check_assert (list_all (\<lambda>mo. isReg mo \<longrightarrow> \<not> isPhysicalRegister (getReg mo))
                                 (explicit_uses mi))
                    ''There should be no physical registers at this point.'') (\<lambda>_.
           case getStackOpcode opc of
             Some stackOpc \<Rightarrow> rbind (strip_registers stackOpc mi) (\<lambda>mi'. Inr [mi'])
           | None \<Rightarrow>
               if opc = pRETURNSUB_r \<or> opc = pRETURNSUBVOID_r
               then rbind (strip_registers (if HasSubroutine ST then JUMPSUB else S JUMP) mi)
                      (\<lambda>mi'. Inr [mi'])
               else convert_call ST MFI mi))"

fun convert_instrs ::
    "EVMSubtarget \<Rightarrow> EVMMachineFunctionInfo \<Rightarrow> minstr list \<Rightarrow> minstr list result" where
  "convert_instrs ST MFI [] = Inr []"
| "convert_instrs ST MFI (mi # mis) =
     rbind (convert_instr ST MFI mi) (\<lambda>c. rbind (convert_instrs ST MFI mis) (\<lambda>cs. Inr (c @ cs)))"

fun runOnMachineFunction_convert ::
    "EVMSubtarget \<Rightarrow> EVMMachineFunctionInfo \<Rightarrow> mfunction \<Rightarrow> mfunction result" where
  "runOnMachineFunction_convert ST MFI [] = Inr []"
| "runOnMachineFunction_convert ST MFI (b # bs) =
     rbind (convert_instrs ST MFI (mbb_instrs b)) (\<lambda>c.
     rbind (runOnMachineFunction_convert ST MFI bs) (\<lambda>bs'.
       Inr (b\<lparr>mbb_instrs := c\<rparr> # bs')))"

lemma convert_instrs_append:
  "convert_instrs ST MFI (xs @ ys) =
     rbind (convert_instrs ST MFI xs) (\<lambda>c. rbind (convert_instrs ST MFI ys) (\<lambda>d. Inr (c @ d)))"
  by (induction xs) (auto simp: rbind_assoc intro: rbind_cong)

end
