(* ===== verification/ExpandPseudos.thy ===== *)
theory ExpandPseudos
  imports FunctionInfo
begin

text \<open>
  The pass \<open>EVMExpandPseudos\<close> (\<open>EVMExpandPseudos.cpp\<close>): accesses to the locals of the frame
  and block-level jumps are expanded into register-form instructions. The number of virtual
  registers created so far is threaded through, a new register takes the next number.
\<close>

section \<open>The pass\<close>

definition getNewRegister :: "nat \<Rightarrow> reg \<times> nat" where
  "getNewRegister n = (VReg n, Suc n)"

definition getOperand :: "minstr \<Rightarrow> nat \<Rightarrow> operand result" where
  "getOperand mi i =
     (if i < length (mi_operands mi) then Inr (mi_operands mi ! i)
      else Inl (AssertFailed ''getOperand() out of range!''))"

fun getMBB :: "operand \<Rightarrow> nat result" where
  "getMBB (MO_MachineBasicBlock b) = Inr b"
| "getMBB _ = Inl (AssertFailed ''isMBB()'')"

fun getImm :: "operand \<Rightarrow> int result" where
  "getImm (MO_Immediate i) = Inr i"
| "getImm _ = Inl (AssertFailed ''Wrong MachineOperand accessor'')"

fun getRegister :: "operand \<Rightarrow> reg result" where
  "getRegister (MO_Register r d) = Inr r"
| "getRegister _ = Inl (AssertFailed ''This is not a register operand!'')"

definition expandJUMP :: "minstr \<Rightarrow> nat \<Rightarrow> (minstr list \<times> nat) result" where
  "expandJUMP mi n =
     (if mi_opcode mi = pJUMPTO_r
      then rbind (rbind (getOperand mi 0) getMBB) (\<lambda>dest.
        let (destReg, n) = getNewRegister n in
        Inr ([MI (R (PUSH 32)) [defOf destReg, MO_MachineBasicBlock dest],
              MI (R JUMP) [useOf destReg]], n))
      else if mi_opcode mi = pJUMPIF_r
      then rbind (rbind (getOperand mi 1) getMBB) (\<lambda>dest.
           rbind (getOperand mi 0) (\<lambda>cond.
        let (destReg, n) = getNewRegister n in
        Inr ([MI (R (PUSH 32)) [defOf destReg, MO_MachineBasicBlock dest],
              MI (R JUMPI) [cond, useOf destReg]], n)))
      else Inr ([], n))"

definition expandMOVE :: "minstr \<Rightarrow> minstr list" where
  "expandMOVE mi = [mi]"

text \<open>\<open>fiSize\<close> is the size in bytes of the fixed part of the frame, at 32 bits.\<close>

definition slot_index :: "32 word \<Rightarrow> int \<Rightarrow> 32 word" where
  "slot_index fiSize imm = word_of_int (imm + uint fiSize div 32)"

definition expandLOCAL ::
    "EVMSubtarget \<Rightarrow> 32 word \<Rightarrow> minstr \<Rightarrow> nat \<Rightarrow> (minstr list \<times> nat) result" where
  "expandLOCAL ST fiSize mi n =
     (let (rg, n) = getNewRegister n; (fpReg, n) = getNewRegister n;
          (immReg, n) = getNewRegister n; (addrReg, n) = getNewRegister n
      in rbind (rbind (getOperand mi 1) getImm) (\<lambda>imm.
         rbind (rbind (getOperand mi 0) getRegister) (\<lambda>localReg.
           let idx = slot_index fiSize imm;
               addr = [MI (R (PUSH 32)) [defOf rg, MO_Immediate (uint (getFramePointer ST))],
                       MI (R MLOAD) [defOf fpReg, useOf rg],
                       MI (R (PUSH 32)) [defOf immReg, MO_Immediate (uint (idx * 32))],
                       MI (R ADD) [defOf addrReg, useOf fpReg, useOf immReg]]
           in if mi_opcode mi = pGETLOCAL_r
              then Inr (addr @ [\<lparr>mi_opcode = R MLOAD, mi_operands = [defOf localReg, useOf addrReg],
                                 mi_flags = BuildCommentFlags GETLOCAL (ucast idx)\<rparr>], n)
              else if mi_opcode mi = pPUTLOCAL_r
              then Inr (addr @ [\<lparr>mi_opcode = R MSTORE, mi_operands = [useOf addrReg, useOf localReg],
                                 mi_flags = BuildCommentFlags PUTLOCAL (ucast idx)\<rparr>], n)
              else Inl (Unreachable ''invalid parameter''))))"

definition expand_instr ::
    "EVMSubtarget \<Rightarrow> 32 word \<Rightarrow> minstr \<Rightarrow> minstr list \<times> nat \<Rightarrow> (minstr list \<times> nat) result" where
  "expand_instr ST fiSize mi cn =
     (case cn of (code, n) \<Rightarrow>
      rbind (case mi_opcode mi of
               pPUTLOCAL_r \<Rightarrow> expandLOCAL ST fiSize mi n
             | pGETLOCAL_r \<Rightarrow> expandLOCAL ST fiSize mi n
             | pMOVE_r \<Rightarrow> Inr (expandMOVE mi, n)
             | pJUMPTO_r \<Rightarrow> expandJUMP mi n
             | pJUMPIF_r \<Rightarrow> expandJUMP mi n
             | _ \<Rightarrow> Inr ([mi], n)) (\<lambda>(new, n). Inr (code @ new, n)))"

definition expand_block ::
    "EVMSubtarget \<Rightarrow> 32 word \<Rightarrow> mbb \<Rightarrow> mfunction \<times> nat \<Rightarrow> (mfunction \<times> nat) result" where
  "expand_block ST fiSize b fn =
     (case fn of (F, n) \<Rightarrow>
      rbind (foldM (expand_instr ST fiSize) (mbb_instrs b) ([], n)) (\<lambda>(code, n).
        Inr (F @ [b\<lparr>mbb_instrs := code\<rparr>], n)))"

definition is_expanded_pseudo :: "opcode \<Rightarrow> bool" where
  "is_expanded_pseudo opc = (opc \<in> {pPUTLOCAL_r, pGETLOCAL_r, pJUMPTO_r, pJUMPIF_r})"

definition runOnMachineFunction_pseudos ::
    "EVMSubtarget \<Rightarrow> 32 word \<Rightarrow> mfunction \<times> nat \<Rightarrow> (bool \<times> mfunction \<times> nat) result" where
  "runOnMachineFunction_pseudos ST fiSize fn =
     rbind (foldM (expand_block ST fiSize) (fst fn) ([], snd fn)) (\<lambda>(F, n).
       Inr (\<exists>b \<in> set (fst fn). \<exists>mi \<in> set (mbb_instrs b). is_expanded_pseudo (mi_opcode mi), F, n))"

section \<open>No pseudo is left\<close>

lemma expandLOCAL_Inr:
  assumes "expandLOCAL ST fi mi n = Inr (code, n')"
  shows "\<forall>x \<in> set code. \<not> is_expanded_pseudo (mi_opcode x)"
  using assms
  by (auto simp: expandLOCAL_def getNewRegister_def rbind_eq_Inr Let_def is_expanded_pseudo_def
      split: if_splits)

lemma expandJUMP_Inr:
  assumes "expandJUMP mi n = Inr (code, n')"
  shows "\<forall>x \<in> set code. \<not> is_expanded_pseudo (mi_opcode x)"
  using assms
  by (auto simp: expandJUMP_def getNewRegister_def rbind_eq_Inr Let_def is_expanded_pseudo_def
      split: if_splits)

lemma expand_instr_clean:
  assumes "expand_instr ST fi mi (code, n) = Inr (code', n')"
    and "\<forall>x \<in> set code. \<not> is_expanded_pseudo (mi_opcode x)"
  shows "\<forall>x \<in> set code'. \<not> is_expanded_pseudo (mi_opcode x)"
proof (cases "is_expanded_pseudo (mi_opcode mi)")
  case True
  with assms show ?thesis
    unfolding is_expanded_pseudo_def [of "mi_opcode mi"]
    by (auto simp: expand_instr_def rbind_eq_Inr dest!: expandLOCAL_Inr expandJUMP_Inr)
next
  case False
  then have "code' = code @ [mi]"
    using assms(1)
    by (cases "mi_opcode mi") (simp_all add: expand_instr_def expandMOVE_def is_expanded_pseudo_def)
  with False assms(2) show ?thesis by simp
qed

lemma runOnMachineFunction_pseudos_clean:
  assumes "runOnMachineFunction_pseudos ST fi (F, n) = Inr (c, F', n')"
  shows "\<forall>b \<in> set F'. \<forall>mi \<in> set (mbb_instrs b). \<not> is_expanded_pseudo (mi_opcode mi)"
proof -
  let ?clean = "\<lambda>F. \<forall>b \<in> set F. \<forall>mi \<in> set (mbb_instrs b). \<not> is_expanded_pseudo (mi_opcode mi)"
  have block: "?clean (fst t)" if "expand_block ST fi b s = Inr t" "?clean (fst s)" for b s t
  proof -
    note run = that(1)
    obtain code n1 where "foldM (expand_instr ST fi) (mbb_instrs b) ([], snd s) = Inr (code, n1)"
      and t: "fst t = fst s @ [b\<lparr>mbb_instrs := code\<rparr>]"
      using run by (cases s) (auto simp: expand_block_def rbind_eq_Inr)
    then have "\<forall>x \<in> set code. \<not> is_expanded_pseudo (mi_opcode x)"
      using foldM_invariant [of "expand_instr ST fi" "mbb_instrs b" "([], snd s)" "(code, n1)"
          "\<lambda>p. \<forall>x \<in> set (fst p). \<not> is_expanded_pseudo (mi_opcode x)"] expand_instr_clean
      by fastforce
    with that(2) show ?thesis by (auto simp: t)
  qed
  have "foldM (expand_block ST fi) F ([], n) = Inr (F', n')"
    using assms by (auto simp: runOnMachineFunction_pseudos_def rbind_eq_Inr)
  from foldM_invariant [OF this, of "\<lambda>p. ?clean (fst p)"] block show ?thesis by fastforce
qed

end
