(* ===== verification/EvmMachine.thy ===== *)
theory EvmMachine
  imports MachineIR "HOL-Library.Signed_Division"
begin

unbundle bit_operations_syntax

text \<open>
  A reference machine for stack-form code: the instructions of the Ethereum Virtual Machine
  the back end generates, on a stack of 256-bit words and a byte-addressed memory. It is the
  specification the theorems about generated code are stated against. \<open>GETPC\<close> pushes the
  byte address of the instruction, so the run of a sequence carries the program counter.

  The memory is used through the locale \<open>word_memory\<close>, its two laws (a load sees the last
  store at its address, and no store at a distance of a word or more) and the frame lemmas
  derived from them.
\<close>

type_synonym word256 = "256 word"
type_synonym memory = "nat \<Rightarrow> 8 word"

section \<open>Memory\<close>

definition mload :: "memory \<Rightarrow> nat \<Rightarrow> word256" where
  "mload m a = word_of_nat (be_value (map m [a..<a + 32]))"

definition mstore :: "memory \<Rightarrow> nat \<Rightarrow> word256 \<Rightarrow> memory" where
  "mstore m a v = (\<lambda>i. if a \<le> i \<and> i < a + 32 then be_bytes 32 (unat v) ! (i - a) else m i)"

locale word_memory =
  fixes ld :: "'m \<Rightarrow> nat \<Rightarrow> word256"
    and st :: "'m \<Rightarrow> nat \<Rightarrow> word256 \<Rightarrow> 'm"
  assumes ld_st_same: "ld (st m a v) a = v"
    and ld_st_other: "a + 32 \<le> b \<or> b + 32 \<le> a \<Longrightarrow> ld (st m a v) b = ld m b"
begin

definition agree_except :: "nat list \<Rightarrow> 'm \<Rightarrow> 'm \<Rightarrow> bool" where
  "agree_except as m m' \<longleftrightarrow>
     (\<forall>b. (\<forall>a \<in> set as. a + 32 \<le> b \<or> b + 32 \<le> a) \<longrightarrow> ld m' b = ld m b)"

text \<open>A store changes only its own word.\<close>

lemma agree_except_st: "a \<in> set as \<Longrightarrow> agree_except as m m' \<Longrightarrow> agree_except as m (st m' a v)"
  unfolding agree_except_def by (simp add: ld_st_other)

lemma agree_except_refl: "agree_except as m m"
  by (simp add: agree_except_def)

lemma agree_exceptD:
  "agree_except as m m' \<Longrightarrow> (\<And>a. a \<in> set as \<Longrightarrow> a + 32 \<le> b \<or> b + 32 \<le> a) \<Longrightarrow> ld m' b = ld m b"
  by (simp add: agree_except_def)

text \<open>Two pointers that are words of memory, kept apart: stores to one leave the other.\<close>

lemma ld_st_st:
  "a + 32 \<le> b \<or> b + 32 \<le> a \<Longrightarrow> ld (st (st m a v) b w) a = v"
  using ld_st_other ld_st_same by metis

end

lemma nth_be_bytes_unat: "map (\<lambda>i. be_bytes 32 (unat v) ! (i - a)) [a..<a + 32] = be_bytes 32 (unat v)"
  by (rule nth_equalityI) simp_all

lemma mload_mstore_same: "mload (mstore m a v) a = v"
proof -
  have "map (mstore m a v) [a..<a + 32] = map (\<lambda>i. be_bytes 32 (unat v) ! (i - a)) [a..<a + 32]"
    by (rule map_cong) (simp_all add: mstore_def)
  also have "\<dots> = be_bytes 32 (unat v)" by (rule nth_be_bytes_unat)
  finally have "mload (mstore m a v) a = word_of_nat (unat v mod 256 ^ 32)"
    by (simp only: mload_def be_value_be_bytes)
  also have "unat v mod 256 ^ 32 = unat v" using unsigned_less [of v, where ?'a = nat] by simp
  finally show ?thesis by simp
qed

lemma mload_mstore_other:
  assumes "a + 32 \<le> b \<or> b + 32 \<le> a"
  shows "mload (mstore m a v) b = mload m b"
proof -
  have "map (mstore m a v) [b..<b + 32] = map m [b..<b + 32]"
    using assms by (intro map_cong) (auto simp: mstore_def)
  then show ?thesis by (simp only: mload_def)
qed

interpretation mem: word_memory mload mstore
  by unfold_locales (simp_all add: mload_mstore_same mload_mstore_other)

section \<open>Instructions\<close>

type_synonym evm_state = "word256 list \<times> memory"

definition instr_size :: "minstr \<Rightarrow> nat" where
  "instr_size mi = (case mi_opcode mi of S (PUSH n) \<Rightarrow> n + 1 | _ \<Rightarrow> 1)"

definition code_size :: "minstr list \<Rightarrow> nat" where
  "code_size mis = sum_list (map instr_size mis)"

text \<open>\<open>SIGNEXTEND b x\<close> extends the number of \<open>b + 1\<close> low bytes of \<open>x\<close>.\<close>

definition evm_signextend :: "word256 \<Rightarrow> word256 \<Rightarrow> word256" where
  "evm_signextend b x = (if unat b < 31 then signed_take_bit (8 * unat b + 7) x else x)"

definition push_value :: "nat \<Rightarrow> operand \<Rightarrow> word256 option" where
  "push_value n mo =
     (case mo of
        MO_Immediate i \<Rightarrow> Some (take_bit (8 * n) (word_of_int i))
      | MO_CImmediate w v \<Rightarrow> Some (take_bit (8 * n) (word_of_nat v))
      | _ \<Rightarrow> None)"

definition unary_op :: "(word256 \<Rightarrow> word256) \<Rightarrow> word256 list \<Rightarrow> word256 list option" where
  "unary_op f s = (case s of a # r \<Rightarrow> Some (f a # r) | _ \<Rightarrow> None)"

definition binary_op :: "(word256 \<Rightarrow> word256 \<Rightarrow> word256) \<Rightarrow> word256 list \<Rightarrow> word256 list option" where
  "binary_op f s = (case s of a # b # r \<Rightarrow> Some (f a b # r) | _ \<Rightarrow> None)"

definition truth :: "bool \<Rightarrow> word256" where
  "truth b = (if b then 1 else 0)"

text \<open>
  The instructions that compute a value from their operands alone. The operand on the top
  of the stack comes first: \<open>SUB\<close> is top minus next, and the shifts take the distance from
  the top.
\<close>

definition pure_base :: "base \<Rightarrow> word256 list \<Rightarrow> word256 list option" where
  "pure_base b =
     (case b of
        ADD \<Rightarrow> binary_op (+)
      | SUB \<Rightarrow> binary_op (-)
      | MUL \<Rightarrow> binary_op (*)
      | DIV \<Rightarrow> binary_op (div)
      | SIGNEXTEND \<Rightarrow> binary_op evm_signextend
      | LT \<Rightarrow> binary_op (\<lambda>x y. truth (x < y))
      | GT \<Rightarrow> binary_op (\<lambda>x y. truth (y < x))
      | SLT \<Rightarrow> binary_op (\<lambda>x y. truth (x <s y))
      | SGT \<Rightarrow> binary_op (\<lambda>x y. truth (y <s x))
      | EQ \<Rightarrow> binary_op (\<lambda>x y. truth (x = y))
      | ISZERO \<Rightarrow> unary_op (\<lambda>x. truth (x = 0))
      | SHL \<Rightarrow> binary_op (\<lambda>x y. push_bit (unat x) y)
      | SHR \<Rightarrow> binary_op (\<lambda>x y. drop_bit (unat x) y)
      | SAR \<Rightarrow> binary_op (\<lambda>x y. signed_drop_bit (unat x) y)
      | Alu SDIV \<Rightarrow> binary_op (\<lambda>x y. word_of_int (sint x sdiv sint y))
      | Alu MOD \<Rightarrow> binary_op (\<lambda>x y. if y = 0 then 0 else x mod y)
      | Alu SMOD \<Rightarrow> binary_op (\<lambda>x y. if y = 0 then 0 else word_of_int (sint x smod sint y))
      | Alu AND' \<Rightarrow> binary_op (AND)
      | Alu OR' \<Rightarrow> binary_op (OR)
      | Alu XOR' \<Rightarrow> binary_op (XOR)
      | Alu NOT' \<Rightarrow> unary_op NOT
      | _ \<Rightarrow> (\<lambda>_. None))"

definition exec_base :: "nat \<Rightarrow> base \<Rightarrow> operand list \<Rightarrow> evm_state \<Rightarrow> evm_state option" where
  "exec_base pc b ops st =
     (case st of (s, m) \<Rightarrow>
      let pure = map_option (\<lambda>s. (s, m)) in
      case b of
        PUSH n \<Rightarrow> (case ops of [mo] \<Rightarrow> pure (map_option (\<lambda>v. v # s) (push_value n mo)) | _ \<Rightarrow> None)
      | POP \<Rightarrow> (case s of a # r \<Rightarrow> Some (r, m) | _ \<Rightarrow> None)
      | MLOAD \<Rightarrow> pure (unary_op (\<lambda>a. mload m (unat a)) s)
      | MSTORE \<Rightarrow> (case s of a # v # r \<Rightarrow> Some (r, mstore m (unat a) v) | _ \<Rightarrow> None)
      | GETPC \<Rightarrow> Some (word_of_nat pc # s, m)
      | JUMPDEST \<Rightarrow> Some (s, m)
      | _ \<Rightarrow> pure (pure_base b s))"

lemma exec_base_simps [simp]:
  "exec_base pc (PUSH n) [mo] (s, m) = map_option (\<lambda>v. (v # s, m)) (push_value n mo)"
  "exec_base pc POP ops (a # s, m) = Some (s, m)"
  "exec_base pc ADD ops (a # b # s, m) = Some ((a + b) # s, m)"
  "exec_base pc SUB ops (a # b # s, m) = Some ((a - b) # s, m)"
  "exec_base pc MUL ops (a # b # s, m) = Some ((a * b) # s, m)"
  "exec_base pc SIGNEXTEND ops (a # b # s, m) = Some (evm_signextend a b # s, m)"
  "exec_base pc MLOAD ops (a # s, m) = Some (mload m (unat a) # s, m)"
  "exec_base pc MSTORE ops (a # v # s, m) = Some (s, mstore m (unat a) v)"
  "exec_base pc GETPC ops (s, m) = Some (word_of_nat pc # s, m)"
  "exec_base pc JUMPDEST ops (s, m) = Some (s, m)"
  by (simp_all add: exec_base_def pure_base_def unary_op_def binary_op_def option.map_comp o_def)

text \<open>The number of operands of such an instruction.\<close>

definition pure_arity :: "base \<Rightarrow> nat option" where
  "pure_arity b =
     (case b of
        ISZERO \<Rightarrow> Some 1
      | Alu a \<Rightarrow> (if a = NOT' then Some 1 else if a \<in> {SDIV, MOD, SMOD, AND', OR', XOR'} then Some 2 else None)
      | _ \<Rightarrow> (if b \<in> {ADD, SUB, MUL, DIV, SIGNEXTEND, LT, GT, SLT, SGT, EQ, SHL, SHR, SAR}
              then Some 2 else None))"

definition pure_value :: "base \<Rightarrow> word256 list \<Rightarrow> word256" where
  "pure_value b vs = (case pure_base b vs of Some (v # _) \<Rightarrow> v | _ \<Rightarrow> 0)"

lemma pure_values:
  "pure_value EQ [x, y] = truth (x = y)" "pure_value LT [x, y] = truth (x < y)"
  "pure_value GT [x, y] = truth (y < x)" "pure_value SLT [x, y] = truth (x <s y)"
  "pure_value SGT [x, y] = truth (y <s x)" "pure_value ISZERO [x] = truth (x = 0)"
  "pure_value ADD [x, y] = x + y" "pure_value SUB [x, y] = x - y"
  "pure_value MUL [x, y] = x * y" "pure_value DIV [x, y] = x div y"
  "pure_value SIGNEXTEND [x, y] = evm_signextend x y"
  by (simp_all add: pure_value_def pure_base_def binary_op_def unary_op_def)

lemma length_1_2: "length vs = Suc 0 \<longleftrightarrow> (\<exists>a. vs = [a])" "length vs = 2 \<longleftrightarrow> (\<exists>a b. vs = [a, b])"
  by (auto simp: length_Suc_conv numeral_2_eq_2)

lemma exec_pure:
  assumes "pure_arity b = Some n" and "length vs = n"
  shows "exec_base pc b ops (vs @ s, m) = Some (pure_value b vs # s, m)"
proof (cases b)
  case (Alu a)
  with assms show ?thesis
    by (cases a) (auto simp: pure_arity_def exec_base_def pure_base_def pure_value_def binary_op_def
        unary_op_def length_1_2 split: if_splits)
qed (use assms in \<open>auto simp: pure_arity_def exec_base_def pure_base_def pure_value_def binary_op_def
      unary_op_def length_1_2 split: if_splits\<close>)

definition exec_evm :: "nat \<Rightarrow> minstr \<Rightarrow> evm_state \<Rightarrow> evm_state option" where
  "exec_evm pc mi st =
     (case mi_opcode mi of
        S b \<Rightarrow> exec_base pc b (mi_operands mi) st
      | DUPn n \<Rightarrow> (case st of (s, m) \<Rightarrow>
          if 1 \<le> n \<and> n \<le> 16 \<and> n \<le> length s then Some (s ! (n - 1) # s, m) else None)
      | SWAPn n \<Rightarrow> (case st of (s, m) \<Rightarrow>
          if 1 \<le> n \<and> n \<le> 16 \<and> n < length s then Some (swap0 n s, m) else None)
      | _ \<Rightarrow> None)"

fun run_evm :: "nat \<Rightarrow> minstr list \<Rightarrow> evm_state \<Rightarrow> evm_state option" where
  "run_evm pc [] st = Some st"
| "run_evm pc (mi # mis) st =
     (case exec_evm pc mi st of
        None \<Rightarrow> None
      | Some st' \<Rightarrow> run_evm (pc + instr_size mi) mis st')"

lemma run_evm_append:
  "run_evm pc (xs @ ys) st =
     (case run_evm pc xs st of None \<Rightarrow> None | Some st' \<Rightarrow> run_evm (pc + code_size xs) ys st')"
  by (induction xs arbitrary: pc st) (auto simp: code_size_def add.assoc split: option.splits)

lemma exec_evm_MI [simp]:
  "exec_evm pc \<lparr>mi_opcode = S b, mi_operands = ops, mi_flags = f\<rparr> st = exec_base pc b ops st"
  "exec_evm pc \<lparr>mi_opcode = DUPn n, mi_operands = ops, mi_flags = f\<rparr> (s, m) =
     (if 1 \<le> n \<and> n \<le> 16 \<and> n \<le> length s then Some (s ! (n - 1) # s, m) else None)"
  "exec_evm pc \<lparr>mi_opcode = SWAPn n, mi_operands = ops, mi_flags = f\<rparr> (s, m) =
     (if 1 \<le> n \<and> n \<le> 16 \<and> n < length s then Some (swap0 n s, m) else None)"
  by (simp_all add: exec_evm_def)

lemma instr_size_MI [simp]:
  "instr_size \<lparr>mi_opcode = S b, mi_operands = ops, mi_flags = f\<rparr> =
     (case b of PUSH n \<Rightarrow> n + 1 | _ \<Rightarrow> 1)"
  "instr_size \<lparr>mi_opcode = DUPn n, mi_operands = ops, mi_flags = f\<rparr> = 1"
  "instr_size \<lparr>mi_opcode = SWAPn n, mi_operands = ops, mi_flags = f\<rparr> = 1"
  by (simp_all add: instr_size_def)

lemma push_value_imm32 [simp]: "push_value 32 (MO_Immediate i) = Some (word_of_int i)"
  by (simp add: push_value_def take_bit_word_eq_self)

lemma unat_push32: "unat (ucast (x :: 32 word) :: word256) = unat x"
proof -
  have "unat x < 2 ^ 256" using unsigned_less [of x, where ?'a = nat] by simp
  then show ?thesis by (simp add: unsigned_ucast_eq take_bit_nat_eq_self)
qed

end
