(* ===== verification/CallingSequence.thy ===== *)
theory CallingSequence
  imports ConvertRegToStack ExpandPseudos EvmMachine
begin

text \<open>
  What the generated code for calls and for the locals of the frame does on the reference
  machine. The frame pointer is a word of memory at the address \<open>getFramePointer\<close>, the stack
  pointer the word behind it; the frames lie above both.
\<close>

section \<open>Addresses\<close>

definition fp_addr :: "EVMSubtarget \<Rightarrow> nat" where
  "fp_addr ST = unat (getFramePointer ST)"

definition sp_addr :: "EVMSubtarget \<Rightarrow> nat" where
  "sp_addr ST = unat (getStackPointer ST)"

text \<open>The current frame, as a byte address.\<close>

definition frame :: "EVMSubtarget \<Rightarrow> memory \<Rightarrow> nat" where
  "frame ST m = unat (mload m (fp_addr ST))"

text \<open>
  A memory is laid out for a frame with \<open>n\<close> words in use when the pointers do not wrap, the
  frame lies above them, and \<open>n\<close> words and two more fit above the frame.
\<close>

definition frame_fits :: "EVMSubtarget \<Rightarrow> memory \<Rightarrow> nat \<Rightarrow> bool" where
  "frame_fits ST m n \<longleftrightarrow>
     unat (getFramePointer ST) + 32 < 2 ^ 32 \<and> sp_addr ST + 32 \<le> frame ST m \<and>
     32 * (n + 2) < 2 ^ 32 \<and> frame ST m + 32 * (n + 2) < 2 ^ 256"

lemma sp_addr_fp: "unat (getFramePointer ST) + 32 < 2 ^ 32 \<Longrightarrow> sp_addr ST = fp_addr ST + 32"
  by (simp add: sp_addr_def fp_addr_def getStackPointer_def unat_plus_if_size word_size)

lemma unat_mult_32:
  "32 * unat i < 2 ^ 32 \<Longrightarrow> unat ((i :: 32 word) * 32) = 32 * unat i"
  by (simp add: unat_word_ariths mult.commute)

lemma unat_frame_plus:
  assumes "unat (w :: word256) + unat (x :: 32 word) < 2 ^ 256"
  shows "unat (ucast x + w) = unat w + unat x"
  using assms by (simp add: unat_plus_if_size word_size unat_push32)

section \<open>The call prologue\<close>

lemma run_call_prologue:
  assumes fits: "frame_fits ST m (unat index)"
  shows "\<exists>m'. run_evm pc (call_prologue ST index) (s, m) = Some (s, m') \<and>
    mload m' (frame ST m + 32 * unat index) = mload m (fp_addr ST) \<and>
    frame ST m' = frame ST m + 32 * (unat index + 1) \<and>
    mload m' (sp_addr ST) = mload m' (fp_addr ST) \<and>
    mem.agree_except [frame ST m + 32 * unat index, fp_addr ST, sp_addr ST] m m'"
proof -
  let ?fp = "mload m (fp_addr ST)"
  let ?save = "unat (ucast (index * 32) + ?fp)"
  let ?m1 = "mstore m ?save ?fp"
  let ?new = "ucast ((index + 1) * 32) + mload ?m1 (fp_addr ST)"
  let ?m2 = "mstore ?m1 (fp_addr ST) ?new"
  let ?m3 = "mstore ?m2 (sp_addr ST) ?new"
  have f: "fp_addr ST + 64 \<le> frame ST m" "32 * (unat index + 2) < 2 ^ 32"
    "frame ST m + 32 * (unat index + 2) < 2 ^ 256" and sp: "sp_addr ST = fp_addr ST + 32"
    using fits sp_addr_fp [of ST] by (auto simp: frame_fits_def)
  have i: "unat (index * 32) = 32 * unat index" using f by (intro unat_mult_32) simp
  have i1: "unat (index + 1) = unat index + 1"
    using f by (simp add: unat_plus_if_size word_size)
  then have i2: "unat ((index + 1) * 32) = 32 * (unat index + 1)"
    using f by (subst unat_mult_32) simp_all
  have save: "?save = frame ST m + 32 * unat index"
    using f i by (subst unat_frame_plus) (simp_all add: frame_def)
  have run: "run_evm pc (call_prologue ST index) (s, m) = Some (s, ?m3)"
    by (simp add: call_prologue_def Let_def unat_push32 fp_addr_def [symmetric] sp_addr_def [symmetric]
        del: distrib_right_numeral)
  have d1: "?save + 32 \<le> fp_addr ST \<or> fp_addr ST + 32 \<le> ?save"
    and d2: "?save + 32 \<le> sp_addr ST \<or> sp_addr ST + 32 \<le> ?save"
    and d3: "fp_addr ST + 32 \<le> sp_addr ST \<or> sp_addr ST + 32 \<le> fp_addr ST"
    using f sp save by auto
  have m1: "mload ?m1 (fp_addr ST) = ?fp" using d1 by (rule mload_mstore_other)
  have fp3: "mload ?m3 (fp_addr ST) = ?new"
    using d3 by (intro mem.ld_st_st)
  have new: "unat ?new = frame ST m + 32 * (unat index + 1)"
  proof -
    have "unat ?fp + unat ((index + 1) * 32) < 2 ^ 256"
      unfolding i2 frame_def [symmetric] by (rule order.strict_trans1 [OF _ f(3)]) simp
    from unat_frame_plus [OF this] show ?thesis unfolding m1 i2 frame_def .
  qed
  have "mload ?m3 ?save = mload ?m2 ?save" using d2 by (intro mload_mstore_other) blast
  also have "\<dots> = mload ?m1 ?save" using d1 by (intro mload_mstore_other) blast
  also have "\<dots> = ?fp" by (rule mload_mstore_same)
  finally have "mload ?m3 ?save = ?fp" .
  moreover have "mem.agree_except [?save, fp_addr ST, sp_addr ST] m ?m3"
    by (intro mem.agree_except_st mem.agree_except_refl) simp_all
  ultimately show ?thesis
    using run fp3 new unfolding save by (auto simp: frame_def mload_mstore_same)
qed

section \<open>The return address\<close>

text \<open>
  The four instructions in front of the jump put the address of the instruction behind the
  jump below the \<open>uses - 1\<close> arguments and bring the callee address to the top.
\<close>

lemma swap0_middle: "swap0 (Suc (length args)) (r # args @ c # s) = c # args @ r # s"
  by (simp add: swap0_def nth_append)

lemma push1_4: "push_value (Suc 0) (MO_Immediate 4) = Some 4"
  by (simp add: push_value_def)

lemma run_return_address:
  assumes ra: "return_address (Suc (length args)) = Inr ra"
  shows "run_evm pc ra (args @ callee # s, m) =
    Some (callee # args @ word_of_nat (pc + code_size ra + 1) # s, m)"
proof -
  have k: "Suc (length args) \<le> 16" and ra': "ra =
      [MI (S (PUSH 1)) [MO_Immediate 4], MI (S GETPC) [], MI (S ADD) [],
       \<lparr>mi_opcode = SWAPn (Suc (length args)), mi_operands = [],
        mi_flags = BuildCommentFlags SUBROUTINE_BEGIN 0\<rparr>]"
    using ra by (auto simp: return_address_def getSWAPOpcode_def split: if_splits)
  have "(word_of_nat (pc + 2) + 4 :: word256) = word_of_nat (pc + 6)" by simp
  with k show ?thesis
    by (simp add: ra' code_size_def push1_4 swap0_middle)
qed

section \<open>The call epilogue\<close>

text \<open>
  Back from the callee, the frame pointer points one word above the saved one: it is
  restored, and nothing else changes.
\<close>

lemma run_call_epilogue:
  assumes "32 \<le> frame ST m"
  shows "run_evm pc (call_epilogue ST) (s, m) =
    Some (s, mstore m (fp_addr ST) (mload m (frame ST m - 32)))"
proof -
  have "unat (mload m (fp_addr ST) - 32) = frame ST m - 32"
    using assms by (simp add: unat_sub_if_size frame_def)
  then show ?thesis
    by (simp add: call_epilogue_def Let_def unat_push32 fp_addr_def [symmetric])
qed

text \<open>
  Prologue and epilogue together. The callee may change the stack and the memory, as long
  as it leaves the frame pointer and the word in which the caller saved its own one alone:
  the caller then finds its frame again.
\<close>

lemma call_restores_frame:
  assumes fits: "frame_fits ST m (unat index)"
    and pro: "run_evm pc (call_prologue ST index) (s, m) = Some (s1, m1)"
    and callee_fp: "mload m2 (fp_addr ST) = mload m1 (fp_addr ST)"
    and callee_save: "mload m2 (frame ST m1 - 32) = mload m1 (frame ST m1 - 32)"
  shows "s1 = s \<and> (\<exists>m3. run_evm pc' (call_epilogue ST) (s2, m2) = Some (s2, m3) \<and>
    mload m3 (fp_addr ST) = mload m (fp_addr ST) \<and>
    mem.agree_except [fp_addr ST] m2 m3)"
proof -
  obtain m1' where p: "run_evm pc (call_prologue ST index) (s, m) = Some (s, m1')"
    "mload m1' (frame ST m + 32 * unat index) = mload m (fp_addr ST)"
    "frame ST m1' = frame ST m + 32 * (unat index + 1)"
    using run_call_prologue [OF fits, of pc s] by blast
  with pro have m1: "m1' = m1" and s1: "s1 = s" by simp_all
  have save: "frame ST m1 - 32 = frame ST m + 32 * unat index" using p(3) m1 by simp
  have f2: "frame ST m2 = frame ST m1" using callee_fp by (simp add: frame_def)
  then have "32 \<le> frame ST m2" using p(3) m1 by simp
  from run_call_epilogue [OF this] have
    "run_evm pc' (call_epilogue ST) (s2, m2) =
      Some (s2, mstore m2 (fp_addr ST) (mload m (fp_addr ST)))"
    using callee_save p(2) m1 f2 save by simp
  with s1 show ?thesis
    by (auto simp: mload_mstore_same intro!: mem.agree_except_st mem.agree_except_refl)
qed

section \<open>Locals\<close>

text \<open>The address of local number \<open>k\<close> of the frame, above the fixed part of the frame.\<close>

definition local_addr :: "EVMSubtarget \<Rightarrow> 32 word \<Rightarrow> memory \<Rightarrow> nat \<Rightarrow> nat" where
  "local_addr ST fiSize m k = frame ST m + 32 * (k + unat fiSize div 32)"

definition local_fits :: "EVMSubtarget \<Rightarrow> 32 word \<Rightarrow> memory \<Rightarrow> nat \<Rightarrow> bool" where
  "local_fits ST fiSize m k \<longleftrightarrow>
     32 * (k + unat fiSize div 32) < 2 ^ 32 \<and> local_addr ST fiSize m k < 2 ^ 256"

text \<open>The code the two passes make of a load and of a store of a local.\<close>

definition local_code ::
    "EVMSubtarget \<Rightarrow> EVMMachineFunctionInfo \<Rightarrow> 32 word \<Rightarrow> minstr \<Rightarrow> nat \<Rightarrow> minstr list result" where
  "local_code ST MFI fiSize mi n =
     rbind (expandLOCAL ST fiSize mi n) (\<lambda>(code, n'). convert_instrs ST MFI code)"

lemma unat_slot_index:
  assumes "32 * (k + unat fiSize div 32) < 2 ^ 32"
  shows "unat (slot_index fiSize (int k) * 32) = 32 * (k + unat fiSize div 32)"
proof -
  have "slot_index fiSize (int k) = word_of_nat (k + unat fiSize div 32)"
  proof -
    have "int k + uint fiSize div 32 = int (k + unat fiSize div 32)" by (simp add: zdiv_int)
    then show ?thesis by (simp only: slot_index_def of_int_of_nat_eq)
  qed
  moreover have "unat (word_of_nat (k + unat fiSize div 32) :: 32 word) = k + unat fiSize div 32"
    using assms by (simp add: unsigned_of_nat take_bit_nat_eq_self del: of_nat_add)
  ultimately show ?thesis using assms by (simp only: unat_mult_32)
qed

lemma local_address:
  assumes "local_fits ST fiSize m k"
  shows "unat (ucast (slot_index fiSize (int k) * 32) + mload m (fp_addr ST)) =
    local_addr ST fiSize m k"
proof -
  have u: "unat (slot_index fiSize (int k) * 32) = 32 * (k + unat fiSize div 32)"
    using assms by (intro unat_slot_index) (simp add: local_fits_def)
  have "unat (mload m (fp_addr ST)) + unat (slot_index fiSize (int k) * 32) < 2 ^ 256"
    using assms unfolding u local_fits_def local_addr_def frame_def by simp
  from unat_frame_plus [OF this] show ?thesis unfolding u local_addr_def frame_def .
qed

lemma run_GETLOCAL:
  assumes "local_fits ST fiSize m k"
  shows "\<exists>code. local_code ST MFI fiSize (MI pGETLOCAL_r [defOf r, MO_Immediate (int k)]) n = Inr code \<and>
    run_evm pc code (s, m) = Some (mload m (local_addr ST fiSize m k) # s, m)"
  using local_address [OF assms]
  by (simp add: local_code_def expandLOCAL_def getNewRegister_def getOperand_def Let_def
      convert_instr_def strip_registers_def explicit_uses_def isPhysicalRegister.simps
      unat_push32 fp_addr_def [symmetric])

lemma run_PUTLOCAL:
  assumes "local_fits ST fiSize m k" and "\<not> isPhysicalRegister r"
  shows "\<exists>code. local_code ST MFI fiSize (MI pPUTLOCAL_r [useOf r, MO_Immediate (int k)]) n =
      Inr code \<and>
    run_evm pc code (v # s, m) = Some (s, mstore m (local_addr ST fiSize m k) v)"
  using local_address [OF assms(1)] assms(2)
  by (simp add: local_code_def expandLOCAL_def getNewRegister_def getOperand_def Let_def
      convert_instr_def strip_registers_def explicit_uses_def isPhysicalRegister.simps
      unat_push32 fp_addr_def [symmetric])

end
