(* ===== verification/LoweringRefinement.thy ===== *)
theory LoweringRefinement
  imports CallingSequence StackAllocUses
begin

text \<open>
  The stack manipulation code of the allocator, taken through \<open>EVMExpandPseudos\<close> and
  \<open>EVMConvertRegToStack\<close>, implements on the reference EVM what it means on the machine with
  abstract locals: the stacks are the same and local \<open>k\<close> is the word at \<open>local_addr\<close> of the
  current frame.
\<close>

section \<open>The relation between abstract locals and memory\<close>

definition locals_in_memory ::
    "EVMSubtarget \<Rightarrow> 32 word \<Rightarrow> nat \<Rightarrow> (nat \<Rightarrow> word256) \<Rightarrow> memory \<Rightarrow> bool" where
  "locals_in_memory ST fiSize N loc m \<longleftrightarrow>
     fp_addr ST + 32 \<le> frame ST m \<and> (\<forall>k < N. local_fits ST fiSize m k) \<and>
     (\<forall>k < N. mload m (local_addr ST fiSize m k) = loc k)"

text \<open>The inserted instructions whose indexes an EVM instruction can have.\<close>

fun manip_ok :: "nat \<Rightarrow> manip \<Rightarrow> bool" where
  "manip_ok N (Dup n) = (1 \<le> n \<and> n \<le> 16)"
| "manip_ok N (Swap n) = (1 \<le> n \<and> n \<le> 16)"
| "manip_ok N Pop = True"
| "manip_ok N (Get r k) = (k < N)"
| "manip_ok N (Put r k) = (k < N \<and> \<not> isPhysicalRegister r)"

text \<open>The two passes on a piece of code, \<open>n\<close> virtual registers being in use.\<close>

definition lower ::
    "EVMSubtarget \<Rightarrow> EVMMachineFunctionInfo \<Rightarrow> 32 word \<Rightarrow> nat \<Rightarrow> minstr list \<Rightarrow> minstr list result" where
  "lower ST MFI fiSize n mis =
     rbind (foldM (expand_instr ST fiSize) mis ([], n)) (\<lambda>(code, n'). convert_instrs ST MFI code)"

section \<open>Stores to locals\<close>

lemma local_addr_apart:
  "j \<noteq> k \<Longrightarrow> local_addr ST fi m j + 32 \<le> local_addr ST fi m k \<or>
             local_addr ST fi m k + 32 \<le> local_addr ST fi m j"
  by (auto simp: local_addr_def)

lemma frame_store:
  assumes "fp_addr ST + 32 \<le> frame ST m"
  shows "frame ST (mstore m (local_addr ST fi m k) v) = frame ST m"
proof -
  have "mload (mstore m (local_addr ST fi m k) v) (fp_addr ST) = mload m (fp_addr ST)"
    using assms by (intro mload_mstore_other) (simp add: local_addr_def)
  then show ?thesis by (simp add: frame_def)
qed

lemma locals_store:
  assumes "locals_in_memory ST fi N loc m" and "k < N"
  shows "locals_in_memory ST fi N (loc(k := v)) (mstore m (local_addr ST fi m k) v)"
proof -
  let ?m = "mstore m (local_addr ST fi m k) v"
  have f: "frame ST ?m = frame ST m"
    using assms(1) by (intro frame_store) (simp add: locals_in_memory_def)
  then have a: "local_addr ST fi ?m j = local_addr ST fi m j" for j
    by (simp add: local_addr_def)
  have "mload ?m (local_addr ST fi m j) = (loc(k := v)) j" if "j < N" for j
    using assms that mload_mstore_same mload_mstore_other [OF local_addr_apart [of k j]]
    by (cases "j = k") (auto simp: locals_in_memory_def)
  with assms(1) show ?thesis
    by (simp add: locals_in_memory_def f a local_fits_def)
qed

section \<open>One instruction\<close>

lemma imm_operand_nat:
  "n \<le> 16 \<Longrightarrow> imm_operand \<lparr>mi_opcode = opc, mi_operands = [MO_Immediate (int n)], mi_flags = f\<rparr> = Inr n"
  by (simp add: imm_operand_def unsigned_of_nat take_bit_nat_eq_self)

definition lowers ::
    "EVMSubtarget \<Rightarrow> EVMMachineFunctionInfo \<Rightarrow> 32 word \<Rightarrow> nat \<Rightarrow> nat \<Rightarrow> minstr \<Rightarrow>
     evm_state \<Rightarrow> evm_state \<Rightarrow> bool" where
  "lowers ST MFI fi n pc mi st st' \<longleftrightarrow>
     (\<exists>code n' code'. expand_instr ST fi mi ([], n) = Inr (code, n') \<and>
        convert_instrs ST MFI code = Inr code' \<and> run_evm pc code' st = Some st')"

lemma lowers_local:
  assumes "mi_opcode mi = pGETLOCAL_r \<or> mi_opcode mi = pPUTLOCAL_r"
    and "\<exists>code. local_code ST MFI fi mi n = Inr code \<and> run_evm pc code st = Some st'"
  shows "lowers ST MFI fi n pc mi st st'"
  using assms
  by (auto simp: lowers_def local_code_def rbind_eq_Inr expand_instr_def)

lemma manip_lowers:
  assumes ok: "manip_ok N m" and rel: "locals_in_memory ST fi N loc mem"
    and exec: "exec_manip (manip_mi m) (s, loc) = Some (s', loc')"
  shows "\<exists>mem'. lowers ST MFI fi n pc (manip_mi m) (s, mem) (s', mem') \<and>
    locals_in_memory ST fi N loc' mem' \<and> frame ST mem' = frame ST mem"
proof (cases m)
  case (Dup k)
  with ok exec have "s' = s ! (k - 1) # s" "loc' = loc" "1 \<le> k" "k \<le> 16" "k \<le> length s"
    by (auto split: if_splits)
  with rel Dup show ?thesis
    by (auto simp: lowers_def expand_instr_def convert_instr_def convertDUP_def imm_operand_nat
        getDUPOpcode_def)
next
  case (Swap k)
  with ok exec have "s' = swap0 k s" "loc' = loc" "1 \<le> k" "k \<le> 16" "k < length s"
    by (auto split: if_splits)
  with rel Swap show ?thesis
    by (auto simp: lowers_def expand_instr_def convert_instr_def convertSWAP_def imm_operand_nat
        getSWAPOpcode_def)
next
  case Pop
  with exec obtain v where "s = v # s'" "loc' = loc" by (auto split: list.splits)
  with rel Pop show ?thesis
    by (auto simp: lowers_def expand_instr_def convert_instr_def strip_registers_def
        explicit_uses_def)
next
  case (Get r k)
  with ok exec have s': "s' = loc k # s" "loc' = loc" "k < N" by auto
  have fits: "local_fits ST fi mem k" "mload mem (local_addr ST fi mem k) = loc k"
    using rel s'(3) by (simp_all add: locals_in_memory_def)
  have "lowers ST MFI fi n pc (manip_mi m) (s, mem) (s', mem)"
    using run_GETLOCAL [OF fits(1), of MFI r n pc s] fits(2) s' Get
    by (intro lowers_local) simp_all
  with rel s' show ?thesis by auto
next
  case (Put r k)
  with ok exec obtain v where s': "s = v # s'" "loc' = loc(k := v)" "k < N" "\<not> isPhysicalRegister r"
    by (auto split: list.splits)
  have fits: "local_fits ST fi mem k" and a: "fp_addr ST + 32 \<le> frame ST mem"
    using rel s'(3) by (simp_all add: locals_in_memory_def)
  have "lowers ST MFI fi n pc (manip_mi m) (s, mem) (s', mstore mem (local_addr ST fi mem k) v)"
    using run_PUTLOCAL [OF fits s'(4), of MFI n pc v s'] s' Put
    by (intro lowers_local) simp_all
  with locals_store [OF rel s'(3), of v] frame_store [OF a] s'(2) show ?thesis by blast
qed

section \<open>Sequences\<close>

lemma expand_instr_acc:
  "expand_instr ST fi mi (c, n) =
     rbind (expand_instr ST fi mi ([], n)) (\<lambda>(d, n'). Inr (c @ d, n'))"
  by (auto simp: expand_instr_def rbind_assoc intro!: rbind_cong)

lemma expand_instrs_acc:
  "foldM (expand_instr ST fi) mis (c, n) =
     rbind (foldM (expand_instr ST fi) mis ([], n)) (\<lambda>(d, n'). Inr (c @ d, n'))"
proof (induction mis arbitrary: c n)
  case (Cons mi mis)
  have "foldM (expand_instr ST fi) (mi # mis) (c, n) =
      rbind (expand_instr ST fi mi ([], n)) (\<lambda>(d, n'). foldM (expand_instr ST fi) mis (c @ d, n'))" for c
    by (subst foldM.simps, subst expand_instr_acc)
       (auto simp: rbind_assoc split_def intro!: rbind_cong)
  note step = this
  show ?case
    unfolding step [of c] step [of "[]"] rbind_assoc
    by (rule rbind_cong [OF refl]) (simp add: split_def Cons.IH [of "_ @ _"] Cons.IH [of "fst _"] rbind_assoc)
qed simp

lemma lower_Cons:
  assumes "expand_instr ST fi mi ([], n) = Inr (code, n1)" and "convert_instrs ST MFI code = Inr c1"
    and "lower ST MFI fi n1 mis = Inr c2"
  shows "lower ST MFI fi n (mi # mis) = Inr (c1 @ c2)"
proof -
  obtain code2 n2 where 2: "foldM (expand_instr ST fi) mis ([], n1) = Inr (code2, n2)"
    and c2: "convert_instrs ST MFI code2 = Inr c2"
    using assms(3) by (auto simp: lower_def rbind_eq_Inr)
  have "foldM (expand_instr ST fi) mis (code, n1) = Inr (code @ code2, n2)"
    by (subst expand_instrs_acc) (simp add: 2)
  with assms(1,2) c2 show ?thesis by (simp add: lower_def convert_instrs_append)
qed

lemma manips_lower:
  assumes "list_all (manip_ok N) ms" and "locals_in_memory ST fi N loc mem"
    and "run_manip (map manip_mi ms) (s, loc) = Some (s', loc')"
  shows "\<exists>code mem'. lower ST MFI fi n (map manip_mi ms) = Inr code \<and>
    run_evm pc code (s, mem) = Some (s', mem') \<and>
    locals_in_memory ST fi N loc' mem' \<and> frame ST mem' = frame ST mem"
  using assms
proof (induction ms arbitrary: s loc mem n pc)
  case Nil
  then show ?case by (auto simp: lower_def)
next
  case (Cons m ms)
  then obtain s1 loc1 where 1: "exec_manip (manip_mi m) (s, loc) = Some (s1, loc1)"
    and rest: "run_manip (map manip_mi ms) (s1, loc1) = Some (s', loc')"
    by (auto split: option.splits)
  obtain mem1 where l: "lowers ST MFI fi n pc (manip_mi m) (s, mem) (s1, mem1)"
    and r1: "locals_in_memory ST fi N loc1 mem1" "frame ST mem1 = frame ST mem"
    using manip_lowers [OF _ Cons.prems(2) 1, of MFI n pc] Cons.prems(1) by auto
  from l obtain code n1 c1 where c1: "expand_instr ST fi (manip_mi m) ([], n) = Inr (code, n1)"
    "convert_instrs ST MFI code = Inr c1" "run_evm pc c1 (s, mem) = Some (s1, mem1)"
    unfolding lowers_def by blast
  obtain c2 mem' where c2: "lower ST MFI fi n1 (map manip_mi ms) = Inr c2"
    "run_evm (pc + code_size c1) c2 (s1, mem1) = Some (s', mem')"
    "locals_in_memory ST fi N loc' mem'" "frame ST mem' = frame ST mem1"
    using Cons.IH [OF _ r1(1) rest, of n1 "pc + code_size c1"] Cons.prems(1) by auto
  from lower_Cons [OF c1(1,2) c2(1)] c1(3) c2 r1(2) show ?case
    by (auto simp: run_evm_append)
qed

end
