(* ===== verification/MathExtras.thy ===== *)
theory MathExtras
  imports Prelude
begin

unbundle bit_operations_syntax

text \<open>
  Bit tricks on machine words, from \<open>MathExtras.h\<close>. The references they are compared with are
  \<open>lead_zeros\<close>, \<open>trail_zeros\<close> and \<open>ones\<close>, recursions over the bits of a number.
\<close>

section \<open>Reference definitions\<close>

text \<open>Leading zeros of the \<open>k\<close>-bit representation of \<open>v\<close>, and trailing ones counted likewise.\<close>

fun lead_zeros :: "nat \<Rightarrow> nat \<Rightarrow> nat" where
  "lead_zeros v 0 = 0"
| "lead_zeros v (Suc k) = (if bit v k then 0 else Suc (lead_zeros v k))"

fun trail_zeros :: "nat \<Rightarrow> nat \<Rightarrow> nat" where
  "trail_zeros v 0 = 0"
| "trail_zeros v (Suc k) = (if odd v then 0 else Suc (trail_zeros (v div 2) k))"

lemma bit_top: "v < 2 ^ Suc k \<Longrightarrow> bit (v :: nat) k \<longleftrightarrow> 2 ^ k \<le> v"
proof -
  assume v: "v < 2 ^ Suc k"
  show ?thesis
  proof (cases "v < 2 ^ k")
    case True
    then show ?thesis by (simp add: bit_iff_odd)
  next
    case False
    with v have "v div 2 ^ k = 1" by (intro div_nat_eqI) simp_all
    with False show ?thesis by (simp add: bit_iff_odd)
  qed
qed

lemma lead_zeros_bounds:
  "v < 2 ^ k \<Longrightarrow> lead_zeros v k \<le> k \<and> v < 2 ^ (k - lead_zeros v k) \<and>
     (lead_zeros v k < k \<longrightarrow> 2 ^ (k - lead_zeros v k - 1) \<le> v)"
proof (induction k)
  case (Suc k)
  show ?case
  proof (cases "bit v k")
    case True
    with Suc.prems show ?thesis using bit_top [of v k] by simp
  next
    case False
    then have "v < 2 ^ k" using Suc.prems bit_top [of v k] by auto
    with Suc.IH False show ?thesis by simp
  qed
qed simp

lemma lead_zeros_le: "lead_zeros v k \<le> k"
  by (induction k) auto

lemma lead_zeros_0 [simp]: "lead_zeros 0 k = k"
  by (induction k) auto

lemma lead_zeros_mod: "lead_zeros (v mod 2 ^ k) k = lead_zeros v k"
proof -
  have "j \<le> k \<Longrightarrow> lead_zeros (v mod 2 ^ k) j = lead_zeros v j" for j
    by (induction j) (auto simp: bit_take_bit_iff simp flip: take_bit_eq_mod)
  then show ?thesis by simp
qed

lemma lead_zeros_add:
  "lead_zeros v (a + b) =
    (if take_bit a (drop_bit b v) = 0 then a + lead_zeros v b else lead_zeros (drop_bit b v) a)"
  by (induction a) (simp_all add: take_bit_Suc_from_most bit_drop_bit_eq comp_def add.commute)

lemma trail_zeros_add:
  "trail_zeros v (a + b) =
    (if take_bit a v = 0 then a + trail_zeros (drop_bit a v) b else trail_zeros v a)"
  by (induction a arbitrary: v)
     (simp_all add: take_bit_Suc drop_bit_Suc mod_2_eq_odd)

lemma trail_zeros_spec:
  "0 < v \<Longrightarrow> v < 2 ^ k \<Longrightarrow> trail_zeros v k < k \<and> bit v (trail_zeros v k) \<and> 2 ^ trail_zeros v k dvd v"
proof (induction k arbitrary: v)
  case (Suc k)
  show ?case
  proof (cases "odd v")
    case False
    with Suc.prems Suc.IH [of "v div 2"] have "trail_zeros (v div 2) k < k"
      "bit (v div 2) (trail_zeros (v div 2) k)" "2 ^ trail_zeros (v div 2) k dvd v div 2"
      by (auto elim!: evenE)
    with False show ?thesis by (auto simp: bit_Suc elim!: evenE)
  qed (simp add: bit_0)
qed simp

lemma trail_zeros_unique:
  assumes "v < 2 ^ k" "bit v t" "2 ^ t dvd v"
  shows "trail_zeros v k = t"
  using assms
proof (induction k arbitrary: v t)
  case (Suc k)
  show ?case
  proof (cases "odd v")
    case True
    have "t = 0"
    proof (rule ccontr)
      assume "t \<noteq> 0"
      then have "(2 :: nat) dvd 2 ^ t" by simp
      with Suc.prems(3) True show False by (meson dvd_trans)
    qed
    with True show ?thesis by simp
  next
    case False
    with Suc.prems obtain u where t: "t = Suc u" by (cases t) (auto simp: bit_0)
    with Suc.prems have "bit (v div 2) u" "2 ^ u dvd v div 2" "v div 2 < 2 ^ k"
      by (simp_all add: bit_Suc dvd_div_iff_mult False [simplified] mult.commute)
    with False t Suc.IH show ?thesis by simp
  qed
qed auto

section \<open>Counting zeros\<close>

datatype ZeroBehavior = ZB_Undefined | ZB_Max | ZB_Width

text \<open>
  The primary templates of the counters search by bisection; \<open>Shift\<close> is a value of the
  counted type and is at most half its width.
\<close>

fun trailing_loop :: "'a :: len word \<Rightarrow> nat \<Rightarrow> 'a word \<Rightarrow> nat \<Rightarrow> nat" where
  "trailing_loop Val Shift Mask ZeroBits =
    (if Shift = 0 then ZeroBits
     else let z = (Val AND Mask = 0);
              Val' = (if z then drop_bit Shift Val else Val);
              ZeroBits' = (if z then ZeroBits OR Shift else ZeroBits);
              Shift' = Shift div 2
          in trailing_loop Val' Shift' (drop_bit Shift' Mask) ZeroBits')"

definition TrailingZerosCounter :: "'a :: len word \<Rightarrow> nat" where
  "TrailingZerosCounter Val =
    (if Val = 0 then LENGTH('a)
     else if Val AND 1 \<noteq> 0 then 0
     else let Shift = LENGTH('a) div 2
          in trailing_loop Val Shift (drop_bit Shift (- 1)) 0)"

fun leading_loop :: "'a :: len word \<Rightarrow> nat \<Rightarrow> nat \<Rightarrow> nat" where
  "leading_loop Val Shift ZeroBits =
    (if Shift = 0 then ZeroBits
     else let Tmp = drop_bit Shift Val
          in if Tmp \<noteq> 0 then leading_loop Tmp (Shift div 2) ZeroBits
             else leading_loop Val (Shift div 2) (ZeroBits OR Shift))"

definition LeadingZerosCounter :: "'a :: len word \<Rightarrow> nat" where
  "LeadingZerosCounter Val =
    (if Val = 0 then LENGTH('a) else leading_loop Val (LENGTH('a) div 2) 0)"

declare trailing_loop.simps [simp del] leading_loop.simps [simp del]

lemma or_eq_add:
  assumes "2 * s dvd z" "s = 2 ^ j"
  shows "z OR s = z + (s :: nat)"
proof -
  from assms obtain k where "z = 2 ^ j * (2 * k)" by (auto elim!: dvdE)
  then have "\<not> bit z j" by (simp add: bit_iff_odd)
  then show ?thesis using assms(2) set_bit_eq [of j z] by (simp add: set_bit_eq_or push_bit_eq_mult)
qed

lemma drop_bit_eq_0_unat: "drop_bit n w = 0 \<longleftrightarrow> unat w < 2 ^ n" for w :: "'a :: len word"
  by (metis div_eq_0_iff drop_bit_eq_div unat_drop_bit_eq unsigned_0 unsigned_word_eqI power_not_zero zero_neq_numeral)

lemma leading_loop_step:
  fixes Val :: "'a :: len word"
  assumes v: "Val \<noteq> 0" "unat Val < 2 ^ (2 * s)" and s: "s = 2 ^ j" "2 * s dvd z"
    and IH: "\<And>(w :: 'a word) y. w \<noteq> 0 \<Longrightarrow> unat w < 2 ^ s \<Longrightarrow> s dvd y \<Longrightarrow>
      leading_loop w (s div 2) y = y + lead_zeros (unat w) s"
  shows "leading_loop Val s z = z + lead_zeros (unat Val) (2 * s)"
proof (cases "drop_bit s Val = 0")
  case True
  have s0: "s \<noteq> 0" using s(1) by simp
  from True have l: "unat Val < 2 ^ s" by (simp add: drop_bit_eq_0_unat)
  then have "drop_bit s (unat Val) = 0" by (simp add: drop_bit_eq_div)
  then have "lead_zeros (unat Val) (s + s) = s + lead_zeros (unat Val) s" by (simp add: lead_zeros_add)
  moreover from s(2) have "s dvd z" by (rule dvd_mult_right)
  moreover have "leading_loop Val s z = leading_loop Val (s div 2) (z + s)"
    using True s0 by (simp add: leading_loop.simps [of Val s] or_eq_add [OF s(2,1)])
  ultimately show ?thesis using v(1) l IH [of Val "z + s"] by (simp add: mult_2)
next
  case False
  let ?T = "drop_bit s Val"
  have s0: "s \<noteq> 0" using s(1) by simp
  have u: "unat ?T = drop_bit s (unat Val)" by (simp add: unat_drop_bit_eq)
  have l: "unat ?T < 2 ^ s"
    using v(2) unfolding u by (simp add: drop_bit_eq_div mult_2 power_add less_mult_imp_div_less)
  have "take_bit s (unat ?T) = unat ?T" using l by (rule take_bit_nat_eq_self)
  moreover from False have "unat ?T \<noteq> 0" by (simp add: unat_eq_0)
  ultimately have "lead_zeros (unat Val) (s + s) = lead_zeros (unat ?T) s"
    by (simp add: lead_zeros_add u)
  moreover from s(2) have "s dvd z" by (rule dvd_mult_right)
  moreover have "leading_loop Val s z = leading_loop ?T (s div 2) z"
    using False s0 by (simp add: leading_loop.simps [of Val s])
  ultimately show ?thesis using False l IH [of ?T z] by (simp add: mult_2)
qed

lemma leading_loop_eq:
  "Val \<noteq> 0 \<Longrightarrow> unat Val < 2 ^ (2 * 2 ^ j) \<Longrightarrow> 2 * 2 ^ j dvd z \<Longrightarrow>
   leading_loop Val (2 ^ j) z = z + lead_zeros (unat Val) (2 * 2 ^ j)"
proof (induction j arbitrary: Val z)
  case 0
  have "leading_loop w 0 y = y + lead_zeros (unat w) 1" if "w \<noteq> 0" "unat w < 2 ^ 1" for w :: "'a word" and y
  proof -
    from that have "unat w = 1" by (metis One_nat_def less_2_cases_iff power_one_right unat_eq_0)
    then show ?thesis by (simp add: leading_loop.simps [of w 0] bit_0)
  qed
  with 0 leading_loop_step [of Val 1 0 z] show ?case by simp
next
  case (Suc j)
  have d: "2 ^ Suc j div 2 = (2 :: nat) ^ j" by simp
  from Suc.prems show ?case
    by (intro leading_loop_step [where j = "Suc j"]) (simp_all add: Suc.IH)
qed

text \<open>The bisection counts the leading zeros of a word whose width is a power of two.\<close>

lemma LeadingZerosCounter_eq:
  assumes "LENGTH('a :: len) = 2 ^ Suc j"
  shows "LeadingZerosCounter (Val :: 'a word) = lead_zeros (unat Val) LENGTH('a)"
proof -
  have "unat Val < 2 ^ (2 * 2 ^ j)" using unsigned_less [of Val, where ?'a = nat] assms by simp
  then show ?thesis using leading_loop_eq [of Val j 0] assms by (simp add: LeadingZerosCounter_def)
qed

lemma and_mask_eq_0_unat: "w AND mask n = 0 \<longleftrightarrow> take_bit n (unat w) = 0" for w :: "'a :: len word"
  by (metis take_bit_eq_mask unat_eq_0 unsigned_take_bit_eq)

lemma trailing_loop_step:
  fixes Val :: "'a :: len word"
  assumes v: "take_bit (2 * s) (unat Val) \<noteq> 0" and s: "s = 2 ^ j" "2 * s dvd z"
    and IH: "\<And>(w :: 'a word) y. take_bit s (unat w) \<noteq> 0 \<Longrightarrow> s dvd y \<Longrightarrow>
      trailing_loop w (s div 2) (drop_bit (s div 2) (mask s)) y = y + trail_zeros (unat w) s"
  shows "trailing_loop Val s (mask s) z = z + trail_zeros (unat Val) (2 * s)"
proof -
  have s0: "s \<noteq> 0" using s(1) by simp
  from s(2) have d: "s dvd z" by (rule dvd_mult_right)
  show ?thesis
  proof (cases "take_bit s (unat Val) = 0")
    case True
    let ?T = "drop_bit s Val"
    have u: "unat ?T = drop_bit s (unat Val)" by (simp add: unat_drop_bit_eq)
    have "take_bit s (unat ?T) \<noteq> 0"
    proof
      assume "take_bit s (unat ?T) = 0"
      then have "drop_bit s (take_bit (s + s) (unat Val)) = 0" by (simp add: u drop_bit_take_bit)
      moreover have "take_bit s (take_bit (s + s) (unat Val)) = 0" using True by simp
      ultimately show False using v by (metis bits_ident mult_2 add_0 push_bit_of_0)
    qed
    moreover have "trail_zeros (unat Val) (s + s) = s + trail_zeros (unat ?T) s"
      using True by (simp add: trail_zeros_add u)
    moreover have "trailing_loop Val s (mask s) z =
        trailing_loop ?T (s div 2) (drop_bit (s div 2) (mask s)) (z + s)"
      using True s0 by (simp add: trailing_loop.simps [of Val s] Let_def and_mask_eq_0_unat or_eq_add [OF s(2,1)])
    ultimately show ?thesis using d IH [of ?T "z + s"] by (simp add: mult_2)
  next
    case False
    then have "trail_zeros (unat Val) (s + s) = trail_zeros (unat Val) s" by (simp add: trail_zeros_add)
    moreover have "trailing_loop Val s (mask s) z =
        trailing_loop Val (s div 2) (drop_bit (s div 2) (mask s)) z"
      using False s0 by (simp add: trailing_loop.simps [of Val s] Let_def and_mask_eq_0_unat)
    ultimately show ?thesis using False d IH [of Val z] by (simp add: mult_2)
  qed
qed

lemma drop_bit_mask_half:
  "n \<le> LENGTH('a) \<Longrightarrow> drop_bit m (mask n :: 'a :: len word) = mask (n - m)"
  by (rule bit_eqI) (auto simp: bit_drop_bit_eq bit_mask_iff)

lemma trailing_loop_eq:
  "take_bit (2 * 2 ^ j) (unat (Val :: 'a :: len word)) \<noteq> 0 \<Longrightarrow> 2 * 2 ^ j dvd z \<Longrightarrow> 2 * 2 ^ j \<le> LENGTH('a) \<Longrightarrow>
   trailing_loop Val (2 ^ j) (mask (2 ^ j)) z = z + trail_zeros (unat Val) (2 * 2 ^ j)"
proof (induction j arbitrary: Val z)
  case 0
  have "trailing_loop w 0 m y = y + trail_zeros (unat w) 1" if "take_bit 1 (unat w) \<noteq> 0"
    for w m :: "'a word" and y
    using that by (auto simp: trailing_loop.simps [of w 0] take_bit_eq_mod)
  with 0 trailing_loop_step [of 1 Val 0 z] show ?case by simp
next
  case (Suc j)
  have d: "2 ^ Suc j div 2 = (2 :: nat) ^ j" by simp
  have m: "drop_bit (2 ^ j) (mask (2 ^ Suc j) :: 'a word) = mask (2 ^ j)"
    using Suc.prems(3) by (subst drop_bit_mask_half) simp_all
  show ?case
  proof (rule trailing_loop_step [where j = "Suc j", OF Suc.prems(1) refl Suc.prems(2)])
    fix w :: "'a word" and y :: nat
    assume "take_bit (2 ^ Suc j) (unat w) \<noteq> 0" "2 ^ Suc j dvd y"
    then show "trailing_loop w (2 ^ Suc j div 2) (drop_bit (2 ^ Suc j div 2) (mask (2 ^ Suc j))) y =
        y + trail_zeros (unat w) (2 ^ Suc j)"
      using Suc.prems(3) Suc.IH [of w y] unfolding d m by simp
  qed
qed

lemma TrailingZerosCounter_eq:
  assumes "LENGTH('a :: len) = 2 ^ Suc j"
  shows "TrailingZerosCounter (Val :: 'a word) = trail_zeros (unat Val) LENGTH('a)"
proof (cases "Val = 0 \<or> Val AND 1 \<noteq> 0")
  case True
  have "trail_zeros 0 k = k" for k by (induction k) simp_all
  moreover have "odd (unat Val)" if "Val AND 1 \<noteq> 0"
    using that and_mask_eq_0_unat [of Val 1] by (auto simp: take_bit_eq_mod)
  moreover have "trail_zeros v (2 * 2 ^ j) = 0" if "odd v" for v
    using that by (cases "2 * 2 ^ j :: nat") simp_all
  ultimately show ?thesis using True assms by (auto simp: TrailingZerosCounter_def)
next
  case False
  have "unat Val < 2 ^ (2 * 2 ^ j)" using unsigned_less [of Val, where ?'a = nat] assms by simp
  then have "take_bit (2 * 2 ^ j) (unat Val) \<noteq> 0"
    using False by (simp add: take_bit_nat_eq_self unat_eq_0)
  moreover have "drop_bit (2 ^ j) (- 1 :: 'a word) = mask (2 ^ j)"
    using assms drop_bit_mask_half [of "LENGTH('a)" "2 ^ j", where ?'a = 'a] by simp
  ultimately show ?thesis using False assms trailing_loop_eq [of j Val 0]
    by (simp add: TrailingZerosCounter_def)
qed

text \<open>
  The 32-bit and 64-bit specialisations call the compiler's \<open>__builtin_clz\<close> and
  \<open>__builtin_ctz\<close>, which count the zeros and are undefined for zero.
\<close>

definition builtin_clz :: "'a :: len word \<Rightarrow> nat result" where
  "builtin_clz Val = (if Val = 0 then Inl (UndefinedBehaviour ''__builtin_clz(0)'')
    else Inr (lead_zeros (unat Val) LENGTH('a)))"

definition builtin_ctz :: "'a :: len word \<Rightarrow> nat result" where
  "builtin_ctz Val = (if Val = 0 then Inl (UndefinedBehaviour ''__builtin_ctz(0)'')
    else Inr (trail_zeros (unat Val) LENGTH('a)))"

definition countTrailingZeros :: "'a :: len word \<Rightarrow> ZeroBehavior \<Rightarrow> nat result" where
  "countTrailingZeros Val ZB =
    (if LENGTH('a) = 32 \<or> LENGTH('a) = 64
     then if ZB \<noteq> ZB_Undefined \<and> Val = 0 then Inr LENGTH('a) else builtin_ctz Val
     else Inr (TrailingZerosCounter Val))"

definition countLeadingZeros :: "'a :: len word \<Rightarrow> ZeroBehavior \<Rightarrow> nat result" where
  "countLeadingZeros Val ZB =
    (if LENGTH('a) = 32 \<or> LENGTH('a) = 64
     then if ZB \<noteq> ZB_Undefined \<and> Val = 0 then Inr LENGTH('a) else builtin_clz Val
     else Inr (LeadingZerosCounter Val))"

definition findFirstSet :: "'a :: len word \<Rightarrow> ZeroBehavior \<Rightarrow> 'a word result" where
  "findFirstSet Val ZB =
    (if ZB = ZB_Max \<and> Val = 0 then Inr (- 1)
     else rbind (countTrailingZeros Val ZB_Undefined) (\<lambda>n. Inr (of_nat n)))"

definition findLastSet :: "'a :: len word \<Rightarrow> ZeroBehavior \<Rightarrow> 'a word result" where
  "findLastSet Val ZB =
    (if ZB = ZB_Max \<and> Val = 0 then Inr (- 1)
     else rbind (countLeadingZeros Val ZB_Undefined)
       (\<lambda>n. Inr (of_nat (n XOR (LENGTH('a) - 1)))))"

definition countLeadingOnes :: "'a :: len word \<Rightarrow> ZeroBehavior \<Rightarrow> nat result" where
  "countLeadingOnes Value ZB = countLeadingZeros (NOT Value) ZB"

definition countTrailingOnes :: "'a :: len word \<Rightarrow> ZeroBehavior \<Rightarrow> nat result" where
  "countTrailingOnes Value ZB = countTrailingZeros (NOT Value) ZB"

text \<open>On every width a program uses the counters agree with the references.\<close>

lemma countLeadingZeros_eq:
  assumes "LENGTH('a :: len) \<in> {8, 16, 32, 64}" "Val \<noteq> 0 \<or> ZB \<noteq> ZB_Undefined"
  shows "countLeadingZeros (Val :: 'a word) ZB = Inr (lead_zeros (unat Val) LENGTH('a))"
  using assms LeadingZerosCounter_eq [of 2 Val] LeadingZerosCounter_eq [of 3 Val]
  by (auto simp: countLeadingZeros_def builtin_clz_def)

lemma countTrailingZeros_eq:
  assumes "LENGTH('a :: len) \<in> {8, 16, 32, 64}" "Val \<noteq> 0 \<or> ZB \<noteq> ZB_Undefined"
  shows "countTrailingZeros (Val :: 'a word) ZB = Inr (trail_zeros (unat Val) LENGTH('a))"
proof -
  have "trail_zeros 0 k = k" for k by (induction k) simp_all
  then show ?thesis using assms TrailingZerosCounter_eq [of 2 Val] TrailingZerosCounter_eq [of 3 Val]
    by (auto simp: countTrailingZeros_def builtin_ctz_def)
qed

lemma xor_mask:
  assumes "n < 2 ^ k"
  shows "n XOR mask k = mask k - (n :: nat)"
proof -
  have n: "bit n i \<Longrightarrow> i < k" for i
    using assms by (metis bit_take_bit_iff take_bit_nat_eq_self)
  have "n + (n XOR mask k) = n OR (n XOR mask k)"
    using n by (intro disjunctive_add) (auto simp: bit_xor_iff bit_mask_iff)
  also have "n OR (n XOR mask k) = mask k"
    using n by (intro bit_eqI) (auto simp: bit_or_iff bit_xor_iff bit_mask_iff)
  finally show ?thesis by simp
qed

lemma xor_63: "n < 64 \<Longrightarrow> n XOR 63 = 63 - (n :: nat)"
  using xor_mask [of n 6] by (simp add: mask_eq_exp_minus_1)

text \<open>The index of the highest bit of a word is the logarithm of its value.\<close>

lemma findLastSet_64:
  assumes "(Val :: 64 word) \<noteq> 0"
  shows "\<exists>n < 64. findLastSet Val ZB = Inr (of_nat n) \<and> 2 ^ n \<le> unat Val \<and> unat Val < 2 ^ Suc n"
proof -
  let ?z = "lead_zeros (unat Val) 64"
  have v: "unat Val < 2 ^ 64" using unsigned_less [of Val, where ?'a = nat] by simp
  have "?z \<noteq> 64"
  proof
    assume "?z = 64"
    with lead_zeros_bounds [OF v] have "unat Val < 1" by simp
    with assms show False by (simp add: unat_eq_0)
  qed
  with lead_zeros_bounds [OF v] have z: "?z < 64" and b: "2 ^ (63 - ?z) \<le> unat Val" "unat Val < 2 ^ (64 - ?z)"
    by auto
  from z have "64 - ?z = Suc (63 - ?z)" by simp
  moreover have "findLastSet Val ZB = Inr (of_nat (63 - ?z))"
    using assms z countLeadingZeros_eq [of Val ZB_Undefined] by (simp add: findLastSet_def xor_63)
  ultimately show ?thesis using b by (intro exI [of _ "63 - ?z"]) (simp add: z)
qed

lemma findFirstSet_64:
  assumes "(Val :: 64 word) \<noteq> 0"
  shows "\<exists>n < 64. findFirstSet Val ZB = Inr (of_nat n) \<and> bit (unat Val) n \<and> 2 ^ n dvd unat Val"
proof -
  have v: "unat Val < 2 ^ 64" using unsigned_less [of Val, where ?'a = nat] by simp
  from assms have "0 < unat Val" by (simp add: unat_gt_0)
  from trail_zeros_spec [OF this v] assms countTrailingZeros_eq [of Val ZB_Undefined] show ?thesis
    by (intro exI [of _ "trail_zeros (unat Val) 64"]) (simp add: findFirstSet_def)
qed

end
