(* ===== verification/ShrinkPush.thy ===== *)
theory ShrinkPush
  imports FunctionInfo EvmMachine MathExtras
begin

text \<open>
  The pass \<open>EVMShrinkpush\<close> (\<open>EVMShrinkPush.cpp\<close>), which replaces \<open>PUSH32\<close> by the shortest
  member of the family that holds the constant.
\<close>

section \<open>The pass\<close>

definition get_imm_size :: "int \<Rightarrow> nat result" where
  "get_imm_size imm =
     (let type_size = 8 in
      if 0 \<le> imm
      then rbind (countLeadingZeros (word_of_int imm :: 64 word) ZB_Width) (\<lambda>zeros.
        let bytes = type_size - zeros div 8
        in Inr (if bytes = 0 then 1 else bytes))
      else rbind (countLeadingOnes (word_of_int imm :: 64 word) ZB_Width) (\<lambda>ones.
        rbind (check_assert (0 < ones) ''ones > 0'') (\<lambda>_. Inr (type_size - ones div 8))))"

definition replaceCIwithI :: "nat \<Rightarrow> minstr \<Rightarrow> minstr" where
  "replaceCIwithI val mi =
     mi\<lparr>mi_operands := tl (mi_operands mi) @ [MO_Immediate (sint (word_of_nat val :: 64 word))]\<rparr>"

definition getActiveBits :: "nat \<Rightarrow> nat \<Rightarrow> nat" where
  "getActiveBits w v = w - lead_zeros v w"

definition push_size_of_bits :: "nat \<Rightarrow> nat option" where
  "push_size_of_bits activeBits =
     (if activeBits \<le> 8 then Some 1
      else if activeBits \<le> 16 then Some 2
      else if activeBits \<le> 24 then Some 3
      else if activeBits \<le> 32 then Some 4
      else if activeBits \<le> 40 then Some 5
      else if activeBits \<le> 48 then Some 6
      else if activeBits \<le> 56 then Some 7
      else if activeBits \<le> 64 then Some 8
      else None)"

text \<open>One instruction; the flag is what the iteration adds to \<open>Changed\<close>.\<close>

definition shrink_instr :: "minstr \<Rightarrow> (bool \<times> minstr list) result" where
  "shrink_instr mi =
     (if mi_opcode mi \<noteq> S (PUSH 32) then Inr (False, [mi])
      else case mi_operands mi of
        [] \<Rightarrow> Inl (AssertFailed ''getOperand() out of range!'')
      | MO_Immediate imm # _ \<Rightarrow>
          rbind (get_imm_size imm) (\<lambda>s.
          rbind (get_push_opcode s) (\<lambda>new_opcode.
            Inr (True, mi\<lparr>mi_opcode := new_opcode\<rparr> #
              (if imm < 0
               then [MI (S (PUSH 1)) [MO_Immediate (int s)], MI (S SIGNEXTEND) []]
               else []))))
      | MO_CImmediate w v # _ \<Rightarrow>
          rbind (check_assert (w \<le> 256) ''> 256bit constant immediates unsupported'') (\<lambda>_.
            case push_size_of_bits (getActiveBits w v) of
              Some n \<Rightarrow> Inr (False, [replaceCIwithI v (mi\<lparr>mi_opcode := S (PUSH n)\<rparr>)])
            | None \<Rightarrow> Inr (False, [mi]))
      | MO_MachineBasicBlock b # _ \<Rightarrow>
          rbind (get_push_opcode 2) (\<lambda>new_opcode. Inr (True, [mi\<lparr>mi_opcode := new_opcode\<rparr>]))
      | MO_GlobalAddress g # _ \<Rightarrow>
          rbind (get_push_opcode 2) (\<lambda>new_opcode. Inr (True, [mi\<lparr>mi_opcode := new_opcode\<rparr>]))
      | MO_BlockAddress a # _ \<Rightarrow>
          rbind (get_push_opcode 2) (\<lambda>new_opcode. Inr (True, [mi\<lparr>mi_opcode := new_opcode\<rparr>]))
      | _ # _ \<Rightarrow> Inr (False, [mi]))"

fun shrink_instrs :: "minstr list \<Rightarrow> (bool \<times> minstr list) result" where
  "shrink_instrs [] = Inr (False, [])"
| "shrink_instrs (mi # mis) =
     rbind (shrink_instr mi) (\<lambda>(b, c). rbind (shrink_instrs mis) (\<lambda>(b', c'). Inr (b \<or> b', c @ c')))"

fun runOnMachineFunction_shrink :: "mfunction \<Rightarrow> (bool \<times> mfunction) result" where
  "runOnMachineFunction_shrink [] = Inr (False, [])"
| "runOnMachineFunction_shrink (b # bs) =
     rbind (shrink_instrs (mbb_instrs b)) (\<lambda>(ch, c).
     rbind (runOnMachineFunction_shrink bs) (\<lambda>(ch', bs').
       Inr (ch \<or> ch', b\<lparr>mbb_instrs := c\<rparr> # bs')))"

section \<open>Sizes\<close>

lemma countLeadingZeros_int:
  "countLeadingZeros (word_of_int imm :: 64 word) ZB_Width = Inr (lead_zeros (nat (imm mod 2 ^ 64)) 64)"
  using countLeadingZeros_eq [of "word_of_int imm :: 64 word" ZB_Width]
  by (simp add: unsigned_of_int take_bit_eq_mod)

text \<open>The leading ones are the leading zeros of the complement.\<close>

lemma countLeadingOnes_int:
  "countLeadingOnes (word_of_int imm :: 64 word) ZB_Width = Inr (lead_zeros (nat ((- imm - 1) mod 2 ^ 64)) 64)"
proof -
  have "NOT (word_of_int imm :: 64 word) = word_of_int (- imm - 1)"
    by (simp add: not_eq_complement)
  then show ?thesis using countLeadingZeros_int [of "- imm - 1"] by (simp add: countLeadingOnes_def)
qed

lemmas count_int = countLeadingZeros_int countLeadingOnes_int

text \<open>The number of bytes a number needs: enough, and no more.\<close>

lemma bytes_needed:
  assumes v: "v < 2 ^ 64" and z: "lead_zeros v 64 = z"
  shows "v < 256 ^ (8 - z div 8)" and "z < 64 \<Longrightarrow> 256 ^ (8 - z div 8 - 1) \<le> v"
proof -
  from lead_zeros_bounds [OF v] z have b: "z \<le> 64" "v < 2 ^ (64 - z)"
    "z < 64 \<Longrightarrow> 2 ^ (64 - z - 1) \<le> v" by auto
  have e: "(256 :: nat) ^ n = 2 ^ (8 * n)" for n by (simp add: power_mult)
  have "64 - z \<le> 8 * (8 - z div 8)" using b(1) by auto
  then have "(2 :: nat) ^ (64 - z) \<le> 2 ^ (8 * (8 - z div 8))" by (rule power_increasing) simp
  with b(2) show "v < 256 ^ (8 - z div 8)" unfolding e by linarith
  assume z: "z < 64"
  then have "8 * (8 - z div 8 - 1) \<le> 64 - z - 1" by auto
  then have "(2 :: nat) ^ (8 * (8 - z div 8 - 1)) \<le> 2 ^ (64 - z - 1)" by (rule power_increasing) simp
  with b(3) z show "256 ^ (8 - z div 8 - 1) \<le> v" unfolding e by linarith
qed

lemma get_imm_size_nonneg:
  assumes "0 \<le> imm" and "imm < 2 ^ 63"
  obtains s where "get_imm_size imm = Inr s" "1 \<le> s" "s \<le> 8" "imm < 256 ^ s"
    "s = 1 \<or> 256 ^ (s - 1) \<le> imm"
proof -
  let ?v = "nat imm" and ?z = "lead_zeros (nat imm) 64"
  let ?s = "if 8 - ?z div 8 = 0 then 1 else 8 - ?z div 8"
  have m: "imm mod 2 ^ 64 = imm" using assms by simp
  have v: "?v < 2 ^ 64" using assms by (simp add: nat_less_iff)
  have g: "get_imm_size imm = Inr ?s"
    using assms by (simp add: get_imm_size_def count_int m Let_def)
  have lt: "?v < 256 ^ ?s" using bytes_needed(1) [OF v refl] by (auto split: if_splits)
  have ge: "?s = 1 \<or> 256 ^ (?s - 1) \<le> ?v"
    using bytes_needed(2) [OF v refl] by (cases "?z < 64") (auto split: if_splits)
  from lt ge assms(1) have "imm < 256 ^ ?s" "?s = 1 \<or> 256 ^ (?s - 1) \<le> imm"
    by (simp_all add: nat_less_iff le_nat_iff flip: of_nat_power) 
  moreover have "1 \<le> ?s" "?s \<le> 8" by auto
  ultimately show thesis using g that by blast
qed

section \<open>The pushed value\<close>

lemma take_bit_small_int:
  assumes "0 \<le> i" and "i < 2 ^ n" and "n \<le> 256"
  shows "take_bit n (word_of_int i :: word256) = word_of_int i"
proof -
  have "take_bit n i = i" using assms by (simp add: take_bit_int_eq_self)
  then show ?thesis using assms(3) by (metis min.absorb1 take_bit_word_beyond_length_eq
        take_bit_of_int unsigned_take_bit_eq of_int_eq_iff)
qed

abbreviation PUSH32_imm :: "int \<Rightarrow> minstr" where
  "PUSH32_imm i \<equiv> MI (S (PUSH 32)) [MO_Immediate i]"

lemma shrink_nonneg:
  assumes "0 \<le> imm" and "imm < 2 ^ 63"
  shows "\<exists>c n. shrink_instr (PUSH32_imm imm) = Inr (True, [c]) \<and>
    run_evm pc [c] (s, m) = Some (word_of_int imm # s, m) \<and>
    instr_size c = n + 1 \<and> imm < 256 ^ n \<and> (n = 1 \<or> 256 ^ (n - 1) \<le> imm)"
proof -
  obtain n where g: "get_imm_size imm = Inr n" and n: "1 \<le> n" "n \<le> 8" "imm < 256 ^ n"
    "n = 1 \<or> 256 ^ (n - 1) \<le> imm"
    using get_imm_size_nonneg [OF assms] by blast
  have "push_value n (MO_Immediate imm) = Some (word_of_int imm)"
    using n assms(1) by (simp add: push_value_def take_bit_small_int power_mult)
  with g n assms(1) show ?thesis by (auto simp: shrink_instr_def get_push_opcode_def)
qed

text \<open>
  A negative constant: the byte count is used as the index of the sign byte, one too high,
  so the sign bit that is extended is always 0 and the result is not negative.
\<close>

lemma not_bit_take_bit: "k \<le> n \<Longrightarrow> \<not> bit (take_bit k x :: word256) n"
  by (simp add: bit_take_bit_iff)

lemma signextend_take_bit:
  assumes "n < 31"
  shows "evm_signextend (word_of_nat n) (take_bit (8 * n) x) = take_bit (8 * n) x"
proof -
  have u: "unat (word_of_nat n :: word256) = n"
    using assms by (simp add: unsigned_of_nat take_bit_nat_eq_self)
  have "signed_take_bit (8 * n + 7) (take_bit (8 * n) x) = take_bit (8 * n) x"
    by (rule bit_word_eqI) (auto simp: bit_signed_take_bit_iff bit_take_bit_iff min_def)
  with assms u show ?thesis by (simp add: evm_signextend_def)
qed

lemma get_imm_size_negative:
  assumes "imm < - 1" and "- (2 ^ 63) \<le> imm"
  obtains n where "get_imm_size imm = Inr n" "1 \<le> n" "n \<le> 8"
proof -
  let ?v = "nat (- imm - 1)" and ?z = "lead_zeros (nat (- imm - 1)) 64"
  have m: "(- imm - 1) mod 2 ^ 64 = - imm - 1" using assms by simp
  have v: "?v < 2 ^ 63" "0 < ?v" using assms by (auto simp: nat_less_iff)
  have "?z < 64" "0 < ?z"
    using lead_zeros_bounds [of ?v 64] v by (auto intro: ccontr)
  with assms m show thesis
    by (intro that [of "8 - ?z div 8"])
       (auto simp: get_imm_size_def count_int Let_def)
qed

lemma shrink_negative:
  assumes "imm < - 1" and "- (2 ^ 63) \<le> imm"
  shows "\<exists>code v. shrink_instr (PUSH32_imm imm) = Inr (True, code) \<and>
    run_evm pc code (s, m) = Some (v # s, m) \<and> \<not> bit v 255 \<and> v \<noteq> word_of_int imm"
proof -
  obtain n where g: "get_imm_size imm = Inr n" and n: "1 \<le> n" "n \<le> 8"
    using get_imm_size_negative [OF assms] by blast
  let ?v = "take_bit (8 * n) (word_of_int imm) :: word256"
  have p: "push_value (Suc 0) (MO_Immediate (int n)) = Some (word_of_nat n)"
    using n take_bit_small_int [of "int n" 8] by (simp add: push_value_def)
  have "\<not> bit ?v 255" using n by (intro not_bit_take_bit) simp
  moreover have "bit (word_of_int imm :: word256) 255"
  proof -
    have "imm div 2 ^ 255 = - 1" using assms by (intro int_div_pos_eq [where r = "imm + 2 ^ 255"]) simp_all
    then have "bit imm 255" by (simp add: bit_iff_odd)
    then show ?thesis by (simp add: bit_word_of_int_iff)
  qed
  ultimately have "?v \<noteq> word_of_int imm" by metis
  with \<open>\<not> bit ?v 255\<close> g n p assms(1) show ?thesis
    by (auto simp: shrink_instr_def get_push_opcode_def push_value_def [of n] signextend_take_bit)
qed

lemma shrink_minus_one: "shrink_instr (PUSH32_imm (- 1)) = Inl (Unreachable ''incorrect size or unimplemented'')"
  using countLeadingOnes_int [of "- 1"]
  by (simp add: shrink_instr_def get_imm_size_def get_push_opcode_def Let_def del: lead_zeros.simps)

text \<open>Wide constants.\<close>

lemma nat_bit_small: "v < 2 ^ k \<Longrightarrow> k \<le> i \<Longrightarrow> \<not> bit (v :: nat) i"
  by (metis bit_take_bit_iff linorder_not_le take_bit_nat_eq_self_iff)

lemma push_shrunk_constant:
  assumes "v < 2 ^ (8 * n)" and "n \<le> 8"
  shows "push_value n (MO_Immediate (sint (word_of_nat v :: 64 word))) = Some (word_of_nat v)"
proof -
  have "take_bit (8 * n) (word_of_int (sint (word_of_nat v :: 64 word))) = (word_of_nat v :: word256)"
  proof (rule bit_word_eqI)
    fix i assume "i < LENGTH(256)"
    moreover have "min 63 i = i" if "i < 8 * n" using that assms(2) by simp
    ultimately show "bit (take_bit (8 * n) (word_of_int (sint (word_of_nat v :: 64 word))) :: word256) i =
        bit (word_of_nat v :: word256) i"
      using assms nat_bit_small [OF assms(1), of i]
      by (cases "i < 8 * n")
         (auto simp: bit_take_bit_iff bit_signed_iff bit_of_nat_iff)
  qed
  then show ?thesis by (simp add: push_value_def)
qed

lemma push_size_covers: "push_size_of_bits a = Some n \<Longrightarrow> 1 \<le> n \<and> n \<le> 8 \<and> a \<le> 8 * n"
  by (auto simp: push_size_of_bits_def split: if_splits)

lemma shrink_constant:
  assumes "v < 2 ^ w" and "w \<le> 256"
  shows "\<exists>c b. shrink_instr (MI (S (PUSH 32)) [MO_CImmediate w v]) = Inr (b, [c]) \<and>
    run_evm pc [c] (s, m) = Some (word_of_nat v # s, m)"
proof (cases "push_size_of_bits (getActiveBits w v)")
  case None
  have "push_value 32 (MO_CImmediate w v) = Some (word_of_nat v)"
    by (simp add: push_value_def take_bit_word_eq_self)
  with None assms(2) show ?thesis by (auto simp: shrink_instr_def)
next
  case (Some n)
  note n = push_size_covers [OF Some]
  have "v < 2 ^ getActiveBits w v"
    using lead_zeros_bounds [OF assms(1)] by (simp add: getActiveBits_def)
  also have "\<dots> \<le> 2 ^ (8 * n)" using n by (intro power_increasing) auto
  finally have "push_value n (MO_Immediate (sint (word_of_nat v :: 64 word))) = Some (word_of_nat v)"
    using n by (intro push_shrunk_constant) auto
  with Some assms(2) show ?thesis by (auto simp: shrink_instr_def replaceCIwithI_def)
qed

end
