(* ===== verification/Finalization.thy ===== *)
theory Finalization
  imports FunctionInfo EvmMachine
begin

text \<open>
  The pass \<open>EVMFinalization\<close> (\<open>EVMFinalization.cpp\<close>): every block gets its entry marker, the
  stack argument markers disappear and the frame pointer adjustments are expanded.
\<close>

section \<open>The pass\<close>

definition shouldInsertJUMPDEST :: "EVMSubtarget \<Rightarrow> mbb \<Rightarrow> bool" where
  "shouldInsertJUMPDEST ST b =
     (if HasSubroutine ST then False
      else if mbb_instrs b = [] then False
      else True)"

definition shouldInsertBEGINSUB :: "EVMSubtarget \<Rightarrow> bool" where
  "shouldInsertBEGINSUB ST = (if \<not> HasSubroutine ST then False else True)"

abbreviation PUSH1 :: "int \<Rightarrow> minstr" where
  "PUSH1 i \<equiv> MI (S (PUSH 1)) [MO_Immediate i]"

definition expandADJFP :: "EVMSubtarget \<Rightarrow> minstr \<Rightarrow> minstr list result" where
  "expandADJFP ST mi =
     (let opc = (if mi_opcode mi = pADJFPUP then S ADD else S SUB) in
      case mi_operands mi of
        MO_Immediate i # _ \<Rightarrow>
          let index = (word_of_int i :: 32 word) in
          if index = 0 then Inr []
          else let freeMemPointer = uint (getFramePointer ST) in
            Inr [PUSH1 freeMemPointer, MI (S MLOAD) [], PUSH1 (uint (index * 32)), MI opc [],
                 PUSH1 freeMemPointer, MI (S MSTORE) []]
      | _ \<Rightarrow> Inl (AssertFailed ''Wrong MachineOperand accessor''))"

definition finalize_instr :: "EVMSubtarget \<Rightarrow> minstr \<Rightarrow> minstr list result" where
  "finalize_instr ST mi =
     (if mi_opcode mi = pSTACKARG then Inr []
      else if mi_opcode mi = pADJFPUP \<or> mi_opcode mi = pADJFPDOWN then expandADJFP ST mi
      else Inr [mi])"

fun finalize_instrs :: "EVMSubtarget \<Rightarrow> minstr list \<Rightarrow> minstr list result" where
  "finalize_instrs ST [] = Inr []"
| "finalize_instrs ST (mi # mis) =
     rbind (finalize_instr ST mi) (\<lambda>c. rbind (finalize_instrs ST mis) (\<lambda>cs. Inr (c @ cs)))"

text \<open>The marker takes its debug location from the first instruction of the block.\<close>

definition block_marker :: "EVMSubtarget \<Rightarrow> mbb \<Rightarrow> minstr list result" where
  "block_marker ST b =
     (if shouldInsertJUMPDEST ST b then Inr [MI (S JUMPDEST) []]
      else if shouldInsertBEGINSUB ST
      then (if mbb_instrs b = [] then Inl (UndefinedBehaviour ''begin->getDebugLoc()'')
            else Inr [MI BEGINSUB []])
      else Inr [])"

definition finalize_block :: "EVMSubtarget \<Rightarrow> mbb \<Rightarrow> mbb result" where
  "finalize_block ST b =
     rbind (block_marker ST b) (\<lambda>mk.
     rbind (finalize_instrs ST (mbb_instrs b)) (\<lambda>c. Inr (b\<lparr>mbb_instrs := mk @ c\<rparr>)))"

fun finalize_blocks :: "EVMSubtarget \<Rightarrow> mfunction \<Rightarrow> mfunction result" where
  "finalize_blocks ST [] = Inr []"
| "finalize_blocks ST (b # bs) =
     rbind (finalize_block ST b) (\<lambda>b'. rbind (finalize_blocks ST bs) (\<lambda>bs'. Inr (b' # bs')))"

definition runOnMachineFunction_final :: "EVMSubtarget \<Rightarrow> mfunction \<Rightarrow> (bool \<times> mfunction) result" where
  "runOnMachineFunction_final ST F =
     rbind (finalize_blocks ST F) (\<lambda>F'.
       Inr (\<exists>b \<in> set F. \<exists>mi \<in> set (mbb_instrs b). mi_opcode mi = pSTACKARG, F'))"

section \<open>Shape of the result\<close>

definition final_pseudo :: "opcode \<Rightarrow> bool" where
  "final_pseudo opc = (opc \<in> {pSTACKARG, pADJFPUP, pADJFPDOWN})"

lemma expandADJFP_clean:
  "expandADJFP ST mi = Inr c \<Longrightarrow> \<forall>x \<in> set c. \<not> final_pseudo (mi_opcode x)"
  by (auto simp: expandADJFP_def final_pseudo_def Let_def split: list.splits operand.splits if_splits)

lemma finalize_instrs_clean:
  "finalize_instrs ST mis = Inr c \<Longrightarrow> \<forall>x \<in> set c. \<not> final_pseudo (mi_opcode x)"
proof (induction mis arbitrary: c)
  case (Cons mi mis)
  then obtain c1 c2 where "finalize_instr ST mi = Inr c1" "finalize_instrs ST mis = Inr c2"
    "c = c1 @ c2" by (auto simp: rbind_eq_Inr)
  moreover from this(1) have "\<forall>x \<in> set c1. \<not> final_pseudo (mi_opcode x)"
    by (auto simp: finalize_instr_def final_pseudo_def dest!: expandADJFP_clean split: if_splits)
  ultimately show ?case using Cons.IH by auto
qed simp

lemma finalize_blocks_map:
  "finalize_blocks ST F = Inr F' \<Longrightarrow>
   length F' = length F \<and> (\<forall>i < length F. finalize_block ST (F ! i) = Inr (F' ! i))"
proof (induction F arbitrary: F')
  case (Cons b bs)
  then obtain b' bs' where b: "finalize_block ST b = Inr b'" "finalize_blocks ST bs = Inr bs'"
    "F' = b' # bs'" by (auto simp: rbind_eq_Inr)
  with Cons.IH [OF b(2)] show ?case by (auto simp: nth_Cons split: nat.splits)
qed simp

text \<open>Without subroutine support every block that holds code starts with a jump destination.\<close>

lemma finalize_block_shape:
  assumes "finalize_block ST b = Inr b'" and "\<not> HasSubroutine ST" and "mbb_instrs b \<noteq> []"
  shows "\<exists>c. mbb_instrs b' = MI (S JUMPDEST) [] # c \<and> finalize_instrs ST (mbb_instrs b) = Inr c"
  using assms
  by (auto simp: finalize_block_def block_marker_def shouldInsertJUMPDEST_def rbind_eq_Inr)

section \<open>Adjusting the frame pointer\<close>

lemma push1_value: "push_value (Suc 0) (MO_Immediate (uint (x :: 32 word))) = Some (take_bit 8 (ucast x))"
  by (simp add: push_value_def)

lemma take_bit_8_small:
  assumes "x < 256"
  shows "take_bit 8 (ucast (x :: 32 word) :: word256) = ucast x"
proof -
  have "unat x < 256" using assms by (simp add: word_less_nat_alt)
  then have "unat (ucast x :: word256) < 2 ^ 8"
    using unsigned_less [of x, where ?'a = nat] by (simp add: unsigned_ucast_eq take_bit_nat_eq_self)
  then have "unat (take_bit 8 (ucast x :: word256)) = unat (ucast x :: word256)"
    by (simp add: unsigned_take_bit_eq take_bit_nat_eq_self)
  then show ?thesis by (rule unsigned_word_eqI)
qed

lemma run_ADJFP:
  assumes run: "expandADJFP ST (MI opc [MO_Immediate i]) = Inr c"
    and ne: "(word_of_int i :: 32 word) \<noteq> 0"
    and small: "getFramePointer ST < 256" "(word_of_int i :: 32 word) * 32 < 256"
  shows "run_evm pc c (s, m) =
    Some (s, mstore m (unat (ucast (getFramePointer ST) :: word256))
      (let off = ucast ((word_of_int i :: 32 word) * 32);
           fp = mload m (unat (ucast (getFramePointer ST) :: word256))
       in if opc = pADJFPUP then off + fp else off - fp))"
proof -
  let ?opc = "if opc = pADJFPUP then S ADD else S SUB"
  have "c = [PUSH1 (uint (getFramePointer ST)), MI (S MLOAD) [],
      PUSH1 (uint ((word_of_int i :: 32 word) * 32)), MI ?opc [],
      PUSH1 (uint (getFramePointer ST)), MI (S MSTORE) []]"
    using run ne by (simp add: expandADJFP_def Let_def)
  with small show ?thesis by (simp add: push1_value take_bit_8_small Let_def)
qed

end
