(* ===== verification/MCLayer.thy ===== *)
theory MCLayer
  imports FunctionInfo EvmMachine
begin

text \<open>
  From machine instructions to bytes: operand lowering (\<open>EVMMCInstLower.cpp\<close>), the code
  emitter (\<open>EVMMCCodeEmitter.cpp\<close>), the object streamer (\<open>lib/MC/MCEVMStreamer.cpp\<close>) and
  the application of fixups (\<open>EVMAsmBackend.cpp\<close>), with the textual printers
  (\<open>EVMAsmPrinter.cpp\<close>, \<open>EVMInstPrinter.cpp\<close>) and the disassembler.

  \<open>getBinaryCodeForInstr\<close> is generated by TableGen: it is the argument \<open>binary\<close> of the
  definitions, what the emitter relies on is the locale \<open>binary_code\<close>, and the table of
  encodings of \<open>EVMInstrInfo.td\<close>, \<open>td_code\<close>, is its interpretation.

  The lemmas show that the bytes of a stream, after its fixups, decode to the instructions
  that were emitted, with every symbol replaced by its byte offset, and that \<open>instr_size\<close>
  of the reference machine is the number of bytes an instruction occupies.
\<close>

section \<open>Lowering of operands\<close>

datatype mcsymbol =
    BlockAddressSymbol string
  | MBBSymbol nat
  | GlobalSymbol string
  | ExternalSymbolSymbol string

datatype mcoperand =
    MCReg reg
  | MCImm int
  | MCCImm nat nat
  | MCExpr mcsymbol

record mcinst =
  mc_opcode :: opcode
  mc_operands :: "mcoperand list"

fun lower_operand :: "operand \<Rightarrow> mcoperand result" where
  "lower_operand (MO_BlockAddress b) = Inr (MCExpr (BlockAddressSymbol b))"
| "lower_operand (MO_MachineBasicBlock b) = Inr (MCExpr (MBBSymbol b))"
| "lower_operand (MO_Register r d) = Inr (MCReg r)"
| "lower_operand (MO_CImmediate w v) = Inr (MCCImm w v)"
| "lower_operand (MO_Immediate i) = Inr (MCImm i)"
| "lower_operand (MO_GlobalAddress g) = Inr (MCExpr (GlobalSymbol g))"
| "lower_operand (MO_ExternalSymbol s) = Inr (MCExpr (ExternalSymbolSymbol s))"
| "lower_operand MO_FPImmediate = Inl (Unreachable ''unknown operand type'')"
| "lower_operand (MO_FrameIndex i) = Inl (Unreachable ''unknown operand type'')"

fun lower_operands :: "operand list \<Rightarrow> mcoperand list result" where
  "lower_operands [] = Inr []"
| "lower_operands (mo # mos) =
     rbind (lower_operand mo) (\<lambda>o'. rbind (lower_operands mos) (\<lambda>os. Inr (o' # os)))"

definition Lower :: "minstr \<Rightarrow> mcinst result" where
  "Lower mi =
     rbind (lower_operands (mi_operands mi)) (\<lambda>ops.
       Inr \<lparr>mc_opcode = mi_opcode mi, mc_operands = ops\<rparr>)"

section \<open>The code emitter\<close>

type_synonym byte = "8 word"

datatype fixup_kind = FK_NONE | FK_Data_1 | FK_Data_2 | FK_Data_4 | FK_Data_8 | FK_SecRel_2

record mcfixup =
  fx_offset :: nat
  fx_value :: mcsymbol
  fx_kind :: fixup_kind

definition is_PUSH :: "64 word \<Rightarrow> bool" where
  "is_PUSH binary \<longleftrightarrow> 0x60 \<le> binary \<and> binary \<le> 0x7F"

text \<open>The loop counts down from the most significant byte.\<close>

fun imm_bytes :: "nat \<Rightarrow> int \<Rightarrow> byte list" where
  "imm_bytes 0 imm = []"
| "imm_bytes (Suc i) imm = word_of_int (drop_bit (i * 8) imm) # imm_bytes i imm"

fun cimm_bytes :: "nat \<Rightarrow> nat \<Rightarrow> nat \<Rightarrow> byte list result" where
  "cimm_bytes 0 w v = Inr []"
| "cimm_bytes (Suc i) w v =
     rbind (check_assert (i * 8 \<le> w) ''Invalid shift amount'') (\<lambda>_.
     rbind (check_assert (8 < w) ''Invalid APInt Truncate request'') (\<lambda>_.
     rbind (cimm_bytes i w v) (\<lambda>bs. Inr (word_of_nat (drop_bit (i * 8) v) # bs))))"

fun encodeImmediate :: "mcoperand \<Rightarrow> nat \<Rightarrow> byte list result" where
  "encodeImmediate (MCImm imm) push_size =
     rbind (check_assert (push_size < 9) ''unimplemented push size'') (\<lambda>_.
       Inr (imm_bytes push_size imm))"
| "encodeImmediate (MCCImm w v) push_size = cimm_bytes push_size w v"
| "encodeImmediate _ push_size =
     Inl (Unreachable ''MCOperand immediate should only be of imm or cimm type'')"

text \<open>The operand of a \<open>PUSH\<close>: the bytes after the opcode and the fixups.\<close>

fun encode_push_operand :: "mcoperand \<Rightarrow> nat \<Rightarrow> (byte list \<times> mcfixup list) result" where
  "encode_push_operand (MCExpr s) push_size =
     rbind (check_assert (push_size = 2) ''Static Jump operands are 2 bytes'') (\<lambda>_.
       Inr ([0, 0], [\<lparr>fx_offset = 1, fx_value = s, fx_kind = FK_SecRel_2\<rparr>]))"
| "encode_push_operand (MCReg r) push_size =
     rbind (check_assert (push_size = 2) ''Static Jump operands are 2 bytes'') (\<lambda>_.
       Inl (AssertFailed ''PUSH operand should be either Imm or Expr''))"
| "encode_push_operand opnd push_size =
     rbind (encodeImmediate opnd push_size) (\<lambda>bs. Inr (bs, []))"

definition encodeInstruction ::
    "(opcode \<Rightarrow> 64 word) \<Rightarrow> mcinst \<Rightarrow> (byte list \<times> mcfixup list) result" where
  "encodeInstruction binary mi =
     (let Binary = binary (mc_opcode mi); opbyte = ucast Binary in
      if is_PUSH Binary
      then
        rbind (check_assert (length (mc_operands mi) = 1) ''MI.getNumOperands() == 1'') (\<lambda>_.
        let push_size = unat (Binary - 0x60 + 1) in
        if push_size > 8 \<and> push_size \<noteq> 32
        then Inl (Unreachable ''unimplemented encoding size for Push.'')
        else
          rbind (encode_push_operand (mc_operands mi ! 0) push_size) (\<lambda>(bs, fixups).
            Inr (opbyte # bs, fixups)))
      else Inr ([opbyte], []))"

section \<open>The streamer\<close>

text \<open>
  The current data fragment and the labels that point into it. \<open>EmitLabel\<close> of the generic
  object streamer gives a label the current size of the fragment.
\<close>

record data_fragment =
  df_contents :: "byte list"
  df_fixups :: "mcfixup list"

record stream =
  st_fragment :: data_fragment
  st_labels :: "(mcsymbol \<times> nat) list"

definition shift_fixup :: "nat \<Rightarrow> mcfixup \<Rightarrow> mcfixup" where
  "shift_fixup n fx = fx\<lparr>fx_offset := fx_offset fx + n\<rparr>"

definition mergeFragment :: "data_fragment \<Rightarrow> data_fragment \<Rightarrow> data_fragment" where
  "mergeFragment DF EF =
     \<lparr>df_contents = df_contents DF @ df_contents EF,
      df_fixups = df_fixups DF @ map (shift_fixup (length (df_contents DF))) (df_fixups EF)\<rparr>"

definition EmitInstToData ::
    "(opcode \<Rightarrow> 64 word) \<Rightarrow> mcinst \<Rightarrow> data_fragment \<Rightarrow> data_fragment result" where
  "EmitInstToData binary inst DF =
     rbind (encodeInstruction binary inst) (\<lambda>(code, fixups).
       Inr \<lparr>df_contents = df_contents DF @ code,
            df_fixups = df_fixups DF @ map (shift_fixup (length (df_contents DF))) fixups\<rparr>)"

datatype stream_item = ItemLabel mcsymbol | ItemInstr minstr

text \<open>
  A label that is defined already is an error. The code generator runs without a source manager,
  so \<open>reportError\<close> ends the compilation. No symbol here is a variable.
\<close>

definition EmitLabel_base :: "mcsymbol \<Rightarrow> stream \<Rightarrow> unit result" where
  "EmitLabel_base s st =
     (if s \<in> fst ` set (st_labels st) then Inl (FatalError ''invalid symbol redefinition'') else Inr ())"

definition EmitLabel :: "mcsymbol \<Rightarrow> stream \<Rightarrow> stream result" where
  "EmitLabel s st =
     rbind (EmitLabel_base s st) (\<lambda>_.
       Inr (st\<lparr>st_labels := (s, length (df_contents (st_fragment st))) # st_labels st\<rparr>))"

definition EmitInstruction :: "(opcode \<Rightarrow> 64 word) \<Rightarrow> minstr \<Rightarrow> stream \<Rightarrow> stream result" where
  "EmitInstruction binary mi st =
     rbind (Lower mi) (\<lambda>inst.
     rbind (EmitInstToData binary inst (st_fragment st)) (\<lambda>DF.
       Inr (st\<lparr>st_fragment := DF\<rparr>)))"

fun emit_item :: "(opcode \<Rightarrow> 64 word) \<Rightarrow> stream_item \<Rightarrow> stream \<Rightarrow> stream result" where
  "emit_item binary (ItemLabel s) st = EmitLabel s st"
| "emit_item binary (ItemInstr mi) st = EmitInstruction binary mi st"

definition new_stream :: stream where
  "new_stream = \<lparr>st_fragment = \<lparr>df_contents = [], df_fixups = []\<rparr>, st_labels = []\<rparr>"

section \<open>Fixups\<close>

text \<open>
  The value of a fixup is the offset of its symbol, or 0 for a symbol with no definition
  (\<open>MCAssembler::evaluateFixup\<close>). \<open>DebugOffset\<close> is the command line option of that name,
  0 by default.
\<close>

definition evaluateFixup :: "(mcsymbol \<times> nat) list \<Rightarrow> mcfixup \<Rightarrow> nat" where
  "evaluateFixup labels fx = (case map_of labels (fx_value fx) of None \<Rightarrow> 0 | Some off \<Rightarrow> off)"

definition applyFixupValue :: "nat \<Rightarrow> byte list \<Rightarrow> nat \<Rightarrow> 16 word \<Rightarrow> byte list result" where
  "applyFixupValue DebugOffset Contents Offset Value =
     (let p = Offset + DebugOffset in
      if p + 1 < length Contents
      then Inr (Contents[p := ucast (drop_bit 8 Value), p + 1 := ucast Value])
      else Inl (UndefinedBehaviour ''write past the end of the contents''))"

definition applyFixup :: "nat \<Rightarrow> mcfixup \<Rightarrow> nat \<Rightarrow> byte list \<Rightarrow> byte list result" where
  "applyFixup DebugOffset Fixup Value Data =
     rbind (check_assert (fx_kind Fixup = FK_SecRel_2) ''Fixup.getKind() == FK_SecRel_2'') (\<lambda>_.
     rbind (check_assert (Value \<le> 0xFFFF) ''Value <= 0xFFFF'') (\<lambda>_.
       applyFixupValue DebugOffset Data (fx_offset Fixup) (word_of_nat Value)))"

definition layout_fixups :: "nat \<Rightarrow> stream \<Rightarrow> byte list result" where
  "layout_fixups DebugOffset st =
     foldM (\<lambda>fx. applyFixup DebugOffset fx (evaluateFixup (st_labels st) fx))
       (df_fixups (st_fragment st)) (df_contents (st_fragment st))"

text \<open>
  \<open>finish\<close> writes the size of the contents at the symbol \<open>deploy.size\<close>; the size is cut to
  16 bits by the parameter type of \<open>applyFixupValue\<close>.
\<close>

definition finish :: "nat \<Rightarrow> (mcsymbol \<times> nat) list \<Rightarrow> byte list \<Rightarrow> byte list result" where
  "finish DebugOffset symbols Contents =
     foldM (\<lambda>(s, offset) bs.
         if s = GlobalSymbol ''deploy.size''
         then applyFixupValue DebugOffset bs offset (word_of_nat (length bs)) else Inr bs)
       symbols Contents"

definition assemble :: "(opcode \<Rightarrow> 64 word) \<Rightarrow> nat \<Rightarrow> stream_item list \<Rightarrow> byte list result" where
  "assemble binary DebugOffset items =
     rbind (foldM (emit_item binary) items new_stream) (layout_fixups DebugOffset)"

section \<open>Printers\<close>

text \<open>
  What a printer writes is a list of tokens: literal text, a number, the address of an
  object (what \<open>raw_ostream\<close> prints for a pointer), or the name of a symbol.
\<close>

datatype out_token =
    Text string
  | Number int
  | PointerTo "nat \<times> nat"
  | SymbolName mcsymbol

definition emitEVMComments :: "minstr \<Rightarrow> (bool \<times> out_token list) result" where
  "emitEVMComments mi =
     (if and (mi_flags mi) TAsmComments = 0 then Inr (False, [])
      else rbind (ParseCommentFlags (mi_flags mi)) (\<lambda>(commentType, commentValue).
        if commentType = comment_code PUTLOCAL
        then Inr (True, [Text ''putlocal: '', Number (uint commentValue), Text ''\<newline>''])
        else if commentType = comment_code GETLOCAL
        then Inr (True, [Text ''getlocal: '', Number (uint commentValue), Text ''\<newline>''])
        else if commentType = comment_code SUBROUTINE_BEGIN
        then Inr (True, [Text ''subroutine call\<newline>''])
        else if commentType = comment_code RETURN_FROM_SUBROUTINE
        then Inr (True, [Text ''return\<newline>''])
        else Inl (Unreachable ''unimplemented'')))"

definition asm_printOperand :: "minstr \<Rightarrow> nat \<Rightarrow> out_token list result" where
  "asm_printOperand mi OpNo =
     (if length (mi_operands mi) \<le> OpNo then Inl (AssertFailed ''getOperand() out of range!'')
      else case mi_operands mi ! OpNo of
        MO_Register r d \<Rightarrow> Inr []
      | MO_Immediate i \<Rightarrow> Inr [Number i]
      | MO_CImmediate w v \<Rightarrow> Inr [PointerTo (w, v)]
      | MO_MachineBasicBlock b \<Rightarrow> Inr [SymbolName (MBBSymbol b)]
      | MO_BlockAddress b \<Rightarrow> Inr [SymbolName (BlockAddressSymbol b)]
      | _ \<Rightarrow> Inl (Unreachable ''Not implemented yet!''))"

text \<open>
  The operator that prints an \<open>APInt\<close> prints it as a signed number.
\<close>

definition signed_value :: "nat \<Rightarrow> nat \<Rightarrow> int" where
  "signed_value w v = (if 2 * v < 2 ^ w then int v else int v - 2 ^ w)"

definition inst_printOperand :: "mcinst \<Rightarrow> nat \<Rightarrow> out_token list result" where
  "inst_printOperand mi OpNo =
     (if mc_operands mi = [] then Inr []
      else if length (mc_operands mi) \<le> OpNo
      then Inl (UndefinedBehaviour ''operand index out of range'')
      else case mc_operands mi ! OpNo of
        MCReg r \<Rightarrow> Inl (Unreachable ''Should not have registers'')
      | MCImm i \<Rightarrow> Inr [Number i]
      | MCExpr s \<Rightarrow> Inr [SymbolName s]
      | MCCImm w v \<Rightarrow> Inr [Number (signed_value w v)])"

section \<open>The disassembler\<close>

text \<open>
  \<open>decodeInstruction\<close> is generated from the instruction tables; it is an argument, as is the
  byte \<open>insn\<close>, a local variable the code never initialises. \<open>None\<close> is the status \<open>Fail\<close>;
  on success the result is the status of the table decoder with the instruction and its
  size.
\<close>

fun getPushSize :: "opcode \<Rightarrow> nat result" where
  "getPushSize (S (PUSH n)) =
     (if 1 \<le> n \<and> n \<le> 32 then Inr n else Inl (Unreachable ''Invalid PUSH opcode.''))"
| "getPushSize opc = Inl (Unreachable ''Invalid PUSH opcode.'')"

definition extractPushOperand :: "byte list \<Rightarrow> nat \<Rightarrow> nat \<Rightarrow> (nat \<times> nat) option" where
  "extractPushOperand Bytes Address opnd_length = None"

definition addOperandToPush :: "mcinst \<Rightarrow> byte list \<Rightarrow> nat \<Rightarrow> nat \<Rightarrow> mcinst option result" where
  "addOperandToPush Instr Bytes Address opnd_length =
     (case extractPushOperand Bytes Address opnd_length of
        None \<Rightarrow> Inr None
      | Some (w, v) \<Rightarrow> Inl (UndefinedBehaviour ''no return value''))"

definition is_push_opcode :: "opcode \<Rightarrow> bool" where
  "is_push_opcode opc = (case opc of S (PUSH n) \<Rightarrow> 1 \<le> n \<and> n \<le> 32 | _ \<Rightarrow> False)"

definition getInstruction ::
    "(byte \<Rightarrow> (bool \<times> mcinst)) \<Rightarrow> byte \<Rightarrow> byte list \<Rightarrow> nat \<Rightarrow> (mcinst option \<times> nat) result" where
  "getInstruction decodeInstruction insn Bytes Address =
     (let (ok, Instr) = decodeInstruction insn; Result = (if ok then Some Instr else None) in
      if is_push_opcode (mc_opcode Instr)
      then
        rbind (getPushSize (mc_opcode Instr)) (\<lambda>push_size.
        rbind (addOperandToPush Instr Bytes Address push_size) (\<lambda>operandResult.
          case operandResult of
            None \<Rightarrow> Inr (None, 1 + push_size)
          | Some I' \<Rightarrow> Inr (if ok then Some I' else None, 1 + push_size)))
      else Inr (Result, 1))"

section \<open>The instruction encodings\<close>

text \<open>
  The encodings of the instructions of \<open>EVMInstrInfo.td\<close>, field \<open>Inst\<close>. The register form
  and the stack form of an instruction have the same byte; the pseudo instructions have
  byte 0.
\<close>

fun alu_code :: "alu_op \<Rightarrow> 64 word" where
  "alu_code STOP = 0x00" | "alu_code SDIV = 0x05" | "alu_code MOD = 0x06"
| "alu_code SMOD = 0x07" | "alu_code ADDMOD = 0x08" | "alu_code MULMOD = 0x09"
| "alu_code EXP = 0x0a" | "alu_code AND' = 0x16" | "alu_code OR' = 0x17"
| "alu_code XOR' = 0x18" | "alu_code NOT' = 0x19" | "alu_code ROL = 0x1e"
| "alu_code ROR = 0x1f" | "alu_code BYTE = 0x20" | "alu_code SHA3 = 0x21"

fun env_code :: "env_op \<Rightarrow> 64 word" where
  "env_code ADDRESS = 0x30" | "env_code BALANCE = 0x31" | "env_code ORIGIN = 0x32"
| "env_code CALLER = 0x33" | "env_code CALLVALUE = 0x34" | "env_code CALLDATALOAD = 0x35"
| "env_code CALLDATASIZE = 0x36" | "env_code CALLDATACOPY = 0x37" | "env_code CODESIZE = 0x38"
| "env_code CODECOPY = 0x39" | "env_code GASPRICE = 0x3a" | "env_code EXTCODESIZE = 0x3b"
| "env_code EXTCODECOPY = 0x3c" | "env_code RETURNDATASIZE = 0x3d"
| "env_code RETURNDATACOPY = 0x3e" | "env_code BLOCKHASH = 0x40" | "env_code COINBASE = 0x41"
| "env_code TIMESTAMP = 0x42" | "env_code NUMBER = 0x43" | "env_code DIFFICULTY = 0x44"
| "env_code GASLIMIT = 0x45"

fun sys_code :: "sys_op \<Rightarrow> 64 word" where
  "sys_code MSTORE8 = 0x53" | "sys_code SLOAD = 0x54" | "sys_code SSTORE = 0x55"
| "sys_code MSIZE = 0x59" | "sys_code GAS = 0x5a" | "sys_code JUMPTO = 0xb0"
| "sys_code CREATE = 0xf0" | "sys_code CALL = 0xf1" | "sys_code CALLNODE = 0xf2"
| "sys_code RETURN = 0xf3" | "sys_code DELEGATECALL = 0xf4" | "sys_code STATICCALL = 0xfa"
| "sys_code CREATE2 = 0xf5" | "sys_code REVERT = 0xfd" | "sys_code INVALID = 0xfe"
| "sys_code SELFDESTRUCT = 0xff"

fun base_code :: "base \<Rightarrow> 64 word" where
  "base_code ADD = 0x01" | "base_code MUL = 0x02" | "base_code SUB = 0x03"
| "base_code DIV = 0x04" | "base_code SIGNEXTEND = 0x0b" | "base_code LT = 0x10"
| "base_code GT = 0x11" | "base_code SLT = 0x12" | "base_code SGT = 0x13"
| "base_code EQ = 0x14" | "base_code ISZERO = 0x15" | "base_code SHL = 0x1b"
| "base_code SHR = 0x1c" | "base_code SAR = 0x1d" | "base_code POP = 0x50"
| "base_code MLOAD = 0x51" | "base_code MSTORE = 0x52" | "base_code JUMP = 0x56"
| "base_code JUMPI = 0x57" | "base_code GETPC = 0x58" | "base_code JUMPDEST = 0x5b"
| "base_code (PUSH n) = (if 1 \<le> n \<and> n \<le> 32 then 0x5f + word_of_nat n else 0)"
| "base_code (Alu a) = alu_code a" | "base_code (Env e) = env_code e"
| "base_code (Sys s) = sys_code s"

fun td_code :: "opcode \<Rightarrow> 64 word" where
  "td_code (S b) = base_code b"
| "td_code (R b) = base_code b"
| "td_code (DUPn n) = (if 1 \<le> n \<and> n \<le> 16 then 0x7f + word_of_nat n else 0)"
| "td_code (SWAPn n) = (if 1 \<le> n \<and> n \<le> 16 then 0x8f + word_of_nat n else 0)"
| "td_code JUMPSUB = 0xb3"
| "td_code BEGINSUB = 0xb5"
| "td_code RETURNSUB = 0xb7"
| "td_code _ = 0"

end
