(* ===== verification/AssemblyCorrect.thy ===== *)
theory AssemblyCorrect
  imports MCLayer
begin

text \<open>
  Correctness of the emitted bytes. The specification is a decoder for EVM code that reads
  an opcode byte and the immediate bytes of a \<open>PUSH\<close>; the meaning of a stream of labels and
  instructions is the list of its opcode bytes and operand values, a symbol standing for the
  number of bytes before its label, counted with \<open>instr_size\<close> of the reference machine.
\<close>

section \<open>The specification\<close>

function decode :: "byte list \<Rightarrow> (byte \<times> nat) list" where
  "decode [] = []"
| "decode (b # bs) =
     (let n = (if 0x60 \<le> b \<and> b \<le> 0x7f then unat b - 0x5f else 0) in
      (b, be_value (take n bs)) # decode (drop n bs))"
  by pat_completeness auto
termination by (relation "measure length") auto

fun label_addresses :: "stream_item list \<Rightarrow> nat \<Rightarrow> (mcsymbol \<times> nat) list \<Rightarrow> (mcsymbol \<times> nat) list" where
  "label_addresses [] n acc = acc"
| "label_addresses (ItemLabel s # items) n acc = label_addresses items n ((s, n) # acc)"
| "label_addresses (ItemInstr mi # items) n acc = label_addresses items (n + instr_size mi) acc"

fun instructions :: "stream_item list \<Rightarrow> minstr list" where
  "instructions [] = []"
| "instructions (ItemLabel s # items) = instructions items"
| "instructions (ItemInstr mi # items) = mi # instructions items"

fun labels_of :: "stream_item list \<Rightarrow> mcsymbol list" where
  "labels_of [] = []"
| "labels_of (ItemLabel s # items) = s # labels_of items"
| "labels_of (ItemInstr mi # items) = labels_of items"

definition address_of :: "(mcsymbol \<times> nat) list \<Rightarrow> mcsymbol \<Rightarrow> nat" where
  "address_of labels s = (case map_of labels s of None \<Rightarrow> 0 | Some a \<Rightarrow> a)"

fun operand_value :: "(mcsymbol \<times> nat) list \<Rightarrow> nat \<Rightarrow> operand \<Rightarrow> nat" where
  "operand_value labels n (MO_Immediate i) = nat (i mod 256 ^ n)"
| "operand_value labels n (MO_CImmediate w v) = v mod 256 ^ n"
| "operand_value labels n (MO_BlockAddress b) = address_of labels (BlockAddressSymbol b)"
| "operand_value labels n (MO_MachineBasicBlock b) = address_of labels (MBBSymbol b)"
| "operand_value labels n (MO_GlobalAddress g) = address_of labels (GlobalSymbol g)"
| "operand_value labels n (MO_ExternalSymbol s) = address_of labels (ExternalSymbolSymbol s)"
| "operand_value labels n _ = 0"

definition meaning :: "(opcode \<Rightarrow> 64 word) \<Rightarrow> (mcsymbol \<times> nat) list \<Rightarrow> minstr \<Rightarrow> byte \<times> nat" where
  "meaning binary labels mi =
     (ucast (binary (mi_opcode mi)),
      case mi_opcode mi of S (PUSH n) \<Rightarrow> operand_value labels n (mi_operands mi ! 0) | _ \<Rightarrow> 0)"

text \<open>
  An operand the bytes can hold as it is: a number that fits into the bytes of the \<open>PUSH\<close>, or a
  symbol whose label is in the stream. Its exact value is the number, or the address of the
  symbol.
\<close>

fun operand_exact :: "mcsymbol set \<Rightarrow> nat \<Rightarrow> operand \<Rightarrow> bool" where
  "operand_exact defined n (MO_Immediate i) = (0 \<le> i \<and> i < 256 ^ n)"
| "operand_exact defined n (MO_CImmediate w v) = (v < 256 ^ n)"
| "operand_exact defined n (MO_BlockAddress b) = (BlockAddressSymbol b \<in> defined)"
| "operand_exact defined n (MO_MachineBasicBlock b) = (MBBSymbol b \<in> defined)"
| "operand_exact defined n (MO_GlobalAddress g) = (GlobalSymbol g \<in> defined)"
| "operand_exact defined n (MO_ExternalSymbol s) = (ExternalSymbolSymbol s \<in> defined)"
| "operand_exact defined n _ = False"

definition instr_exact :: "mcsymbol set \<Rightarrow> minstr \<Rightarrow> bool" where
  "instr_exact defined mi =
     (case mi_opcode mi of S (PUSH n) \<Rightarrow> operand_exact defined n (mi_operands mi ! 0) | _ \<Rightarrow> True)"

fun exact_value :: "(mcsymbol \<Rightarrow> nat) \<Rightarrow> operand \<Rightarrow> nat" where
  "exact_value address (MO_Immediate i) = nat i"
| "exact_value address (MO_CImmediate w v) = v"
| "exact_value address (MO_BlockAddress b) = address (BlockAddressSymbol b)"
| "exact_value address (MO_MachineBasicBlock b) = address (MBBSymbol b)"
| "exact_value address (MO_GlobalAddress g) = address (GlobalSymbol g)"
| "exact_value address (MO_ExternalSymbol s) = address (ExternalSymbolSymbol s)"
| "exact_value address _ = 0"

definition exact_meaning :: "(opcode \<Rightarrow> 64 word) \<Rightarrow> (mcsymbol \<Rightarrow> nat) \<Rightarrow> minstr \<Rightarrow> byte \<times> nat" where
  "exact_meaning binary address mi =
     (ucast (binary (mi_opcode mi)),
      case mi_opcode mi of S (PUSH n) \<Rightarrow> exact_value address (mi_operands mi ! 0) | _ \<Rightarrow> 0)"

lemma meaning_exact:
  assumes "instr_exact defined mi"
  shows "meaning binary labels mi = exact_meaning binary (address_of labels) mi"
proof -
  have "operand_value labels n mo = exact_value (address_of labels) mo" if "operand_exact defined n mo" for n mo
    using that by (cases mo) simp_all
  then show ?thesis using assms
    by (auto simp: meaning_def exact_meaning_def instr_exact_def split: opcode.split base.split)
qed

text \<open>With no label twice, the address of a label is the number of bytes in front of it.\<close>

lemma label_addresses_other:
  "s \<notin> set (labels_of items) \<Longrightarrow> address_of (label_addresses items n acc) s = address_of acc s"
  by (induction items n acc rule: label_addresses.induct) (simp_all add: address_of_def)

lemma label_address:
  assumes "distinct (labels_of (pre @ ItemLabel s # post))"
  shows "address_of (label_addresses (pre @ ItemLabel s # post) n acc) s = n + code_size (instructions pre)"
  using assms
proof (induction pre n acc rule: label_addresses.induct)
  case (1 n acc)
  then have "s \<notin> set (labels_of post)" by simp
  from label_addresses_other [OF this, of n "(s, n) # acc"] show ?case by (simp add: address_of_def code_size_def)
qed (simp_all add: code_size_def)

definition stack_form :: "opcode \<Rightarrow> bool" where
  "stack_form opc = (case opc of R b \<Rightarrow> False | S (PUSH n) \<Rightarrow> 1 \<le> n \<and> n \<le> 32 | _ \<Rightarrow> True)"

section \<open>Bytes of an operand\<close>

lemma be_bytes_Cons: "be_bytes (Suc n) v = word_of_nat (v div 256 ^ n) # be_bytes n v"
  by (induction n arbitrary: v) (simp_all add: div_mult2_eq)

lemma word_of_int_drop_take:
  "n < m \<Longrightarrow> word_of_int (drop_bit (n * 8) (take_bit (m * 8) i)) = (word_of_int (drop_bit (n * 8) i) :: byte)"
  by (rule bit_word_eqI) (auto simp: bit_simps)

lemma imm_bytes_be: "n \<le> m \<Longrightarrow> imm_bytes n i = be_bytes n (nat (i mod 256 ^ m))"
proof (induction n)
  case (Suc n)
  have p: "(256 :: int) ^ k = 2 ^ (k * 8)" for k by (simp add: power_mult mult.commute [of k])
  have "int (nat (i mod 256 ^ m) div 256 ^ n) = drop_bit (n * 8) (take_bit (m * 8) i)"
    by (simp add: zdiv_int p take_bit_eq_mod drop_bit_eq_div)
  then have "(word_of_nat (nat (i mod 256 ^ m) div 256 ^ n) :: byte) = word_of_int (drop_bit (n * 8) i)"
    using Suc.prems by (metis Suc_le_eq of_int_of_nat_eq word_of_int_drop_take)
  with Suc show ?case by (simp add: be_bytes_Cons del: be_bytes.simps(2))
qed simp

lemma be_bytes_mod: "be_bytes n (v mod 256 ^ n) = be_bytes n v"
proof (induction n arbitrary: v)
  case (Suc n)
  have "v mod 256 ^ Suc n div 256 = v div 256 mod 256 ^ n"
    by (simp add: mod_mult2_eq)
  moreover have "(word_of_nat (v mod 256 ^ Suc n) :: byte) = word_of_nat v"
    by (simp add: word_unat_eq_iff unat_of_nat take_bit_eq_mod mod_mod_cancel)
  ultimately show ?case using Suc by (simp only: be_bytes.simps)
qed simp

lemma cimm_bytes_be: "cimm_bytes n w v = Inr bs \<Longrightarrow> bs = be_bytes n v"
proof (induction n arbitrary: bs)
  case (Suc n)
  have "drop_bit (n * 8) v = v div 256 ^ n"
    by (simp add: drop_bit_eq_div power_mult mult.commute [of n])
  with Suc show ?case by (auto simp: rbind_eq_Inr be_bytes_Cons simp del: be_bytes.simps(2))
qed simp

lemma be_bytes_2: "v \<le> 0xFFFF \<Longrightarrow>
  be_bytes 2 v = [ucast (drop_bit 8 (word_of_nat v :: 16 word)), ucast (word_of_nat v :: 16 word)]"
proof -
  assume v: "v \<le> 0xFFFF"
  have "unat (word_of_nat v :: 16 word) = v" using v by (simp add: unat_of_nat take_bit_nat_eq_self)
  then have "unat (drop_bit 8 (word_of_nat v :: 16 word)) = v div 256"
    by (simp only: unat_drop_bit_eq) (simp add: drop_bit_eq_div)
  with \<open>unat (word_of_nat v :: 16 word) = v\<close>
  have "(ucast (drop_bit 8 (word_of_nat v :: 16 word)) :: byte) = word_of_nat (v div 256)"
    "(ucast (word_of_nat v :: 16 word) :: byte) = word_of_nat v"
    by (metis of_nat_unat)+
  then show ?thesis by (simp add: numeral_2_eq_2)
qed

section \<open>One instruction\<close>

text \<open>What the emitter relies on of the generated encoding table.\<close>

locale binary_code =
  fixes binary :: "opcode \<Rightarrow> 64 word"
  assumes one_byte: "binary opc < 256"
    and push_code: "1 \<le> n \<Longrightarrow> n \<le> 32 \<Longrightarrow> binary (S (PUSH n)) = 0x5f + word_of_nat n"
    and only_push: "stack_form opc \<Longrightarrow> is_PUSH (binary opc) \<Longrightarrow> \<exists>n. opc = S (PUSH n)"
begin

definition final_bytes :: "(mcsymbol \<times> nat) list \<Rightarrow> minstr \<Rightarrow> byte list" where
  "final_bytes labels mi =
     (case meaning binary labels mi of (b, v) \<Rightarrow> b # be_bytes (instr_size mi - 1) v)"

lemma unat_push: "1 \<le> n \<Longrightarrow> n \<le> 32 \<Longrightarrow> unat (binary (S (PUSH n))) = 0x5f + n"
  by (simp add: push_code unat_word_ariths unat_of_nat take_bit_nat_eq_self)

lemma push_is_PUSH: "1 \<le> n \<Longrightarrow> n \<le> 32 \<Longrightarrow> is_PUSH (binary (S (PUSH n)))"
  using unat_push [of n] by (simp add: is_PUSH_def word_le_nat_alt)

lemma push_size: "1 \<le> n \<Longrightarrow> n \<le> 32 \<Longrightarrow> unat (binary (S (PUSH n)) - 0x5f) = n"
  by (simp add: push_code unat_of_nat take_bit_nat_eq_self)

lemma unat_opbyte: "unat (ucast (binary opc) :: byte) = unat (binary opc)"
  using one_byte [of opc] by (simp add: unsigned_ucast_eq word_less_nat_alt take_bit_nat_eq_self)

lemma decode_final:
  assumes "stack_form (mi_opcode mi)" and "snd (meaning binary labels mi) < 256 ^ (instr_size mi - 1)"
  shows "decode (final_bytes labels mi @ bs) = meaning binary labels mi # decode bs"
proof (cases "is_PUSH (binary (mi_opcode mi))")
  case True
  then obtain n where n: "mi_opcode mi = S (PUSH n)" using only_push assms(1) by blast
  with assms(1) have le: "1 \<le> n" "n \<le> 32" by (auto simp: stack_form_def)
  obtain b v where m: "meaning binary labels mi = (b, v)" by fastforce
  then have b: "b = ucast (binary (S (PUSH n)))" by (simp add: meaning_def n)
  then have u: "unat b = 0x5f + n" using unat_push [OF le] by (simp add: unat_opbyte)
  with le have "(0x60 :: byte) \<le> b" "b \<le> 0x7f" by (simp_all add: word_le_nat_alt)
  moreover have "be_value (be_bytes n v) = v"
    using assms(2) m n by (simp add: be_value_be_bytes instr_size_def)
  ultimately show ?thesis using m n u by (simp add: final_bytes_def instr_size_def Let_def)
next
  case False
  have np: "mi_opcode mi \<noteq> S (PUSH n)" for n
    using False push_is_PUSH assms(1) by (auto simp: stack_form_def)
  then have sz: "instr_size mi = 1" and m: "meaning binary labels mi = (ucast (binary (mi_opcode mi)), 0)"
    by (auto simp: instr_size_def meaning_def split: opcode.splits base.splits)
  have "\<not> ((0x60 :: byte) \<le> ucast (binary (mi_opcode mi)) \<and> ucast (binary (mi_opcode mi)) \<le> (0x7f :: byte))"
    using False by (simp add: is_PUSH_def word_le_nat_alt unat_opbyte)
  then show ?thesis by (auto simp: final_bytes_def m sz Let_def)
qed

text \<open>
  The bytes of an instruction are final, or two bytes are left for the address of a symbol.
\<close>

definition emitted :: "minstr \<Rightarrow> byte list \<Rightarrow> mcfixup list \<Rightarrow> bool" where
  "emitted mi bs fxs \<longleftrightarrow>
     length bs = instr_size mi \<and>
     (fxs = [] \<and> (\<forall>labels. bs = final_bytes labels mi \<and>
                    snd (meaning binary labels mi) < 256 ^ (instr_size mi - 1)) \<or>
      (\<exists>b s. bs = [b, 0, 0] \<and> fxs = [\<lparr>fx_offset = 1, fx_value = s, fx_kind = FK_SecRel_2\<rparr>] \<and>
             (\<forall>labels. meaning binary labels mi = (b, address_of labels s))))"

lemma emitted_plain:
  assumes "\<not> is_PUSH (binary (mi_opcode mi))" and "stack_form (mi_opcode mi)"
  shows "emitted mi [ucast (binary (mi_opcode mi))] []"
proof -
  have "mi_opcode mi \<noteq> S (PUSH n)" for n
    using assms push_is_PUSH by (auto simp: stack_form_def)
  then have "instr_size mi = 1" "meaning binary labels mi = (ucast (binary (mi_opcode mi)), 0)" for labels
    by (auto simp: instr_size_def meaning_def split: opcode.splits base.splits)
  then show ?thesis by (simp add: emitted_def final_bytes_def)
qed

lemma emitted_push:
  assumes n: "mi_opcode mi = S (PUSH n)" and ops: "mi_operands mi = [mo]"
    and low: "lower_operand mo = Inr mco" and enc: "encode_push_operand mco n = Inr (bs, fxs)"
  shows "emitted mi (ucast (binary (mi_opcode mi)) # bs) fxs"
proof -
  have sz: "instr_size mi = n + 1" by (simp add: instr_size_def n)
  have m: "meaning binary labels mi = (ucast (binary (S (PUSH n))), operand_value labels n mo)" for labels
    by (simp add: meaning_def n ops)
  have imm: "nat (i mod 256 ^ n) < 256 ^ n" for i :: int
    by (simp add: nat_less_iff)
  show ?thesis using low enc
    by (cases mo) (auto simp: emitted_def final_bytes_def sz m n rbind_eq_Inr imm_bytes_be [of n n]
        be_bytes_mod imm dest!: cimm_bytes_be)
qed

lemma encode_emitted:
  assumes "stack_form (mi_opcode mi)" and low: "Lower mi = Inr inst"
    and enc: "encodeInstruction binary inst = Inr (bs, fxs)"
  shows "emitted mi bs fxs"
proof (cases "is_PUSH (binary (mi_opcode mi))")
  case False
  with low enc have "bs = [ucast (binary (mi_opcode mi))]" "fxs = []"
    by (auto simp: Lower_def encodeInstruction_def rbind_eq_Inr Let_def)
  with emitted_plain False assms(1) show ?thesis by simp
next
  case True
  then obtain n where n: "mi_opcode mi = S (PUSH n)" using only_push assms(1) by blast
  then have le: "1 \<le> n" "n \<le> 32" using assms(1) by (auto simp: stack_form_def)
  from low obtain ops where ops: "lower_operands (mi_operands mi) = Inr ops"
    and inst: "inst = \<lparr>mc_opcode = S (PUSH n), mc_operands = ops\<rparr>"
    by (auto simp: Lower_def rbind_eq_Inr n)
  from enc True n obtain bs' where o1: "length ops = 1" and bs: "bs = ucast (binary (S (PUSH n))) # bs'"
    and e: "encode_push_operand (ops ! 0) n = Inr (bs', fxs)"
    by (auto simp: encodeInstruction_def inst Let_def rbind_eq_Inr push_size [OF le] split: if_splits)
  from o1 ops obtain mo mco where "mi_operands mi = [mo]" "lower_operand mo = Inr mco" "ops = [mco]"
    by (cases "mi_operands mi" rule: remdups_adj.cases) (auto simp: rbind_eq_Inr)
  then show ?thesis using emitted_push [OF n] e bs n by simp
qed

section \<open>Streams\<close>

definition apply_labels :: "(mcsymbol \<times> nat) list \<Rightarrow> mcfixup \<Rightarrow> byte list \<Rightarrow> byte list result" where
  "apply_labels labels fx = applyFixup 0 fx (evaluateFixup labels fx)"

lemma apply_shift:
  assumes "emitted mi bs fxs" and "foldM (apply_labels labels) (map (shift_fixup (length p)) fxs) (p @ bs @ post) = Inr res"
  shows "res = p @ final_bytes labels mi @ post \<and> snd (meaning binary labels mi) < 256 ^ (instr_size mi - 1)"
  using assms(1) unfolding emitted_def
proof (elim conjE disjE exE)
  fix b s
  assume b: "bs = [b, 0, 0]" and l: "length bs = instr_size mi"
    and fx: "fxs = [\<lparr>fx_offset = 1, fx_value = s, fx_kind = FK_SecRel_2\<rparr>]"
    and m: "\<forall>labels. meaning binary labels mi = (b, address_of labels s)"
  let ?v = "address_of labels s"
  have ev: "evaluateFixup labels fx' = address_of labels (fx_value fx')" for fx'
    by (simp add: evaluateFixup_def address_of_def)
  from assms(2) have v: "?v \<le> 0xFFFF"
    and r: "res = p @ [b, ucast (drop_bit 8 (word_of_nat ?v :: 16 word)), ucast (word_of_nat ?v :: 16 word)] @ post"
    by (auto simp: fx b shift_fixup_def apply_labels_def applyFixup_def ev applyFixupValue_def
        Let_def rbind_eq_Inr list_update_append)
  have "instr_size mi - 1 = 2" using l b by simp
  then show ?thesis
    using r m v be_bytes_2 [OF v] by (simp add: final_bytes_def)
qed (use assms(2) in auto)

lemma emit_items:
  assumes "foldM (emit_item binary) items st = Inr st'"
    and "\<forall>mi \<in> set (instructions items). stack_form (mi_opcode mi)"
  shows "\<exists>raw fxs. df_contents (st_fragment st') = df_contents (st_fragment st) @ raw \<and>
    df_fixups (st_fragment st') = df_fixups (st_fragment st) @ fxs \<and>
    length raw = code_size (instructions items) \<and>
    st_labels st' = label_addresses items (length (df_contents (st_fragment st))) (st_labels st) \<and>
    (\<forall>labels p post res. length p = length (df_contents (st_fragment st)) \<longrightarrow>
       foldM (apply_labels labels) fxs (p @ raw @ post) = Inr res \<longrightarrow>
       res = p @ concat (map (final_bytes labels) (instructions items)) @ post \<and>
       (\<forall>mi \<in> set (instructions items). snd (meaning binary labels mi) < 256 ^ (instr_size mi - 1)))"
  using assms
proof (induction items arbitrary: st)
  case Nil
  then show ?case by (simp add: code_size_def)
next
  case (Cons item items)
  then obtain st1 where s1: "emit_item binary item st = Inr st1"
    and rest: "foldM (emit_item binary) items st1 = Inr st'" by (auto simp: rbind_eq_Inr)
  show ?case
  proof (cases item)
    case (ItemLabel s)
    with s1 have "st1 = st\<lparr>st_labels := (s, length (df_contents (st_fragment st))) # st_labels st\<rparr>"
      by (auto simp: EmitLabel_def rbind_eq_Inr)
    with Cons.IH [OF rest] Cons.prems(2) show ?thesis by (simp add: ItemLabel)
  next
    case (ItemInstr mi)
    with s1 obtain inst bs fx where low: "Lower mi = Inr inst"
      and enc: "encodeInstruction binary inst = Inr (bs, fx)"
      and c1: "df_contents (st_fragment st1) = df_contents (st_fragment st) @ bs"
      and f1: "df_fixups (st_fragment st1) =
        df_fixups (st_fragment st) @ map (shift_fixup (length (df_contents (st_fragment st)))) fx"
      and l1: "st_labels st1 = st_labels st"
      by (auto simp: EmitInstruction_def EmitInstToData_def rbind_eq_Inr)
    have em: "emitted mi bs fx" using encode_emitted low enc Cons.prems(2) ItemInstr by simp
    then have len: "length bs = instr_size mi" by (simp add: emitted_def)
    from Cons.IH [OF rest] Cons.prems(2) ItemInstr obtain raw fxs where
      c: "df_contents (st_fragment st') = df_contents (st_fragment st1) @ raw"
      and f: "df_fixups (st_fragment st') = df_fixups (st_fragment st1) @ fxs"
      and rl: "length raw = code_size (instructions items)"
      and lb: "st_labels st' = label_addresses items (length (df_contents (st_fragment st1))) (st_labels st1)"
      and ih: "\<And>labels p post res. length p = length (df_contents (st_fragment st1)) \<Longrightarrow>
        foldM (apply_labels labels) fxs (p @ raw @ post) = Inr res \<Longrightarrow>
        res = p @ concat (map (final_bytes labels) (instructions items)) @ post \<and>
        (\<forall>mi \<in> set (instructions items). snd (meaning binary labels mi) < 256 ^ (instr_size mi - 1))"
      by auto
    let ?fx = "map (shift_fixup (length (df_contents (st_fragment st)))) fx"
    have step: "res = p @ concat (map (final_bytes labels) (mi # instructions items)) @ post \<and>
        (\<forall>mi' \<in> set (mi # instructions items). snd (meaning binary labels mi') < 256 ^ (instr_size mi' - 1))"
      if p: "length p = length (df_contents (st_fragment st))"
        and r: "foldM (apply_labels labels) (?fx @ fxs) (p @ (bs @ raw) @ post) = Inr res"
      for labels p post res
    proof -
      from r obtain mid where "foldM (apply_labels labels) ?fx (p @ bs @ raw @ post) = Inr mid"
        and r2: "foldM (apply_labels labels) fxs mid = Inr res"
        by (auto simp: foldM_append rbind_eq_Inr)
      then have mid: "mid = p @ final_bytes labels mi @ raw @ post"
        and b: "snd (meaning binary labels mi) < 256 ^ (instr_size mi - 1)"
        using apply_shift [OF em, of labels p "raw @ post" mid] p by simp_all
      have "length (p @ final_bytes labels mi) = length (df_contents (st_fragment st1))"
        using p len by (cases "meaning binary labels mi")
          (simp add: final_bytes_def c1 instr_size_def split: opcode.splits base.splits)
      from ih [OF this, of labels post res] r2 mid b show ?thesis by simp
    qed
    show ?thesis
      using step c f rl lb l1 c1 f1 len ItemInstr
      by (intro exI [of _ "bs @ raw"] exI [of _ "?fx @ fxs"]) (simp add: code_size_def)
  qed
qed

lemma decode_stream:
  assumes "\<forall>mi \<in> set mis. stack_form (mi_opcode mi) \<and>
      snd (meaning binary labels mi) < 256 ^ (instr_size mi - 1)"
  shows "decode (concat (map (final_bytes labels) mis)) = map (meaning binary labels) mis"
  using assms by (induction mis) (simp_all add: decode_final)

lemma assemble_decode:
  assumes "assemble binary 0 items = Inr bs"
    and "\<forall>mi \<in> set (instructions items). stack_form (mi_opcode mi)"
  shows "decode bs = map (meaning binary (label_addresses items 0 [])) (instructions items)"
    and "length bs = code_size (instructions items)"
proof -
  from assms(1) obtain st where e: "foldM (emit_item binary) items new_stream = Inr st"
    and lay: "foldM (apply_labels (st_labels st)) (df_fixups (st_fragment st)) (df_contents (st_fragment st)) = Inr bs"
    by (auto simp: assemble_def rbind_eq_Inr layout_fixups_def apply_labels_def [abs_def])
  from emit_items [OF e assms(2)] have l: "st_labels st = label_addresses items 0 []"
    and all: "foldM (apply_labels labels) (df_fixups (st_fragment st)) (df_contents (st_fragment st) @ []) = Inr res \<Longrightarrow>
      res = concat (map (final_bytes labels) (instructions items)) @ [] \<and>
      (\<forall>mi \<in> set (instructions items). snd (meaning binary labels mi) < 256 ^ (instr_size mi - 1))"
    for labels res
    by (simp_all add: new_stream_def del: append_Nil2)
  from all [of "st_labels st" bs] lay have bs: "bs = concat (map (final_bytes (st_labels st)) (instructions items))"
    and b: "\<forall>mi \<in> set (instructions items). snd (meaning binary (st_labels st) mi) < 256 ^ (instr_size mi - 1)"
    by simp_all
  show "decode bs = map (meaning binary (label_addresses items 0 [])) (instructions items)"
    using decode_stream [of "instructions items" "st_labels st"] assms(2) b bs l by simp
  have "length (final_bytes labels mi) = instr_size mi" for labels mi
    by (cases "meaning binary labels mi")
      (simp add: final_bytes_def instr_size_def split: opcode.splits base.splits)
  then show "length bs = code_size (instructions items)"
    by (simp add: bs length_concat code_size_def o_def)
qed

end

section \<open>The encodings of the instruction tables\<close>

lemma base_code_push:
  "1 \<le> n \<Longrightarrow> n \<le> 32 \<Longrightarrow> unat (0x5f + word_of_nat n :: 64 word) = 0x5f + n"
  by (simp add: unat_word_ariths unat_of_nat take_bit_nat_eq_self)

lemma base_code_less: "base_code b < 256"
proof (cases b)
  case (PUSH n)
  then show ?thesis using base_code_push [of n] by (simp add: word_less_nat_alt)
next
  case (Alu a)
  then show ?thesis by (cases a) simp_all
next
  case (Env e)
  then show ?thesis by (cases e) simp_all
next
  case (Sys s)
  then show ?thesis by (cases s) simp_all
qed simp_all

lemma base_code_push_only: "is_PUSH (base_code b) \<Longrightarrow> \<exists>n. b = PUSH n"
proof (cases b)
  case (Alu a)
  assume "is_PUSH (base_code b)"
  with Alu show ?thesis by (cases a) (simp_all add: is_PUSH_def word_le_nat_alt)
next
  case (Env e)
  assume "is_PUSH (base_code b)"
  with Env show ?thesis by (cases e) (simp_all add: is_PUSH_def word_le_nat_alt)
next
  case (Sys s)
  assume "is_PUSH (base_code b)"
  with Sys show ?thesis by (cases s) (simp_all add: is_PUSH_def word_le_nat_alt)
qed (simp_all add: is_PUSH_def word_le_nat_alt)

lemma dup_swap_code:
  "1 \<le> n \<Longrightarrow> n \<le> 16 \<Longrightarrow> unat (0x7f + word_of_nat n :: 64 word) = 0x7f + n"
  "1 \<le> n \<Longrightarrow> n \<le> 16 \<Longrightarrow> unat (0x8f + word_of_nat n :: 64 word) = 0x8f + n"
  by (simp_all add: unat_word_ariths unat_of_nat take_bit_nat_eq_self)

interpretation td: binary_code td_code
proof unfold_locales
  show "td_code opc < 256" for opc
  proof (cases opc)
    case (SWAPn n)
    then show ?thesis using dup_swap_code(2) [of n] by (simp add: word_less_nat_alt)
  next
    case (DUPn n)
    then show ?thesis using dup_swap_code(1) [of n] by (simp add: word_less_nat_alt)
  qed (simp_all add: base_code_less)
  show "td_code (S (PUSH n)) = 0x5f + word_of_nat n" if "1 \<le> n" "n \<le> 32" for n
    using that by simp
  show "\<exists>n. opc = S (PUSH n)" if "stack_form opc" "is_PUSH (td_code opc)" for opc
  proof (cases opc)
    case (S b)
    with that base_code_push_only [of b] show ?thesis by simp
  next
    case (SWAPn n)
    with that dup_swap_code(2) [of n] show ?thesis by (simp add: is_PUSH_def word_le_nat_alt split: if_splits)
  next
    case (DUPn n)
    with that dup_swap_code(1) [of n] show ?thesis by (simp add: is_PUSH_def word_le_nat_alt split: if_splits)
  qed (use that in \<open>simp_all add: stack_form_def is_PUSH_def\<close>)
qed

end
