(* ===== verification/AssemblyTotal.thy ===== *)
theory AssemblyTotal
  imports AssemblyCorrect
begin

text \<open>
  When the assembler succeeds, and what the bytes do. Instructions whose operands the
  encoder accepts are assembled as long as the code has at most 65535 bytes, the largest
  address a fixup can hold, and no label is there twice. The byte machine executes decoded code by the opcode numbers of
  the EVM; code that runs on the reference machine runs in the same way as bytes.
\<close>

section \<open>Instructions the encoder accepts\<close>

definition push_operand_ok :: "nat \<Rightarrow> operand \<Rightarrow> bool" where
  "push_operand_ok n mo =
     (case mo of
        MO_Immediate i \<Rightarrow> n \<le> 8
      | MO_CImmediate w v \<Rightarrow> (n \<le> 8 \<or> n = 32) \<and> 8 < w \<and> (n - 1) * 8 \<le> w
      | MO_MachineBasicBlock b \<Rightarrow> n = 2
      | MO_BlockAddress b \<Rightarrow> n = 2
      | MO_GlobalAddress g \<Rightarrow> n = 2
      | MO_ExternalSymbol s \<Rightarrow> n = 2
      | _ \<Rightarrow> False)"

definition encodable :: "minstr \<Rightarrow> bool" where
  "encodable mi \<longleftrightarrow>
     stack_form (mi_opcode mi) \<and> is_ok (lower_operands (mi_operands mi)) \<and>
     (case mi_opcode mi of
        S (PUSH n) \<Rightarrow> (case mi_operands mi of [mo] \<Rightarrow> push_operand_ok n mo | _ \<Rightarrow> False)
      | _ \<Rightarrow> True)"

lemma cimm_bytes_ok: "8 < w \<Longrightarrow> (n - 1) * 8 \<le> w \<Longrightarrow> is_ok (cimm_bytes n w v)"
proof (induction n)
  case (Suc n)
  then have "is_ok (cimm_bytes n w v)" by simp
  with Suc.prems show ?case by (auto simp: is_ok_iff)
qed simp

lemma push_operand_encodes:
  assumes "push_operand_ok n mo"
  shows "\<exists>mco bs fxs. lower_operand mo = Inr mco \<and> encode_push_operand mco n = Inr (bs, fxs) \<and> (n \<le> 8 \<or> n = 32)"
proof (cases mo)
  case (MO_CImmediate w v)
  with assms cimm_bytes_ok [of w n v] obtain bs where "cimm_bytes n w v = Inr bs"
    by (auto simp: push_operand_ok_def is_ok_iff)
  with MO_CImmediate assms show ?thesis by (auto simp: push_operand_ok_def)
qed (use assms in \<open>auto simp: push_operand_ok_def\<close>)

text \<open>The fixups lie in the contents, and every label points into them or to their end.\<close>

definition stream_ok :: "stream \<Rightarrow> bool" where
  "stream_ok st \<longleftrightarrow>
     (\<forall>fx \<in> set (df_fixups (st_fragment st)).
        fx_kind fx = FK_SecRel_2 \<and> fx_offset fx + 1 < length (df_contents (st_fragment st))) \<and>
     (\<forall>(s, a) \<in> set (st_labels st). a \<le> length (df_contents (st_fragment st)))"

context binary_code
begin

lemma encodable_encodes:
  assumes "encodable mi"
  shows "\<exists>inst bs fxs. Lower mi = Inr inst \<and> encodeInstruction binary inst = Inr (bs, fxs)"
proof (cases "is_PUSH (binary (mi_opcode mi))")
  case False
  with assms show ?thesis
    by (auto simp: encodable_def is_ok_iff Lower_def encodeInstruction_def Let_def)
next
  case True
  have "stack_form (mi_opcode mi)" using assms by (simp add: encodable_def)
  then obtain n where n: "mi_opcode mi = S (PUSH n)" "1 \<le> n" "n \<le> 32"
    using only_push [OF _ True] by (auto simp: stack_form_def)
  with assms obtain mo where mo: "mi_operands mi = [mo]" "push_operand_ok n mo"
    by (auto simp: encodable_def split: list.splits)
  from push_operand_encodes [OF mo(2)] obtain mco bs fxs where
    "lower_operand mo = Inr mco" "encode_push_operand mco n = Inr (bs, fxs)" "n \<le> 8 \<or> n = 32" by blast
  with n mo(1) True push_size [OF n(2,3)] show ?thesis
    by (auto simp: Lower_def encodeInstruction_def Let_def)
qed

lemma emit_item_ok:
  assumes "stream_ok st" and "\<And>mi. item = ItemInstr mi \<Longrightarrow> encodable mi"
    and "\<And>s. item = ItemLabel s \<Longrightarrow> s \<notin> fst ` set (st_labels st)"
  shows "\<exists>st'. emit_item binary item st = Inr st' \<and> stream_ok st' \<and>
    fst ` set (st_labels st') = fst ` set (st_labels st) \<union> set (labels_of [item])"
proof (cases item)
  case (ItemLabel s)
  with assms(1,3) show ?thesis by (auto simp: EmitLabel_def EmitLabel_base_def stream_ok_def)
next
  case (ItemInstr mi)
  from encodable_encodes [of mi] assms(2) ItemInstr obtain inst bs fxs where
    e: "Lower mi = Inr inst" "encodeInstruction binary inst = Inr (bs, fxs)" by blast
  have "emitted mi bs fxs"
    using encode_emitted [OF _ e] assms(2) ItemInstr by (simp add: encodable_def)
  then have "\<forall>fx \<in> set fxs. fx_kind fx = FK_SecRel_2 \<and> fx_offset fx + 1 < length bs"
    by (auto simp: emitted_def)
  with assms(1) e ItemInstr show ?thesis
    by (fastforce simp: EmitInstruction_def EmitInstToData_def stream_ok_def shift_fixup_def)
qed

lemma emit_items_ok:
  assumes "stream_ok st" and "\<forall>mi \<in> set (instructions items). encodable mi"
    and "distinct (labels_of items)" and "fst ` set (st_labels st) \<inter> set (labels_of items) = {}"
  shows "\<exists>st'. foldM (emit_item binary) items st = Inr st' \<and> stream_ok st'"
  using assms
proof (induction items arbitrary: st)
  case (Cons item items)
  have e: "encodable mi" if "item = ItemInstr mi" for mi using Cons.prems(2) that by simp
  have n: "s \<notin> fst ` set (st_labels st)" if "item = ItemLabel s" for s using Cons.prems(4) that by auto
  obtain st1 where "emit_item binary item st = Inr st1" "stream_ok st1"
    and l: "fst ` set (st_labels st1) = fst ` set (st_labels st) \<union> set (labels_of [item])"
    using emit_item_ok [OF Cons.prems(1) e n] by blast
  moreover have "\<forall>mi \<in> set (instructions items). encodable mi" "distinct (labels_of items)"
    using Cons.prems(2,3) by (cases item; simp)+
  moreover have "fst ` set (st_labels st1) \<inter> set (labels_of items) = {}"
    using l Cons.prems(3,4) by (cases item) auto
  ultimately show ?case using Cons.IH [of st1] by simp
qed simp

lemma apply_fixups_ok:
  assumes "\<forall>fx \<in> set fxs. fx_kind fx = FK_SecRel_2 \<and> fx_offset fx + 1 < length bs"
    and "\<forall>(s, a) \<in> set labels. a \<le> 0xFFFF"
  shows "\<exists>bs'. foldM (\<lambda>fx. applyFixup 0 fx (evaluateFixup labels fx)) fxs bs = Inr bs'"
  using assms(1)
proof (induction fxs arbitrary: bs)
  case (Cons fx fxs)
  have "evaluateFixup labels fx \<le> 0xFFFF"
    using assms(2) by (auto simp: evaluateFixup_def split: option.splits dest: map_of_SomeD)
  with Cons.prems obtain bs1 where "applyFixup 0 fx (evaluateFixup labels fx) bs = Inr bs1" "length bs1 = length bs"
    by (auto simp: applyFixup_def applyFixupValue_def Let_def)
  with Cons.IH [of bs1] Cons.prems show ?case by simp
qed simp

lemma assemble_ok:
  assumes "\<forall>mi \<in> set (instructions items). encodable mi" and "code_size (instructions items) \<le> 0xFFFF"
    and "distinct (labels_of items)"
  shows "\<exists>bs. assemble binary 0 items = Inr bs"
proof -
  have "stream_ok new_stream" by (simp add: stream_ok_def new_stream_def)
  from emit_items_ok [OF this assms(1,3)] obtain st where e: "foldM (emit_item binary) items new_stream = Inr st"
    and ok: "stream_ok st" by (auto simp: new_stream_def)
  have "\<forall>mi \<in> set (instructions items). stack_form (mi_opcode mi)"
    using assms(1) by (simp add: encodable_def)
  from emit_items [OF e this] assms(2) have "length (df_contents (st_fragment st)) \<le> 0xFFFF"
    by (auto simp: new_stream_def)
  with ok have "\<forall>(s, a) \<in> set (st_labels st). a \<le> 0xFFFF" by (fastforce simp: stream_ok_def)
  with ok apply_fixups_ok [of "df_fixups (st_fragment st)" "df_contents (st_fragment st)" "st_labels st"]
  obtain bs where "foldM (\<lambda>fx. applyFixup 0 fx (evaluateFixup (st_labels st) fx))
      (df_fixups (st_fragment st)) (df_contents (st_fragment st)) = Inr bs"
    by (auto simp: stream_ok_def)
  with e show ?thesis by (simp add: assemble_def layout_fixups_def)
qed

end

section \<open>The byte machine\<close>

text \<open>
  The opcode numbers of the EVM for the instructions of the reference machine, other than
  the numbered families.
\<close>

definition evm_opcodes :: "(byte \<times> base) list" where
  "evm_opcodes =
     [(0x01, ADD), (0x02, MUL), (0x03, SUB), (0x04, DIV), (0x05, Alu SDIV), (0x06, Alu MOD),
      (0x07, Alu SMOD), (0x0b, SIGNEXTEND), (0x10, LT), (0x11, GT), (0x12, SLT), (0x13, SGT),
      (0x14, EQ), (0x15, ISZERO), (0x16, Alu AND'), (0x17, Alu OR'), (0x18, Alu XOR'),
      (0x19, Alu NOT'), (0x1b, SHL), (0x1c, SHR), (0x1d, SAR), (0x50, POP), (0x51, MLOAD),
      (0x52, MSTORE), (0x58, GETPC), (0x5b, JUMPDEST)]"

definition exec_byte :: "nat \<Rightarrow> byte \<times> nat \<Rightarrow> evm_state \<Rightarrow> evm_state option" where
  "exec_byte pc bv st =
     (case (bv, st) of ((b, v), (s, m)) \<Rightarrow>
      let k = unat b in
      if 0x60 \<le> k \<and> k \<le> 0x7f then Some (word_of_nat v # s, m)
      else if 0x80 \<le> k \<and> k \<le> 0x8f
      then (if k - 0x7f \<le> length s then Some (s ! (k - 0x80) # s, m) else None)
      else if 0x90 \<le> k \<and> k \<le> 0x9f
      then (if k - 0x8f < length s then Some (swap0 (k - 0x8f) s, m) else None)
      else (case map_of evm_opcodes b of None \<Rightarrow> None | Some op \<Rightarrow> exec_base pc op [] st))"

definition byte_size :: "byte \<times> nat \<Rightarrow> nat" where
  "byte_size bv = (let k = unat (fst bv) in if 0x60 \<le> k \<and> k \<le> 0x7f then k - 0x5e else 1)"

fun run_decoded :: "nat \<Rightarrow> (byte \<times> nat) list \<Rightarrow> evm_state \<Rightarrow> evm_state option" where
  "run_decoded pc [] st = Some st"
| "run_decoded pc (bv # bvs) st =
     (case exec_byte pc bv st of
        None \<Rightarrow> None
      | Some st' \<Rightarrow> run_decoded (pc + byte_size bv) bvs st')"

definition run_bytes :: "nat \<Rightarrow> byte list \<Rightarrow> evm_state \<Rightarrow> evm_state option" where
  "run_bytes pc bs = run_decoded pc (decode bs)"

section \<open>Bytes do what the instructions do\<close>

lemma push_value_meaning:
  assumes "push_value n mo = Some v"
  shows "word_of_nat (operand_value labels n mo) = v"
proof (cases mo)
  case (MO_Immediate i)
  have "(256 :: int) ^ n = 2 ^ (8 * n)" by (simp add: power_mult)
  then have "int (nat (i mod 256 ^ n)) = take_bit (8 * n) i" by (simp add: take_bit_eq_mod)
  then have "(word_of_nat (nat (i mod 256 ^ n)) :: word256) = word_of_int (take_bit (8 * n) i)"
    by (metis of_int_of_nat_eq)
  with assms MO_Immediate show ?thesis by (simp add: push_value_def take_bit_of_int)
next
  case (MO_CImmediate w c)
  have "c mod 256 ^ n = take_bit (8 * n) c" by (simp add: take_bit_eq_mod power_mult)
  with assms MO_CImmediate show ?thesis by (simp add: push_value_def take_bit_of_nat)
qed (use assms in \<open>simp_all add: push_value_def\<close>)

lemma exec_base_supported:
  assumes "exec_base pc b ops st = Some st'" and "\<And>n. b \<noteq> PUSH n"
  shows "map_of evm_opcodes (ucast (base_code b)) = Some b \<and>
    unat (ucast (base_code b) :: byte) < 0x60 \<and> exec_base pc b [] st = Some st'"
proof (cases b)
  case (Alu a)
  with assms show ?thesis
    by (cases a) (auto simp: exec_base_def pure_base_def evm_opcodes_def Let_def split: prod.splits)
qed (use assms in \<open>auto simp: exec_base_def pure_base_def evm_opcodes_def Let_def split: prod.splits\<close>)

lemma byte_of_DUP: "1 \<le> n \<Longrightarrow> n \<le> 16 \<Longrightarrow> unat (ucast (td_code (DUPn n)) :: byte) = 0x7f + n"
  and byte_of_SWAP: "1 \<le> n \<Longrightarrow> n \<le> 16 \<Longrightarrow> unat (ucast (td_code (SWAPn n)) :: byte) = 0x8f + n"
  and byte_of_PUSH: "1 \<le> n \<Longrightarrow> n \<le> 32 \<Longrightarrow> unat (ucast (td_code (S (PUSH n))) :: byte) = 0x5f + n"
  using dup_swap_code [of n] td.unat_push [of n] by (simp_all only: td.unat_opbyte) simp_all

lemma exec_evm_byte:
  assumes run: "exec_evm pc mi st = Some st'" and form: "stack_form (mi_opcode mi)"
  shows "exec_byte pc (meaning td_code labels mi) st = Some st' \<and>
    byte_size (meaning td_code labels mi) = instr_size mi"
proof -
  obtain s m where st: "st = (s, m)" by fastforce
  consider (push) n where "mi_opcode mi = S (PUSH n)" "1 \<le> n" "n \<le> 32"
    | (base) b where "mi_opcode mi = S b" "\<And>n. b \<noteq> PUSH n"
    | (dup) n where "mi_opcode mi = DUPn n" "1 \<le> n" "n \<le> 16" "n \<le> length s" "st' = (s ! (n - 1) # s, m)"
    | (swap) n where "mi_opcode mi = SWAPn n" "1 \<le> n" "n \<le> 16" "n < length s" "st' = (swap0 n s, m)"
    using run form st
    by (cases "mi_opcode mi") (auto simp: exec_evm_def stack_form_def split: base.splits if_splits)
  then show ?thesis
  proof cases
    case push
    from run push(1) obtain mo v where mo: "mi_operands mi = [mo]" "push_value n mo = Some v"
      and st': "st' = (v # s, m)"
      by (auto simp: exec_evm_def exec_base_def st split: list.splits)
    have "meaning td_code labels mi = (ucast (td_code (S (PUSH n))), operand_value labels n mo)"
      using push(1) mo(1) by (simp add: meaning_def)
    with push byte_of_PUSH [OF push(2,3)] push_value_meaning [OF mo(2), of labels] st st' show ?thesis
      by (simp add: exec_byte_def byte_size_def instr_size_def Let_def)
  next
    case base
    then have m: "meaning td_code labels mi = (ucast (base_code b), 0)" "instr_size mi = 1"
      by (auto simp: meaning_def instr_size_def split: base.splits)
    from run base(1) have "exec_base pc b (mi_operands mi) st = Some st'" by (simp add: exec_evm_def)
    from exec_base_supported [OF this base(2)] m show ?thesis
      by (simp add: exec_byte_def byte_size_def Let_def st)
  next
    case dup
    then have m: "meaning td_code labels mi = (ucast (td_code (DUPn n)), 0)" "instr_size mi = 1"
      by (auto simp: meaning_def instr_size_def)
    with dup byte_of_DUP [OF dup(2,3)] st show ?thesis
      by (simp add: exec_byte_def byte_size_def Let_def del: td_code.simps)
  next
    case swap
    then have m: "meaning td_code labels mi = (ucast (td_code (SWAPn n)), 0)" "instr_size mi = 1"
      by (auto simp: meaning_def instr_size_def)
    with swap byte_of_SWAP [OF swap(2,3)] st show ?thesis
      by (simp add: exec_byte_def byte_size_def Let_def del: td_code.simps)
  qed
qed

lemma run_decoded_meaning:
  assumes "run_evm pc mis st = Some st'" and "\<forall>mi \<in> set mis. stack_form (mi_opcode mi)"
  shows "run_decoded pc (map (meaning td_code labels) mis) st = Some st'"
  using assms
proof (induction mis arbitrary: pc st)
  case (Cons mi mis)
  then obtain st1 where "exec_evm pc mi st = Some st1" "run_evm (pc + instr_size mi) mis st1 = Some st'"
    by (auto split: option.splits)
  with exec_evm_byte [of pc mi st st1 labels] Cons.IH [of "pc + instr_size mi" st1] Cons.prems(2)
  show ?case by simp
qed simp

text \<open>A label that is emitted twice is an error.\<close>

lemma label_twice_fails:
  assumes "s \<in> fst ` set (st_labels st)"
  shows "emit_item binary (ItemLabel s) st = Inl (FatalError ''invalid symbol redefinition'')"
  using assms by (simp add: EmitLabel_def EmitLabel_base_def)

text \<open>The bytes of code that runs on the reference machine run to the same state.\<close>

lemma assembled_runs:
  assumes "\<forall>mi \<in> set (instructions items). encodable mi" and "code_size (instructions items) \<le> 0xFFFF"
    and "distinct (labels_of items)" and "run_evm pc (instructions items) st = Some st'"
  shows "\<exists>bs. assemble td_code 0 items = Inr bs \<and> run_bytes pc bs st = Some st'"
proof -
  have f: "\<forall>mi \<in> set (instructions items). stack_form (mi_opcode mi)"
    using assms(1) by (simp add: encodable_def)
  obtain bs where bs: "assemble td_code 0 items = Inr bs" using td.assemble_ok [OF assms(1-3)] by blast
  with td.assemble_decode(1) [OF bs f] run_decoded_meaning [OF assms(4) f] show ?thesis
    by (simp add: run_bytes_def)
qed

end
