(* ===== verification/BlockCompile.thy ===== *)
theory BlockCompile
  imports StackAllocBlock LoweringRefinement ShrinkPush Finalization AssemblyTotal
begin

text \<open>
  The passes behind each other on a straight-line run of instructions that compute values:
  allocation, expansion of pseudo instructions, conversion to stack form, shrinking of
  constants and finalization. The register machine of \<open>StackAllocBlock\<close> is instantiated with
  the values the EVM instructions have, and the code that comes out computes on the
  reference EVM what the instructions compute on registers.
\<close>

section \<open>Instructions that compute a value\<close>

text \<open>
  A constant, or an instruction of \<open>pure_arity\<close> with virtual registers as operands.
\<close>

definition constant_ok :: "operand \<Rightarrow> bool" where
  "constant_ok mo =
     (case mo of
        MO_Immediate i \<Rightarrow> 0 \<le> i \<and> i < 2 ^ 63
      | MO_CImmediate w v \<Rightarrow> w = 256 \<and> v < 2 ^ 256
      | _ \<Rightarrow> False)"

definition virtual_use :: "operand \<Rightarrow> bool" where
  "virtual_use mo = (isReg mo \<and> \<not> isDef mo \<and> \<not> isPhysicalRegister (getReg mo))"

definition compilable :: "minstr \<Rightarrow> bool" where
  "compilable mi =
     (mi_flags mi = 0 \<and>
      (case (mi_opcode mi, mi_operands mi) of
         (R (PUSH n), [MO_Register d True, mo]) \<Rightarrow> n = 32 \<and> constant_ok mo
       | (R b, MO_Register d True # uses) \<Rightarrow>
           list_all virtual_use uses \<and> pure_arity b = Some (length uses)
       | _ \<Rightarrow> False))"

definition instr_value :: "word256 semantics" where
  "instr_value mi vs =
     (case mi_opcode mi of
        R (PUSH n) \<Rightarrow> (case push_value n (mi_operands mi ! 1) of Some v \<Rightarrow> v | None \<Rightarrow> 0)
      | R b \<Rightarrow> pure_value b vs
      | _ \<Rightarrow> 0)"

lemma pure_arity_PUSH [simp]: "pure_arity (PUSH n) = None"
  by (simp add: pure_arity_def)

lemma compilable_cases:
  assumes "compilable mi"
  obtains (const) d mo where "mi = MI (R (PUSH 32)) [defOf d, mo]" "constant_ok mo"
    | (op) b d uses where "mi = MI (R b) (defOf d # uses)" "list_all virtual_use uses"
        "pure_arity b = Some (length uses)"
proof -
  obtain opc ops fl where mi: "mi = \<lparr>mi_opcode = opc, mi_operands = ops, mi_flags = fl\<rparr>"
    by (cases mi)
  show thesis
  proof (cases "\<exists>n. opc = R (PUSH n)")
    case True
    with assms mi const show thesis
      by (auto simp: compilable_def split: list.splits operand.splits bool.splits)
  next
    case False
    with assms mi op show thesis
      by (auto simp: compilable_def split: opcode.splits base.splits list.splits operand.splits bool.splits)
  qed
qed

section \<open>The code the passes in the middle see\<close>

text \<open>
  Stack-form code that neither reads the program counter nor holds a marker, and whose
  only operands are constants that are not negative.
\<close>

definition plain :: "minstr \<Rightarrow> bool" where
  "plain mi =
     (case mi_opcode mi of
        S (PUSH n) \<Rightarrow> n = 32 \<and> mi_flags mi = 0 \<and>
          (case mi_operands mi of [mo] \<Rightarrow> constant_ok mo | _ \<Rightarrow> False)
      | S b \<Rightarrow> b \<noteq> GETPC \<and> mi_operands mi = []
      | DUPn n \<Rightarrow> mi_operands mi = []
      | SWAPn n \<Rightarrow> mi_operands mi = []
      | _ \<Rightarrow> False)"

lemma constant_ok_word: "constant_ok (MO_Immediate (uint (x :: 32 word)))"
proof -
  have "uint x < 2 ^ 32" using unsigned_less [of x, where ?'a = int] by simp
  then show ?thesis by (simp add: constant_ok_def)
qed

lemma plain_MI:
  "plain (MI (S (PUSH 32)) [mo]) \<longleftrightarrow> constant_ok mo"
  "b \<noteq> GETPC \<Longrightarrow> (\<And>n. b \<noteq> PUSH n) \<Longrightarrow> plain \<lparr>mi_opcode = S b, mi_operands = [], mi_flags = f\<rparr>"
  "plain (MI (DUPn n) [])" "plain (MI (SWAPn n) [])"
  by (auto simp: plain_def split: base.splits)

lemma exec_evm_pc:
  "mi_opcode mi \<noteq> S GETPC \<Longrightarrow> exec_evm pc mi st = exec_evm pc' mi st"
  by (cases st) (auto simp: exec_evm_def exec_base_def Let_def split: opcode.splits base.splits)

section \<open>Shrinking and finalization of plain code\<close>

lemma shrink_plain_shape:
  assumes "plain mi" and "shrink_instr mi = Inr (b, [c])"
  shows "mi_opcode c \<noteq> S GETPC \<and> finalize_instr ST c = Inr [c] \<and> encodable c"
proof (cases "mi_opcode mi = S (PUSH 32)")
  case False
  then have "c = mi" using assms(2) by (simp add: shrink_instr_def)
  with False assms(1) show ?thesis
    by (auto simp: plain_def finalize_instr_def encodable_def stack_form_def
        split: opcode.splits base.splits)
next
  case True
  then obtain mo where mi: "mi = MI (S (PUSH 32)) [mo]" and mo: "constant_ok mo"
    using assms(1) by (cases mi) (auto simp: plain_def split: list.splits)
  show ?thesis
  proof (cases mo)
    case (MO_Immediate i)
    with mo have i: "0 \<le> i" "i < 2 ^ 63" by (simp_all add: constant_ok_def)
    obtain n where "get_imm_size i = Inr n" "1 \<le> n" "n \<le> 8"
      using get_imm_size_nonneg [OF i] by blast
    with assms(2) mi MO_Immediate i show ?thesis
      by (auto simp: shrink_instr_def get_push_opcode_def finalize_instr_def encodable_def
          stack_form_def push_operand_ok_def)
  next
    case (MO_CImmediate w v)
    with assms(2) mi mo show ?thesis
      using push_size_covers [of "getActiveBits w v"]
      by (auto simp: shrink_instr_def finalize_instr_def encodable_def stack_form_def
          push_operand_ok_def replaceCIwithI_def constant_ok_def split: option.splits)
  qed (use mo in \<open>simp_all add: constant_ok_def\<close>)
qed

lemma shrink_plain:
  assumes "plain mi" and "exec_evm pc mi st = Some st'"
  shows "\<exists>b c. shrink_instr mi = Inr (b, [c]) \<and> exec_evm pc' c st = Some st'"
proof (cases "mi_opcode mi = S (PUSH 32)")
  case False
  with assms(1) have "mi_opcode mi \<noteq> S GETPC" by (auto simp: plain_def)
  with False assms(2) exec_evm_pc [of mi pc' st pc] show ?thesis by (auto simp: shrink_instr_def)
next
  case True
  then obtain mo where mi: "mi = MI (S (PUSH 32)) [mo]" and mo: "constant_ok mo"
    using assms(1) by (cases mi) (auto simp: plain_def split: list.splits)
  obtain s m where st: "st = (s, m)" by fastforce
  show ?thesis
  proof (cases mo)
    case (MO_Immediate i)
    with mo assms(2) mi st have "st' = (word_of_int i # s, m)" "0 \<le> i" "i < 2 ^ 63"
      by (auto simp: constant_ok_def)
    with shrink_nonneg [of i pc' s m] mi st MO_Immediate show ?thesis
      by (auto split: option.splits)
  next
    case (MO_CImmediate w v)
    have "push_value 32 (MO_CImmediate w v) = Some (word_of_nat v)"
      by (simp add: push_value_def take_bit_word_eq_self)
    with mo assms(2) mi st MO_CImmediate have "st' = (word_of_nat v # s, m)" "v < 2 ^ w" "w \<le> 256"
      by (auto simp: constant_ok_def)
    with shrink_constant [of v w pc' s m] mi st MO_CImmediate show ?thesis
      by (auto split: option.splits)
  qed (use mo in \<open>simp_all add: constant_ok_def\<close>)
qed

lemma shrink_plain_code:
  assumes "list_all plain code" and "run_evm pc code st = Some st'"
  shows "\<exists>b c. shrink_instrs code = Inr (b, c) \<and> finalize_instrs ST c = Inr c \<and>
    list_all encodable c \<and> length c = length code \<and> (\<forall>pc'. run_evm pc' c st = Some st')"
  using assms
proof (induction code arbitrary: pc st)
  case (Cons mi mis)
  from Cons.prems obtain st1 where e: "exec_evm pc mi st = Some st1"
    and rest: "run_evm (pc + instr_size mi) mis st1 = Some st'" by (auto split: option.splits)
  obtain b c where c1: "shrink_instr mi = Inr (b, [c])" "exec_evm pc c st = Some st1"
    using shrink_plain [OF _ e, of pc] Cons.prems(1) by auto
  with Cons.prems(1) have c: "mi_opcode c \<noteq> S GETPC" "finalize_instr ST c = Inr [c]" "encodable c"
    using shrink_plain_shape [of mi b c ST] by simp_all
  have "exec_evm pc' c st = Some st1" for pc'
    using exec_evm_pc [OF c(1), of pc' st pc] c1(2) by simp
  moreover obtain b2 c2 where "shrink_instrs mis = Inr (b2, c2)" "finalize_instrs ST c2 = Inr c2"
    "list_all encodable c2" "length c2 = length mis" "\<forall>pc'. run_evm pc' c2 st1 = Some st'"
    using Cons.IH [OF _ rest] Cons.prems(1) by auto
  ultimately show ?case using c1(1) c(2,3) by simp
qed auto

section \<open>Lowering of the allocator's code\<close>

text \<open>The indexes of an inserted instruction are in the range of the EVM and of the frame.\<close>

definition fitting :: "nat \<Rightarrow> reg \<Rightarrow> manip list" where
  "fitting N r =
     map Dup [1..<17] @ map Swap [1..<17] @ [Pop] @ map (Get r) [0..<N] @
     (if isPhysicalRegister r then [] else map (Put r) [0..<N])"

definition fits :: "nat \<Rightarrow> minstr \<Rightarrow> bool" where
  "fits N mi =
     (let r = (case mi_operands mi of [] \<Rightarrow> NoRegister | mo # _ \<Rightarrow> getReg mo)
      in mi \<in> manip_mi ` set (fitting N r))"

lemma fitting_ok: "m \<in> set (fitting N r) \<Longrightarrow> manip_ok N m"
  by (auto simp: fitting_def split: if_splits)

lemma fits_manip: "fits N mi \<Longrightarrow> \<exists>m. mi = manip_mi m \<and> manip_ok N m"
  unfolding fits_def Let_def using fitting_ok by blast

lemma manip_plain:
  assumes "manip_ok N m" and "expand_instr ST fi (manip_mi m) ([], n) = Inr (code, n')"
    and "convert_instrs ST MFI code = Inr code'"
  shows "list_all plain code' \<and> length code' \<le> 5"
  using assms constant_ok_word
  by (cases m)
     (auto simp: expand_instr_def expandLOCAL_def getNewRegister_def getOperand_def Let_def
       convert_instr_def convertDUP_def convertSWAP_def imm_operand_nat getDUPOpcode_def
       getSWAPOpcode_def strip_registers_def explicit_uses_def isPhysicalRegister.simps
       rbind_eq_Inr plain_MI)

lemma explicit_uses_def1: "list_all virtual_use uses \<Longrightarrow>
  explicit_uses (MI opc (defOf d # uses)) = uses \<and> operand_regs (MI opc (defOf d # uses)) = map getReg uses"
  by (cases uses) (auto simp: explicit_uses_def operand_regs_def virtual_use_def list_all_iff
      intro!: filter_True)

lemma compilable_lowers:
  assumes "compilable mi" and "exec_code instr_value mi (s, loc) = Some (s', loc')"
  shows "loc' = loc \<and> expand_instr ST fi mi ([], n) = Inr ([mi], n) \<and>
    (\<exists>c. convert_instr ST MFI mi = Inr [c] \<and> plain c \<and> exec_evm pc c (s, m) = Some (s', m))"
  using assms(1)
proof (cases rule: compilable_cases)
  case (const d mo)
  obtain v where v: "push_value 32 mo = Some v"
    using const(2) by (auto simp: constant_ok_def push_value_def split: operand.splits)
  have "\<not> isDef mo" "\<not> isReg mo" using const(2) by (auto simp: constant_ok_def split: operand.splits)
  with v assms(2) const show ?thesis
    by (auto simp: exec_code_def is_manip_def operand_regs_def explicit_uses_def explicit_defs_def
        instr_value_def expand_instr_def convert_instr_def plain_MI)
next
  case (op b d uses)
  have nb: "b \<noteq> PUSH k" "b \<noteq> POP" "b \<noteq> GETPC" for k using op(3) by (auto simp: pure_arity_def)
  let ?n = "length uses"
  note u = explicit_uses_def1 [OF op(2), of "R b" d]
  have le: "?n \<le> length s" and s': "s' = instr_value mi (take ?n s) # drop ?n s" "loc' = loc"
    using assms(2) u nb
    by (auto simp: exec_code_def is_manip_def op(1) explicit_defs_def Let_def split: if_splits)
  have val: "instr_value mi vs = pure_value b vs" for vs
    using nb by (auto simp: instr_value_def op(1) split: base.splits)
  have c: "convert_instr ST MFI mi = Inr [MI (S b) []]"
    using u op(2) nb
    by (auto simp: convert_instr_def op(1) strip_registers_def virtual_use_def list_all_iff)
  have "exec_evm pc (MI (S b) []) (s, m) = Some (s', m)"
    using exec_pure [OF op(3), of "take ?n s" pc "[]" "drop ?n s" m] le s' val by simp
  moreover have "plain (MI (S b) [])" using nb by (intro plain_MI(2)) auto
  ultimately show ?thesis using c s'(2) op(1) by (auto simp: expand_instr_def)
qed

lemma code_lowers:
  assumes "\<forall>mi \<in> set code. if is_manip mi then fits N mi else compilable mi"
    and "locals_in_memory ST fi N loc mem" and "run_code instr_value code (s, loc) = Some (s', loc')"
  shows "\<exists>low mem'. lower ST MFI fi n code = Inr low \<and> list_all plain low \<and>
    length low \<le> 5 * length code \<and> run_evm pc low (s, mem) = Some (s', mem') \<and>
    locals_in_memory ST fi N loc' mem' \<and> frame ST mem' = frame ST mem"
  using assms
proof (induction code arbitrary: s loc mem n pc)
  case Nil
  then show ?case by (auto simp: lower_def)
next
  case (Cons mi mis)
  then obtain s1 loc1 where 1: "exec_code instr_value mi (s, loc) = Some (s1, loc1)"
    and rest: "run_code instr_value mis (s1, loc1) = Some (s', loc')"
    by (auto split: option.splits)
  have "\<exists>mem1 d n1 c1. expand_instr ST fi mi ([], n) = Inr (d, n1) \<and> convert_instrs ST MFI d = Inr c1 \<and>
    list_all plain c1 \<and> length c1 \<le> 5 \<and> run_evm pc c1 (s, mem) = Some (s1, mem1) \<and>
    locals_in_memory ST fi N loc1 mem1 \<and> frame ST mem1 = frame ST mem"
  proof (cases "is_manip mi")
    case True
    with Cons.prems(1) obtain m where m: "mi = manip_mi m" "manip_ok N m"
      using fits_manip [of N mi] by auto
    with 1 True have "exec_manip (manip_mi m) (s, loc) = Some (s1, loc1)" by (simp add: exec_code_def)
    from manip_lowers [OF m(2) Cons.prems(2) this, of MFI n pc] manip_plain [OF m(2)] m(1)
    show ?thesis unfolding lowers_def by blast
  next
    case False
    with compilable_lowers [OF _ 1, of ST fi n MFI pc mem] Cons.prems(1,2) show ?thesis
      by (auto split: option.splits)
  qed
  then obtain mem1 d n1 c1 where c1: "expand_instr ST fi mi ([], n) = Inr (d, n1)"
    "convert_instrs ST MFI d = Inr c1" "list_all plain c1" "run_evm pc c1 (s, mem) = Some (s1, mem1)"
    "length c1 \<le> 5" "locals_in_memory ST fi N loc1 mem1" "frame ST mem1 = frame ST mem" by blast
  obtain c2 mem' where c2: "lower ST MFI fi n1 mis = Inr c2" "list_all plain c2"
    "length c2 \<le> 5 * length mis" "run_evm (pc + code_size c1) c2 (s1, mem1) = Some (s', mem')"
    "locals_in_memory ST fi N loc' mem'" "frame ST mem' = frame ST mem1"
    using Cons.IH [OF _ c1(6) rest, of n1 "pc + code_size c1"] Cons.prems(1) by auto
  from lower_Cons [OF c1(1,2) c2(1)] c1 c2 show ?case by (auto simp: run_evm_append)
qed

section \<open>The passes behind the allocator, on the code of a block\<close>

lemma encodable_code_size: "list_all encodable c \<Longrightarrow> code_size c \<le> 33 * length c"
proof (induction c)
  case (Cons mi c)
  have "instr_size mi \<le> 33"
    using Cons.prems by (auto simp: encodable_def instr_size_def stack_form_def split: opcode.splits base.splits)
  with Cons show ?case by (simp add: code_size_def)
qed (simp add: code_size_def)

definition compile_block ::
    "EVMSubtarget \<Rightarrow> EVMMachineFunctionInfo \<Rightarrow> 32 word \<Rightarrow> nat \<Rightarrow> minstr list \<Rightarrow> minstr list result" where
  "compile_block ST MFI fi n code =
     rbind (lower ST MFI fi n code) (\<lambda>low.
     rbind (shrink_instrs low) (\<lambda>(b, c). finalize_instrs ST c))"

text \<open>
  Instructions the allocator accepts, whose inserted code fits the EVM: the code computes
  the values of the registers that are on the stack at the end.
\<close>

lemma block_compiled:
  assumes ok: "sites_ok A ws ([], st)" and comp: "\<forall>w \<in> set ws. compilable (at_mi w)"
    and run: "foldM (analyzeInstr A) ws ([], st) = Inr (code, st')"
    and fit: "\<forall>mi \<in> set code. is_manip mi \<longrightarrow> fits N mi"
    and loc: "locals_ok \<rho> loc st" and mem: "locals_in_memory ST fi N loc mem"
  shows "\<exists>final mem' loc'. compile_block ST MFI fi n code = Inr final \<and>
    list_all encodable final \<and> code_size final \<le> 165 * length code \<and> (\<forall>pc. run_evm pc final (map \<rho> (view (stack st)), mem) =
       Some (map (reg_run instr_value ws \<rho>) (view (stack st')), mem')) \<and>
    locals_ok (reg_run instr_value ws \<rho>) loc' st' \<and> locals_in_memory ST fi N loc' mem' \<and>
    frame ST mem' = frame ST mem"
proof -
  from analyzeInstrs_sim [OF ok loc, of instr_value] run obtain loc' where
    code: "\<forall>mi \<in> set code. is_manip mi \<or> mi \<in> at_mi ` set ws"
    and l: "locals_ok (reg_run instr_value ws \<rho>) loc' st'"
    and r: "run_code instr_value code (map \<rho> (view (stack st)), loc) =
      Some (map (reg_run instr_value ws \<rho>) (view (stack st')), loc')" by auto
  have "\<forall>mi \<in> set code. if is_manip mi then fits N mi else compilable mi"
    using code fit comp by auto
  from code_lowers [OF this mem r, of MFI n 0] obtain low mem' where
    low: "lower ST MFI fi n code = Inr low" "list_all plain low" "length low \<le> 5 * length code"
      "run_evm 0 low (map \<rho> (view (stack st)), mem) =
        Some (map (reg_run instr_value ws \<rho>) (view (stack st')), mem')"
    and m: "locals_in_memory ST fi N loc' mem'" "frame ST mem' = frame ST mem" by blast
  from shrink_plain_code [OF low(2,4), of ST] obtain b c where
    c: "shrink_instrs low = Inr (b, c)" "finalize_instrs ST c = Inr c" "list_all encodable c"
      "length c = length low"
      "\<And>pc. run_evm pc c (map \<rho> (view (stack st)), mem) =
        Some (map (reg_run instr_value ws \<rho>) (view (stack st')), mem')" by blast
  have "code_size c \<le> 165 * length code" using encodable_code_size [OF c(3)] c(4) low(3) by linarith
  with c low(1) l m show ?thesis by (auto simp: compile_block_def)
qed

end
