(* ===== verification/ArgumentMove.thy ===== *)
theory ArgumentMove
  imports ExpandPseudos
begin

text \<open>
  The pass \<open>EVMArgumentMove\<close> (\<open>EVMArgumentMove.cpp\<close>), which completes the stack argument
  markers of the entry block, adds one for the return address, hands the return address to
  the return instructions, and sorts the markers so that the first argument is on the top.
\<close>

section \<open>The pass\<close>

definition isStackArg :: "minstr \<Rightarrow> bool" where
  "isStackArg mi = (mi_opcode mi = pSTACKARG_r)"

text \<open>\<open>MI.getOperand(1).getImm()\<close>, as an \<open>unsigned\<close>.\<close>

definition arg_index :: "minstr \<Rightarrow> nat result" where
  "arg_index mi =
     rbind (rbind (getOperand mi 1) getImm) (\<lambda>i. Inr (unat (word_of_int i :: 32 word)))"

abbreviation STACKARG :: "reg \<Rightarrow> nat \<Rightarrow> minstr" where
  "STACKARG r i \<equiv> MI pSTACKARG_r [defOf r, MO_Immediate (int i)]"

text \<open>
  The rewriting of a return. The source reads the opcode of the instruction again after it
  has erased it; the model reads the opcode it had.
\<close>

definition add_return_address :: "function_decl \<Rightarrow> reg \<Rightarrow> minstr \<Rightarrow> minstr result" where
  "add_return_address F returnAddrReg mi =
     (let ra = (if isMainFunction F then [] else [useOf returnAddrReg]) in
      if mi_opcode mi = pRETURNSUB_r
      then rbind (rbind (getOperand mi 0) getRegister) (\<lambda>r.
             Inr (MI pRETURNSUB_r (ra @ [useOf r])))
      else if mi_opcode mi = pRETURNSUBVOID_r then Inr (MI pRETURNSUBVOID_r ra)
      else Inr mi)"

fun map_result :: "('a \<Rightarrow> 'b result) \<Rightarrow> 'a list \<Rightarrow> 'b list result" where
  "map_result f [] = Inr []"
| "map_result f (x # xs) = rbind (f x) (\<lambda>y. rbind (map_result f xs) (\<lambda>ys. Inr (y # ys)))"

definition insertRetAddrArg ::
    "function_decl \<Rightarrow> EVMMachineFunctionInfo \<Rightarrow> mfunction \<Rightarrow> nat \<Rightarrow> (mfunction \<times> nat) result" where
  "insertRetAddrArg F MFI MF n =
     (let rewrite = (\<lambda>ra. map_result (\<lambda>b.
            rbind (map_result (add_return_address F ra) (mbb_instrs b)) (\<lambda>c. Inr (b\<lparr>mbb_instrs := c\<rparr>))))
      in if isMainFunction F
         then rbind (rewrite NoRegister MF) (\<lambda>MF'. Inr (MF', n))
         else case MF of
             [] \<Rightarrow> Inl (UndefinedBehaviour ''front()'')
           | Entry # rest \<Rightarrow>
               if mbb_instrs Entry = [] then Inl (UndefinedBehaviour ''EntryMBB.front()'')
               else let (destReg, n) = getNewRegister n;
                        Entry = Entry\<lparr>mbb_instrs :=
                                  STACKARG destReg (NumStackArgs MFI) # mbb_instrs Entry\<rparr>
                    in rbind (rewrite destReg (Entry # rest)) (\<lambda>MF'. Inr (MF', n)))"

definition computeStackArgOffset :: "EVMSubtarget \<Rightarrow> function_decl \<Rightarrow> nat" where
  "computeStackArgOffset ST F = (if isMainFunction F \<or> HasSubroutine ST then 0 else 1)"

text \<open>The bit vector of the argument indexes that are present.\<close>

fun mark_args :: "minstr list \<Rightarrow> bool list \<Rightarrow> bool list result" where
  "mark_args [] bits = Inr bits"
| "mark_args (mi # mis) bits =
     (if \<not> isStackArg mi then mark_args mis bits
      else rbind (arg_index mi) (\<lambda>i.
           rbind (check_assert (i < length bits) ''BitVector::set: Idx < Size'') (\<lambda>_.
             mark_args mis (bits[i := True]))))"

text \<open>A marker for each deleted argument, in front of the block, one after the other.\<close>

fun add_missing :: "bool list \<Rightarrow> nat list \<Rightarrow> minstr list \<Rightarrow> nat \<Rightarrow> (minstr list \<times> nat) result" where
  "add_missing bits [] entry n = Inr (entry, n)"
| "add_missing bits (i # is) entry n =
     (if bits ! i then add_missing bits is entry n
      else if entry = [] then Inl (UndefinedBehaviour ''insertPt->getDebugLoc()'')
      else let (destReg, n) = getNewRegister n
           in add_missing bits is (STACKARG destReg i # entry) n)"

definition arrangeStackArgs ::
    "EVMSubtarget \<Rightarrow> function_decl \<Rightarrow> EVMMachineFunctionInfo \<Rightarrow> mfunction \<Rightarrow> nat \<Rightarrow>
     (mfunction \<times> nat) result" where
  "arrangeStackArgs ST F MFI MF n =
     (case MF of
        [] \<Rightarrow> Inl (UndefinedBehaviour ''front()'')
      | Entry # rest \<Rightarrow>
          rbind (mark_args (mbb_instrs Entry)
                   (replicate (NumStackArgs MFI + computeStackArgOffset ST F) False)) (\<lambda>bits.
          rbind (add_missing bits [0..<NumStackArgs MFI] (mbb_instrs Entry) n) (\<lambda>(entry, n).
            let MF = Entry\<lparr>mbb_instrs := entry\<rparr> # rest in
            if \<not> HasSubroutine ST then insertRetAddrArg F MFI MF n else Inr (MF, n))))"

text \<open>
  \<open>index2mi\<close> keeps the first marker of each index. \<open>strip_args\<close> is what remains of a piece of
  the block when those markers are taken out of it; \<open>seen\<close> are the indexes met before.
\<close>

fun strip_args :: "nat list \<Rightarrow> (minstr \<Rightarrow> nat) \<Rightarrow> minstr list \<Rightarrow> minstr list" where
  "strip_args seen idx [] = []"
| "strip_args seen idx (mi # mis) =
     (if isStackArg mi \<and> idx mi \<notin> set seen then strip_args (idx mi # seen) idx mis
      else mi # strip_args seen idx mis)"

definition index_nat :: "minstr \<Rightarrow> nat" where
  "index_nat mi = (case arg_index mi of Inr i \<Rightarrow> i | Inl _ \<Rightarrow> 0)"

definition sortStackArgs :: "(reg \<Rightarrow> bool) \<Rightarrow> minstr list \<Rightarrow> minstr list result" where
  "sortStackArgs use_empty entry =
     (let args = filter isStackArg entry in
      rbind (map_result arg_index args) (\<lambda>idxs.
      rbind (map_result (\<lambda>mi. rbind (getOperand mi 0) getRegister) args) (\<lambda>regs.
      let index2mi = map_of (zip idxs args);
          numArgs = length (remdups idxs);
          unusedArgs = filter use_empty regs;
          lead = takeWhile isStackArg entry; tail = dropWhile isStackArg entry
      in rbind (map_result (\<lambda>i. case index2mi i of
                    None \<Rightarrow> Inl (AssertFailed ''index2mi.find(index) != index2mi.end()'')
                  | Some mi \<Rightarrow> Inr mi) (rev [0..<numArgs])) (\<lambda>moved.
         if unusedArgs \<noteq> [] \<and> tail = [] then Inl (UndefinedBehaviour ''InsertPt->getDebugLoc()'')
         else let rest = strip_args (map index_nat lead) index_nat tail in
           if \<exists>mi \<in> set rest. isStackArg mi
           then Inl (Unreachable ''there shouldn't be another stack args unmoved.'')
           else Inr (strip_args [] index_nat lead @ moved @
                     map (\<lambda>r. MI (R POP) [useOf r]) unusedArgs @ rest)))))"

definition function_use_empty :: "mfunction \<Rightarrow> reg \<Rightarrow> bool" where
  "function_use_empty MF r = (\<forall>b \<in> set MF. \<forall>mi \<in> set (mbb_instrs b). r \<notin> set (use_regs mi))"

definition runOnMachineFunction_args ::
    "EVMSubtarget \<Rightarrow> function_decl \<Rightarrow> EVMMachineFunctionInfo \<Rightarrow> mfunction \<Rightarrow> nat \<Rightarrow>
     (mfunction \<times> nat) result" where
  "runOnMachineFunction_args ST F MFI MF n =
     rbind (arrangeStackArgs ST F MFI MF n) (\<lambda>(MF, n).
     case MF of
       [] \<Rightarrow> Inl (UndefinedBehaviour ''front()'')
     | Entry # rest \<Rightarrow>
         rbind (sortStackArgs (function_use_empty MF) (mbb_instrs Entry)) (\<lambda>entry.
           Inr (Entry\<lparr>mbb_instrs := entry\<rparr> # rest, n)))"

section \<open>Completion of the markers\<close>

lemma map_result_Inr:
  "map_result f xs = Inr ys \<longleftrightarrow> length ys = length xs \<and> (\<forall>i < length xs. f (xs ! i) = Inr (ys ! i))"
proof (induction xs arbitrary: ys)
  case (Cons x xs)
  show ?case
  proof (cases ys)
    case (Cons y ys')
    then show ?thesis using Cons.IH [of ys'] by (auto simp: rbind_eq_Inr All_less_Suc2)
  qed (auto simp: rbind_eq_Inr)
qed auto

lemma index_of_STACKARG:
  "i < 2 ^ 32 \<Longrightarrow> arg_index (STACKARG r i) = Inr i"
  by (simp add: arg_index_def getOperand_def unsigned_of_nat take_bit_nat_eq_self)

lemma STACKARG_simps [simp]:
  "isStackArg (STACKARG r i)" "i < 2 ^ 32 \<Longrightarrow> index_nat (STACKARG r i) = i"
  by (simp_all add: isStackArg_def index_nat_def index_of_STACKARG)

definition arg_indexes :: "minstr list \<Rightarrow> nat list" where
  "arg_indexes entry = map index_nat (filter isStackArg entry)"

lemma mark_args_bits:
  assumes "mark_args entry bits = Inr bits'" and "i < length bits"
  shows "length bits' = length bits \<and> (bits' ! i \<longleftrightarrow> bits ! i \<or> i \<in> set (arg_indexes entry)) \<and>
    (\<forall>j \<in> set (arg_indexes entry). j < length bits)"
  using assms
proof (induction entry arbitrary: bits)
  case (Cons mi mis)
  show ?case
  proof (cases "isStackArg mi")
    case True
    with Cons.prems(1) obtain j where j: "arg_index mi = Inr j" "j < length bits"
      and r: "mark_args mis (bits[j := True]) = Inr bits'" by (auto simp: rbind_eq_Inr)
    from Cons.IH [OF r] Cons.prems(2) True j show ?thesis
      by (auto simp: arg_indexes_def index_nat_def nth_list_update)
  next
    case False
    with Cons show ?thesis by (simp add: arg_indexes_def)
  qed
qed (simp add: arg_indexes_def)

lemma add_missing_spec:
  assumes "add_missing bits is entry n = Inr (entry', n')" and "\<forall>i \<in> set is. i < 2 ^ 32"
    and "distinct is"
  shows "\<exists>new. entry' = new @ entry \<and> list_all isStackArg new \<and>
    map index_nat new = rev (filter (\<lambda>i. \<not> bits ! i) is)"
  using assms
proof (induction "is" arbitrary: entry n)
  case (Cons i "is")
  show ?case
  proof (cases "bits ! i")
    case True
    with Cons show ?thesis by simp
  next
    case False
    with Cons.prems(1) have "add_missing bits is (STACKARG (VReg n) i # entry) (Suc n) = Inr (entry', n')"
      by (simp add: getNewRegister_def Let_def split: if_splits)
    from Cons.IH [OF this] Cons.prems(2,3) obtain new where
      "entry' = new @ STACKARG (VReg n) i # entry" "list_all isStackArg new"
      "map index_nat new = rev (filter (\<lambda>i. \<not> bits ! i) is)" by auto
    with False Cons.prems(2) show ?thesis
      by (intro exI [of _ "new @ [STACKARG (VReg n) i]"])
         (simp add: Ball_def)
  qed
qed simp

section \<open>Sorting\<close>

text \<open>A marker as instruction selection and this pass make them.\<close>

definition wf_arg :: "minstr \<Rightarrow> bool" where
  "wf_arg mi =
     (case mi_operands mi of
        [MO_Register r d, MO_Immediate i] \<Rightarrow> 0 \<le> i \<and> i < 2 ^ 32
      | _ \<Rightarrow> False)"

lemma wf_arg_index: "wf_arg mi \<Longrightarrow> arg_index mi = Inr (index_nat mi)"
  by (auto simp: wf_arg_def index_nat_def arg_index_def getOperand_def
      split: list.splits operand.splits)

lemma wf_arg_reg: "wf_arg mi \<Longrightarrow> rbind (getOperand mi 0) getRegister = Inr (getReg (hd (mi_operands mi)))"
  by (auto simp: wf_arg_def getOperand_def split: list.splits operand.splits)

lemma map_result_map: "(\<And>x. x \<in> set xs \<Longrightarrow> f x = Inr (g x)) \<Longrightarrow> map_result f xs = Inr (map g xs)"
  by (induction xs) auto

lemma strip_args_filter:
  "distinct (map idx (filter isStackArg xs)) \<Longrightarrow> set seen \<inter> idx ` set (filter isStackArg xs) = {} \<Longrightarrow>
   strip_args seen idx xs = filter (\<lambda>mi. \<not> isStackArg mi) xs"
proof (induction xs arbitrary: seen)
  case (Cons x xs)
  then show ?case by (cases "isStackArg x") auto
qed simp

lemma distinct_perm_upt:
  "distinct xs \<Longrightarrow> set xs = {0..<length xs} \<Longrightarrow> mset xs = mset [0..<length xs]"
  by (metis atLeastLessThan_upt distinct_upt set_eq_iff_mset_eq_distinct)

text \<open>
  With the indexes \<open>0, ..., k - 1\<close> all present, the block becomes: the markers by decreasing
  index, a pop for each unused argument, and the rest of the block in its old order.
\<close>

lemma sortStackArgs_sorted:
  assumes wf: "list_all wf_arg (filter isStackArg entry)"
    and dist: "distinct (arg_indexes entry)"
    and all: "set (arg_indexes entry) = {0..<length (arg_indexes entry)}"
    and point: "\<not> list_all isStackArg entry"
  shows "\<exists>moved. sortStackArgs use_empty entry =
      Inr (moved @ map (\<lambda>r. MI (R POP) [useOf r])
             (filter use_empty (map (\<lambda>mi. getReg (hd (mi_operands mi))) (filter isStackArg entry))) @
           filter (\<lambda>mi. \<not> isStackArg mi) entry) \<and>
    map index_nat moved = rev [0..<length moved] \<and> mset moved = mset (filter isStackArg entry)"
proof -
  let ?args = "filter isStackArg entry" and ?k = "length (arg_indexes entry)"
  let ?lead = "takeWhile isStackArg entry" and ?tail = "dropWhile isStackArg entry"
  let ?get = "\<lambda>i. the (map_of (zip (arg_indexes entry) ?args) i)"
  let ?moved = "map ?get (rev [0..<?k])"
  have idx: "map_result arg_index ?args = Inr (arg_indexes entry)"
    unfolding arg_indexes_def using wf by (intro map_result_map wf_arg_index) (auto simp: list_all_iff)
  have regs: "map_result (\<lambda>mi. rbind (getOperand mi 0) getRegister) ?args =
      Inr (map (\<lambda>mi. getReg (hd (mi_operands mi))) ?args)"
    using wf by (intro map_result_map wf_arg_reg) (auto simp: list_all_iff)
  have len: "length (arg_indexes entry) = length ?args" by (simp add: arg_indexes_def)
  have dom: "\<exists>mi. map_of (zip (arg_indexes entry) ?args) i = Some mi \<and> mi \<in> set ?args \<and> index_nat mi = i"
    if "i < ?k" for i
  proof -
    have "i \<in> set (arg_indexes entry)" using that all by auto
    then obtain mi where mi: "map_of (zip (arg_indexes entry) ?args) i = Some mi"
      using len by (metis domIff dom_map_of_zip not_None_eq)
    then have "(i, mi) \<in> set (zip (map index_nat ?args) ?args)"
      by (auto simp: arg_indexes_def dest: map_of_SomeD)
    then have "mi \<in> set ?args \<and> index_nat mi = i"
      by (auto simp: set_zip simp del: set_filter intro: nth_mem)
    with mi show ?thesis by blast
  qed
  have moved: "map_result (\<lambda>i. case map_of (zip (arg_indexes entry) ?args) i of
        None \<Rightarrow> Inl (AssertFailed ''index2mi.find(index) != index2mi.end()'')
      | Some mi \<Rightarrow> Inr mi) (rev [0..<length (remdups (arg_indexes entry))]) = Inr ?moved"
    unfolding distinct_remdups_id [OF dist]
  proof (rule map_result_map)
    fix i assume "i \<in> set (rev [0..<?k])"
    then have "i < ?k" by simp
    from dom [OF this] show "(case map_of (zip (arg_indexes entry) ?args) i of
        None \<Rightarrow> Inl (AssertFailed ''index2mi.find(index) != index2mi.end()'')
      | Some mi \<Rightarrow> Inr mi) = Inr (?get i)" by auto
  qed
  have ix: "map index_nat ?moved = rev [0..<length ?moved]"
  proof -
    have "index_nat (?get i) = i" if "i < ?k" for i using dom [OF that] by auto
    then have "map index_nat ?moved = map (\<lambda>i. i) (rev [0..<?k])"
      unfolding map_map by (intro map_cong) auto
    then show ?thesis by simp
  qed
  have perm: "mset ?moved = mset ?args"
  proof -
    have "map ?get (arg_indexes entry) = ?args"
    proof (rule nth_equalityI)
      fix i assume "i < length (map ?get (arg_indexes entry))"
      then show "map ?get (arg_indexes entry) ! i = ?args ! i"
        using dist len by (simp add: map_of_zip_nth)
    qed (simp add: len)
    then show ?thesis
      using distinct_perm_upt [OF dist all] by (metis mset_map mset_rev)
  qed
  have d: "distinct (map index_nat (filter isStackArg ?lead) @ map index_nat (filter isStackArg ?tail))"
    using dist unfolding arg_indexes_def by (metis filter_append map_append takeWhile_dropWhile_id)
  have lead: "strip_args [] index_nat ?lead = []"
    using d by (subst strip_args_filter) (auto simp: filter_empty_conv dest: set_takeWhileD)
  have tail: "strip_args (map index_nat ?lead) index_nat ?tail = filter (\<lambda>mi. \<not> isStackArg mi) entry"
  proof -
    have "filter isStackArg ?lead = ?lead" by (simp add: filter_id_conv) (meson set_takeWhileD)
    then have "strip_args (map index_nat ?lead) index_nat ?tail = filter (\<lambda>mi. \<not> isStackArg mi) ?tail"
      using d by (intro strip_args_filter) auto
    also have "\<dots> = filter (\<lambda>mi. \<not> isStackArg mi) ?lead @ filter (\<lambda>mi. \<not> isStackArg mi) ?tail"
      by (simp add: filter_empty_conv) (meson set_takeWhileD)
    also have "\<dots> = filter (\<lambda>mi. \<not> isStackArg mi) entry"
      by (metis filter_append takeWhile_dropWhile_id)
    finally show ?thesis .
  qed
  have "?tail \<noteq> []" using point by (simp add: list_all_iff)
  then have "sortStackArgs use_empty entry =
      Inr (?moved @ map (\<lambda>r. MI (R POP) [useOf r])
             (filter use_empty (map (\<lambda>mi. getReg (hd (mi_operands mi))) ?args)) @
           filter (\<lambda>mi. \<not> isStackArg mi) entry)"
    by (simp add: sortStackArgs_def idx regs moved lead tail Let_def)
  with ix perm show ?thesis by blast
qed

end
