(* ===== verification/ExpandFramePointer.thy ===== *)
theory ExpandFramePointer
  imports ExpandPseudos EvmMachine
begin

text \<open>
  The pass \<open>EVMExpandFramePointer\<close> (\<open>EVMExpandFramePointer.cpp\<close>), which replaces the physical
  registers \<open>$fp\<close> and \<open>$sp\<close> by loads from and stores to the words of memory that hold them.
  The pass works on register-form code; the second half gives that code a meaning on a
  register file and a memory and shows that the replacement keeps it.
\<close>

section \<open>The pass\<close>

text \<open>The loop over the operands: code inserted so far, operands rewritten so far, counter.\<close>

fun fp_operands ::
    "EVMSubtarget \<Rightarrow> operand list \<Rightarrow> nat \<Rightarrow> minstr list \<times> operand list \<times> nat" where
  "fp_operands ST [] n = ([], [], n)"
| "fp_operands ST (MO # MOs) n =
     (if isReg MO \<and> getReg MO = FP
      then let (fpReg, n) = getNewRegister n; (rg, n) = getNewRegister n;
               (code, ops, n) = fp_operands ST MOs n
           in ([MI (R (PUSH 32)) [defOf rg, MO_Immediate (uint (getFramePointer ST))],
                MI (R MLOAD) [defOf fpReg, useOf rg]] @ code, setReg MO fpReg # ops, n)
      else let (code, ops, n) = fp_operands ST MOs n in (code, MO # ops, n))"

definition handleFramePointer ::
    "EVMSubtarget \<Rightarrow> minstr \<Rightarrow> nat \<Rightarrow> bool \<times> minstr list \<times> minstr \<times> nat" where
  "handleFramePointer ST mi n =
     (case fp_operands ST (mi_operands mi) n of (code, ops, n') \<Rightarrow>
        (code \<noteq> [], code, mi\<lparr>mi_operands := ops\<rparr>, n'))"

text \<open>The first operand that is \<open>$sp\<close> decides; the instruction is then erased.\<close>

definition handleStackPointer ::
    "EVMSubtarget \<Rightarrow> minstr \<Rightarrow> nat \<Rightarrow> (bool \<times> minstr list \<times> nat) result" where
  "handleStackPointer ST mi n =
     (case find (\<lambda>MO. isReg MO \<and> getReg MO = SP) (mi_operands mi) of
        None \<Rightarrow> Inr (False, [mi], n)
      | Some MO \<Rightarrow>
          let (fmpReg, n') = getNewRegister n;
              push = MI (R (PUSH 32)) [defOf fmpReg, MO_Immediate (uint (getStackPointer ST))]
          in if isDef MO
             then rbind (check_assert (mi_opcode mi = pMOVE_r) ''MI->getOpcode() == EVM::pMOVE_r'') (\<lambda>_.
                  rbind (getOperand mi 1) (\<lambda>src.
                    Inr (True, [push, MI (R MSTORE) [useOf fmpReg, src]], n')))
             else rbind (rbind (getOperand mi 0) getRegister) (\<lambda>rg.
                    Inr (True, [push, MI (R MLOAD) [defOf rg, useOf fmpReg]], n')))"

definition expand_fp_instr ::
    "EVMSubtarget \<Rightarrow> minstr \<Rightarrow> bool \<times> minstr list \<times> nat \<Rightarrow> (bool \<times> minstr list \<times> nat) result" where
  "expand_fp_instr ST mi s =
     (case s of (Changed, code, n) \<Rightarrow>
      case handleFramePointer ST mi n of (c1, code1, mi', n1) \<Rightarrow>
      rbind (handleStackPointer ST mi' n1) (\<lambda>(c2, code2, n2).
        Inr (Changed \<or> c1 \<or> c2, code @ code1 @ code2, n2)))"

definition expand_fp_block ::
    "EVMSubtarget \<Rightarrow> mbb \<Rightarrow> bool \<times> mfunction \<times> nat \<Rightarrow> (bool \<times> mfunction \<times> nat) result" where
  "expand_fp_block ST b s =
     (case s of (Changed, F, n) \<Rightarrow>
      rbind (foldM (expand_fp_instr ST) (mbb_instrs b) (Changed, [], n)) (\<lambda>(Changed, code, n).
        Inr (Changed, F @ [b\<lparr>mbb_instrs := code\<rparr>], n)))"

definition runOnMachineFunction_fp ::
    "EVMSubtarget \<Rightarrow> mfunction \<times> nat \<Rightarrow> (bool \<times> mfunction \<times> nat) result" where
  "runOnMachineFunction_fp ST fn = foldM (expand_fp_block ST) (fst fn) (False, [], snd fn)"

section \<open>Meaning of register-form code\<close>

text \<open>
  The value of an operand: \<open>$fp\<close> and \<open>$sp\<close> are read from memory. The instructions the
  expansions use, and the copy, are executed on a register file and a memory.
\<close>

type_synonym reg_state = "(reg \<Rightarrow> word256) \<times> memory"

definition reg_value :: "EVMSubtarget \<Rightarrow> reg_state \<Rightarrow> reg \<Rightarrow> word256" where
  "reg_value ST \<sigma> r =
     (case r of
        FP \<Rightarrow> mload (snd \<sigma>) (unat (getFramePointer ST))
      | SP \<Rightarrow> mload (snd \<sigma>) (unat (getStackPointer ST))
      | _ \<Rightarrow> fst \<sigma> r)"

definition set_reg :: "EVMSubtarget \<Rightarrow> reg \<Rightarrow> word256 \<Rightarrow> reg_state \<Rightarrow> reg_state" where
  "set_reg ST r v \<sigma> =
     (case r of
        FP \<Rightarrow> (fst \<sigma>, mstore (snd \<sigma>) (unat (getFramePointer ST)) v)
      | SP \<Rightarrow> (fst \<sigma>, mstore (snd \<sigma>) (unat (getStackPointer ST)) v)
      | _ \<Rightarrow> ((fst \<sigma>)(r := v), snd \<sigma>))"

definition exec_reg :: "EVMSubtarget \<Rightarrow> minstr \<Rightarrow> reg_state \<Rightarrow> reg_state option" where
  "exec_reg ST mi \<sigma> =
     (case (mi_opcode mi, mi_operands mi) of
        (R (PUSH n), [MO_Register d True, MO_Immediate i]) \<Rightarrow> Some (set_reg ST d (word_of_int i) \<sigma>)
      | (R MLOAD, [MO_Register d True, MO_Register a False]) \<Rightarrow>
          Some (set_reg ST d (mload (snd \<sigma>) (unat (reg_value ST \<sigma> a))) \<sigma>)
      | (R MSTORE, [MO_Register a False, MO_Register v False]) \<Rightarrow>
          Some (fst \<sigma>, mstore (snd \<sigma>) (unat (reg_value ST \<sigma> a)) (reg_value ST \<sigma> v))
      | (R ADD, [MO_Register d True, MO_Register a False, MO_Register b False]) \<Rightarrow>
          Some (set_reg ST d (reg_value ST \<sigma> a + reg_value ST \<sigma> b) \<sigma>)
      | (R SUB, [MO_Register d True, MO_Register a False, MO_Register b False]) \<Rightarrow>
          Some (set_reg ST d (reg_value ST \<sigma> a - reg_value ST \<sigma> b) \<sigma>)
      | (pMOVE_r, [MO_Register d True, MO_Register a False]) \<Rightarrow>
          Some (set_reg ST d (reg_value ST \<sigma> a) \<sigma>)
      | _ \<Rightarrow> None)"

fun run_reg :: "EVMSubtarget \<Rightarrow> minstr list \<Rightarrow> reg_state \<Rightarrow> reg_state option" where
  "run_reg ST [] \<sigma> = Some \<sigma>"
| "run_reg ST (mi # mis) \<sigma> =
     (case exec_reg ST mi \<sigma> of None \<Rightarrow> None | Some \<sigma>' \<Rightarrow> run_reg ST mis \<sigma>')"

lemma exec_reg_simps [simp]:
  "exec_reg ST (MI (R (PUSH n)) [defOf d, MO_Immediate i]) \<sigma> = Some (set_reg ST d (word_of_int i) \<sigma>)"
  "exec_reg ST (MI (R MLOAD) [defOf d, useOf a]) \<sigma> =
     Some (set_reg ST d (mload (snd \<sigma>) (unat (reg_value ST \<sigma> a))) \<sigma>)"
  "exec_reg ST (MI (R MSTORE) [useOf a, useOf v]) \<sigma> =
     Some (fst \<sigma>, mstore (snd \<sigma>) (unat (reg_value ST \<sigma> a)) (reg_value ST \<sigma> v))"
  "exec_reg ST (MI (R ADD) [defOf d, useOf a, useOf b]) \<sigma> =
     Some (set_reg ST d (reg_value ST \<sigma> a + reg_value ST \<sigma> b) \<sigma>)"
  "exec_reg ST (MI (R SUB) [defOf d, useOf a, useOf b]) \<sigma> =
     Some (set_reg ST d (reg_value ST \<sigma> a - reg_value ST \<sigma> b) \<sigma>)"
  "exec_reg ST (MI pMOVE_r [defOf d, useOf a]) \<sigma> = Some (set_reg ST d (reg_value ST \<sigma> a) \<sigma>)"
  by (simp_all add: exec_reg_def)

lemma reg_value_VReg [simp]: "reg_value ST \<sigma> (VReg n) = fst \<sigma> (VReg n)"
  by (simp add: reg_value_def)

lemma set_reg_VReg [simp]: "set_reg ST (VReg n) v \<sigma> = ((fst \<sigma>)(VReg n := v), snd \<sigma>)"
  by (simp add: set_reg_def)

text \<open>Registers numbered \<open>n\<close> and above do not occur in an operand list.\<close>

definition below :: "nat \<Rightarrow> operand list \<Rightarrow> bool" where
  "below n ops =
     list_all (\<lambda>MO. isReg MO \<longrightarrow> (case getReg MO of VReg k \<Rightarrow> k < n | _ \<Rightarrow> True)) ops"

definition operand_values :: "EVMSubtarget \<Rightarrow> reg_state \<Rightarrow> operand list \<Rightarrow> word256 list" where
  "operand_values ST \<sigma> ops = map (\<lambda>MO. reg_value ST \<sigma> (getReg MO)) (filter isReg ops)"

text \<open>
  The expansion of \<open>$fp\<close>: the inserted code runs, changes only new registers, and afterwards
  the rewritten operands have the values the original ones had; no operand is \<open>$fp\<close> any more.
\<close>

lemma fp_operands_correct:
  assumes "fp_operands ST ops n = (code, ops', n')" and "below n0 ops" and "n0 \<le> n"
  shows "n \<le> n' \<and> (\<forall>MO \<in> set ops'. isReg MO \<longrightarrow> getReg MO \<noteq> FP) \<and>
    (\<exists>\<rho>'. run_reg ST code (\<rho>, m) = Some (\<rho>', m) \<and>
       (\<forall>r. (\<forall>k. n \<le> k \<longrightarrow> r \<noteq> VReg k) \<longrightarrow> \<rho>' r = \<rho> r) \<and>
       (\<forall>k. k < n \<longrightarrow> \<rho>' (VReg k) = \<rho> (VReg k)) \<and>
       operand_values ST (\<rho>', m) ops' = operand_values ST (\<rho>, m) ops)"
  using assms
proof (induction ops arbitrary: n code ops' n' \<rho>)
  case Nil
  then show ?case by (auto simp: operand_values_def)
next
  case (Cons MO MOs)
  have b: "below n0 MOs" using Cons.prems(2) by (simp add: below_def)
  show ?case
  proof (cases "isReg MO \<and> getReg MO = FP")
    case True
    obtain code1 ops1 where r: "fp_operands ST MOs (Suc (Suc n)) = (code1, ops1, n')"
      and code: "code = [MI (R (PUSH 32)) [defOf (VReg (Suc n)), MO_Immediate (uint (getFramePointer ST))],
                MI (R MLOAD) [defOf (VReg n), useOf (VReg (Suc n))]] @ code1"
      and ops': "ops' = setReg MO (VReg n) # ops1"
      using Cons.prems(1) True by (auto simp: getNewRegister_def Let_def split: prod.splits)
    let ?fp = "mload m (unat (getFramePointer ST))"
    let ?\<rho> = "\<rho>(VReg (Suc n) := word_of_int (uint (getFramePointer ST)), VReg n := ?fp)"
    obtain \<rho>' where IH: "Suc (Suc n) \<le> n'" "\<forall>MO \<in> set ops1. isReg MO \<longrightarrow> getReg MO \<noteq> FP"
      "run_reg ST code1 (?\<rho>, m) = Some (\<rho>', m)"
      "\<forall>r. (\<forall>k. Suc (Suc n) \<le> k \<longrightarrow> r \<noteq> VReg k) \<longrightarrow> \<rho>' r = ?\<rho> r"
      "\<forall>k. k < Suc (Suc n) \<longrightarrow> \<rho>' (VReg k) = ?\<rho> (VReg k)"
      "operand_values ST (\<rho>', m) ops1 = operand_values ST (?\<rho>, m) MOs"
      using Cons.IH [OF r b le_SucI [OF le_SucI [OF Cons.prems(3)]], of ?\<rho>] by blast
    have "run_reg ST code (\<rho>, m) = Some (\<rho>', m)"
      using IH(3) by (simp add: code unat_push32)
    moreover have "operand_values ST (?\<rho>, m) MOs = operand_values ST (\<rho>, m) MOs"
      using b Cons.prems(3)
      by (auto simp: operand_values_def below_def list_all_iff reg_value_def
          split: reg.splits)
    moreover have "getReg (setReg MO (VReg n)) = VReg n" "isReg (setReg MO (VReg n))"
      using True by (cases MO; simp)+
    moreover have "\<rho>' (VReg n) = ?fp" using IH(5) by simp
    ultimately show ?thesis
      using IH True Cons.prems(3)
      by (auto simp: ops' operand_values_def reg_value_def intro!: exI [of _ \<rho>'])
  next
    case False
    then obtain ops1 where r: "fp_operands ST MOs n = (code, ops1, n')" and ops': "ops' = MO # ops1"
      using Cons.prems(1) by (auto simp: Let_def split: prod.splits)
    from Cons.IH [OF r b Cons.prems(3), of \<rho>] obtain \<rho>' where
      "n \<le> n'" "\<forall>MO \<in> set ops1. isReg MO \<longrightarrow> getReg MO \<noteq> FP"
      "run_reg ST code (\<rho>, m) = Some (\<rho>', m)"
      "\<forall>r. (\<forall>k. n \<le> k \<longrightarrow> r \<noteq> VReg k) \<longrightarrow> \<rho>' r = \<rho> r"
      "\<forall>k. k < n \<longrightarrow> \<rho>' (VReg k) = \<rho> (VReg k)"
      "operand_values ST (\<rho>', m) ops1 = operand_values ST (\<rho>, m) MOs" by auto
    moreover have "reg_value ST (\<rho>', m) (getReg MO) = reg_value ST (\<rho>, m) (getReg MO)" if "isReg MO"
      using calculation(4,5) Cons.prems(2,3) that
      by (auto simp: below_def reg_value_def split: reg.splits)
    ultimately show ?thesis using False
      by (auto simp: ops' operand_values_def intro!: exI [of _ \<rho>'])
  qed
qed

text \<open>The two forms of a copy that involves \<open>$sp\<close>.\<close>

lemma write_sp_correct:
  assumes "s < n"
  shows "\<exists>code. handleStackPointer ST (MI pMOVE_r [defOf SP, useOf (VReg s)]) n = Inr (True, code, Suc n) \<and>
    (\<exists>\<rho>'. run_reg ST code (\<rho>, m) = Some (\<rho>', snd (the (exec_reg ST (MI pMOVE_r [defOf SP, useOf (VReg s)]) (\<rho>, m)))) \<and>
      (\<forall>k < n. \<rho>' (VReg k) = \<rho> (VReg k)))"
  using assms
  by (simp add: handleStackPointer_def getNewRegister_def getOperand_def Let_def unat_push32 set_reg_def)

lemma read_sp_correct:
  assumes "d < n"
  shows "\<exists>code. handleStackPointer ST (MI pMOVE_r [defOf (VReg d), useOf SP]) n = Inr (True, code, Suc n) \<and>
    (\<exists>\<rho>'. run_reg ST code (\<rho>, m) = Some (\<rho>', m) \<and> \<rho>' (VReg d) = reg_value ST (\<rho>, m) SP \<and>
      (\<forall>k < n. k \<noteq> d \<longrightarrow> \<rho>' (VReg k) = \<rho> (VReg k)))"
  using assms
  by (simp add: handleStackPointer_def getNewRegister_def getOperand_def Let_def unat_push32 reg_value_def)

end
