(* ===== verification/VRegToMem.thy ===== *)
theory VRegToMem
  imports ExpandPseudos ConvertRegToStack StackAllocUses
begin

text \<open>
  The passes of the unoptimised pipeline around register placement: \<open>EVMVRegToMem\<close>
  (\<open>EVMVRegToMem.cpp\<close>), which gives every virtual register a local of the frame, and
  \<open>EVMPrepareForLiveIntervals\<close> (\<open>EVMPrepareForLiveIntervals.cpp\<close>).
\<close>

section \<open>EVMVRegToMem\<close>

record v2m =
  CurLocal :: nat
  Reg2Local :: "(reg \<times> nat) list"
  v_MFI :: EVMMachineFunctionInfo
  v_next :: nat

definition getLocalId :: "reg \<Rightarrow> v2m \<Rightarrow> nat \<times> v2m" where
  "getLocalId r st =
     (case map_of (Reg2Local st) r of
        Some k \<Rightarrow> (k, st)
      | None \<Rightarrow> (CurLocal st, st\<lparr>Reg2Local := (r, CurLocal st) # Reg2Local st,
                              CurLocal := Suc (CurLocal st)\<rparr>))"

text \<open>\<open>stackSlots\<close> is the number of objects of the frame.\<close>

fun init_args :: "minstr list \<Rightarrow> bool \<times> v2m \<Rightarrow> bool \<times> v2m" where
  "init_args [] s = s"
| "init_args (mi # mis) (Changed, st) =
     (if mi_opcode mi \<noteq> pSTACKARG_r then (Changed, st)
      else let r = getReg (hd (mi_operands mi)) in
        if isVRegStackified r (v_MFI st) then init_args mis (Changed, st)
        else init_args mis (True, snd (getLocalId r st)))"

definition initializeMemSlots :: "nat \<Rightarrow> mfunction \<Rightarrow> v2m \<Rightarrow> (bool \<times> v2m) result" where
  "initializeMemSlots stackSlots Fn st =
     (case Fn of
        [] \<Rightarrow> Inl (UndefinedBehaviour ''MF.begin()'')
      | Entry # _ \<Rightarrow> Inr (init_args (mbb_instrs Entry) (False, st\<lparr>CurLocal := stackSlots\<rparr>)))"

definition new_vreg :: "v2m \<Rightarrow> nat \<times> v2m" where
  "new_vreg st = (v_next st, st\<lparr>v_next := Suc (v_next st)\<rparr>)"

definition stackify :: "nat \<Rightarrow> v2m \<Rightarrow> v2m result" where
  "stackify v st =
     rbind (stackifyVReg (\<lambda>_. True) v (v_MFI st)) (\<lambda>MFI. Inr (st\<lparr>v_MFI := MFI\<rparr>))"

text \<open>
  The definition of an instruction: it goes to a new register, which is stored to the local
  of the old one, or dropped when the old one has no use.
\<close>

definition v2m_def ::
    "(reg \<Rightarrow> bool) \<Rightarrow> minstr \<Rightarrow> v2m \<Rightarrow> (minstr \<times> minstr list \<times> v2m) result" where
  "v2m_def UseEmpty mi st =
     (case explicit_defs mi of
        [] \<Rightarrow> Inr (mi, [], st)
      | [MO] \<Rightarrow>
          let OldReg = getReg MO in
          if isVRegStackified OldReg (v_MFI st) then Inl (Unreachable ''unimplemented'')
          else rbind (check_assert (\<not> isPhysicalRegister OldReg) ''!isPhysicalRegister(OldReg)'') (\<lambda>_.
            let (NewReg, st) = new_vreg st;
                mi' = mi\<lparr>mi_operands := defOf (VReg NewReg) # tl (mi_operands mi)\<rparr>
            in if UseEmpty OldReg
               then rbind (stackify NewReg st) (\<lambda>st.
                      Inr (mi', [MI (S POP) [useOf (VReg NewReg)]], st))
               else rbind (allocate_memory_index OldReg (v_MFI st)) (\<lambda>(LocalId, MFI).
                    rbind (stackify NewReg (st\<lparr>v_MFI := MFI\<rparr>)) (\<lambda>st.
                      Inr (mi', [MI pPUTLOCAL_r [useOf (VReg NewReg), MO_Immediate (int LocalId)]], st))))
      | _ \<Rightarrow> Inl (AssertFailed ''MI.getDesc().getNumDefs() <= 1''))"

text \<open>
  The uses, from the last operand to the first. \<open>acc\<close> is the code in front of the
  instruction; every new load is placed in front of the loads of the operands behind it.
\<close>

fun v2m_uses ::
    "operand list \<Rightarrow> operand list \<Rightarrow> minstr list \<Rightarrow> v2m \<Rightarrow>
     (operand list \<times> minstr list \<times> v2m) result" where
  "v2m_uses [] ops acc st = Inr (ops, acc, st)"
| "v2m_uses (MO # MOs) ops acc st =
     (if \<not> isReg MO then v2m_uses MOs (MO # ops) acc st
      else if isPhysicalRegister (getReg MO)
      then rbind (check_assert (getReg MO = FP) ''OldReg == EVM::FP'') (\<lambda>_.
             v2m_uses MOs (MO # ops) acc st)
      else rbind (get_memory_index (getReg MO) (v_MFI st)) (\<lambda>LocalId.
             let (NewReg, st) = new_vreg st in
             rbind (stackify NewReg st) (\<lambda>st.
               v2m_uses MOs (setReg MO (VReg NewReg) # ops)
                 (MI pGETLOCAL_r [defOf (VReg NewReg), MO_Immediate (int LocalId)] # acc) st)))"

definition rename :: "reg \<Rightarrow> reg \<Rightarrow> minstr \<Rightarrow> minstr" where
  "rename a b mi = mi\<lparr>mi_operands :=
     map (\<lambda>MO. if isReg MO \<and> getReg MO = a then setReg MO b else MO) (mi_operands mi)\<rparr>"

text \<open>
  One instruction: definition, uses, and the removal of copies. The source register of a copy
  is one made just before, so its renaming concerns the inserted loads only; \<open>$fp\<close> has been
  expanded by an earlier pass.
\<close>

definition v2m_instr ::
    "(reg \<Rightarrow> bool) \<Rightarrow> minstr \<Rightarrow> minstr list \<times> v2m \<Rightarrow> (minstr list \<times> v2m) result" where
  "v2m_instr UseEmpty mi cs =
     (case cs of (code, st) \<Rightarrow>
      rbind (v2m_def UseEmpty mi st) (\<lambda>(mi1, after, st).
      rbind (v2m_uses (rev (explicit_uses mi1)) [] [] st) (\<lambda>(ops, loads, st).
      let mi2 = mi1\<lparr>mi_operands := explicit_defs mi1 @ ops\<rparr> in
      if mi_opcode mi = pMOVE_r
      then (case mi_operands mi2 of
              [MO_Register d True, MO_Register s False] \<Rightarrow>
                if isPhysicalRegister s then Inl (UndefinedBehaviour ''replaceRegWith($fp)'')
                else Inr (code @ map (rename s d) loads @ after, st)
            | _ \<Rightarrow> Inl (AssertFailed ''getOperand() out of range!''))
      else Inr (code @ loads @ [mi2] @ after, st))))"

definition v2m_block ::
    "(reg \<Rightarrow> bool) \<Rightarrow> mbb \<Rightarrow> mfunction \<times> v2m \<Rightarrow> (mfunction \<times> v2m) result" where
  "v2m_block UseEmpty b fs =
     (case fs of (F, st) \<Rightarrow>
      rbind (foldM (v2m_instr UseEmpty) (mbb_instrs b) ([], st)) (\<lambda>(code, st).
        Inr (F @ [b\<lparr>mbb_instrs := code\<rparr>], st)))"

definition patch_frame :: "nat \<Rightarrow> minstr \<Rightarrow> minstr" where
  "patch_frame sz mi =
     (if mi_opcode mi = pADJFPUP_r \<or> mi_opcode mi = pADJFPDOWN_r
      then mi\<lparr>mi_operands := (mi_operands mi)[0 := MO_Immediate (int sz)]\<rparr> else mi)"

definition runOnMachineFunction_v2m ::
    "nat \<Rightarrow> mfunction \<Rightarrow> v2m \<Rightarrow> (mfunction \<times> v2m) result" where
  "runOnMachineFunction_v2m stackSlots Fn st =
     rbind (initializeMemSlots stackSlots Fn st) (\<lambda>(Changed, st).
     let UseEmpty = (\<lambda>r. \<forall>b \<in> set Fn. \<forall>mi \<in> set (mbb_instrs b). r \<notin> set (use_regs mi)) in
     rbind (foldM (v2m_block UseEmpty) Fn ([], st)) (\<lambda>(F, st).
       let sz = length (Reg2Local st) in
       Inr (if Reg2Local st = [] then F
            else map (\<lambda>b. b\<lparr>mbb_instrs := map (patch_frame sz) (mbb_instrs b)\<rparr>) F, st)))"

section \<open>EVMPrepareForLiveIntervals\<close>

definition hasArgumentDef :: "reg \<Rightarrow> mfunction \<Rightarrow> bool" where
  "hasArgumentDef r Fn =
     (\<exists>b \<in> set Fn. \<exists>mi \<in> set (mbb_instrs b). r \<in> set (def_regs mi) \<and> mi_opcode mi = pSTACKARG_r)"

definition needs_implicit_def :: "mfunction \<Rightarrow> nat \<Rightarrow> bool" where
  "needs_implicit_def Fn i =
     ((\<exists>b \<in> set Fn. \<exists>mi \<in> set (mbb_instrs b). VReg i \<in> set (use_regs mi)) \<and>
      \<not> hasArgumentDef (VReg i) Fn)"

text \<open>Every insertion and every move goes to the front of the entry block.\<close>

definition runOnMachineFunction_prepare :: "nat \<Rightarrow> mfunction \<Rightarrow> (bool \<times> mfunction) result" where
  "runOnMachineFunction_prepare numVirtRegs Fn =
     (case Fn of
        [] \<Rightarrow> Inl (UndefinedBehaviour ''MF.begin()'')
      | Entry # rest \<Rightarrow>
          let is = filter (needs_implicit_def Fn) [0..<numVirtRegs];
              entry = rev (map (\<lambda>i. MI IMPLICIT_DEF [defOf (VReg i)]) is) @ mbb_instrs Entry;
              args = rev (filter (\<lambda>mi. mi_opcode mi = pSTACKARG_r) entry);
              others = filter (\<lambda>mi. mi_opcode mi \<noteq> pSTACKARG_r) entry
          in Inr (is \<noteq> [], Entry\<lparr>mbb_instrs := args @ others\<rparr> # rest))"

section \<open>Operand order\<close>

text \<open>
  The loads come in operand order, so the last operand is the one on the top of the stack.
\<close>

lemma new_vreg_fields:
  "new_vreg st = (v, st') \<Longrightarrow> v_MFI st' = v_MFI st"
  by (auto simp: new_vreg_def)

lemma stackify_reg2index: "stackify v st = Inr st' \<Longrightarrow> reg2index (v_MFI st') = reg2index (v_MFI st)"
  by (auto simp: stackify_def stackifyVReg_def rbind_eq_Inr Let_def)

lemma get_memory_index_cong:
  "reg2index M = reg2index M' \<Longrightarrow> get_memory_index r M = get_memory_index r M'"
  by (simp add: get_memory_index_def)

lemma v2m_uses_run:
  assumes "v2m_uses MOs ops acc st = Inr (ops', acc', st')"
    and "list_all (\<lambda>MO. isReg MO \<longrightarrow> \<not> isPhysicalRegister (getReg MO)) MOs"
    and "\<And>r i. get_memory_index r (v_MFI st) = Inr i \<Longrightarrow> loc i = \<rho> r"
    and "\<And>s. run_manip acc (s, loc) = Some (vs @ s, loc)"
  shows "run_manip acc' (s, loc) =
    Some (vs @ map \<rho> (map getReg (filter isReg MOs)) @ s, loc)"
  using assms
proof (induction MOs arbitrary: ops acc st vs s)
  case Nil
  then show ?case by simp
next
  case (Cons MO MOs)
  show ?case
  proof (cases "isReg MO")
    case False
    with Cons show ?thesis by simp
  next
    case True
    obtain v st1 where s1: "new_vreg st = (v, st1)" by (cases "new_vreg st")
    with True Cons.prems(1,2) obtain i st2 where i: "get_memory_index (getReg MO) (v_MFI st) = Inr i"
      and s2: "stackify v st1 = Inr st2"
      and r: "v2m_uses MOs (setReg MO (VReg v) # ops)
        (MI pGETLOCAL_r [defOf (VReg v), MO_Immediate (int i)] # acc) st2 = Inr (ops', acc', st')"
      by (auto simp: rbind_eq_Inr)
    have m: "get_memory_index r (v_MFI st2) = get_memory_index r (v_MFI st)" for r
      using stackify_reg2index [OF s2] new_vreg_fields [OF s1] by (intro get_memory_index_cong) simp
    have "run_manip (MI pGETLOCAL_r [defOf (VReg v), MO_Immediate (int i)] # acc) (s, loc) =
        Some ((vs @ [\<rho> (getReg MO)]) @ s, loc)" for s
      using Cons.prems(4) [of "loc i # s"] Cons.prems(3) [OF i] by simp
    from Cons.IH [OF r _ _ this] Cons.prems(2,3) m True show ?thesis by simp
  qed
qed

lemma v2m_loads_reversed:
  assumes "v2m_uses (rev uses) [] [] st = Inr (ops, loads, st')"
    and "list_all (\<lambda>MO. isReg MO \<and> \<not> isPhysicalRegister (getReg MO)) uses"
    and "\<And>r i. get_memory_index r (v_MFI st) = Inr i \<Longrightarrow> loc i = \<rho> r"
  shows "run_manip loads (s, loc) = Some (rev (map (\<lambda>MO. \<rho> (getReg MO)) uses) @ s, loc)"
proof -
  have "list_all (\<lambda>MO. isReg MO \<longrightarrow> \<not> isPhysicalRegister (getReg MO)) (rev uses)"
    using assms(2) by (auto simp: list_all_iff)
  moreover have "filter isReg (rev uses) = rev uses"
    using assms(2) by (auto simp: list_all_iff filter_id_conv)
  ultimately show ?thesis
    using v2m_uses_run [OF assms(1), of loc \<rho> "[]" s] assms(3) by (simp add: rev_map o_def)
qed

text \<open>
  The drop of an unused result is emitted in stack form. \<open>EVMConvertRegToStack\<close> has no stack
  form for it and, its test for calls being always true, replaces it by a calling sequence.
\<close>

lemma stack_POP_becomes_call:
  assumes "getNumAllocatedIndexInFunction MFI = Inr n" and "\<not> HasSubroutine ST"
  shows "\<exists>pre post. convert_instr ST MFI (MI (S POP) [useOf (VReg r)]) = Inr (pre @ [MI (S JUMP) []] @ post)"
proof -
  have ra: "\<exists>c. return_address (Suc 0) = Inr c"
    by (simp add: return_address_def getSWAPOpcode_def)
  then obtain c where "return_address (Suc 0) = Inr c" by blast
  with assms show ?thesis
    by (intro exI [of _ "call_prologue ST (n + 1) @ c"] exI [of _ "call_epilogue ST"])
       (simp add: convert_instr_def convert_call_def explicit_uses_def strip_registers_def Let_def)
qed

end
