(* ===== verification/Pipeline.thy ===== *)
theory Pipeline
  imports BlockCompile ArgumentMove ExpandFramePointer VRegToMem
begin

text \<open>
  The passes the target adds behind register allocation, in their order
  (\<open>EVMPassConfig::addPreEmitPass\<close>, \<open>EVMTargetMachine.cpp\<close>), and what holds of the code they
  leave: every instruction is in stack form, and a run of value-computing instructions
  computes the same values.
\<close>

section \<open>The pipeline\<close>

text \<open>
  A function on its way through the passes: its blocks, the number of virtual registers,
  its information record, and the objects of the two register placement passes, which live
  longer than one function.
\<close>

record codegen =
  cg_MF :: mfunction
  cg_vregs :: nat
  cg_MFI :: EVMMachineFunctionInfo
  cg_alloc :: alloc
  cg_v2m :: v2m

definition pass_ArgumentMove :: "EVMSubtarget \<Rightarrow> function_decl \<Rightarrow> codegen \<Rightarrow> codegen result" where
  "pass_ArgumentMove ST F cg =
     rbind (runOnMachineFunction_args ST F (cg_MFI cg) (cg_MF cg) (cg_vregs cg)) (\<lambda>(Fn, n).
       Inr (cg\<lparr>cg_MF := Fn, cg_vregs := n\<rparr>))"

definition pass_ExpandFramePointer :: "EVMSubtarget \<Rightarrow> codegen \<Rightarrow> codegen result" where
  "pass_ExpandFramePointer ST cg =
     rbind (runOnMachineFunction_fp ST (cg_MF cg, cg_vregs cg)) (\<lambda>(Changed, Fn, n).
       Inr (cg\<lparr>cg_MF := Fn, cg_vregs := n\<rparr>))"

text \<open>
  \<open>LIS\<close> is the \<open>LiveIntervals\<close> analysis. The allocator keeps the frame size in the information
  record of the function.
\<close>

definition pass_StackAlloc :: "(mfunction \<Rightarrow> reg \<Rightarrow> (nat \<times> nat) list) \<Rightarrow> codegen \<Rightarrow> codegen result" where
  "pass_StackAlloc LIS cg =
     rbind (runOnMachineFunction_alloc \<lparr>MF = cg_MF cg, intervals = LIS (cg_MF cg)\<rparr>
              ((cg_alloc cg)\<lparr>memoryFrameSize := unat (mfi_memoryFrameSize (cg_MFI cg))\<rparr>)) (\<lambda>(Fn, st).
       Inr (cg\<lparr>cg_MF := Fn, cg_alloc := st,
               cg_MFI := (cg_MFI cg)\<lparr>mfi_memoryFrameSize := word_of_nat (memoryFrameSize st)\<rparr>\<rparr>))"

definition pass_VRegToMem :: "nat \<Rightarrow> codegen \<Rightarrow> codegen result" where
  "pass_VRegToMem numObjects cg =
     rbind (runOnMachineFunction_v2m numObjects (cg_MF cg)
              ((cg_v2m cg)\<lparr>v_MFI := cg_MFI cg, v_next := cg_vregs cg\<rparr>)) (\<lambda>(Fn, st).
       Inr (cg\<lparr>cg_MF := Fn, cg_v2m := st, cg_MFI := v_MFI st, cg_vregs := v_next st\<rparr>))"

definition pass_ExpandPseudos :: "EVMSubtarget \<Rightarrow> codegen \<Rightarrow> codegen result" where
  "pass_ExpandPseudos ST cg =
     rbind (runOnMachineFunction_pseudos ST (word_of_int (StackSize (cg_MFI cg))) (cg_MF cg, cg_vregs cg))
       (\<lambda>(Changed, Fn, n). Inr (cg\<lparr>cg_MF := Fn, cg_vregs := n\<rparr>))"

definition pass_ConvertRegToStack :: "EVMSubtarget \<Rightarrow> codegen \<Rightarrow> codegen result" where
  "pass_ConvertRegToStack ST cg =
     rbind (runOnMachineFunction_convert ST (cg_MFI cg) (cg_MF cg)) (\<lambda>Fn. Inr (cg\<lparr>cg_MF := Fn\<rparr>))"

definition pass_Shrinkpush :: "codegen \<Rightarrow> codegen result" where
  "pass_Shrinkpush cg =
     rbind (runOnMachineFunction_shrink (cg_MF cg)) (\<lambda>(Changed, Fn). Inr (cg\<lparr>cg_MF := Fn\<rparr>))"

definition pass_Finalization :: "EVMSubtarget \<Rightarrow> codegen \<Rightarrow> codegen result" where
  "pass_Finalization ST cg =
     rbind (runOnMachineFunction_final ST (cg_MF cg)) (\<lambda>(Changed, Fn). Inr (cg\<lparr>cg_MF := Fn\<rparr>))"

definition addPreEmitPass ::
    "bool \<Rightarrow> EVMSubtarget \<Rightarrow> (mfunction \<Rightarrow> reg \<Rightarrow> (nat \<times> nat) list) \<Rightarrow> nat \<Rightarrow> function_decl \<Rightarrow>
     codegen \<Rightarrow> codegen result" where
  "addPreEmitPass optimise ST LIS numObjects F cg =
     rbind (pass_ArgumentMove ST F cg) (\<lambda>cg.
     rbind (pass_ExpandFramePointer ST cg) (\<lambda>cg.
     rbind (if optimise then pass_StackAlloc LIS cg else pass_VRegToMem numObjects cg) (\<lambda>cg.
     rbind (pass_ExpandPseudos ST cg) (\<lambda>cg.
     rbind (pass_ConvertRegToStack ST cg) (\<lambda>cg.
     rbind (pass_Shrinkpush cg) (\<lambda>cg.
       pass_Finalization ST cg))))))"

section \<open>Stack form\<close>

text \<open>The opcodes of the emitted code.\<close>

definition emitted_opcode :: "opcode \<Rightarrow> bool" where
  "emitted_opcode opc =
     (case opc of
        S b \<Rightarrow> True
      | DUPn n \<Rightarrow> 1 \<le> n \<and> n \<le> 16
      | SWAPn n \<Rightarrow> 1 \<le> n \<and> n \<le> 16
      | JUMPSUB \<Rightarrow> True
      | BEGINSUB \<Rightarrow> True
      | _ \<Rightarrow> False)"

text \<open>Between conversion and finalization three markers may be present as well.\<close>

definition converted :: "minstr \<Rightarrow> bool" where
  "converted mi \<longleftrightarrow> (emitted_opcode (mi_opcode mi) \<and> list_all (\<lambda>mo. \<not> isReg mo) (mi_operands mi)) \<or>
     final_pseudo (mi_opcode mi)"

lemma converted_call: "list_all converted (call_prologue ST i)" "list_all converted (call_epilogue ST)"
  by (simp_all add: call_prologue_def call_epilogue_def converted_def emitted_opcode_def Let_def)

lemma getSWAPOpcode_form: "getSWAPOpcode n = Inr opc \<Longrightarrow> emitted_opcode opc"
  by (auto simp: getSWAPOpcode_def emitted_opcode_def split: if_splits)

lemma getDUPOpcode_form: "getDUPOpcode n = Inr opc \<Longrightarrow> emitted_opcode opc"
  by (auto simp: getDUPOpcode_def emitted_opcode_def split: if_splits)

lemma strip_form: "strip_registers opc mi = Inr mi' \<Longrightarrow> mi_opcode mi' = opc \<and> mi_operands mi' = []"
  by (auto simp: strip_registers_def rbind_eq_Inr)

lemma convert_call_form: "convert_call ST MFI mi = Inr c \<Longrightarrow> list_all converted c"
  by (auto simp: convert_call_def return_address_def rbind_eq_Inr Let_def converted_call converted_def
      emitted_opcode_def [of JUMPSUB] emitted_opcode_def [of "S _"]
      dest!: strip_form getSWAPOpcode_form split: if_splits)

lemma getStackOpcode_form: "getStackOpcode opc = Some opc' \<Longrightarrow> emitted_opcode opc' \<or> final_pseudo opc'"
  by (cases opc) (auto simp: emitted_opcode_def final_pseudo_def)

lemma convert_instr_form:
  assumes "convert_instr ST MFI mi = Inr c"
  shows "list_all converted c"
proof (cases "mi_opcode mi \<in> {R (PUSH 32), pSTACKARG_r, SWAP_r, DUP_r, pMOVE_r}")
  case True
  with assms show ?thesis
    by (auto simp: convert_instr_def convertSWAP_def convertDUP_def rbind_eq_Inr converted_def
        emitted_opcode_def [of "S _"] emitted_opcode_def [of "DUPn _"] final_pseudo_def Let_def
        dest!: getSWAPOpcode_form getDUPOpcode_form split: if_splits)
next
  case False
  with assms show ?thesis
    by (auto simp: convert_instr_def rbind_eq_Inr converted_def Let_def emitted_opcode_def [of JUMPSUB]
        emitted_opcode_def [of "S JUMP"]
        dest!: strip_form getStackOpcode_form convert_call_form split: option.splits if_splits)
qed

lemma convert_instrs_form: "convert_instrs ST MFI mis = Inr c \<Longrightarrow> list_all converted c"
  by (induction mis arbitrary: c) (auto simp: rbind_eq_Inr dest!: convert_instr_form)

lemma convert_form:
  "runOnMachineFunction_convert ST MFI Fn = Inr Fn' \<Longrightarrow> \<forall>b \<in> set Fn'. list_all converted (mbb_instrs b)"
  by (induction Fn arbitrary: Fn') (auto simp: rbind_eq_Inr dest!: convert_instrs_form)

lemma get_push_opcode_form: "get_push_opcode n = Inr opc \<Longrightarrow> emitted_opcode opc"
  by (auto simp: get_push_opcode_def emitted_opcode_def split: if_splits)

lemma shrink_instr_form:
  assumes "shrink_instr mi = Inr (b, c)" and "converted mi"
  shows "list_all converted c"
proof (cases "mi_opcode mi = S (PUSH 32)")
  case True
  with assms(2) have "list_all (\<lambda>mo. \<not> isReg mo) (mi_operands mi)"
    by (auto simp: converted_def final_pseudo_def)
  with assms True show ?thesis
    by (auto simp: shrink_instr_def rbind_eq_Inr converted_def emitted_opcode_def [of "S _"]
        replaceCIwithI_def dest!: get_push_opcode_form split: list.splits operand.splits option.splits if_splits)
qed (use assms in \<open>auto simp: shrink_instr_def\<close>)

lemma shrink_instrs_form: "shrink_instrs mis = Inr (b, c) \<Longrightarrow> list_all converted mis \<Longrightarrow> list_all converted c"
  by (induction mis arbitrary: b c) (auto simp: rbind_eq_Inr dest!: shrink_instr_form)

lemma shrink_form:
  "runOnMachineFunction_shrink Fn = Inr (ch, Fn') \<Longrightarrow> \<forall>b \<in> set Fn. list_all converted (mbb_instrs b) \<Longrightarrow>
   \<forall>b \<in> set Fn'. list_all converted (mbb_instrs b)"
  by (induction Fn arbitrary: ch Fn') (auto simp: rbind_eq_Inr dest!: shrink_instrs_form)

lemma expandADJFP_form: "expandADJFP ST mi = Inr c \<Longrightarrow> list_all converted c"
  by (auto simp: expandADJFP_def converted_def emitted_opcode_def Let_def
      split: list.splits operand.splits if_splits)

lemma finalize_instrs_form:
  "finalize_instrs ST mis = Inr c \<Longrightarrow> list_all converted mis \<Longrightarrow> list_all converted c"
  by (induction mis arbitrary: c)
     (auto simp: rbind_eq_Inr finalize_instr_def dest!: expandADJFP_form split: if_splits)

text \<open>Code of a finished function: no marker is left, every operand is a constant or a symbol.\<close>

definition stack_code :: "minstr list \<Rightarrow> bool" where
  "stack_code = list_all (\<lambda>mi. emitted_opcode (mi_opcode mi) \<and> list_all (\<lambda>mo. \<not> isReg mo) (mi_operands mi))"

lemma converted_stack_code:
  "list_all converted c \<Longrightarrow> \<forall>x \<in> set c. \<not> final_pseudo (mi_opcode x) \<Longrightarrow> stack_code c"
  by (auto simp: stack_code_def converted_def list_all_iff)

lemma finalize_block_form:
  assumes "finalize_block ST b = Inr b'" and "list_all converted (mbb_instrs b)"
  shows "stack_code (mbb_instrs b') \<and>
    (\<not> HasSubroutine ST \<longrightarrow> mbb_instrs b \<noteq> [] \<longrightarrow> hd (mbb_instrs b') = MI (S JUMPDEST) [])"
proof -
  obtain mk c where mk: "block_marker ST b = Inr mk" and c: "finalize_instrs ST (mbb_instrs b) = Inr c"
    and b': "mbb_instrs b' = mk @ c"
    using assms(1) by (auto simp: finalize_block_def rbind_eq_Inr)
  have "stack_code c"
    using converted_stack_code finalize_instrs_form [OF c assms(2)] finalize_instrs_clean [OF c] by blast
  moreover have "stack_code mk"
    using mk by (auto simp: block_marker_def stack_code_def emitted_opcode_def split: if_splits)
  ultimately have "stack_code (mbb_instrs b')" by (simp add: b' stack_code_def)
  with mk b' show ?thesis by (auto simp: block_marker_def shouldInsertJUMPDEST_def split: if_splits)
qed

lemma finalize_form:
  assumes "runOnMachineFunction_final ST Fn = Inr (ch, Fn')"
    and "\<forall>b \<in> set Fn. list_all converted (mbb_instrs b)"
  shows "\<forall>b \<in> set Fn'. stack_code (mbb_instrs b)"
proof
  fix b assume "b \<in> set Fn'"
  have f: "finalize_blocks ST Fn = Inr Fn'"
    using assms(1) by (auto simp: runOnMachineFunction_final_def rbind_eq_Inr)
  with \<open>b \<in> set Fn'\<close> obtain i where "i < length Fn" "b = Fn' ! i"
    using finalize_blocks_map [OF f] by (auto simp: in_set_conv_nth)
  with finalize_blocks_map [OF f] assms(2) finalize_block_form [of ST "Fn ! i" b]
  show "stack_code (mbb_instrs b)" by simp
qed

lemma addPreEmitPass_form:
  assumes "addPreEmitPass optimise ST LIS k F cg = Inr cg'"
  shows "\<forall>b \<in> set (cg_MF cg'). stack_code (mbb_instrs b)"
proof -
  from assms obtain cg1 :: codegen and Fn2 Fn3 ch3 ch4 where
    "runOnMachineFunction_convert ST (cg_MFI cg1) (cg_MF cg1) = Inr Fn2"
    "runOnMachineFunction_shrink Fn2 = Inr (ch3, Fn3)"
    "runOnMachineFunction_final ST Fn3 = Inr (ch4, cg_MF cg')"
    by (auto simp: addPreEmitPass_def rbind_eq_Inr pass_ConvertRegToStack_def pass_Shrinkpush_def
        pass_Finalization_def)
  with convert_form shrink_form finalize_form show ?thesis by metis
qed

section \<open>One block through the passes behind the placement of registers\<close>

definition late_passes :: "EVMSubtarget \<Rightarrow> codegen \<Rightarrow> codegen result" where
  "late_passes ST cg =
     rbind (pass_ExpandPseudos ST cg) (\<lambda>cg.
     rbind (pass_ConvertRegToStack ST cg) (\<lambda>cg.
     rbind (pass_Shrinkpush cg) (\<lambda>cg.
       pass_Finalization ST cg)))"

lemma expand_blocks_nth:
  assumes "foldM (expand_block ST fi) Fn (G, n) = Inr (Fn', n')"
  shows "\<exists>H. Fn' = G @ H \<and> length H = length Fn \<and> (\<forall>i < length Fn. \<exists>k k'.
    foldM (expand_instr ST fi) (mbb_instrs (Fn ! i)) ([], k) = Inr (mbb_instrs (H ! i), k'))"
  using assms
proof (induction Fn arbitrary: G n)
  case (Cons b bs)
  then obtain code n1 where 1: "foldM (expand_instr ST fi) (mbb_instrs b) ([], n) = Inr (code, n1)"
    and rest: "foldM (expand_block ST fi) bs (G @ [b\<lparr>mbb_instrs := code\<rparr>], n1) = Inr (Fn', n')"
    by (auto simp: rbind_eq_Inr expand_block_def [of ST fi b])
  from Cons.IH [OF rest] obtain H where H: "Fn' = (G @ [b\<lparr>mbb_instrs := code\<rparr>]) @ H" "length H = length bs"
    "\<forall>i < length bs. \<exists>k k'. foldM (expand_instr ST fi) (mbb_instrs (bs ! i)) ([], k) = Inr (mbb_instrs (H ! i), k')"
    by blast
  have "\<exists>k k'. foldM (expand_instr ST fi) (mbb_instrs ((b # bs) ! i)) ([], k) =
      Inr (mbb_instrs ((b\<lparr>mbb_instrs := code\<rparr> # H) ! i), k')" if "i < length (b # bs)" for i
    using that 1 H(3) by (cases i) auto
  with H(1,2) show ?case by (intro exI [of _ "b\<lparr>mbb_instrs := code\<rparr> # H"]) auto
qed simp

lemma convert_nth:
  "runOnMachineFunction_convert ST MFI Fn = Inr Fn' \<Longrightarrow> length Fn' = length Fn \<and>
   (\<forall>i < length Fn. convert_instrs ST MFI (mbb_instrs (Fn ! i)) = Inr (mbb_instrs (Fn' ! i)))"
  by (induction Fn arbitrary: Fn') (auto simp: rbind_eq_Inr nth_Cons split: nat.splits)

lemma shrink_nth:
  "runOnMachineFunction_shrink Fn = Inr (ch, Fn') \<Longrightarrow> length Fn' = length Fn \<and>
   (\<forall>i < length Fn. \<exists>b. shrink_instrs (mbb_instrs (Fn ! i)) = Inr (b, mbb_instrs (Fn' ! i)))"
  by (induction Fn arbitrary: ch Fn') (auto simp: rbind_eq_Inr nth_Cons split: nat.splits)

lemma late_passes_block:
  assumes "late_passes ST cg = Inr cg'" and i: "i < length (cg_MF cg)"
  shows "\<exists>n d mk. compile_block ST (cg_MFI cg) (word_of_int (StackSize (cg_MFI cg))) n
      (mbb_instrs (cg_MF cg ! i)) = Inr d \<and>
    mbb_instrs (cg_MF cg' ! i) = mk @ d \<and>
    (\<not> HasSubroutine ST \<longrightarrow> mk \<in> {[], [MI (S JUMPDEST) []]})"
proof -
  let ?fi = "word_of_int (StackSize (cg_MFI cg)) :: 32 word"
  from assms(1) obtain ch1 F1 n1 F2 ch3 F3 ch4 where
    1: "runOnMachineFunction_pseudos ST ?fi (cg_MF cg, cg_vregs cg) = Inr (ch1, F1, n1)"
    and 2: "runOnMachineFunction_convert ST (cg_MFI cg) F1 = Inr F2"
    and 3: "runOnMachineFunction_shrink F2 = Inr (ch3, F3)"
    and 4: "runOnMachineFunction_final ST F3 = Inr (ch4, cg_MF cg')"
    by (auto simp: late_passes_def rbind_eq_Inr pass_ExpandPseudos_def pass_ConvertRegToStack_def
        pass_Shrinkpush_def pass_Finalization_def)
  from 1 have "foldM (expand_block ST ?fi) (cg_MF cg) ([], cg_vregs cg) = Inr (F1, n1)"
    by (auto simp: runOnMachineFunction_pseudos_def rbind_eq_Inr)
  from expand_blocks_nth [OF this] i obtain k k' where l1: "length F1 = length (cg_MF cg)"
    and e: "foldM (expand_instr ST ?fi) (mbb_instrs (cg_MF cg ! i)) ([], k) = Inr (mbb_instrs (F1 ! i), k')"
    by auto
  from convert_nth [OF 2] i l1 have l2: "length F2 = length F1"
    and c: "convert_instrs ST (cg_MFI cg) (mbb_instrs (F1 ! i)) = Inr (mbb_instrs (F2 ! i))" by auto
  from shrink_nth [OF 3] i l1 l2 obtain b where l3: "length F3 = length F2"
    and s: "shrink_instrs (mbb_instrs (F2 ! i)) = Inr (b, mbb_instrs (F3 ! i))" by auto
  from 4 have "finalize_blocks ST F3 = Inr (cg_MF cg')"
    by (auto simp: runOnMachineFunction_final_def rbind_eq_Inr)
  from finalize_blocks_map [OF this] i l1 l2 l3
  have "finalize_block ST (F3 ! i) = Inr (cg_MF cg' ! i)" by simp
  then obtain mk d where mk: "block_marker ST (F3 ! i) = Inr mk"
    and f: "finalize_instrs ST (mbb_instrs (F3 ! i)) = Inr d"
    and "cg_MF cg' ! i = (F3 ! i)\<lparr>mbb_instrs := mk @ d\<rparr>"
    by (auto simp: finalize_block_def rbind_eq_Inr)
  then have "mbb_instrs (cg_MF cg' ! i) = mk @ d" by simp
  moreover from mk have "\<not> HasSubroutine ST \<longrightarrow> mk \<in> {[], [MI (S JUMPDEST) []]}"
    by (auto simp: block_marker_def shouldInsertBEGINSUB_def split: if_splits)
  moreover have "compile_block ST (cg_MFI cg) ?fi k (mbb_instrs (cg_MF cg ! i)) = Inr d"
    using e c s f by (simp add: lower_def compile_block_def)
  ultimately show ?thesis by blast
qed

text \<open>
  A block that holds allocated code of value-computing instructions, in a function that
  passes the rest of the pipeline.
\<close>

lemma late_passes_refine:
  assumes ok: "sites_ok A ws ([], st)" and comp: "\<forall>w \<in> set ws. compilable (at_mi w)"
    and run: "foldM (analyzeInstr A) ws ([], st) = Inr (code, st')"
    and fit: "\<forall>mi \<in> set code. is_manip mi \<longrightarrow> fits N mi"
    and loc: "locals_ok \<rho> loc st"
    and mem: "locals_in_memory ST (word_of_int (StackSize (cg_MFI cg))) N loc mem"
    and late: "late_passes ST cg = Inr cg'" and i: "i < length (cg_MF cg)"
    and block: "mbb_instrs (cg_MF cg ! i) = code" and "\<not> HasSubroutine ST"
  shows "\<exists>mem'. run_evm pc (mbb_instrs (cg_MF cg' ! i)) (map \<rho> (view (stack st)), mem) =
    Some (map (reg_run instr_value ws \<rho>) (view (stack st')), mem') \<and> frame ST mem' = frame ST mem"
proof -
  from late_passes_block [OF late i] block \<open>\<not> HasSubroutine ST\<close> obtain n d mk where
    d: "compile_block ST (cg_MFI cg) (word_of_int (StackSize (cg_MFI cg))) n code = Inr d"
    and f: "mbb_instrs (cg_MF cg' ! i) = mk @ d" "mk \<in> {[], [MI (S JUMPDEST) []]}" by auto
  from block_compiled [OF ok comp run fit loc mem, of "cg_MFI cg" n] d obtain mem' where
    r: "\<And>pc. run_evm pc d (map \<rho> (view (stack st)), mem) =
      Some (map (reg_run instr_value ws \<rho>) (view (stack st')), mem')"
    and "frame ST mem' = frame ST mem" by auto
  with f show ?thesis by (auto simp: run_evm_append)
qed

text \<open>A function of one block passes when the code of the block does.\<close>

lemma late_passes_single:
  assumes "cg_MF cg = [b]" and "\<not> HasSubroutine ST"
    and "compile_block ST (cg_MFI cg) (word_of_int (StackSize (cg_MFI cg))) (cg_vregs cg) (mbb_instrs b) = Inr d"
  shows "\<exists>cg'. late_passes ST cg = Inr cg'"
proof -
  from assms(3) obtain ex n' low ch c where
    "foldM (expand_instr ST (word_of_int (StackSize (cg_MFI cg)))) (mbb_instrs b) ([], cg_vregs cg) = Inr (ex, n')"
    "convert_instrs ST (cg_MFI cg) ex = Inr low" "shrink_instrs low = Inr (ch, c)" "finalize_instrs ST c = Inr d"
    by (auto simp: compile_block_def lower_def rbind_eq_Inr)
  with assms(1,2) show ?thesis
    by (auto simp: late_passes_def pass_ExpandPseudos_def runOnMachineFunction_pseudos_def expand_block_def
        pass_ConvertRegToStack_def pass_Shrinkpush_def pass_Finalization_def runOnMachineFunction_final_def
        finalize_block_def block_marker_def shouldInsertBEGINSUB_def)
qed

end
