(* ===== verification/InstrInfo.thy ===== *)
theory InstrInfo
  imports ExpandFramePointer
begin

text \<open>
  The target hooks the target-independent code generator calls: branch analysis
  (\<open>EVMInstrInfo.cpp\<close>), frame indexes and reserved registers (\<open>EVMRegisterInfo.cpp\<close>) and call
  frames (\<open>EVMFrameLowering.cpp\<close>).
\<close>

section \<open>Branches\<close>

text \<open>The opcodes declared with \<open>isTerminator = 1\<close> in \<open>EVMInstrInfo.td\<close>.\<close>

definition isTerminator :: "opcode \<Rightarrow> bool" where
  "isTerminator opc =
     (opc \<in> {R JUMP, S JUMP, R JUMPI, S JUMPI, R (Sys JUMPTO), S (Sys JUMPTO), JUMPSUB,
            pJUMPTO_r, pJUMPIF_r, pJUMPV, pRETURNSUB_r, pRETURNSUBVOID_r})"

text \<open>A block without its terminators, and the terminators: the longest such suffix.\<close>

definition terminators :: "minstr list \<Rightarrow> minstr list" where
  "terminators mis = rev (takeWhile (\<lambda>mi. isTerminator (mi_opcode mi)) (rev mis))"

definition body :: "minstr list \<Rightarrow> minstr list" where
  "body mis = rev (dropWhile (\<lambda>mi. isTerminator (mi_opcode mi)) (rev mis))"

definition copyPhysReg :: "reg \<Rightarrow> reg \<Rightarrow> minstr list" where
  "copyPhysReg DestReg SrcReg = [MI pMOVE_r [defOf DestReg, useOf SrcReg]]"

record branch_info =
  cannot_analyze :: bool
  TBB :: "nat option"
  FBB :: "nat option"
  Cond :: "operand list"

text \<open>
  The loop over the terminators. The last list are the terminators that are kept.
\<close>

fun analyze_loop ::
    "bool \<Rightarrow> bool \<Rightarrow> bool \<Rightarrow> branch_info \<Rightarrow> minstr list \<Rightarrow> (branch_info \<times> minstr list) result" where
  "analyze_loop AllowModify HaveCond lastJump bi [] = Inr (bi, [])"
| "analyze_loop AllowModify HaveCond lastJump bi (mi # mis) =
     (if AllowModify \<and> lastJump then analyze_loop AllowModify HaveCond lastJump bi mis
      else if mi_opcode mi = pJUMPTO_r
      then rbind (rbind (getOperand mi 0) getMBB) (\<lambda>TMBB.
           rbind (analyze_loop AllowModify HaveCond True
                    (if \<not> HaveCond then bi\<lparr>TBB := Some TMBB\<rparr> else bi\<lparr>FBB := Some TMBB\<rparr>) mis)
             (\<lambda>(bi, kept). Inr (bi, mi # kept)))
      else if mi_opcode mi = pJUMPIF_r
      then (if HaveCond then Inr (bi\<lparr>cannot_analyze := True\<rparr>, mi # mis)
            else rbind (getOperand mi 0) (\<lambda>c.
                 rbind (rbind (getOperand mi 1) getMBB) (\<lambda>jumpTarget.
                 rbind (analyze_loop AllowModify True lastJump
                          (bi\<lparr>Cond := Cond bi @ [MO_Immediate 1, c], TBB := Some jumpTarget\<rparr>) mis)
                   (\<lambda>(bi, kept). Inr (bi, mi # kept)))))
      else Inr (bi\<lparr>cannot_analyze := True\<rparr>, mi # mis))"

definition analyzeBranch :: "bool \<Rightarrow> minstr list \<Rightarrow> (branch_info \<times> minstr list) result" where
  "analyzeBranch AllowModify mis =
     rbind (analyze_loop AllowModify False False
              \<lparr>cannot_analyze = False, TBB = None, FBB = None, Cond = []\<rparr> (terminators mis))
       (\<lambda>(bi, kept). Inr (bi, body mis @ kept))"

definition insertBranch ::
    "nat option \<Rightarrow> nat option \<Rightarrow> operand list \<Rightarrow> minstr list \<Rightarrow> (nat \<times> minstr list) result" where
  "insertBranch T Fb Cnd mis =
     (case T of
        None \<Rightarrow> Inl (AssertFailed ''insertBranch must not be told to insert a fallthrough'')
      | Some t \<Rightarrow>
          if Cnd = []
          then rbind (check_assert (Fb = None) ''Unconditional branch with multiple successors!'') (\<lambda>_.
                 Inr (1, mis @ [MI pJUMPTO_r [MO_MachineBasicBlock t]]))
          else rbind (check_assert (length Cnd = 2) ''Expected a flag and a successor block'') (\<lambda>_.
               rbind (getImm (Cnd ! 0)) (\<lambda>flag.
               rbind (check_assert (flag \<noteq> 0) ''insertBranch does not accept false parameter'') (\<lambda>_.
                 let mis = mis @ [MI pJUMPIF_r [Cnd ! 1, MO_MachineBasicBlock t]] in
                 case Fb of
                   None \<Rightarrow> Inr (1, mis)
                 | Some f \<Rightarrow> Inr (2, mis @ [MI pJUMPTO_r [MO_MachineBasicBlock f]])))))"

definition is_branch :: "minstr \<Rightarrow> bool" where
  "is_branch mi = (mi_opcode mi = pJUMPTO_r \<or> mi_opcode mi = pJUMPIF_r)"

text \<open>After each removal the loop starts again at the first terminator.\<close>

function remove_loop :: "minstr list \<Rightarrow> minstr list \<times> nat" where
  "remove_loop ts =
     (case find is_branch ts of
        None \<Rightarrow> (ts, 0)
      | Some mi \<Rightarrow> (case remove_loop (remove1 mi ts) of (ts', n) \<Rightarrow> (ts', Suc n)))"
  by pat_completeness auto
termination
  by (relation "measure length")
     (auto simp: length_remove1 find_Some_iff intro!: diff_less length_pos_if_in_set)

declare remove_loop.simps [simp del]

definition removeBranch :: "minstr list \<Rightarrow> nat \<times> minstr list" where
  "removeBranch mis = (case remove_loop (terminators mis) of (ts, n) \<Rightarrow> (n, body mis @ ts))"

section \<open>Registers and frames\<close>

definition getReservedRegs :: "reg set" where
  "getReservedRegs = {SP, FP}"

definition getFrameRegister :: reg where
  "getFrameRegister = FP"

fun getIndex :: "operand \<Rightarrow> int result" where
  "getIndex (MO_FrameIndex i) = Inr i"
| "getIndex _ = Inl (AssertFailed ''Wrong MachineOperand accessor'')"

text \<open>\<open>getObjectOffset\<close> is \<open>MachineFrameInfo::getObjectOffset\<close> of the function.\<close>

definition eliminateFrameIndex ::
    "(int \<Rightarrow> int) \<Rightarrow> int \<Rightarrow> nat \<Rightarrow> minstr \<Rightarrow> nat \<Rightarrow> (minstr list \<times> nat) result" where
  "eliminateFrameIndex getObjectOffset SPAdj FIOperandNum mi n =
     rbind (check_assert (SPAdj = 0) ''Unexpected'') (\<lambda>_.
     rbind (rbind (getOperand mi FIOperandNum) getIndex) (\<lambda>FrameIndex.
       let Offset = getObjectOffset FrameIndex;
           change = (\<lambda>r. mi\<lparr>mi_operands := (mi_operands mi)[FIOperandNum := useOf r]\<rparr>)
       in if Offset \<noteq> 0
          then let (fiReg, n) = getNewRegister n;
                   opc = (if 0 < Offset then R ADD else R SUB);
                   (offsetReg, n) = getNewRegister n
               in Inr ([MI (R (PUSH 32)) [defOf offsetReg, MO_Immediate Offset],
                        MI opc [defOf fiReg, useOf getFrameRegister, useOf offsetReg],
                        change fiReg], n)
          else Inr ([change getFrameRegister], n)))"

definition hasReservedCallFrame :: "bool \<Rightarrow> bool" where
  "hasReservedCallFrame hasVarSizedObjects = (\<not> hasVarSizedObjects)"

definition eliminateCallFramePseudoInstr :: "minstr list \<Rightarrow> nat \<Rightarrow> minstr list" where
  "eliminateCallFramePseudoInstr mis i = take i mis @ drop (Suc i) mis"

section \<open>Branch hooks agree\<close>

lemma body_terminators: "body mis @ terminators mis = mis"
proof -
  have "rev (body mis @ terminators mis) = rev mis"
    unfolding body_def terminators_def rev_append rev_rev_ident by (rule takeWhile_dropWhile_id)
  then show ?thesis by (simp only: rev_is_rev_conv)
qed

lemma body_append:
  "(\<forall>mi \<in> set ts. isTerminator (mi_opcode mi)) \<Longrightarrow>
   terminators (mis @ ts) = terminators mis @ ts \<and> body (mis @ ts) = body mis"
  by (simp add: terminators_def body_def takeWhile_append dropWhile_append)

lemma isTerminator_branch [simp]: "isTerminator pJUMPTO_r" "isTerminator pJUMPIF_r"
  by (simp_all add: isTerminator_def)

lemma remove_loop_filter:
  "remove_loop ts = (filter (\<lambda>mi. \<not> is_branch mi) ts, length (filter is_branch ts))"
proof (induction ts rule: remove_loop.induct)
  case (1 ts)
  show ?case
  proof (cases "find is_branch ts")
    case None
    then have "filter is_branch ts = []" "filter (\<lambda>mi. \<not> is_branch mi) ts = ts"
      by (auto simp: find_None_iff filter_id_conv filter_empty_conv)
    with None show ?thesis by (subst remove_loop.simps) simp
  next
    case (Some mi)
    then have mi: "mi \<in> set ts" "is_branch mi" by (auto simp: find_Some_iff)
    then have "filter (\<lambda>mi. \<not> is_branch mi) (remove1 mi ts) = filter (\<lambda>mi. \<not> is_branch mi) ts"
      and "Suc (length (filter is_branch (remove1 mi ts))) = length (filter is_branch ts)"
      by (induction ts) auto
    with Some 1 [OF Some] show ?thesis by (subst remove_loop.simps) simp
  qed
qed

lemma analyze_inserted:
  assumes ins: "insertBranch (Some t) f c mis = Inr (k, mis')"
    and fresh: "terminators mis = []" and flag: "c = [] \<or> c ! 0 = MO_Immediate 1"
  shows "analyzeBranch am mis' =
      Inr (\<lparr>cannot_analyze = False, TBB = Some t, FBB = f, Cond = c\<rparr>, mis')"
proof -
  have b: "body mis = mis" using body_terminators [of mis] fresh by simp
  consider (uncond) "c = []" "f = None" "mis' = mis @ [MI pJUMPTO_r [MO_MachineBasicBlock t]]"
    | (cond) x where "c = [MO_Immediate 1, x]" "f = None"
        "mis' = mis @ [MI pJUMPIF_r [x, MO_MachineBasicBlock t]]"
    | (both) x g where "c = [MO_Immediate 1, x]" "f = Some g"
        "mis' = mis @ [MI pJUMPIF_r [x, MO_MachineBasicBlock t], MI pJUMPTO_r [MO_MachineBasicBlock g]]"
  proof (cases c rule: remdups_adj.cases)
    case (3 x y zs)
    with ins flag that show thesis
      by (cases f) (auto simp: insertBranch_def rbind_eq_Inr Let_def)
  qed (use ins that in \<open>auto simp: insertBranch_def rbind_eq_Inr split: if_splits\<close>)
  then show ?thesis
    by cases (use body_append [of "[_]" mis] body_append [of "[_, _]" mis] fresh b in
      \<open>auto simp: analyzeBranch_def getOperand_def\<close>)
qed

lemma remove_inserted:
  assumes ins: "insertBranch (Some t) f c mis = Inr (k, mis')" and fresh: "terminators mis = []"
  shows "removeBranch mis' = (k, mis)"
proof -
  have b: "body mis = mis" using body_terminators [of mis] fresh by simp
  obtain ts where ts: "mis' = mis @ ts" "length ts = k" "\<forall>mi \<in> set ts. is_branch mi"
    using ins by (auto simp: insertBranch_def rbind_eq_Inr Let_def is_branch_def
        split: if_splits option.splits)
  have "\<forall>mi \<in> set ts. isTerminator (mi_opcode mi)" using ts(3) by (auto simp: is_branch_def)
  then have "terminators mis' = ts" "body mis' = mis"
    using body_append [of ts mis] fresh b ts(1) by simp_all
  with ts show ?thesis by (simp add: removeBranch_def remove_loop_filter)
qed

section \<open>Frame indexes\<close>

text \<open>The address a frame index stands for: correct for offsets that are not negative.\<close>

lemma eliminateFrameIndex_value:
  assumes "eliminateFrameIndex off 0 i mi n = Inr (code, n')"
    and "i < length (mi_operands mi)" and "mi_operands mi ! i = MO_FrameIndex fi"
  shows "\<exists>pre r. code = pre @ [mi\<lparr>mi_operands := (mi_operands mi)[i := useOf r]\<rparr>] \<and>
    (\<exists>\<rho>'. run_reg ST pre (\<rho>, m) = Some (\<rho>', m) \<and>
       (\<forall>k < n. \<rho>' (VReg k) = \<rho> (VReg k)) \<and>
       reg_value ST (\<rho>', m) r =
         (if 0 \<le> off fi then reg_value ST (\<rho>, m) FP + word_of_int (off fi)
          else reg_value ST (\<rho>, m) FP - word_of_int (off fi)))"
proof (cases "off fi = 0")
  case True
  with assms show ?thesis
    by (intro exI [of _ "[]"] exI [of _ FP])
       (auto simp: eliminateFrameIndex_def getOperand_def getFrameRegister_def Let_def)
next
  case False
  let ?pre = "[MI (R (PUSH 32)) [defOf (VReg (Suc n)), MO_Immediate (off fi)],
    MI (if 0 < off fi then R ADD else R SUB) [defOf (VReg n), useOf FP, useOf (VReg (Suc n))]]"
  have "code = ?pre @ [mi\<lparr>mi_operands := (mi_operands mi)[i := useOf (VReg n)]\<rparr>]"
    using False assms
    by (auto simp: eliminateFrameIndex_def getOperand_def getFrameRegister_def getNewRegister_def Let_def)
  with False show ?thesis
    by (intro exI [of _ ?pre] exI [of _ "VReg n"]) (auto simp: reg_value_def)
qed

end
