(* ===== verification/CodegenProperties.thy ===== *)
theory CodegenProperties
  imports LoweringRefinement ShrinkPush Finalization ExpandFramePointer ArgumentMove VRegToMem InstrInfo
begin

text \<open>
  The properties of the passes behind the allocator: the expansion of pseudo instructions,
  the conversion to stack form with the calling sequence, the shrinking of constants, the
  final markers, and of the passes and hooks in front of it.
\<close>

section \<open>An example memory\<close>

definition ex_ST :: EVMSubtarget where
  "ex_ST = \<lparr>HasSubroutine = False, AllocatedGlobalSlots = 0\<rparr>"

definition ex_mem :: memory where
  "ex_mem = mstore (\<lambda>_. 0) 0 64"

lemma ex_addresses: "fp_addr ex_ST = 0" "sp_addr ex_ST = 32" "frame ex_ST ex_mem = 64"
  "mload ex_mem 0 = 64"
  by (simp_all add: fp_addr_def sp_addr_def frame_def getFramePointer_def getStackPointer_def
      ex_ST_def ex_mem_def mload_mstore_same)

lemma ex_frame_fits: "frame_fits ex_ST ex_mem (unat (1 :: 32 word))"
  by (simp add: frame_fits_def ex_addresses) (simp add: getFramePointer_def ex_ST_def)

lemma ex_local_fits: "local_fits ex_ST 0 ex_mem 0"
  by (simp add: local_fits_def local_addr_def ex_addresses)

section \<open>Stack manipulation and locals\<close>

text \<open>
  C5: stack manipulation code as the allocator inserts it, taken through the expansion of
  pseudo instructions and the conversion to stack form, succeeds and does on the EVM what it
  does on the machine with abstract locals: the same stack, and local \<open>k\<close> in the \<open>k\<close>-th word
  of the locals of the current frame, which does not move. This holds for code (\<open>manip_ok\<close>)
  whose \<open>DUP\<close> and \<open>SWAP\<close> have an index from 1 to 16, which accesses only the \<open>N\<close> locals of the
  frame, and stores only virtual registers; a deeper \<open>SWAP\<close> is cut to 16 by the conversion, and
  a deeper \<open>DUP\<close> fails an assertion.
\<close>

theorem manipulation_code_refined:
  assumes "list_all (manip_ok N) ms" and "locals_in_memory ST fi N loc mem"
    and "run_manip (map manip_mi ms) (s, loc) = Some (s', loc')"
  shows "\<exists>code mem'. lower ST MFI fi n (map manip_mi ms) = Inr code \<and>
    run_evm pc code (s, mem) = Some (s', mem') \<and>
    locals_in_memory ST fi N loc' mem' \<and> frame ST mem' = frame ST mem"
  using assms by (rule manips_lower)

theorem manipulation_code_refined_witness:
  "\<exists>code mem'. lower ex_ST new_MFI 0 9
      (map manip_mi [Get (VReg 3) 0, Swap 1, Put (VReg 4) 0]) = Inr code \<and>
    run_evm 0 code ([5], ex_mem) = Some ([mload ex_mem 64], mem') \<and>
    locals_in_memory ex_ST 0 1 ((\<lambda>_. mload ex_mem 64)(0 := 5)) mem' \<and>
    frame ex_ST mem' = frame ex_ST ex_mem"
proof (rule manipulation_code_refined)
  show "list_all (manip_ok 1) [Get (VReg 3) 0, Swap 1, Put (VReg 4) 0]" by simp
  show "locals_in_memory ex_ST 0 1 (\<lambda>_. mload ex_mem 64) ex_mem"
    using ex_local_fits by (simp add: locals_in_memory_def ex_addresses local_addr_def)
  show "run_manip (map manip_mi [Get (VReg 3) 0, Swap 1, Put (VReg 4) 0]) ([5], \<lambda>_. mload ex_mem 64) =
      Some ([mload ex_mem 64], (\<lambda>_. mload ex_mem 64)(0 := 5))"
    by (simp add: exec_manip_def swap0_def)
qed

section \<open>Calls\<close>

text \<open>
  C10: a call gives the caller its frame back. If the callee leaves the frame pointer and the
  word in which the caller saved its own one as it found them, then after the code behind the
  call the frame pointer of the caller is what it was, and no other word has changed.
\<close>

theorem caller_frame_restored:
  assumes "frame_fits ST m (unat index)"
    and "run_evm pc (call_prologue ST index) (s, m) = Some (s1, m1)"
    and "mload m2 (fp_addr ST) = mload m1 (fp_addr ST)"
    and "mload m2 (frame ST m1 - 32) = mload m1 (frame ST m1 - 32)"
  shows "s1 = s \<and> (\<exists>m3. run_evm pc' (call_epilogue ST) (s2, m2) = Some (s2, m3) \<and>
    mload m3 (fp_addr ST) = mload m (fp_addr ST) \<and>
    mem.agree_except [fp_addr ST] m2 m3)"
  using assms by (rule call_restores_frame)

theorem caller_frame_restored_witness:
  "\<exists>m1 m3. run_evm 0 (call_prologue ex_ST 1) ([7], ex_mem) = Some ([7], m1) \<and>
    run_evm 90 (call_epilogue ex_ST) ([8, 7], m1) = Some ([8, 7], m3) \<and>
    mload m3 (fp_addr ex_ST) = 64"
proof -
  obtain m1 where m1: "run_evm 0 (call_prologue ex_ST 1) ([7], ex_mem) = Some ([7], m1)"
    using run_call_prologue [OF ex_frame_fits, of 0 "[7]"] by blast
  from caller_frame_restored [OF ex_frame_fits m1 refl refl, of 90 "[8, 7]"] m1
  show ?thesis by (auto simp: ex_addresses)
qed

text \<open>
  C12: the code in front of a call saves the frame pointer behind the words in use, moves the
  frame pointer and the stack pointer to the word after it, keeps the operand stack and
  changes no other word.
\<close>

theorem callee_frame_set_up:
  assumes "frame_fits ST m (unat index)"
  shows "\<exists>m'. run_evm pc (call_prologue ST index) (s, m) = Some (s, m') \<and>
    mload m' (frame ST m + 32 * unat index) = mload m (fp_addr ST) \<and>
    frame ST m' = frame ST m + 32 * (unat index + 1) \<and>
    mload m' (sp_addr ST) = mload m' (fp_addr ST) \<and>
    mem.agree_except [frame ST m + 32 * unat index, fp_addr ST, sp_addr ST] m m'"
  using assms by (rule run_call_prologue)

theorem callee_frame_set_up_witness:
  "\<exists>m'. run_evm 0 (call_prologue ex_ST 1) ([7], ex_mem) = Some ([7], m') \<and>
    mload m' 96 = 64 \<and> frame ex_ST m' = 128 \<and> mload m' 32 = mload m' 0"
  using callee_frame_set_up [OF ex_frame_fits, of 0 "[7]"] by (auto simp: ex_addresses)

text \<open>
  C11: the return address a call computes from the program counter is the address of the
  byte behind the jump, where the conversion puts the jump destination; it is placed below
  the arguments, and the callee address is on the top.
\<close>

theorem return_address_placed:
  assumes "return_address (Suc (length args)) = Inr ra"
  shows "run_evm pc ra (args @ callee # s, m) =
    Some (callee # args @ word_of_nat (pc + code_size ra + 1) # s, m)"
  using assms by (rule run_return_address)

theorem return_address_placed_witness:
  "\<exists>ra. return_address (Suc (length [1 :: word256, 2])) = Inr ra \<and>
    run_evm 100 ra ([1, 2] @ 77 # [], ex_mem) = Some (77 # [1, 2] @ word_of_nat (100 + code_size ra + 1) # [], ex_mem)"
proof -
  have "is_ok (return_address (Suc (length [1 :: word256, 2])))" by code_simp
  then obtain ra where "return_address (Suc (length [1 :: word256, 2])) = Inr ra" by (auto simp: is_ok_iff)
  with return_address_placed [OF this, of 100 77 "[]" ex_mem] show ?thesis by blast
qed

section \<open>Constants\<close>

text \<open>
  C18: a non-negative constant keeps its value when its \<open>PUSH32\<close> is replaced, and the
  replacement is the shortest one that can hold it.
\<close>

theorem shrunk_push_keeps_value:
  assumes "0 \<le> imm" and "imm < 2 ^ 63"
  shows "\<exists>c n. shrink_instr (MI (S (PUSH 32)) [MO_Immediate imm]) = Inr (True, [c]) \<and>
    run_evm pc [c] (s, m) = Some (word_of_int imm # s, m) \<and>
    instr_size c = n + 1 \<and> imm < 256 ^ n \<and> (n = 1 \<or> 256 ^ (n - 1) \<le> imm)"
  using assms by (rule shrink_nonneg)

theorem shrunk_push_keeps_value_witness:
  "\<exists>c n. shrink_instr (MI (S (PUSH 32)) [MO_Immediate 300]) = Inr (True, [c]) \<and>
    run_evm 0 [c] ([], ex_mem) = Some (word_of_int 300 # [], ex_mem) \<and>
    instr_size c = n + 1 \<and> (300 :: int) < 256 ^ n \<and> (n = 1 \<or> 256 ^ (n - 1) \<le> (300 :: int))"
  by (rule shrunk_push_keeps_value) simp_all

text \<open>
  C19: a wide constant keeps its value as well, whether it is narrowed or left alone.
\<close>

theorem wide_constant_keeps_value:
  assumes "v < 2 ^ w" and "w \<le> 256"
  shows "\<exists>c b. shrink_instr (MI (S (PUSH 32)) [MO_CImmediate w v]) = Inr (b, [c]) \<and>
    run_evm pc [c] (s, m) = Some (word_of_nat v # s, m)"
  using assms by (rule shrink_constant)

theorem wide_constant_keeps_value_witness:
  "\<exists>c b. shrink_instr (MI (S (PUSH 32)) [MO_CImmediate 256 70000]) = Inr (b, [c]) \<and>
    run_evm 0 [c] ([], ex_mem) = Some (word_of_nat 70000 # [], ex_mem)"
  by (rule wide_constant_keeps_value) simp_all

text \<open>
  A negative constant below \<open>-1\<close> never keeps its value: the code that replaces it leaves
  a number whose sign bit is clear, because the byte count is handed to \<open>SIGNEXTEND\<close> where
  the EVM expects the byte count minus one.
\<close>

lemma negative_constant_changed:
  assumes "imm < - 1" and "- (2 ^ 63) \<le> imm"
  shows "\<exists>code v. shrink_instr (MI (S (PUSH 32)) [MO_Immediate imm]) = Inr (True, code) \<and>
    run_evm pc code (s, m) = Some (v # s, m) \<and> \<not> bit v 255 \<and> v \<noteq> word_of_int imm"
  using assms by (rule shrink_negative)

lemma negative_constant_changed_witness:
  "\<exists>code v. shrink_instr (MI (S (PUSH 32)) [MO_Immediate (- 2)]) = Inr (True, code) \<and>
    run_evm 0 code ([], ex_mem) = Some (v # [], ex_mem) \<and> \<not> bit v 255 \<and> v \<noteq> word_of_int (- 2)"
  by (rule negative_constant_changed) simp_all

section \<open>Arguments\<close>

text \<open>
  C20: the argument markers of the entry block are sorted by their index, the highest first,
  so that the last marker, the top of the stack, is the first argument; no marker is lost or
  duplicated, every marker whose register is unused is popped, and the rest of the block
  keeps its order.
\<close>

theorem stack_arguments_sorted:
  assumes "list_all wf_arg (filter isStackArg entry)"
    and "distinct (arg_indexes entry)"
    and "set (arg_indexes entry) = {0..<length (arg_indexes entry)}"
    and "\<not> list_all isStackArg entry"
  shows "\<exists>moved. sortStackArgs use_empty entry =
      Inr (moved @ map (\<lambda>r. MI (R POP) [useOf r])
             (filter use_empty (map (\<lambda>mi. getReg (hd (mi_operands mi))) (filter isStackArg entry))) @
           filter (\<lambda>mi. \<not> isStackArg mi) entry) \<and>
    map index_nat moved = rev [0..<length moved] \<and> mset moved = mset (filter isStackArg entry)"
  using assms by (rule sortStackArgs_sorted)

theorem stack_arguments_sorted_witness:
  "\<exists>moved. sortStackArgs (\<lambda>r. r = VReg 1)
        [STACKARG (VReg 0) 0, MI (R ADD) [defOf (VReg 3), useOf (VReg 0), useOf (VReg 0)],
         STACKARG (VReg 1) 1] =
      Inr (moved @ [MI (R POP) [useOf (VReg 1)],
                    MI (R ADD) [defOf (VReg 3), useOf (VReg 0), useOf (VReg 0)]]) \<and>
    map index_nat moved = rev [0..<length moved]"
proof -
  let ?e = "[STACKARG (VReg 0) 0, MI (R ADD) [defOf (VReg 3), useOf (VReg 0), useOf (VReg 0)],
    STACKARG (VReg 1) 1]"
  have "list_all wf_arg (filter isStackArg ?e)" by code_simp
  moreover have i: "arg_indexes ?e = [0, 1]" by code_simp
  moreover have "\<not> list_all isStackArg ?e" by code_simp
  moreover have "{0, Suc 0} = {0..<Suc (Suc 0)}" by auto
  ultimately show ?thesis
    using stack_arguments_sorted [of ?e "\<lambda>r. r = VReg 1"] by (auto simp: isStackArg_def)
qed

section \<open>Branches\<close>

text \<open>
  C22: the branch analysis finds the branches that were inserted at the end of a block
  without terminators: the same targets and the same condition.
\<close>

theorem inserted_branch_analyzed:
  assumes "insertBranch (Some t) f c mis = Inr (k, mis')"
    and "terminators mis = []" and "c = [] \<or> c ! 0 = MO_Immediate 1"
  shows "analyzeBranch am mis' =
      Inr (\<lparr>cannot_analyze = False, TBB = Some t, FBB = f, Cond = c\<rparr>, mis')"
  using assms by (rule analyze_inserted)

theorem inserted_branch_analyzed_witness:
  "\<exists>k mis'. insertBranch (Some 3) (Some 4) [MO_Immediate 1, useOf (VReg 0)] [] = Inr (k, mis') \<and>
    analyzeBranch True mis' =
      Inr (\<lparr>cannot_analyze = False, TBB = Some 3, FBB = Some 4,
            Cond = [MO_Immediate 1, useOf (VReg 0)]\<rparr>, mis')"
proof -
  have "is_ok (insertBranch (Some 3) (Some 4) [MO_Immediate 1, useOf (VReg 0)] [])" by code_simp
  then obtain k mis' where i: "insertBranch (Some 3) (Some 4) [MO_Immediate 1, useOf (VReg 0)] [] = Inr (k, mis')"
    by (auto simp: is_ok_iff)
  have "terminators [] = []" by code_simp
  with inserted_branch_analyzed [OF i, of True] i show ?thesis by simp
qed

text \<open>
  C23: removing the branches of a block undoes their insertion and reports their number.
\<close>

theorem inserted_branch_removed:
  assumes "insertBranch (Some t) f c mis = Inr (k, mis')" and "terminators mis = []"
  shows "removeBranch mis' = (k, mis)"
  using assms by (rule remove_inserted)

theorem inserted_branch_removed_witness:
  "\<exists>k mis'. insertBranch (Some 3) None [] [MI (R POP) [useOf (VReg 0)]] = Inr (k, mis') \<and>
    removeBranch mis' = (k, [MI (R POP) [useOf (VReg 0)]])"
proof -
  have "is_ok (insertBranch (Some 3) None [] [MI (R POP) [useOf (VReg 0)]])" by code_simp
  then obtain k mis' where i: "insertBranch (Some 3) None [] [MI (R POP) [useOf (VReg 0)]] = Inr (k, mis')"
    by (auto simp: is_ok_iff)
  have "terminators [MI (R POP) [useOf (VReg 0)]] = []" by code_simp
  with inserted_branch_removed [OF i] i show ?thesis by blast
qed

section \<open>Frame and stack pointer\<close>

text \<open>
  C24: the expansion of the frame pointer register: the code inserted in front of an
  instruction runs, changes no memory and no register that was in use, the rewritten operands
  have the values the original ones had, and no operand is the frame pointer any more.
\<close>

theorem frame_pointer_expanded:
  assumes "fp_operands ST ops n = (code, ops', n')" and "below n ops"
  shows "(\<forall>MO \<in> set ops'. isReg MO \<longrightarrow> getReg MO \<noteq> FP) \<and>
    (\<exists>\<rho>'. run_reg ST code (\<rho>, m) = Some (\<rho>', m) \<and>
       (\<forall>k. k < n \<longrightarrow> \<rho>' (VReg k) = \<rho> (VReg k)) \<and>
       operand_values ST (\<rho>', m) ops' = operand_values ST (\<rho>, m) ops)"
  using fp_operands_correct [OF assms order_refl, of \<rho> m] by blast

theorem frame_pointer_expanded_witness:
  "\<exists>code ops' n'. fp_operands ex_ST [defOf (VReg 1), useOf FP, useOf (VReg 0)] 2 = (code, ops', n') \<and>
    (\<forall>MO \<in> set ops'. isReg MO \<longrightarrow> getReg MO \<noteq> FP)"
proof -
  obtain code ops' n' where f:
    "fp_operands ex_ST [defOf (VReg 1), useOf FP, useOf (VReg 0)] 2 = (code, ops', n')"
    by (cases "fp_operands ex_ST [defOf (VReg 1), useOf FP, useOf (VReg 0)] 2")
  have "below 2 [defOf (VReg 1), useOf FP, useOf (VReg 0)]" by code_simp
  from frame_pointer_expanded [OF f this] f show ?thesis by blast
qed

text \<open>
  The address the elimination of a frame index puts into its place is the frame pointer
  plus the offset of the object when the offset is not negative; for a negative offset the
  code subtracts it, so the address lies as far above the frame pointer as it should lie
  below.
\<close>

lemma frame_index_address:
  assumes "eliminateFrameIndex off 0 i mi n = Inr (code, n')"
    and "i < length (mi_operands mi)" and "mi_operands mi ! i = MO_FrameIndex fi"
  shows "\<exists>pre r. code = pre @ [mi\<lparr>mi_operands := (mi_operands mi)[i := useOf r]\<rparr>] \<and>
    (\<exists>\<rho>'. run_reg ST pre (\<rho>, m) = Some (\<rho>', m) \<and>
       (\<forall>k < n. \<rho>' (VReg k) = \<rho> (VReg k)) \<and>
       reg_value ST (\<rho>', m) r =
         (if 0 \<le> off fi then reg_value ST (\<rho>, m) FP + word_of_int (off fi)
          else reg_value ST (\<rho>, m) FP - word_of_int (off fi)))"
  using assms by (rule eliminateFrameIndex_value)

lemma frame_index_address_witness:
  "\<exists>code n' pre r \<rho>'.
    eliminateFrameIndex (\<lambda>_. 64) 0 1 (MI (R MLOAD) [defOf (VReg 1), MO_FrameIndex 0]) 2 = Inr (code, n') \<and>
    code = pre @ [MI (R MLOAD) [defOf (VReg 1), useOf r]] \<and>
    run_reg ex_ST pre (\<lambda>_. 0, ex_mem) = Some (\<rho>', ex_mem) \<and> reg_value ex_ST (\<rho>', ex_mem) r = 128"
proof -
  let ?mi = "MI (R MLOAD) [defOf (VReg 1), MO_FrameIndex 0]"
  have "is_ok (eliminateFrameIndex (\<lambda>_. 64) 0 1 ?mi 2)" by code_simp
  then obtain code n' where e: "eliminateFrameIndex (\<lambda>_. 64) 0 1 ?mi 2 = Inr (code, n')"
    by (auto simp: is_ok_iff)
  have "reg_value ex_ST (\<lambda>_. 0, ex_mem) FP = 64"
    using ex_addresses by (simp add: reg_value_def fp_addr_def)
  with frame_index_address [OF e, of 0 ex_ST "\<lambda>_. 0" ex_mem] e show ?thesis by fastforce
qed

section \<open>Function information\<close>

text \<open>
  C25: memory indexes are numbered without gaps and without sharing: an allocation succeeds,
  keeps the numbering, returns the index under which the register is found afterwards,
  changes no other index, and no other register has it.
\<close>

theorem memory_indexes_unique:
  assumes "indexes_ok MFI"
  shows "\<exists>i MFI'. allocate_memory_index r MFI = Inr (i, MFI') \<and> indexes_ok MFI' \<and>
    get_memory_index r MFI' = Inr i \<and> i < length (reg2index MFI') \<and>
    (\<forall>q j. get_memory_index q MFI = Inr j \<longrightarrow> get_memory_index q MFI' = Inr j) \<and>
    (\<forall>q. get_memory_index q MFI' = Inr i \<longrightarrow> q = r)"
proof -
  obtain i MFI' where a: "allocate_memory_index r MFI = Inr (i, MFI')" "indexes_ok MFI'"
    "get_memory_index r MFI' = Inr i"
    "\<And>q j. get_memory_index q MFI = Inr j \<Longrightarrow> get_memory_index q MFI' = Inr j"
    by (rule allocate_memory_index_ok [OF assms, of r]) blast
  with memory_index_less [OF a(2,3)] memory_index_injective [OF a(2) _ a(3)] show ?thesis by blast
qed

theorem memory_indexes_unique_witness:
  "\<exists>i MFI'. allocate_memory_index (VReg 5) new_MFI = Inr (i, MFI') \<and> indexes_ok MFI' \<and>
    get_memory_index (VReg 5) MFI' = Inr i"
  using memory_indexes_unique [OF indexes_ok_new, of "VReg 5"] by blast

text \<open>
  The value packed into the comment flags of an instruction is read back unchanged,
  but its kind is lost: every kind reads back as the code 0, the kind \<open>PUTLOCAL\<close>.
\<close>

lemma comment_flags_read_back:
  "ParseCommentFlags (BuildCommentFlags c v) = Inr (comment_code PUTLOCAL, v)"
  using build_marked [of c v]
  by (simp only: ParseCommentFlags_def parse_build_kind parse_build_value
      check_assert_True rbind_Inr comment_code.simps simp_thms)

section \<open>Code without the allocator\<close>

text \<open>
  Without optimisation the operands of an instruction are loaded from memory in the
  order that leaves the last operand on top. The allocator, and the EVM, expect the first
  operand on top; the loads are correct for instructions with one operand or with equal
  operand values only.
\<close>

lemma operands_loaded_in_reverse:
  assumes "v2m_uses (rev uses) [] [] st = Inr (ops, loads, st')"
    and "list_all (\<lambda>MO. isReg MO \<and> \<not> isPhysicalRegister (getReg MO)) uses"
    and "\<And>r i. get_memory_index r (v_MFI st) = Inr i \<Longrightarrow> loc i = \<rho> r"
  shows "run_manip loads (s, loc) = Some (rev (map (\<lambda>MO. \<rho> (getReg MO)) uses) @ s, loc)"
  using assms by (rule v2m_loads_reversed)

definition ex_v2m :: v2m where
  "ex_v2m = \<lparr>CurLocal = 2, Reg2Local = [],
     v_MFI = new_MFI\<lparr>reg2index := [(VReg 0, 0), (VReg 1, 1)]\<rparr>, v_next = 2\<rparr>"

lemma operands_loaded_in_reverse_witness:
  "\<exists>ops loads st'. v2m_uses (rev [useOf (VReg 0), useOf (VReg 1)]) [] [] ex_v2m = Inr (ops, loads, st') \<and>
     run_manip loads ([], \<lambda>i. if i = 0 then 7 else 5) =
       Some ([5, 7 :: nat], \<lambda>i. if i = 0 then 7 else 5)"
proof -
  let ?uses = "[useOf (VReg 0), useOf (VReg 1)]"
  let ?\<rho> = "\<lambda>r. if r = VReg 0 then 7 else 5 :: nat"
  have "is_ok (v2m_uses (rev ?uses) [] [] ex_v2m)" by code_simp
  then obtain ops loads st' where v: "v2m_uses (rev ?uses) [] [] ex_v2m = Inr (ops, loads, st')"
    by (auto simp: is_ok_iff)
  have i: "(if i = 0 then 7 else 5) = ?\<rho> r" if "get_memory_index r (v_MFI ex_v2m) = Inr i" for r i
    using that by (auto simp: get_memory_index_def ex_v2m_def split: if_splits)
  have "run_manip loads ([], \<lambda>i. if i = 0 then 7 else 5) =
      Some (rev (map (\<lambda>MO. ?\<rho> (getReg MO)) ?uses) @ [], \<lambda>i. if i = 0 then 7 else 5)"
    by (rule operands_loaded_in_reverse [OF v _ i]) simp_all
  with v show ?thesis by auto
qed

text \<open>
  Without optimisation the instruction that discards an unused result has the stack
  form \<open>POP\<close> with a register operand; the conversion takes it for a call, and a jump appears
  where a value should be dropped.
\<close>

lemma discarded_result_becomes_call:
  assumes "getNumAllocatedIndexInFunction MFI = Inr n" and "\<not> HasSubroutine ST"
  shows "\<exists>pre post. convert_instr ST MFI (MI (S POP) [useOf (VReg r)]) = Inr (pre @ [MI (S JUMP) []] @ post)"
  using assms by (rule stack_POP_becomes_call)

lemma discarded_result_becomes_call_witness:
  "\<exists>pre post. convert_instr ex_ST new_MFI (MI (S POP) [useOf (VReg 0)]) = Inr (pre @ [MI (S JUMP) []] @ post)"
proof -
  have "is_ok (getNumAllocatedIndexInFunction new_MFI)" by code_simp
  then obtain n where "getNumAllocatedIndexInFunction new_MFI = Inr n" by (auto simp: is_ok_iff)
  from discarded_result_becomes_call [OF this, of ex_ST 0] show ?thesis by (simp add: ex_ST_def)
qed

end
