(* ===== verification/StackAllocRegion.thy ===== *)
theory StackAllocRegion
  imports StackAllocUses
begin

text \<open>
  The transfer (X) region of the stack. Its allocation is disabled in the source, and the
  invariant \<open>no_x\<close> shows what follows for a whole run of the pass: no register is ever
  assigned to the region, its size stays 0, and the assignment an edge set records carries
  no register on the stack. Basic blocks exchange values through memory slots only.
\<close>

definition no_x :: "alloc \<Rightarrow> bool" where
  "no_x st \<longleftrightarrow>
     (\<forall>r SA. regAssignments st r = Some SA \<longrightarrow> region SA \<noteq> X_STACK) \<and>
     sizeOfXRegion (stack st) = 0 \<and>
     (\<forall>k e. edgeset2assignment st k = Some e \<longrightarrow> fst e = [])"

named_theorems no_x_intros \<open>operations that keep the X region unused\<close>

lemma no_x_fields:
  "no_x st \<Longrightarrow> regAssignments st' = regAssignments st \<Longrightarrow>
   edgeset2assignment st' = edgeset2assignment st \<Longrightarrow>
   sizeOfXRegion (stack st') = sizeOfXRegion (stack st) \<Longrightarrow> no_x st'"
  by (simp add: no_x_def)

lemma no_x_updates [simp]:
  "no_x (st\<lparr>pre := x1\<rparr>) = no_x st" "no_x (st\<lparr>post := x1\<rparr>) = no_x st"
  "no_x (st\<lparr>cur_X := x2\<rparr>) = no_x st" "no_x (st\<lparr>cur_L := x2\<rparr>) = no_x st"
  "no_x (st\<lparr>cur_M := x2\<rparr>) = no_x st" "no_x (st\<lparr>memoryAssignment := x3\<rparr>) = no_x st"
  "no_x (st\<lparr>memoryFrameSize := x4\<rparr>) = no_x st" "no_x (st\<lparr>mri_uses := x5\<rparr>) = no_x st"
  "no_x (st\<lparr>mri_defs := x6\<rparr>) = no_x st" "no_x (st\<lparr>edgeSets := x7\<rparr>) = no_x st"
  by (simp_all add: no_x_def)

lemma no_x_stack:
  "no_x st \<Longrightarrow> sizeOfXRegion s = sizeOfXRegion (stack st) \<Longrightarrow> no_x (st\<lparr>stack := s\<rparr>)"
  by (simp add: no_x_def)

lemma no_x_record:
  "no_x st \<Longrightarrow> fst e = [] \<Longrightarrow> no_x (st\<lparr>edgeset2assignment := (edgeset2assignment st)(k \<mapsto> e)\<rparr>)"
  by (cases e) (auto simp: no_x_def split: if_splits)

lemma no_x_insert_assignment [no_x_intros]:
  "no_x st \<Longrightarrow> reg_ion \<noteq> X_STACK \<Longrightarrow> no_x (insert_assignment r reg_ion sl st)"
  by (auto simp: no_x_def insert_assignment_def)

lemma no_x_load [no_x_intros]: "no_x st \<Longrightarrow> no_x (insertLoadFromMemoryBefore r n st)"
  by (erule no_x_fields) (simp_all add: insertLoadFromMemoryBefore_def emit_def stack_push_def Let_def)

lemma no_x_emit [no_x_intros]: "no_x st \<Longrightarrow> no_x (emit mi st)"
  by (erule no_x_fields) (simp_all add: emit_def)

lemma no_x_emit_after [no_x_intros]: "no_x st \<Longrightarrow> no_x (emit_after mi st)"
  by (erule no_x_fields) (simp_all add: emit_after_def)

lemma no_x_with_stack:
  assumes "with_stack f st = Inr st'" and "no_x st"
    and "\<And>s s'. f s = Inr s' \<Longrightarrow> sizeOfXRegion s' = sizeOfXRegion s"
  shows "no_x st'"
  using assms(1,3) by (intro no_x_fields [OF assms(2)]) (auto simp: with_stack_def rbind_eq_Inr)

lemma drop_top_size: "drop_top s = Inr s' \<Longrightarrow> sizeOfXRegion s' = sizeOfXRegion s"
  by (auto simp: drop_top_def rbind_eq_Inr dest!: stack_pop_Inr)

lemma stack_swap_size: "stack_swap d s = Inr s' \<Longrightarrow> sizeOfXRegion s' = sizeOfXRegion s"
  by (auto dest!: stack_swap_Inr)

lemma stack_dup_size: "stack_dup d s = Inr s' \<Longrightarrow> sizeOfXRegion s' = sizeOfXRegion s"
  by (auto dest!: stack_dup_Inr)

lemmas with_stack_sizes = drop_top_size stack_swap_size stack_dup_size

lemma no_x_swap: "insertSwapBefore d st = Inr st' \<Longrightarrow> no_x st \<Longrightarrow> no_x st'"
  unfolding insertSwapBefore_def by (erule no_x_with_stack) (auto intro: no_x_intros with_stack_sizes)

lemma no_x_swap_after: "insertSwapAfter d st = Inr st' \<Longrightarrow> no_x st \<Longrightarrow> no_x st'"
  unfolding insertSwapAfter_def by (erule no_x_with_stack) (auto intro: no_x_intros with_stack_sizes)

lemma no_x_pop: "insertPopBefore st = Inr st' \<Longrightarrow> no_x st \<Longrightarrow> no_x st'"
  unfolding insertPopBefore_def by (erule no_x_with_stack) (auto intro: no_x_intros with_stack_sizes)

lemma no_x_pop_after: "insertPopAfter st = Inr st' \<Longrightarrow> no_x st \<Longrightarrow> no_x st'"
  unfolding insertPopAfter_def by (erule no_x_with_stack) (auto intro: no_x_intros with_stack_sizes)

lemma no_x_dup: "insertDupBefore d st = Inr st' \<Longrightarrow> no_x st \<Longrightarrow> no_x st'"
  unfolding insertDupBefore_def
  by (auto split: if_splits elim!: no_x_with_stack intro: no_x_intros with_stack_sizes)

lemma no_x_SwapRegToTop: "SwapRegToTop r st = Inr st' \<Longrightarrow> no_x st \<Longrightarrow> no_x st'"
  by (auto simp: SwapRegToTop_def rbind_eq_Inr split: if_splits dest: no_x_swap)

lemma no_x_DupRegToTop: "DupRegToTop r st = Inr st' \<Longrightarrow> no_x st \<Longrightarrow> no_x st'"
  by (auto simp: DupRegToTop_def rbind_eq_Inr dest: no_x_dup)

lemmas no_x_manip =
  no_x_swap no_x_swap_after no_x_pop no_x_pop_after no_x_dup no_x_SwapRegToTop no_x_DupRegToTop

lemma no_x_rbind:
  assumes "rbind r k = Inr st'" and "\<And>x. r = Inr x \<Longrightarrow> k x = Inr st' \<Longrightarrow> no_x st'"
  shows "no_x st'"
  using assms by (auto simp: rbind_eq_Inr)

lemma no_x_liveness: "handleOperandLiveness A w u MOP st = Inr st' \<Longrightarrow> no_x st \<Longrightarrow> no_x st'"
  by (auto simp: handleOperandLiveness_def rbind_eq_Inr getStackAssignment_Inr no_x_def
      split: if_splits)

lemma no_x_unary: "handleUnaryOpcode A w u st = Inr st' \<Longrightarrow> no_x st \<Longrightarrow> no_x st'"
  by (auto simp: handleUnaryOpcode_def rbind_eq_Inr split: if_splits
      dest!: no_x_liveness intro: no_x_intros dest: no_x_manip)

lemma no_x_binary_on_stack: "handleBinaryOnStack l1 l2 r1 r2 st = Inr st' \<Longrightarrow> no_x st \<Longrightarrow> no_x st'"
  by (auto simp: handleBinaryOnStack_def both_last_uses_def first_last_use_def rbind_eq_Inr
      split: if_splits dest: no_x_manip)

lemma no_x_binary_operands:
  "binary_operands l1 l2 r1 SA1 r2 SA2 st = Inr st' \<Longrightarrow> no_x st \<Longrightarrow> no_x st'"
  unfolding binary_operands_def
  by (auto simp: rbind_eq_Inr split: if_splits
      dest: no_x_SwapRegToTop no_x_DupRegToTop no_x_binary_on_stack intro!: no_x_load
      intro: no_x_SwapRegToTop [OF _ no_x_load] no_x_DupRegToTop [OF _ no_x_load])

lemma no_x_binary: "handleBinaryOpcode A w u v st = Inr st' \<Longrightarrow> no_x st \<Longrightarrow> no_x st'"
  unfolding handleBinaryOpcode_def rbind_eq_Inr
  by (elim exE conjE) (metis no_x_liveness no_x_binary_operands)

lemma no_x_foldM:
  assumes "foldM f xs st = Inr st'" and "no_x st"
    and "\<And>x s t. f x s = Inr t \<Longrightarrow> no_x s \<Longrightarrow> no_x t"
  shows "no_x st'"
  using assms(1,2) by (rule foldM_invariant) (rule assms(3))

lemma no_x_arbitrary: "handleArbitraryOpcode us st = Inr st' \<Longrightarrow> no_x st \<Longrightarrow> no_x st'"
  unfolding handleArbitraryOpcode_def
  by (erule (1) no_x_foldM)
     (auto simp: arbitrary_operand_def rbind_eq_Inr Let_def split: if_splits
       intro: no_x_intros dest: no_x_manip)

lemma no_x_pop_use: "pop_use u st = Inr st' \<Longrightarrow> no_x st \<Longrightarrow> no_x st'"
  by (auto simp: pop_use_Inr intro: no_x_stack dest!: stack_pop_Inr)

lemma no_x_handleUses: "handleUses A w st = Inr st' \<Longrightarrow> no_x st \<Longrightarrow> no_x st'"
proof -
  assume run: "handleUses A w st = Inr st'" and x: "no_x st"
  obtain uts st1 where 1: "(case uts of [] \<Rightarrow> Inr st | [u] \<Rightarrow> handleUnaryOpcode A w u st
      | [u, v] \<Rightarrow> handleBinaryOpcode A w u v st
      | _ \<Rightarrow> handleArbitraryOpcode uts st) = Inr st1" and 2: "foldM pop_use uts st1 = Inr st'"
    using run by (auto simp: handleUses_def rbind_eq_Inr)
  have "no_x st1" using 1 x
    by (auto split: list.splits dest: no_x_unary no_x_binary no_x_arbitrary)
  with 2 show "no_x st'" by (rule no_x_foldM) (rule no_x_pop_use)
qed

lemma no_x_slot: "allocateMemorySlot r st = Inr (sl, st') \<Longrightarrow> no_x st \<Longrightarrow> no_x st'"
  by (auto simp: allocateMemorySlot_def updateMemoryFrameSize_def split: if_splits prod.splits)

lemma no_x_store_def: "store_def r st = Inr (sl, st') \<Longrightarrow> no_x st \<Longrightarrow> no_x st'"
  unfolding store_def_def rbind_eq_Inr
  by (auto intro!: no_x_insert_assignment dest!: no_x_slot)

lemma no_x_handleDef: "handleDef A w st = Inr st' \<Longrightarrow> no_x st \<Longrightarrow> no_x st'"
proof -
  assume run: "handleDef A w st = Inr st'" and x: "no_x st"
  have store: "no_x (insertStoreToMemoryAfter w r sl st1)" if "store_def r st = Inr (sl, st1)" for r sl st1
    using no_x_store_def [OF that x]
    by (simp add: insertStoreToMemoryAfter_def emit_after_def)
  have push: "no_x ((insert_assignment r L_STACK 0 st)\<lparr>cur_L := L, stack := stack_push r (stack st)\<rparr>)"
    for r L using no_x_insert_assignment [OF x, of L_STACK r 0]
    by (auto simp: insert_assignment_def stack_push_def intro!: no_x_stack)
  have "stack (insert_assignment r L_STACK 0 st) = stack st" for r
    by (simp add: insert_assignment_def)
  with run x show "no_x st'"
    by (auto simp: handleDef_def rbind_eq_Inr Let_def split: if_splits intro: store push
        dest!: no_x_pop_after intro!: no_x_insert_assignment)
qed

lemma no_x_cleanup_use:
  "cleanup_use b u (cs, st) = Inr (cs', st') \<Longrightarrow> no_x st \<Longrightarrow> no_x st'"
  by (auto simp: cleanup_use_def rbind_eq_Inr split: if_splits dest: no_x_manip
      elim!: no_x_with_stack intro: with_stack_sizes)

lemma no_x_cleanup: "cleanUpDeadRegisters A w st = Inr st' \<Longrightarrow> no_x st \<Longrightarrow> no_x st'"
proof -
  assume run: "cleanUpDeadRegisters A w st = Inr st'" and x: "no_x st"
  have "no_x t" if "foldM (cleanup_use b) us (cs, st) = Inr (cs', t)" for b us cs cs' t
    using foldM_invariant [OF that, of "\<lambda>p. no_x (snd p)"] x no_x_cleanup_use by fastforce
  with run x show "no_x st'"
    by (auto simp: cleanUpDeadRegisters_def rbind_eq_Inr split: if_splits)
qed

lemma no_x_analyzeInstr: "analyzeInstr A w (c, st) = Inr (c', st') \<Longrightarrow> no_x st \<Longrightarrow> no_x st'"
  by (auto simp: analyzeInstr_def rbind_eq_Inr dest!: no_x_handleUses no_x_handleDef no_x_cleanup)

section \<open>Blocks and functions\<close>

lemma no_x_stack_arg: "stack_arg A w mi (acc, st) = Inr (acc', st') \<Longrightarrow> no_x st \<Longrightarrow> no_x st'"
proof -
  assume run: "stack_arg A w mi (acc, st) = Inr (acc', st')" and x: "no_x st"
  have store: "no_x t" if "store_def r st = Inr (sl, st1)" "SwapRegToTop r st1 = Inr st2"
    "stack_pop (stack (insertStoreToMemoryBefore w r sl st2)) = Inr (r, s)"
    "t = (insertStoreToMemoryBefore w r sl st2)\<lparr>stack := s\<rparr>" for r sl st1 st2 s t
    using no_x_SwapRegToTop [OF that(2) no_x_store_def [OF that(1) x]] stack_pop_Inr [OF that(3)]
    by (auto simp: that(4) insertStoreToMemoryBefore_def emit_def intro!: no_x_stack)
  have unused: "no_x t" if "with_stack drop_top (insert_assignment r NO_ALLOCATION 0 st) = Inr t" for r t
    using that no_x_insert_assignment [OF x, of NO_ALLOCATION r 0]
    by (rule no_x_with_stack) (simp_all add: drop_top_size)
  have local: "no_x (insert_assignment r L_STACK 0 st)" for r
    using x by (rule no_x_insert_assignment) simp
  show "no_x st'"
    using run by (auto simp: stack_arg_def rbind_eq_Inr Let_def split: if_splits
        intro: store unused local)
qed

lemma no_x_tryToAnalyzeStackArgs:
  "tryToAnalyzeStackArgs A b st = Inr (n, c, st') \<Longrightarrow> no_x st \<Longrightarrow> no_x st'"
proof -
  assume run: "tryToAnalyzeStackArgs A b st = Inr (n, c, st')" and x: "no_x st"
  have push: "no_x (fold (\<lambda>mi st. st\<lparr>stack := stack_push (g mi) (stack st)\<rparr>) mis t)" if "no_x t" for mis t g
    using that
  proof (induction mis arbitrary: t)
    case (Cons mi mis)
    have "no_x (t\<lparr>stack := stack_push (g mi) (stack t)\<rparr>)"
      using Cons.prems by (rule no_x_stack) (simp add: stack_push_def)
    from Cons.IH [OF this] show ?case by simp
  qed simp
  have args: "no_x t'" if "foldM (stack_arg A w) mis (acc, t) = Inr (acc', t')" "no_x t" for w mis acc t acc' t'
    using foldM_invariant [OF that(1), of "\<lambda>p. no_x (snd p)"] that(2) no_x_stack_arg by fastforce
  show "no_x st'"
    using run x
    by (auto simp: tryToAnalyzeStackArgs_def rbind_eq_Inr Let_def split: if_splits
        elim!: args intro!: push)
qed

lemma no_x_free_dead_slots: "free_dead_slots A b i st = Inr st' \<Longrightarrow> no_x st \<Longrightarrow> no_x st'"
proof (induction A b i st rule: free_dead_slots.induct)
  case (1 A b i st)
  note IH = 1(1-3) and run = 1(4) and x = 1(5)
  have d: "no_x t" if "deallocateMemorySlot r st = Inr t" for r t
    using that x by (auto simp: deallocateMemorySlot_def split: option.splits)
  have free: "no_x st'" if "i < length (memoryAssignment st)" "memoryAssignment st ! i \<noteq> NoRegister"
    "regIsDeadAtBeginningOfMBB A st (memoryAssignment st ! i) b"
    "deallocateMemorySlot (memoryAssignment st ! i) st = Inr t"
    "free_dead_slots A b (Suc i) (t\<lparr>cur_X := cur_X t - {memoryAssignment st ! i}\<rparr>) = Inr st'" for t
    using IH(2) [OF that(1) refl that(2,3,4,5)] d [OF that(4)] by simp
  show ?case
  proof (cases "i < length (memoryAssignment st)")
    case True
    with run show ?thesis
      by (subst (asm) free_dead_slots.simps)
         (auto simp: Let_def rbind_eq_Inr split: if_splits
           intro: free IH(1) [OF True refl _ _ x] IH(3) [OF True refl _ _ _ x])
  next
    case False
    with run x show ?thesis by (subst (asm) free_dead_slots.simps) auto
  qed
qed

lemma no_x_begin: "beginOfBlockUpdates A b st = Inr st' \<Longrightarrow> no_x st \<Longrightarrow> no_x st'"
proof -
  assume run: "beginOfBlockUpdates A b st = Inr st'" and x: "no_x st"
  let ?e = "\<lambda>k. case edgeset2assignment st k of None \<Rightarrow> ([], []) | Some e \<Rightarrow> e"
  have e: "fst (?e k) = []" for k using x by (auto simp: no_x_def split: option.splits)
  have y: "no_x (st\<lparr>edgeset2assignment := (edgeset2assignment st)(k \<mapsto> ?e k)\<rparr>)" for k
    using x e by (rule no_x_record)
  show "no_x st'"
  proof (cases "mbb_preds (MF A ! b)")
    case Nil
    with run x show ?thesis by (simp add: beginOfBlockUpdates_def)
  next
    case (Cons p ps)
    with run obtain k where "free_dead_slots A b 0
        (st\<lparr>edgeset2assignment := (edgeset2assignment st)(k \<mapsto> ?e k), memoryAssignment := snd (?e k)\<rparr>)
        = Inr st'"
      by (auto simp: beginOfBlockUpdates_def rbind_eq_Inr Let_def e)
    then show ?thesis by (rule no_x_free_dead_slots) (simp add: y)
  qed
qed

text \<open>
  The check at the end of a block compares the 32-bit depth with the size of the region.
\<close>

lemma no_x_end:
  assumes "endOfBlockUpdates A b st = Inr st'" and "no_x st" and "getStackDepth (stack st) < 2 ^ 32"
  shows "no_x st' \<and> stackElements (stack st) = [] \<and> stack st' = stack st"
proof -
  have "word_of_nat (getStackDepth (stack st)) = (0 :: 32 word)"
    using assms(1,2) by (auto simp: endOfBlockUpdates_def rbind_eq_Inr getSizeOfXRegion_def no_x_def)
  then have "stackElements (stack st) = []"
    using assms(3) by (simp add: word_of_nat_eq_0_iff getStackDepth_def) (metis dvd_imp_le length_greater_0_conv linorder_not_less)
  with assms(1,2) show ?thesis
    by (auto simp: endOfBlockUpdates_def rbind_eq_Inr mergeEdgesetAssigments_def no_x_record
        split: list.splits)
qed

lemma no_x_block:
  assumes run: "analyzeBasicBlock A b (codes, st) = Inr (codes', st')"
    and x: "no_x st" and depth: "getStackDepth (stack st') < 2 ^ 32"
    and ne: "mbb_instrs (MF A ! b) \<noteq> []"
  shows "no_x st' \<and> stackElements (stack st') = []"
proof -
  let ?st = "st\<lparr>stack := stack_clear (stack st), pre := []\<rparr>"
  obtain n args st1 st2 code st3 where
    1: "tryToAnalyzeStackArgs A b ?st = Inr (n, args, st1)"
    and 2: "beginOfBlockUpdates A b (st1\<lparr>pre := []\<rparr>) = Inr st2"
    and 3: "foldM (analyzeInstr A) (drop n (sites (MF A) b)) (pre st2 @ args, st2) = Inr (code, st3)"
    and 4: "endOfBlockUpdates A b st3 = Inr st'"
    using run ne by (auto simp: analyzeBasicBlock_def rbind_eq_Inr)
  have "no_x ?st" using x by (simp add: no_x_def stack_clear_def)
  from no_x_begin [OF 2] no_x_tryToAnalyzeStackArgs [OF 1 this] have "no_x st2" by simp
  with foldM_invariant [OF 3, of "\<lambda>p. no_x (snd p)"] no_x_analyzeInstr have x3: "no_x st3"
    by fastforce
  have s: "stack st' = stack st3"
    using 4 by (auto simp: endOfBlockUpdates_def rbind_eq_Inr mergeEdgesetAssigments_def
        split: list.splits)
  with no_x_end [OF 4 x3] depth show ?thesis by simp
qed

end
