(* ===== verification/StackAllocFrame.thy ===== *)
theory StackAllocFrame
  imports StackAllocSlots
begin

text \<open>
  The frame has room for every local the code uses. The invariant \<open>framed c st\<close> of the
  allocator: the code \<open>c\<close> made so far and the pending insertions access only slots below the
  size of the frame, and so do the assignments of registers and the slots recorded for edge
  sets.
\<close>

definition accesses_local :: "minstr \<Rightarrow> bool" where
  "accesses_local mi \<longleftrightarrow> mi_opcode mi = pGETLOCAL_r \<or> mi_opcode mi = pPUTLOCAL_r"

definition slot_below :: "nat \<Rightarrow> minstr \<Rightarrow> bool" where
  "slot_below n mi \<longleftrightarrow> \<not> accesses_local mi \<or>
     (case mi_operands mi of [_, MO_Immediate i] \<Rightarrow> 0 \<le> i \<and> i < int n | _ \<Rightarrow> False)"

definition framed :: "minstr list \<Rightarrow> alloc \<Rightarrow> bool" where
  "framed c st \<longleftrightarrow>
     (\<forall>mi \<in> set c \<union> set (pre st) \<union> set (post st). slot_below (memoryFrameSize st) mi) \<and>
     length (memoryAssignment st) \<le> memoryFrameSize st \<and>
     (\<forall>r SA. regAssignments st r = Some SA \<longrightarrow> region SA = NONSTACK \<longrightarrow> slot SA < memoryFrameSize st) \<and>
     (\<forall>k e. edgeset2assignment st k = Some e \<longrightarrow> length (snd e) \<le> memoryFrameSize st)"

named_theorems framed_intros \<open>operations that keep the frame large enough\<close>

lemma slot_below_mono: "slot_below n mi \<Longrightarrow> n \<le> n' \<Longrightarrow> slot_below n' mi"
  by (auto simp: slot_below_def split: list.splits operand.splits)

lemma slot_below_operands:
  assumes "slot_below n mi" and "accesses_local mi"
  shows "\<exists>r k. mi_operands mi = [r, MO_Immediate (int k)] \<and> k < n"
proof -
  from assms obtain r i where "mi_operands mi = [r, MO_Immediate i]" "0 \<le> i" "i < int n"
    unfolding slot_below_def by (auto split: list.split_asm operand.split_asm simp: neq_Nil_conv) (metis neq_Nil_conv)?
  then show ?thesis by (intro exI [of _ r] exI [of _ "nat i"]) simp
qed

lemma slot_below_manip [simp]:
  "slot_below n (SWAP_MI k)" "slot_below n (DUP_MI k)" "slot_below n POP_MI"
  "slot_below n (GETLOCAL_MI r k) \<longleftrightarrow> k < n" "slot_below n (PUTLOCAL_MI r k) \<longleftrightarrow> k < n"
  by (simp_all add: slot_below_def accesses_local_def)

lemma framed_updates [simp]:
  "framed c (st\<lparr>stack := x1\<rparr>) = framed c st" "framed c (st\<lparr>cur_X := x2\<rparr>) = framed c st"
  "framed c (st\<lparr>cur_L := x2\<rparr>) = framed c st" "framed c (st\<lparr>cur_M := x2\<rparr>) = framed c st"
  "framed c (st\<lparr>mri_uses := x5\<rparr>) = framed c st" "framed c (st\<lparr>mri_defs := x6\<rparr>) = framed c st"
  "framed c (st\<lparr>edgeSets := x7\<rparr>) = framed c st"
  by (simp_all add: framed_def)

lemma framed_assignment:
  "framed c st \<Longrightarrow> getStackAssignment st r = Inr SA \<Longrightarrow> region SA = NONSTACK \<Longrightarrow> slot SA < memoryFrameSize st"
  by (auto simp: framed_def getStackAssignment_def split: option.splits)

lemma framed_insert_assignment [framed_intros]:
  "framed c st \<Longrightarrow> (reg_ion = NONSTACK \<Longrightarrow> sl < memoryFrameSize st) \<Longrightarrow> framed c (insert_assignment r reg_ion sl st)"
  by (auto simp: framed_def insert_assignment_def)

lemma framed_emit [framed_intros]:
  "framed c st \<Longrightarrow> slot_below (memoryFrameSize st) mi \<Longrightarrow> framed c (emit mi st)"
  by (auto simp: framed_def emit_def)

lemma framed_emit_after [framed_intros]:
  "framed c st \<Longrightarrow> slot_below (memoryFrameSize st) mi \<Longrightarrow> framed c (emit_after mi st)"
  by (auto simp: framed_def emit_after_def)

lemma framed_load [framed_intros]:
  "framed c st \<Longrightarrow> n < memoryFrameSize st \<Longrightarrow> framed c (insertLoadFromMemoryBefore r n st)"
  by (simp add: insertLoadFromMemoryBefore_def Let_def framed_emit)

lemma framed_with_stack: "with_stack f st = Inr st' \<Longrightarrow> framed c st \<Longrightarrow> framed c st'"
  by (auto simp: with_stack_def rbind_eq_Inr)

lemma framed_manip:
  "insertSwapBefore d st = Inr st' \<Longrightarrow> framed c st \<Longrightarrow> framed c st'"
  "insertSwapAfter d st = Inr st' \<Longrightarrow> framed c st \<Longrightarrow> framed c st'"
  "insertPopBefore st = Inr st' \<Longrightarrow> framed c st \<Longrightarrow> framed c st'"
  "insertPopAfter st = Inr st' \<Longrightarrow> framed c st \<Longrightarrow> framed c st'"
  "insertDupBefore d st = Inr st' \<Longrightarrow> framed c st \<Longrightarrow> framed c st'"
  by (auto simp: insertSwapBefore_def insertSwapAfter_def insertPopBefore_def insertPopAfter_def
      insertDupBefore_def split: if_splits elim!: framed_with_stack intro: framed_intros)

lemma framed_SwapRegToTop: "SwapRegToTop r st = Inr st' \<Longrightarrow> framed c st \<Longrightarrow> framed c st'"
  by (auto simp: SwapRegToTop_def rbind_eq_Inr split: if_splits dest: framed_manip)

lemma framed_DupRegToTop: "DupRegToTop r st = Inr st' \<Longrightarrow> framed c st \<Longrightarrow> framed c st'"
  by (auto simp: DupRegToTop_def rbind_eq_Inr dest: framed_manip)

lemmas framed_to_top = framed_manip framed_SwapRegToTop framed_DupRegToTop

lemma framed_foldM:
  assumes "foldM f xs st = Inr st'" and "framed c st"
    and "\<And>x s t. f x s = Inr t \<Longrightarrow> framed c s \<Longrightarrow> framed c t"
  shows "framed c st'"
  using assms(1,2) by (rule foldM_invariant) (rule assms(3))

text \<open>Stack manipulation does not change the size.\<close>

lemma size_with_stack: "with_stack f st = Inr st' \<Longrightarrow> memoryFrameSize st' = memoryFrameSize st"
  by (auto simp: with_stack_def rbind_eq_Inr)

lemma size_emit [simp]:
  "memoryFrameSize (emit mi st) = memoryFrameSize st" "memoryFrameSize (emit_after mi st) = memoryFrameSize st"
  "memoryFrameSize (insertLoadFromMemoryBefore r n st) = memoryFrameSize st"
  by (simp_all add: emit_def emit_after_def insertLoadFromMemoryBefore_def Let_def)

lemma size_SwapRegToTop: "SwapRegToTop r st = Inr st' \<Longrightarrow> memoryFrameSize st' = memoryFrameSize st"
  by (auto simp: SwapRegToTop_def insertSwapBefore_def rbind_eq_Inr split: if_splits dest!: size_with_stack)

lemma size_DupRegToTop: "DupRegToTop r st = Inr st' \<Longrightarrow> memoryFrameSize st' = memoryFrameSize st"
  by (auto simp: DupRegToTop_def insertDupBefore_def rbind_eq_Inr split: if_splits dest!: size_with_stack)

lemma size_liveness: "handleOperandLiveness A w u MOP st = Inr st' \<Longrightarrow> memoryFrameSize st' = memoryFrameSize st"
  by (auto simp: handleOperandLiveness_def rbind_eq_Inr split: if_splits)

section \<open>Uses\<close>

lemma framed_memory:
  "framed c st \<Longrightarrow> length mem \<le> memoryFrameSize st \<Longrightarrow> framed c (st\<lparr>memoryAssignment := mem\<rparr>)"
  by (simp add: framed_def)

lemma framed_dealloc: "deallocateMemorySlot r st = Inr st' \<Longrightarrow> framed c st \<Longrightarrow> framed c st'"
proof -
  assume d: "deallocateMemorySlot r st = Inr st'" and f: "framed c st"
  then obtain mem where "st' = st\<lparr>memoryAssignment := mem\<rparr>"
    by (auto simp: deallocateMemorySlot_def split: option.splits)
  with deallocateMemorySlot_shrinks [OF d] f show ?thesis
    by (auto intro!: framed_memory simp: framed_def)
qed

lemma framed_liveness: "handleOperandLiveness A w u MOP st = Inr st' \<Longrightarrow> framed c st \<Longrightarrow> framed c st'"
  by (auto simp: handleOperandLiveness_def rbind_eq_Inr split: if_splits)

lemma framed_unary: "handleUnaryOpcode A w u st = Inr st' \<Longrightarrow> framed c st \<Longrightarrow> framed c st'"
proof -
  assume run: "handleUnaryOpcode A w u st = Inr st'" and f: "framed c st"
  have "framed c (insertLoadFromMemoryBefore r (slot SA) t)"
    if "getStackAssignment st r = Inr SA" "region SA = NONSTACK" "handleOperandLiveness A w (snd u) MOP st = Inr t"
    for r SA t MOP
    using framed_assignment [OF f that(1,2)] framed_liveness [OF that(3) f] size_liveness [OF that(3)]
    by (auto intro: framed_load)
  with run f show ?thesis
    by (auto simp: handleUnaryOpcode_def rbind_eq_Inr split: if_splits dest: framed_liveness framed_to_top)
qed

lemma framed_binary_on_stack: "handleBinaryOnStack l1 l2 r1 r2 st = Inr st' \<Longrightarrow> framed c st \<Longrightarrow> framed c st'"
  by (auto simp: handleBinaryOnStack_def both_last_uses_def first_last_use_def rbind_eq_Inr
      split: if_splits dest: framed_to_top)

lemma framed_binary_operands:
  assumes "binary_operands l1 l2 r1 SA1 r2 SA2 st = Inr st'" and f: "framed c st"
    and m: "region SA1 = NONSTACK \<Longrightarrow> slot SA1 < memoryFrameSize st" "region SA2 = NONSTACK \<Longrightarrow> slot SA2 < memoryFrameSize st"
  shows "framed c st'"
proof -
  have load: "framed c (insertLoadFromMemoryBefore r k t)"
    if "framed c t" "memoryFrameSize t = memoryFrameSize st" "k < memoryFrameSize st" for r k t
    using that by (simp add: framed_load)
  have top: "framed c t" "memoryFrameSize t = memoryFrameSize st"
    if "SwapRegToTop r st = Inr t \<or> DupRegToTop r st = Inr t" for r t
    using that f by (auto dest: framed_to_top size_SwapRegToTop size_DupRegToTop)
  have both: "framed c t" if "SwapRegToTop r1 st = Inr u"
    "SwapRegToTop r1 (insertLoadFromMemoryBefore r2 (slot SA2) u) = Inr t" "region SA2 = NONSTACK" for t u
    using that top [of r1 u] m(2) by (intro framed_SwapRegToTop [OF that(2)] load) simp_all
  show ?thesis
    using assms(1) f m unfolding binary_operands_def
    by (auto simp: rbind_eq_Inr split: if_splits intro!: load
        dest: framed_binary_on_stack both intro: top framed_DupRegToTop [OF _ load])
qed

lemma framed_binary: "handleBinaryOpcode A w u v st = Inr st' \<Longrightarrow> framed c st \<Longrightarrow> framed c st'"
  unfolding handleBinaryOpcode_def rbind_eq_Inr
  by (elim exE conjE) (metis framed_liveness framed_binary_operands framed_assignment)

lemma framed_arbitrary: "handleArbitraryOpcode us st = Inr st' \<Longrightarrow> framed c st \<Longrightarrow> framed c st'"
  unfolding handleArbitraryOpcode_def
  by (erule (1) framed_foldM)
     (auto simp: arbitrary_operand_def rbind_eq_Inr Let_def split: if_splits
       intro: framed_load framed_assignment dest: framed_to_top)

lemma framed_handleUses: "handleUses A w st = Inr st' \<Longrightarrow> framed c st \<Longrightarrow> framed c st'"
proof -
  assume run: "handleUses A w st = Inr st'" and x: "framed c st"
  obtain uts st1 where 1: "(case uts of [] \<Rightarrow> Inr st | [u] \<Rightarrow> handleUnaryOpcode A w u st
      | [u, v] \<Rightarrow> handleBinaryOpcode A w u v st
      | _ \<Rightarrow> handleArbitraryOpcode uts st) = Inr st1" and 2: "foldM pop_use uts st1 = Inr st'"
    using run by (auto simp: handleUses_def rbind_eq_Inr)
  have "framed c st1" using 1 x
    by (auto split: list.splits dest: framed_unary framed_binary framed_arbitrary)
  with 2 show "framed c st'"
    by (rule framed_foldM) (auto simp: pop_use_def rbind_eq_Inr)
qed

section \<open>Definitions\<close>

lemma framed_size:
  assumes "framed c st" and "memoryFrameSize st \<le> n" and "length mem \<le> n"
  shows "framed c (st\<lparr>memoryAssignment := mem, memoryFrameSize := n\<rparr>)"
proof -
  have "slot_below n mi" if "mi \<in> set c \<union> set (pre st) \<union> set (post st)" for mi
    using assms(1,2) that by (auto simp: framed_def intro: slot_below_mono)
  then show ?thesis using assms unfolding framed_def by simp (meson less_le_trans le_trans)
qed

lemma framed_slot:
  assumes "allocateMemorySlot r st = Inr (sl, st')" and "framed c st"
  shows "framed c st' \<and> sl < memoryFrameSize st'"
proof -
  have "r \<noteq> NoRegister" using assms(1) by (auto simp: allocateMemorySlot_def)
  from allocateMemorySlot_ok [OF this, of st] assms(1)
  have e: "st' = st\<lparr>memoryAssignment := memoryAssignment st', memoryFrameSize := memoryFrameSize st'\<rparr>" by auto
  have "frame_covers st" using assms(2) by (simp add: framed_def frame_covers_def)
  from allocateMemorySlot_frame [OF this assms(1)]
  have "length (memoryAssignment st') \<le> memoryFrameSize st'" "sl < memoryFrameSize st'"
    by (simp_all add: frame_covers_def)
  moreover have "memoryFrameSize st \<le> memoryFrameSize st'"
    using assms(1) by (auto simp: allocateMemorySlot_def updateMemoryFrameSize_def split: if_splits prod.splits)
  ultimately show ?thesis using framed_size [OF assms(2)] e by metis
qed

lemma framed_store_def:
  assumes "store_def r st = Inr (sl, st')" and "framed c st"
  shows "framed c st' \<and> sl < memoryFrameSize st'"
proof -
  have "memoryFrameSize (insert_assignment q k n t) = memoryFrameSize t" for q k n t
    by (simp add: insert_assignment_def)
  then show ?thesis using assms
    by (auto simp: store_def_def rbind_eq_Inr intro!: framed_insert_assignment dest!: framed_slot)
qed

lemma framed_handleDef: "handleDef A w st = Inr st' \<Longrightarrow> framed c st \<Longrightarrow> framed c st'"
proof -
  assume run: "handleDef A w st = Inr st'" and x: "framed c st"
  have store: "framed c (insertStoreToMemoryAfter w r sl t)" if "store_def r st = Inr (sl, t)" for r sl t
    using framed_store_def [OF that x]
    by (simp add: insertStoreToMemoryAfter_def framed_emit_after)
  have assign: "framed c (insert_assignment r L_STACK 0 st)" "framed c (insert_assignment r NO_ALLOCATION 0 st)" for r
    using x by (auto intro!: framed_insert_assignment)
  with run x store show "framed c st'"
    by (auto simp: handleDef_def rbind_eq_Inr Let_def split: if_splits dest!: framed_manip(4))
qed

lemma framed_cleanup_use:
  assumes "cleanup_use b u (cs, st) = Inr (cs', st')" and "framed c st" and "\<forall>mi \<in> set cs. \<not> accesses_local mi"
  shows "framed c st' \<and> (\<forall>mi \<in> set cs'. \<not> accesses_local mi)"
  using assms
  by (auto simp: cleanup_use_def rbind_eq_Inr accesses_local_def split: if_splits
      dest: framed_manip framed_with_stack)

lemma framed_cleanup: "cleanUpDeadRegisters A w st = Inr st' \<Longrightarrow> framed c st \<Longrightarrow> framed c st'"
proof -
  assume run: "cleanUpDeadRegisters A w st = Inr st'" and x: "framed c st"
  have "framed c t \<and> (\<forall>mi \<in> set cs. \<not> accesses_local mi)"
    if "foldM (cleanup_use b) us ([], st) = Inr (cs, t)" for b us cs t
    using foldM_invariant [OF that, of "\<lambda>p. framed c (snd p) \<and> (\<forall>mi \<in> set (fst p). \<not> accesses_local mi)"] x
      framed_cleanup_use by fastforce
  moreover have "framed c (t\<lparr>post := cs @ post t\<rparr>)" if "framed c t" "\<forall>mi \<in> set cs. \<not> accesses_local mi" for cs t
    using that by (auto simp: framed_def slot_below_def)
  ultimately show "framed c st'" using run x
    by (auto simp: cleanUpDeadRegisters_def rbind_eq_Inr split: if_splits)
qed

text \<open>The code of an instruction joins the code made so far.\<close>

lemma framed_analyzeInstr:
  assumes "analyzeInstr A w (code, st) = Inr (code', st')" and "framed (c @ code) st" and "\<not> accesses_local (at_mi w)"
  shows "framed (c @ code') st'"
proof -
  obtain s1 s2 s3 where r: "handleUses A w (st\<lparr>pre := [], post := []\<rparr>) = Inr s1" "handleDef A w s1 = Inr s2"
    "cleanUpDeadRegisters A w s2 = Inr s3" "code' = code @ pre s3 @ [at_mi w] @ post s3" "st' = s3"
    using assms(1) by (auto simp: analyzeInstr_def rbind_eq_Inr)
  have "framed (c @ code) (st\<lparr>pre := [], post := []\<rparr>)" using assms(2) by (simp add: framed_def)
  from framed_cleanup [OF r(3) framed_handleDef [OF r(2) framed_handleUses [OF r(1) this]]]
  have "framed (c @ code) s3" .
  then show ?thesis using assms(3) r(4,5) by (auto simp: framed_def slot_below_def)
qed

section \<open>Blocks and functions\<close>

lemma framed_stack_arg:
  assumes "stack_arg A w mi (acc, st) = Inr (acc', st')" and x: "framed c st"
    and "\<not> accesses_local mi" and "\<forall>mi \<in> set acc. \<not> accesses_local mi"
  shows "framed c st' \<and> (\<forall>mi \<in> set acc'. \<not> accesses_local mi)"
proof -
  have store: "framed c ((insertStoreToMemoryBefore w r sl u)\<lparr>stack := k\<rparr>)"
    if "store_def r st = Inr (sl, t)" "SwapRegToTop r t = Inr u" for r sl t u k
    using framed_store_def [OF that(1) x] framed_SwapRegToTop [OF that(2)] size_SwapRegToTop [OF that(2)]
    by (simp add: insertStoreToMemoryBefore_def framed_emit)
  have assign: "framed c (insert_assignment r L_STACK 0 st)" "framed c (insert_assignment r NO_ALLOCATION 0 st)" for r
    using x by (auto intro!: framed_insert_assignment)
  have unused: "framed c t" if "with_stack f (insert_assignment r NO_ALLOCATION 0 st) = Inr t" for f r t
    using that assign(2) by (rule framed_with_stack)
  have "\<not> accesses_local POP_MI" by (simp add: accesses_local_def)
  with assms store assign show ?thesis
    by (auto simp: stack_arg_def rbind_eq_Inr Let_def split: if_splits intro: unused)
qed

lemma framed_push:
  "framed c t \<Longrightarrow> framed c (fold (\<lambda>mi st. st\<lparr>stack := stack_push (g mi) (stack st)\<rparr>) mis t)"
  by (induction mis arbitrary: t) simp_all

lemma framed_tryToAnalyzeStackArgs:
  assumes run: "tryToAnalyzeStackArgs A b st = Inr (n, args, st')" and x: "framed c st"
    and plain: "\<forall>mi \<in> set (mbb_instrs (MF A ! b)). \<not> accesses_local mi"
  shows "framed (c @ args) st'"
proof -
  let ?sa = "takeWhile is_stackarg (mbb_instrs (MF A ! b))"
  have pl: "\<not> accesses_local mi" if "mi \<in> set (rev ?sa)" for mi
    using that plain by (auto dest: set_takeWhileD)
  have args: "framed c t' \<and> (\<forall>mi \<in> set acc'. \<not> accesses_local mi)"
    if "foldM (stack_arg A w) mis (acc, t) = Inr (acc', t')" "framed c t" "\<forall>mi \<in> set acc. \<not> accesses_local mi"
      "\<forall>mi \<in> set mis. \<not> accesses_local mi" for w mis acc t acc' t'
    using that
  proof (induction mis arbitrary: acc t)
    case (Cons mi mis)
    then obtain acc1 t1 where r: "stack_arg A w mi (acc, t) = Inr (acc1, t1)"
      "foldM (stack_arg A w) mis (acc1, t1) = Inr (acc', t')" by (auto simp: rbind_eq_Inr)
    from framed_stack_arg [OF r(1)] Cons.prems Cons.IH [OF r(2)] show ?case by simp
  qed simp
  have ext: "framed (c @ acc @ pre t) t" if "framed c t" "\<forall>mi \<in> set acc. \<not> accesses_local mi" for acc t
    using that by (auto simp: framed_def slot_below_def)
  have start: "framed c (fold (\<lambda>mi st. st\<lparr>stack := stack_push (getReg (hd (mi_operands mi))) (stack st)\<rparr>)
      ?sa (st\<lparr>pre := []\<rparr>))"
    by (rule framed_push) (use x in \<open>auto simp: framed_def\<close>)
  show ?thesis
    using run x pl args [OF _ start, of _ "rev ?sa" "[]"] ext
    by (auto simp: tryToAnalyzeStackArgs_def rbind_eq_Inr Let_def split: if_splits)
qed

lemma framed_free_dead_slots: "free_dead_slots A b i st = Inr st' \<Longrightarrow> framed c st \<Longrightarrow> framed c st'"
proof (induction A b i st rule: free_dead_slots.induct)
  case (1 A b i st)
  note IH = 1(1-3) and run = 1(4) and x = 1(5)
  have free: "framed c st'" if "i < length (memoryAssignment st)" "memoryAssignment st ! i \<noteq> NoRegister"
    "regIsDeadAtBeginningOfMBB A st (memoryAssignment st ! i) b"
    "deallocateMemorySlot (memoryAssignment st ! i) st = Inr t"
    "free_dead_slots A b (Suc i) (t\<lparr>cur_X := cur_X t - {memoryAssignment st ! i}\<rparr>) = Inr st'" for t
    using IH(2) [OF that(1) refl that(2,3,4,5)] framed_dealloc [OF that(4) x] by simp
  show ?case
  proof (cases "i < length (memoryAssignment st)")
    case True
    with run show ?thesis
      by (subst (asm) free_dead_slots.simps)
         (auto simp: Let_def rbind_eq_Inr split: if_splits
           intro: free IH(1) [OF True refl _ _ x] IH(3) [OF True refl _ _ _ x])
  next
    case False
    with run x show ?thesis by (subst (asm) free_dead_slots.simps) auto
  qed
qed

lemma framed_record:
  "framed c st \<Longrightarrow> length (snd e) \<le> memoryFrameSize st \<Longrightarrow>
   framed c (st\<lparr>edgeset2assignment := (edgeset2assignment st)(k \<mapsto> e)\<rparr>)"
  by (cases e) (auto simp: framed_def split: if_splits)

lemma framed_begin:
  assumes run: "beginOfBlockUpdates A b st = Inr st'" and x: "framed c st"
  shows "framed c st'"
proof (cases "mbb_preds (MF A ! b)")
  case Nil
  with run x show ?thesis by (simp add: beginOfBlockUpdates_def)
next
  case (Cons p ps)
  let ?e = "\<lambda>k. case edgeset2assignment st k of None \<Rightarrow> ([], []) | Some e \<Rightarrow> e"
  let ?st = "\<lambda>k. fold push_x (fst (?e k)) (st\<lparr>edgeset2assignment := (edgeset2assignment st)(k \<mapsto> ?e k)\<rparr>)"
  have e: "length (snd (?e k)) \<le> memoryFrameSize st" for k
    using x by (auto simp: framed_def split: option.splits)
  have push: "framed c (fold push_x rs t)" "memoryFrameSize (fold push_x rs t) = memoryFrameSize t" if "framed c t" for rs t
    using that by (induction rs arbitrary: t) (simp_all add: push_x_def Let_def)
  obtain k t where r: "foldM (pop_dead_x A b) (fst (?e k)) ((?st k)\<lparr>memoryAssignment := snd (?e k)\<rparr>) = Inr t"
    "free_dead_slots A b 0 t = Inr st'"
    using run Cons by (auto simp: beginOfBlockUpdates_def rbind_eq_Inr Let_def)
  have f: "framed c (st\<lparr>edgeset2assignment := (edgeset2assignment st)(k \<mapsto> ?e k)\<rparr>)"
    using x e by (rule framed_record)
  have "framed c ((?st k)\<lparr>memoryAssignment := snd (?e k)\<rparr>)"
    using push [OF f] e [of k] by (intro framed_memory) simp_all
  with r(1) have "framed c t"
    by (rule framed_foldM) (auto simp: pop_dead_x_def rbind_eq_Inr split: if_splits dest: framed_to_top)
  with r(2) show ?thesis by (rule framed_free_dead_slots)
qed

lemma framed_end: "endOfBlockUpdates A b st = Inr st' \<Longrightarrow> framed c st \<Longrightarrow> framed c st'"
  by (auto simp: endOfBlockUpdates_def rbind_eq_Inr mergeEdgesetAssigments_def split: list.splits
      intro!: framed_record) (simp add: framed_def)

lemma framed_block:
  assumes run: "analyzeBasicBlock A b (codes, st) = Inr (codes', st')" and x: "framed (concat codes) st"
    and plain: "\<forall>mi \<in> set (mbb_instrs (MF A ! b)). \<not> accesses_local mi"
  shows "framed (concat codes') st'"
proof (cases "mbb_instrs (MF A ! b) = []")
  case True
  with run x show ?thesis by (auto simp: analyzeBasicBlock_def)
next
  case False
  let ?c = "concat codes"
  let ?st = "st\<lparr>stack := stack_clear (stack st), pre := []\<rparr>"
  obtain n args st1 st2 code st3 where
    1: "tryToAnalyzeStackArgs A b ?st = Inr (n, args, st1)"
    and 2: "beginOfBlockUpdates A b (st1\<lparr>pre := []\<rparr>) = Inr st2"
    and 3: "foldM (analyzeInstr A) (drop n (sites (MF A) b)) (pre st2 @ args, st2) = Inr (code, st3)"
    and 4: "endOfBlockUpdates A b st3 = Inr st'" and 5: "codes' = codes @ [code]"
    using run False by (auto simp: analyzeBasicBlock_def rbind_eq_Inr)
  have "framed ?c ?st" using x by (auto simp: framed_def)
  from framed_tryToAnalyzeStackArgs [OF 1 this plain] have "framed (?c @ args) (st1\<lparr>pre := []\<rparr>)"
    by (auto simp: framed_def)
  from framed_begin [OF 2 this] have y: "framed (?c @ pre st2 @ args) st2" by (auto simp: framed_def)
  have pl: "\<not> accesses_local (at_mi w)" if "w \<in> set (drop n (sites (MF A) b))" for w
    using set_drop_subset that plain by (fastforce simp: sites_def in_set_enumerate_eq)
  have "framed (?c @ code') t" if "foldM (analyzeInstr A) ws (code0, s) = Inr (code', t)"
    "framed (?c @ code0) s" "\<forall>w \<in> set ws. \<not> accesses_local (at_mi w)" for ws code0 s code' t
    using that
  proof (induction ws arbitrary: code0 s)
    case (Cons w ws)
    then obtain code1 s1 where r: "analyzeInstr A w (code0, s) = Inr (code1, s1)"
      "foldM (analyzeInstr A) ws (code1, s1) = Inr (code', t)" by (auto simp: rbind_eq_Inr)
    from framed_analyzeInstr [OF r(1)] Cons.prems Cons.IH [OF r(2)] show ?case by simp
  qed simp
  from this [OF 3 y] pl have "framed (?c @ code) st3" by blast
  from framed_end [OF 4 this] 5 show ?thesis by simp
qed

text \<open>A whole function, when the allocator starts with no slots.\<close>

lemma framed_function:
  assumes run: "allocateRegistersToStack A st = Inr (codes, st')"
    and init: "memoryAssignment st = []" "pre st = []" "post st = []"
    and plain: "\<forall>m \<in> set (MF A). \<forall>mi \<in> set (mbb_instrs m). \<not> accesses_local mi"
  shows "framed (concat codes) st'"
proof -
  obtain es where r: "foldM (analyzeBasicBlock A) [0..<length (MF A)] ([], (initialize_alloc st)\<lparr>edgeSets := es\<rparr>) = Inr (codes, st')"
    using run by (auto simp: allocateRegistersToStack_def Let_def rbind_eq_Inr)
  have "framed (concat []) ((initialize_alloc st)\<lparr>edgeSets := es\<rparr>)"
    using init by (simp add: framed_def initialize_alloc_def)
  moreover have "framed (concat cs') t" if "foldM (analyzeBasicBlock A) bs (cs, s) = Inr (cs', t)"
    "framed (concat cs) s" "set bs \<subseteq> {..<length (MF A)}" for bs cs s cs' t
    using that
  proof (induction bs arbitrary: cs s)
    case (Cons b bs)
    then obtain cs1 s1 where r: "analyzeBasicBlock A b (cs, s) = Inr (cs1, s1)"
      "foldM (analyzeBasicBlock A) bs (cs1, s1) = Inr (cs', t)" by (auto simp: rbind_eq_Inr)
    have "\<forall>mi \<in> set (mbb_instrs (MF A ! b)). \<not> accesses_local mi" using plain Cons.prems(3) by auto
    from framed_block [OF r(1) Cons.prems(2) this] Cons.IH [OF r(2)] Cons.prems(3) show ?case by simp
  qed simp
  ultimately show ?thesis using r by fastforce
qed

end
