(* ===== verification/AllocatorProperties.thy ===== *)
theory AllocatorProperties
  imports StackAllocBlock StackAllocRegion StackAllocFrame
begin

text \<open>
  The properties of the stack allocator, with an example function on which they are
  instantiated: two constants, a subtraction that uses the first of them a first time, and a
  store that uses it again.
\<close>

section \<open>An example\<close>

definition ex_block :: mbb where
  "ex_block = \<lparr>mbb_instrs =
     [MI (R (PUSH 32)) [defOf (VReg 0), MO_Immediate 7],
      MI (R (PUSH 32)) [defOf (VReg 1), MO_Immediate 5],
      MI (R SUB) [defOf (VReg 2), useOf (VReg 0), useOf (VReg 1)],
      MI (R (Sys SSTORE)) [useOf (VReg 0), useOf (VReg 2)]],
     mbb_preds = [], mbb_succs = []\<rparr>"

definition ex_analyses :: analyses where
  "ex_analyses = \<lparr>MF = [ex_block], intervals = (\<lambda>_. [(8, 24)])\<rparr>"

definition ex_alloc :: alloc where
  "ex_alloc = \<lparr>regAssignments = Map.empty, cur_X = {}, cur_L = {}, cur_M = {},
     stack = \<lparr>stackElements = [], sizeOfXRegion = 0\<rparr>, memoryAssignment = [],
     edgeset2assignment = Map.empty, edgeSets = \<lparr>edgeIndex2EdgeSet = [], edgeIndex = []\<rparr>,
     memoryFrameSize = 0, mri_uses = function_uses [ex_block], mri_defs = function_defs [ex_block],
     pre = [], post = []\<rparr>"

text \<open>The state in front of the subtraction, both operands on the stack.\<close>

definition ex_alloc2 :: alloc where
  "ex_alloc2 = ex_alloc\<lparr>stack := \<lparr>stackElements = [VReg 0, VReg 1], sizeOfXRegion = 0\<rparr>,
     regAssignments := [VReg 0 \<mapsto> \<lparr>region = L_STACK, slot = 0\<rparr>,
                        VReg 1 \<mapsto> \<lparr>region = L_STACK, slot = 0\<rparr>]\<rparr>"

definition ex_site :: site where
  "ex_site = sites [ex_block] 0 ! 2"

definition ex_regs :: "reg \<Rightarrow> nat" where
  "ex_regs r = (if r = VReg 0 then 7 else 5)"

lemma ex_operands: "operand_regs (at_mi ex_site) = [VReg 0, VReg 1]"
  by code_simp

section \<open>Code of a block\<close>

text \<open>
  C3: the code the allocator makes of a run of instructions computes what the instructions
  compute. Whatever function \<open>f\<close> gives the result of an instruction from its operand values:
  if every instruction meets the conditions of \<open>sites_ok\<close> and the locals hold the registers
  that live in memory, the allocation succeeds, the rewritten code runs on the stack machine
  without underflow, and at the end the stack and the locals hold the values the register
  machine gives to the registers the allocator keeps there.
\<close>

theorem block_allocation_correct:
  fixes f :: "'v semantics" and \<rho> :: "reg \<Rightarrow> 'v"
  assumes "sites_ok A ws (code, st)" and "locals_ok \<rho> loc st"
  shows "\<exists>new st' loc'. foldM (analyzeInstr A) ws (code, st) = Inr (code @ new, st') \<and>
    locals_ok (reg_run f ws \<rho>) loc' st' \<and>
    run_code f new (map \<rho> (view (stack st)), loc) =
      Some (map (reg_run f ws \<rho>) (view (stack st')), loc')"
  using analyzeInstrs_sim [OF assms, of f] by blast

theorem block_allocation_correct_witness:
  "\<exists>new st' loc'. foldM (analyzeInstr ex_analyses) (sites [ex_block] 0) ([], ex_alloc) = Inr ([] @ new, st') \<and>
    locals_ok (reg_run (\<lambda>mi vs. sum_list vs + 1) (sites [ex_block] 0) ex_regs) loc' st' \<and>
    run_code (\<lambda>mi vs. sum_list vs + 1) new (map ex_regs (view (stack ex_alloc)), (\<lambda>_. 0)) =
      Some (map (reg_run (\<lambda>mi vs. sum_list vs + 1) (sites [ex_block] 0) ex_regs) (view (stack st')), loc')"
proof (rule block_allocation_correct)
  show "sites_ok ex_analyses (sites [ex_block] 0) ([], ex_alloc)" by code_simp
  show "locals_ok ex_regs (\<lambda>_. 0) ex_alloc" by (simp add: locals_ok_def ex_alloc_def)
qed

text \<open>
  C8: after the operands of an instruction have been handled, running the inserted code
  brings exactly the operand values, in operand order with the first one on top, onto the
  stack, above the values of the registers that stay, and leaves the locals as they were.
\<close>

theorem operands_brought_to_top:
  assumes "handleUses A w st = Inr st'"
    and "mem_ok \<rho> loc st (set (operand_regs (at_mi w)))"
  shows "same_base st st' \<and>
     (\<exists>ms. pre st' = pre st @ map manip_mi ms \<and>
     run_manip (map manip_mi ms) (map \<rho> (view (stack st)), loc) =
       Some (map \<rho> (operand_regs (at_mi w)) @ map \<rho> (view (stack st')), loc))"
  using handleUses_sim [OF assms] by blast

theorem operands_brought_to_top_witness:
  "\<exists>st' ms. handleUses ex_analyses ex_site ex_alloc2 = Inr st' \<and>
     pre st' = pre ex_alloc2 @ map manip_mi ms \<and>
     run_manip (map manip_mi ms) (map ex_regs (view (stack ex_alloc2)), \<lambda>_. 0) =
       Some (map ex_regs [VReg 0, VReg 1] @ map ex_regs (view (stack st')), \<lambda>_. 0)"
proof -
  have "is_ok (handleUses ex_analyses ex_site ex_alloc2)" by code_simp
  then obtain st' where st': "handleUses ex_analyses ex_site ex_alloc2 = Inr st'"
    by (auto simp: is_ok_iff)
  moreover have "mem_ok ex_regs (\<lambda>_. 0) ex_alloc2 (set (operand_regs (at_mi ex_site)))"
    by (auto simp: mem_ok_def ex_operands ex_alloc2_def)
  ultimately show ?thesis
    using operands_brought_to_top [of ex_analyses ex_site ex_alloc2 st' ex_regs "\<lambda>_. 0"]
    by (auto simp: ex_operands)
qed

text \<open>
  C9: the handling of operands succeeds whenever every operand is a register that lives in
  memory or lies on the stack and the operands are not one of the two pairs the code does
  not treat; the registers that leave the stack are then exactly the operands used for the
  last time (none of them when there are more than two operands).
\<close>

theorem operand_handling_succeeds:
  assumes "operands_ready st (at_mi w)" and "\<not> unsupported_pair A st w"
  shows "\<exists>st'. handleUses A w st = Inr st' \<and> same_base st st' \<and>
    mset (view (stack st')) = mset (view (stack st)) - mset (consumed A st w)"
  using assms by (rule handleUses_ok)

theorem operand_handling_succeeds_witness:
  "\<exists>st'. handleUses ex_analyses ex_site ex_alloc2 = Inr st' \<and> same_base ex_alloc2 st' \<and>
    mset (view (stack st')) = mset (view (stack ex_alloc2)) - mset (consumed ex_analyses ex_alloc2 ex_site)"
proof (rule operand_handling_succeeds)
  show "operands_ready ex_alloc2 (at_mi ex_site)" by code_simp
  show "\<not> unsupported_pair ex_analyses ex_alloc2 ex_site" by code_simp
qed

text \<open>
  The first pair of operands that is not treated. When the first operand is used for the
  last time and lies below the top, and the second one, which is still needed, lies directly below the top, the
  second register leaves the stack as well: a later use of it is not found.
\<close>

lemma second_operand_is_lost:
  assumes "r1 \<in> set (view (stack st))" and "r2 \<in> set (view (stack st))" and "r1 \<noteq> r2"
    and "index_of r1 (view (stack st)) \<noteq> 0" and "index_of r2 (view (stack st)) = 1"
  shows "\<exists>st' zs. handleBinaryOnStack True False r1 r2 st = Inr st' \<and>
    view (stack st') = [r1, r2] @ zs \<and> mset zs = mset (view (stack st)) - {#r1, r2#}"
  using second_operand_lost [OF assms] by (auto simp: leaves_def)

lemma second_operand_is_lost_witness:
  "\<exists>st' zs. handleBinaryOnStack True False (VReg 2) (VReg 0)
       (ex_alloc\<lparr>stack := \<lparr>stackElements = [VReg 2, VReg 0, VReg 1], sizeOfXRegion = 0\<rparr>\<rparr>) = Inr st' \<and>
    view (stack st') = [VReg 2, VReg 0] @ zs \<and> mset zs = {#VReg 1#}"
  using second_operand_is_lost
    [of "VReg 2" "ex_alloc\<lparr>stack := \<lparr>stackElements = [VReg 2, VReg 0, VReg 1], sizeOfXRegion = 0\<rparr>\<rparr>" "VReg 0"]
  by (simp add: view_def)

text \<open>
  The second pair that is not treated. An instruction that uses one register twice, for the last time, makes
  the allocator fail: the two copies it then expects on the top are never there.
\<close>

lemma register_used_twice_fails:
  assumes "distinct (view (stack st))" and "use_reg (snd u) = r" and "use_reg (snd v) = r"
  shows "\<not> is_ok (rbind (handleBinaryOnStack True True r r st) (foldM pop_use [u, v]))"
  using assms by (rule same_register_twice)

lemma register_used_twice_fails_witness:
  "\<not> is_ok (rbind (handleBinaryOnStack True True (VReg 0) (VReg 0) ex_alloc2)
     (foldM pop_use
       [(0, \<lparr>isLastUse = True, isMemUse = False, stackDepth = 1, use_reg = VReg 0\<rparr>),
        (1, \<lparr>isLastUse = True, isMemUse = False, stackDepth = 1, use_reg = VReg 0\<rparr>)]))"
  by (rule register_used_twice_fails) (simp_all add: ex_alloc2_def view_def)

section \<open>Edge sets\<close>

text \<open>
  C13: the edge sets are the finest partition of the edges of the control flow graph in which
  two edges that leave the same block or enter the same block are together. The computation
  succeeds on every graph in which the lists of predecessors and successors describe the same
  edges, whatever an earlier function left in the tables before \<open>initialize\<close> reset them.
\<close>

theorem edge_sets_partition:
  assumes "wf_cfg F"
  shows "\<exists>es. computeEdgeSets F (reset_edge_sets es0) = Inr es \<and>
    (\<forall>a \<in> set (all_edges F). \<forall>b \<in> set (all_edges F).
       same_set es a b \<longleftrightarrow> equivclp (share_block F) a b)"
  using assms by (rule computeEdgeSets_partition)

definition ex_cfg :: mfunction where
  "ex_cfg =
     [\<lparr>mbb_instrs = [], mbb_preds = [], mbb_succs = [1, 2]\<rparr>,
      \<lparr>mbb_instrs = [], mbb_preds = [0, 1], mbb_succs = [1, 2]\<rparr>,
      \<lparr>mbb_instrs = [], mbb_preds = [0, 1], mbb_succs = []\<rparr>]"

theorem edge_sets_partition_witness:
  "\<exists>es. computeEdgeSets ex_cfg (reset_edge_sets \<lparr>edgeIndex2EdgeSet = [(0, 7)], edgeIndex = [(5, (None, None))]\<rparr>) = Inr es \<and>
    (\<forall>a \<in> set (all_edges ex_cfg). \<forall>b \<in> set (all_edges ex_cfg).
       same_set es a b \<longleftrightarrow> equivclp (share_block ex_cfg) a b)"
proof (rule edge_sets_partition)
  show "wf_cfg ex_cfg" by code_simp
qed

section \<open>The X region\<close>

text \<open>
  C14: no register is ever kept on the stack across a block boundary. As long as no
  assignment names the X region, analysing a block leaves none that does, keeps the recorded
  X part of every edge set empty, and ends with an empty symbolic stack.
\<close>

theorem x_region_stays_empty:
  assumes "analyzeBasicBlock A b (codes, st) = Inr (codes', st')"
    and "no_x st" and "getStackDepth (stack st') < 2 ^ 32"
    and "mbb_instrs (MF A ! b) \<noteq> []"
  shows "no_x st' \<and> stackElements (stack st') = []"
  using assms by (rule no_x_block)

theorem x_region_stays_empty_witness:
  "\<exists>codes' st'. analyzeBasicBlock ex_analyses 0 ([], ex_alloc) = Inr (codes', st') \<and>
     no_x st' \<and> stackElements (stack st') = []"
proof -
  have "case analyzeBasicBlock ex_analyses 0 ([], ex_alloc) of
      Inl _ \<Rightarrow> False | Inr (codes', st') \<Rightarrow> getStackDepth (stack st') = 0" by code_simp
  then obtain codes' st' where run: "analyzeBasicBlock ex_analyses 0 ([], ex_alloc) = Inr (codes', st')"
    and d: "getStackDepth (stack st') < 2 ^ 32"
    by (auto split: sum.splits)
  have "no_x ex_alloc" by (simp add: no_x_def ex_alloc_def)
  with x_region_stays_empty [OF run _ d] run show ?thesis by (simp add: ex_analyses_def ex_block_def)
qed

section \<open>Memory slots\<close>

text \<open>
  The allocation of a memory slot for a register always succeeds; the slot was free, the
  register holds it afterwards, every register keeps the slots it held, and nobody else
  gains one.
\<close>

lemma memory_slot_allocated:
  assumes "r \<noteq> NoRegister"
  shows "\<exists>sl st'. allocateMemorySlot r st = Inr (sl, st') \<and> held st' r sl \<and>
    (\<forall>q. q \<noteq> NoRegister \<longrightarrow> \<not> held st q sl) \<and>
    (\<forall>q k. q \<noteq> NoRegister \<longrightarrow> held st q k \<longrightarrow> held st' q k) \<and>
    (\<forall>q k. q \<noteq> r \<longrightarrow> held st' q k \<longrightarrow> held st q k)"
  by (rule allocateMemorySlot_ok [OF assms, of st]) blast

lemma memory_slot_allocated_witness:
  "\<exists>sl st'. allocateMemorySlot (VReg 4) ex_alloc = Inr (sl, st') \<and> held st' (VReg 4) sl"
  using memory_slot_allocated [of "VReg 4" ex_alloc] by auto

text \<open>
  C15: as long as slot 0 is not free, no two slots hold the same register: the allocation of
  a slot for a register that has none keeps the slots distinct.
\<close>

theorem memory_slots_distinct:
  assumes "r \<noteq> NoRegister" and "r \<notin> set (memoryAssignment st)" and "slots_distinct st"
    and "memoryAssignment st = [] \<or> memoryAssignment st ! 0 \<noteq> NoRegister"
    and "allocateMemorySlot r st = Inr (sl, st')"
  shows "slots_distinct st'"
  using assms by (rule allocateMemorySlot_distinct)

theorem memory_slots_distinct_witness:
  "\<exists>sl st'. allocateMemorySlot (VReg 4) (ex_alloc\<lparr>memoryAssignment := [VReg 1, NoRegister, VReg 2]\<rparr>)
      = Inr (sl, st') \<and> slots_distinct st'"
proof -
  let ?st = "ex_alloc\<lparr>memoryAssignment := [VReg 1, NoRegister, VReg 2]\<rparr>"
  have "is_ok (allocateMemorySlot (VReg 4) ?st)" by code_simp
  then obtain sl st' where "allocateMemorySlot (VReg 4) ?st = Inr (sl, st')" by (auto simp: is_ok_iff)
  moreover from memory_slots_distinct [OF _ _ _ _ this] have "slots_distinct st'"
    by (simp add: slots_distinct_def)
  ultimately show ?thesis by blast
qed

text \<open>
  A free slot 0 is an exception. The code takes the index 0 the search returns for
  ``nothing found'', so the register gets two slots: it is written into slot 0 and appended,
  and from then on the slots are not distinct.
\<close>

lemma free_slot_zero_taken_twice:
  assumes "r \<noteq> NoRegister" and "memoryAssignment st = NoRegister # mem"
  shows "\<exists>st'. allocateMemorySlot r st = Inr (Suc (length mem), st') \<and>
    held st' r 0 \<and> held st' r (Suc (length mem)) \<and> \<not> slots_distinct st'"
  using assms by (rule allocateMemorySlot_slot0)

lemma free_slot_zero_taken_twice_witness:
  "\<exists>st'. allocateMemorySlot (VReg 4) (ex_alloc\<lparr>memoryAssignment := [NoRegister, VReg 2]\<rparr>) = Inr (2, st') \<and>
    held st' (VReg 4) 0 \<and> held st' (VReg 4) 2 \<and> \<not> slots_distinct st'"
  using free_slot_zero_taken_twice
    [of "VReg 4" "ex_alloc\<lparr>memoryAssignment := [NoRegister, VReg 2]\<rparr>" "[VReg 2]"]
  by (simp add: numeral_2_eq_2)

text \<open>
  C16: freeing the slot that was just allocated restores the slots, when the register had no slot
  before and neither the first nor the last slot was free.
\<close>

theorem slot_allocation_undone:
  assumes "r \<noteq> NoRegister" and "r \<notin> set (memoryAssignment st)"
    and "memoryAssignment st = [] \<or> last (memoryAssignment st) \<noteq> NoRegister"
    and "memoryAssignment st = [] \<or> memoryAssignment st ! 0 \<noteq> NoRegister"
    and "allocateMemorySlot r st = Inr (sl, st')"
  shows "\<exists>st''. deallocateMemorySlot r st' = Inr st'' \<and>
    memoryAssignment st'' = memoryAssignment st"
  using assms by (rule allocate_deallocate)

theorem slot_allocation_undone_witness:
  "\<exists>sl st' st''. allocateMemorySlot (VReg 4) (ex_alloc\<lparr>memoryAssignment := [VReg 1, NoRegister, VReg 2]\<rparr>)
      = Inr (sl, st') \<and> deallocateMemorySlot (VReg 4) st' = Inr st'' \<and>
    memoryAssignment st'' = [VReg 1, NoRegister, VReg 2]"
proof -
  let ?st = "ex_alloc\<lparr>memoryAssignment := [VReg 1, NoRegister, VReg 2]\<rparr>"
  have "is_ok (allocateMemorySlot (VReg 4) ?st)" by code_simp
  then obtain sl st' where a: "allocateMemorySlot (VReg 4) ?st = Inr (sl, st')" by (auto simp: is_ok_iff)
  with slot_allocation_undone [OF _ _ _ _ a] show ?thesis by auto
qed

text \<open>
  C17: the frame has room for every local. When the allocator starts on a function with no
  slots left from an earlier one and no pending code, and the function does not access locals
  yet, then in the code of the whole function every \<open>pGETLOCAL\<close> and \<open>pPUTLOCAL\<close> accesses a slot
  below the size of the frame it ends with.
\<close>

theorem frame_size_covers_slots:
  assumes "runOnMachineFunction_alloc A st = Inr (F, st')"
    and "memoryAssignment st = []" "pre st = []" "post st = []"
    and "\<forall>m \<in> set (MF A). \<forall>mi \<in> set (mbb_instrs m). \<not> accesses_local mi"
  shows "\<forall>m \<in> set F. \<forall>mi \<in> set (mbb_instrs m). accesses_local mi \<longrightarrow>
    (\<exists>r k. mi_operands mi = [r, MO_Immediate (int k)] \<and> k < memoryFrameSize st')"
proof (intro ballI impI)
  fix m mi
  assume m: "m \<in> set F" "mi \<in> set (mbb_instrs m)" and l: "accesses_local mi"
  let ?st = "st\<lparr>mri_uses := function_uses (MF A), mri_defs := function_defs (MF A)\<rparr>"
  obtain codes where r: "allocateRegistersToStack A ?st = Inr (codes, st')"
    and F: "F = map2 (\<lambda>m c. m\<lparr>mbb_instrs := c\<rparr>) (MF A) codes"
    using assms(1) by (auto simp: runOnMachineFunction_alloc_def Let_def rbind_eq_Inr)
  have "framed (concat codes) st'"
    by (rule framed_function [OF r _ _ _ assms(5)]) (simp_all add: assms(2-4))
  moreover have "mi \<in> set (concat codes)" using m F by (auto simp: set_zip)
  ultimately have "slot_below (memoryFrameSize st') mi" by (auto simp: framed_def)
  with l show "\<exists>r k. mi_operands mi = [r, MO_Immediate (int k)] \<and> k < memoryFrameSize st'"
    by (intro slot_below_operands)
qed

text \<open>A function of two blocks with a constant that is used in the second one.\<close>

definition ex_locals_MF :: mfunction where
  "ex_locals_MF =
     [\<lparr>mbb_instrs = [MI (R (PUSH 32)) [defOf (VReg 0), MO_Immediate 7]], mbb_preds = [], mbb_succs = [1]\<rparr>,
      \<lparr>mbb_instrs = [MI (R (Sys SSTORE)) [useOf (VReg 0), useOf (VReg 0)]], mbb_preds = [0], mbb_succs = []\<rparr>]"

definition ex_locals_analyses :: analyses where
  "ex_locals_analyses = \<lparr>MF = ex_locals_MF, intervals = (\<lambda>_. [(8, 40)])\<rparr>"

theorem frame_size_covers_slots_witness:
  "\<exists>F st'. runOnMachineFunction_alloc ex_locals_analyses ex_alloc = Inr (F, st') \<and>
    memoryFrameSize st' = 1 \<and> MI pPUTLOCAL_r [useOf (VReg 0), MO_Immediate 0] \<in> set (mbb_instrs (F ! 0)) \<and>
    (\<forall>m \<in> set F. \<forall>mi \<in> set (mbb_instrs m). accesses_local mi \<longrightarrow>
      (\<exists>r k. mi_operands mi = [r, MO_Immediate (int k)] \<and> k < memoryFrameSize st'))"
proof -
  have "case runOnMachineFunction_alloc ex_locals_analyses ex_alloc of Inl _ \<Rightarrow> False
    | Inr (F, st') \<Rightarrow> memoryFrameSize st' = 1 \<and>
        MI pPUTLOCAL_r [useOf (VReg 0), MO_Immediate 0] \<in> set (mbb_instrs (F ! 0))" by code_simp
  then obtain F st' where r: "runOnMachineFunction_alloc ex_locals_analyses ex_alloc = Inr (F, st')"
    "memoryFrameSize st' = 1" "MI pPUTLOCAL_r [useOf (VReg 0), MO_Immediate 0] \<in> set (mbb_instrs (F ! 0))"
    by (auto split: sum.splits)
  have "\<forall>m \<in> set (MF ex_locals_analyses). \<forall>mi \<in> set (mbb_instrs m). \<not> accesses_local mi" by code_simp
  from frame_size_covers_slots [OF r(1) _ _ _ this] r show ?thesis by (simp add: ex_alloc_def)
qed

end
