(* ===== verification/PipelineProperties.thy ===== *)
theory PipelineProperties
  imports Pipeline CodegenProperties AllocatorProperties
begin

text \<open>
  The properties that span the passes: from instructions on virtual registers to bytes.
\<close>

section \<open>An example\<close>

text \<open>The first three instructions of the example block: two constants and their difference.\<close>

definition ex_sites :: "site list" where
  "ex_sites = take 3 (sites [ex_block] 0)"

definition ex_run :: "(minstr list \<times> alloc) result" where
  "ex_run = foldM (analyzeInstr ex_analyses) ex_sites ([], ex_alloc)"

lemma ex_sites_ok: "sites_ok ex_analyses ex_sites ([], ex_alloc)"
  by code_simp

lemma ex_compilable: "\<forall>w \<in> set ex_sites. compilable (at_mi w)"
  by code_simp

lemma ex_fits: "case ex_run of Inl _ \<Rightarrow> False
  | Inr (code, st') \<Rightarrow> (\<forall>mi \<in> set code. is_manip mi \<longrightarrow> fits 0 mi)"
  by code_simp

lemma ex_memory: "locals_in_memory ex_ST 0 0 (\<lambda>_. 0) ex_mem"
  by (simp add: locals_in_memory_def ex_addresses)

lemma ex_locals: "locals_ok (\<lambda>_. 0) (\<lambda>_. 0 :: word256) ex_alloc"
  by (simp add: locals_ok_def ex_alloc_def)

lemma ex_view: "case ex_run of Inl _ \<Rightarrow> False | Inr (code, st') \<Rightarrow> view (stack st') = [VReg 2, VReg 0]"
  by code_simp

lemma ex_instrs: "map at_mi ex_sites = take 3 (mbb_instrs ex_block)"
  by code_simp

lemma ex_values:
  "reg_run instr_value ex_sites (\<lambda>_. 0) (VReg 2) = 2" "reg_run instr_value ex_sites (\<lambda>_. 0) (VReg 0) = 7"
proof -
  have "reg_run instr_value ex_sites = fold (reg_step instr_value) (take 3 (mbb_instrs ex_block))"
    by (simp add: reg_run_def flip: ex_instrs) (simp add: fold_map o_def)
  then show "reg_run instr_value ex_sites (\<lambda>_. 0) (VReg 2) = 2" "reg_run instr_value ex_sites (\<lambda>_. 0) (VReg 0) = 7"
    by (simp_all add: ex_block_def reg_step_def explicit_defs_def instr_value_def operand_regs_def
        explicit_uses_def pure_values)
qed


section \<open>From registers to bytes\<close>



text \<open>
  C2: the same through the passes as they run on whole functions, for a subtarget without
  subroutine instructions. Take the code the allocator makes of instructions as before
  (\<open>compilable\<close>: constants from 0 to \<open>2 ^ 63 - 1\<close> or of 256 bits, and instructions that compute
  a value from virtual registers) under the same conditions. In a function that passes the
  pipeline behind the allocator, every block that is such code computes after the last pass
  the values the register machine gives, and keeps the frame.
\<close>

theorem pipeline_block_refined:
  assumes "sites_ok A ws ([], st)" and "\<forall>w \<in> set ws. compilable (at_mi w)"
    and "foldM (analyzeInstr A) ws ([], st) = Inr (code, st')"
    and "\<forall>mi \<in> set code. is_manip mi \<longrightarrow> fits N mi" and "locals_ok \<rho> loc st"
    and "locals_in_memory ST (word_of_int (StackSize (cg_MFI cg))) N loc mem"
    and "late_passes ST cg = Inr cg'" and "i < length (cg_MF cg)"
    and "mbb_instrs (cg_MF cg ! i) = code" and "\<not> HasSubroutine ST"
  shows "\<exists>mem'. run_evm pc (mbb_instrs (cg_MF cg' ! i)) (map \<rho> (view (stack st)), mem) =
    Some (map (reg_run instr_value ws \<rho>) (view (stack st')), mem') \<and> frame ST mem' = frame ST mem"
  using assms by (rule late_passes_refine)

definition ex_codegen :: "minstr list \<Rightarrow> codegen" where
  "ex_codegen code = \<lparr>cg_MF = [\<lparr>mbb_instrs = code, mbb_preds = [], mbb_succs = []\<rparr>], cg_vregs = 9,
     cg_MFI = new_MFI, cg_alloc = ex_alloc, cg_v2m = ex_v2m\<rparr>"

theorem pipeline_block_refined_witness:
  "\<exists>code st' cg' mem'. foldM (analyzeInstr ex_analyses) ex_sites ([], ex_alloc) = Inr (code, st') \<and>
    late_passes ex_ST (ex_codegen code) = Inr cg' \<and>
    run_evm 0 (mbb_instrs (cg_MF cg' ! 0)) ([], ex_mem) = Some ([2, 7], mem')"
proof -
  obtain code st' where r: "foldM (analyzeInstr ex_analyses) ex_sites ([], ex_alloc) = Inr (code, st')"
    and f: "\<forall>mi \<in> set code. is_manip mi \<longrightarrow> fits 0 mi"
    and v: "view (stack st') = [VReg 2, VReg 0]"
    using ex_fits ex_view by (auto simp: ex_run_def split: sum.splits)
  let ?cg = "ex_codegen code"
  have z: "word_of_int (StackSize (cg_MFI ?cg)) = (0 :: 32 word)" by (simp add: ex_codegen_def new_MFI_def)
  have ST: "\<not> HasSubroutine ex_ST" by (simp add: ex_ST_def)
  have "\<exists>d. compile_block ex_ST new_MFI 0 9 code = Inr d"
    using block_compiled [OF ex_sites_ok ex_compilable r f ex_locals ex_memory, of new_MFI 9] by blast
  then have "\<exists>cg'. late_passes ex_ST ?cg = Inr cg'"
    using late_passes_single [of ?cg "cg_MF ?cg ! 0" ex_ST] ST z by (auto simp: ex_codegen_def)
  then obtain cg' where cg': "late_passes ex_ST ?cg = Inr cg'" by blast
  have m: "locals_in_memory ex_ST (word_of_int (StackSize (cg_MFI ?cg))) 0 (\<lambda>_. 0) ex_mem"
    unfolding z by (rule ex_memory)
  have i: "0 < length (cg_MF ?cg)" "mbb_instrs (cg_MF ?cg ! 0) = code" by (simp_all add: ex_codegen_def)
  have s: "view (stack ex_alloc) = []" by (simp add: ex_alloc_def view_def)
  from pipeline_block_refined [OF ex_sites_ok ex_compilable r f ex_locals m cg' i ST, of 0] r cg'
  show ?thesis by (auto simp: v s ex_values)
qed

section \<open>Shape of the emitted code\<close>

text \<open>
  C4: whatever the optimisation level, every instruction the pipeline leaves is in stack form:
  no register-form or pseudo instruction is left, no operand is a register, and \<open>DUP\<close> and
  \<open>SWAP\<close> have depths the EVM has.
\<close>

theorem pipeline_code_in_stack_form:
  assumes "addPreEmitPass optimise ST LIS k F cg = Inr cg'"
  shows "\<forall>b \<in> set (cg_MF cg'). stack_code (mbb_instrs b)"
  using assms by (rule addPreEmitPass_form)

definition ex_main :: function_decl where
  "ex_main = \<lparr>fn_name = ''main'', fn_isDeclaration = False, fn_isIntrinsic = False\<rparr>"

theorem pipeline_code_in_stack_form_witness:
  "\<exists>cg'. addPreEmitPass True ex_ST (\<lambda>_ _. []) 0 ex_main
       (ex_codegen [MI (R (Alu STOP)) []]) = Inr cg' \<and>
     list_all (\<lambda>b. stack_code (mbb_instrs b)) (cg_MF cg')"
proof -
  let ?run = "addPreEmitPass True ex_ST (\<lambda>_ _. []) 0 ex_main (ex_codegen [MI (R (Alu STOP)) []])"
  have "is_ok ?run" by code_simp
  then obtain cg' where "?run = Inr cg'" by (auto simp: is_ok_iff)
  with pipeline_code_in_stack_form [OF this] show ?thesis by (auto simp: list_all_iff)
qed

end
