(* ===== verification/InstructionSelection.thy ===== *)
theory InstructionSelection
  imports FunctionInfo EvmMachine
begin

text \<open>
  Instruction selection: the custom lowering of \<open>EVMISelLowering.cpp\<close> and the custom
  selection of \<open>EVMISelDAGToDAG.cpp\<close>. A node of the selection graph is an operation with its
  operands. A \<open>TargetGlobalAddress\<close> node carries its identity, since the pass keeps a map from
  nodes to memory slots. The table-driven matcher \<open>SelectCode\<close> is generated; it is an argument
  of \<open>Select\<close>.

  The last section gives selected nodes a value and shows which selections keep the value of
  the node they replace.
\<close>

section \<open>Nodes\<close>

datatype condcode =
    SETFALSE | SETOEQ | SETOGT | SETOGE | SETOLT | SETOLE | SETONE | SETO | SETUO | SETUEQ
  | SETUGT | SETUGE | SETULT | SETULE | SETUNE | SETTRUE | SETFALSE2 | SETEQ | SETGT | SETGE
  | SETLT | SETLE | SETNE | SETTRUE2

definition condcodes :: "condcode list" where
  "condcodes = [SETFALSE, SETOEQ, SETOGT, SETOGE, SETOLT, SETOLE, SETONE, SETO, SETUO, SETUEQ,
     SETUGT, SETUGE, SETULT, SETULE, SETUNE, SETTRUE, SETFALSE2, SETEQ, SETGT, SETGE,
     SETLT, SETLE, SETNE, SETTRUE2]"

definition cc_code :: "condcode \<Rightarrow> nat" where
  "cc_code cc = index_of cc condcodes"

datatype loadext = NON_EXTLOAD | EXTLOAD | SEXTLOAD | ZEXTLOAD

datatype sdopcode =
    ISD_EntryToken
  | ISD_CopyFromReg reg
  | ISD_Constant nat
  | ISD_TargetConstant nat
  | ISD_CONDCODE condcode
  | ISD_VALUETYPE nat
  | ISD_BasicBlock nat
  | ISD_FrameIndex int
  | ISD_TargetFrameIndex int
  | ISD_GlobalAddress string nat
  | ISD_TargetGlobalAddress nat string bool
  | ISD_ExternalSymbol string
  | ISD_TargetExternalSymbol string
  | ISD_BlockAddress string
  | ISD_TargetBlockAddress string
  | ISD_BR | ISD_BR_CC | ISD_BRIND | ISD_SELECT_CC
  | ISD_SIGN_EXTEND | ISD_SIGN_EXTEND_INREG
  | ISD_LOAD loadext nat
  | ISD_SETCC
  | ISD_CALLSEQ_START nat | ISD_CALLSEQ_END nat | ISD_MEMCPY nat
  | EVMISD_WRAPPER | EVMISD_BRCC | EVMISD_SELECTCC | EVMISD_SIGNEXTEND
  | EVMISD_STACKARG | EVMISD_CALL | EVMISD_CALLVOID | EVMISD_RET_FLAG
  | ISD_Machine opcode
  | ISD_Other nat

datatype sdnode = N (sd_opcode: sdopcode) (sd_operands: "sdnode list")

definition node_operand :: "sdnode \<Rightarrow> nat \<Rightarrow> sdnode result" where
  "node_operand n i =
     (if i < length (sd_operands n) then Inr (sd_operands n ! i)
      else Inl (AssertFailed ''Invalid child # of SDNode!''))"

section \<open>Custom lowering\<close>

text \<open>
  Values have the type \<open>i256\<close> after legalisation. \<open>resultBits\<close> is the width of the result
  type of the node that is lowered.
\<close>

definition LowerFrameIndex :: "sdnode \<Rightarrow> sdnode result" where
  "LowerFrameIndex Op =
     (case sd_opcode Op of
        ISD_FrameIndex FI \<Rightarrow> Inr (N (ISD_TargetFrameIndex FI) [])
      | _ \<Rightarrow> Inl (AssertFailed ''cast<FrameIndexSDNode>''))"

text \<open>
  The global is given with its address space, 0 by default. \<open>is_function\<close> and \<open>new_id\<close> say
  whether the global is a function and which node the graph returns for it.
\<close>

definition LowerGlobalAddress ::
    "(string \<Rightarrow> bool) \<Rightarrow> (string \<Rightarrow> nat) \<Rightarrow> sdnode \<Rightarrow> sdnode result" where
  "LowerGlobalAddress is_function node_id Op =
     (case sd_opcode Op of
        ISD_GlobalAddress g addrspace \<Rightarrow>
          if addrspace \<noteq> 0 then Inl (Unreachable ''multiple address space unimplemented'')
          else Inr (N EVMISD_WRAPPER [N (ISD_TargetGlobalAddress (node_id g) g (is_function g)) []])
      | _ \<Rightarrow> Inl (AssertFailed ''cast<GlobalAddressSDNode>''))"

definition LowerExternalSymbol :: "sdnode \<Rightarrow> sdnode result" where
  "LowerExternalSymbol Op =
     (case sd_opcode Op of
        ISD_ExternalSymbol s \<Rightarrow> Inr (N EVMISD_WRAPPER [N (ISD_TargetExternalSymbol s) []])
      | _ \<Rightarrow> Inl (AssertFailed ''cast<ExternalSymbolSDNode>''))"

definition LowerBlockAddress :: "sdnode \<Rightarrow> sdnode result" where
  "LowerBlockAddress Op =
     (case sd_opcode Op of
        ISD_BlockAddress b \<Rightarrow> Inr (N EVMISD_WRAPPER [N (ISD_TargetBlockAddress b) []])
      | _ \<Rightarrow> Inl (AssertFailed ''cast<BlockAddressSDNode>''))"

definition condcode_of :: "sdnode \<Rightarrow> condcode result" where
  "condcode_of n =
     (case sd_opcode n of ISD_CONDCODE cc \<Rightarrow> Inr cc
      | _ \<Rightarrow> Inl (AssertFailed ''cast<CondCodeSDNode>''))"

definition LowerBR_CC :: "sdnode \<Rightarrow> sdnode result" where
  "LowerBR_CC Op =
     rbind (node_operand Op 0) (\<lambda>Chain.
     rbind (rbind (node_operand Op 1) condcode_of) (\<lambda>CC.
     rbind (node_operand Op 2) (\<lambda>LHS.
     rbind (node_operand Op 3) (\<lambda>RHS.
     rbind (node_operand Op 4) (\<lambda>Dest.
       Inr (N EVMISD_BRCC [Chain, LHS, RHS, N (ISD_Constant (cc_code CC)) [], Dest]))))))"

definition LowerBR :: "sdnode \<Rightarrow> sdnode result" where
  "LowerBR Op =
     rbind (node_operand Op 0) (\<lambda>Chain.
     rbind (node_operand Op 1) (\<lambda>Dest.
       Inr (N ISD_BRIND [Chain, Dest])))"

definition LowerSELECT_CC :: "sdnode \<Rightarrow> sdnode result" where
  "LowerSELECT_CC Op =
     rbind (node_operand Op 0) (\<lambda>LHS.
     rbind (node_operand Op 1) (\<lambda>RHS.
     rbind (node_operand Op 2) (\<lambda>TrueV.
     rbind (node_operand Op 3) (\<lambda>FalseV.
     rbind (rbind (node_operand Op 4) condcode_of) (\<lambda>CC.
       Inr (N EVMISD_SELECTCC [LHS, RHS, N (ISD_Constant (cc_code CC)) [], TrueV, FalseV]))))))"

text \<open>The width is an unsigned 32-bit number, and so is \<open>32 - Width\<close>.\<close>

definition LowerSIGN_EXTEND :: "nat \<Rightarrow> sdnode \<Rightarrow> sdnode result" where
  "LowerSIGN_EXTEND resultBits Op =
     rbind (node_operand Op 0) (\<lambda>Op0.
     rbind (check_assert (resultBits = 256) ''Unhandled target sign_extend.'') (\<lambda>_.
     rbind (node_operand Op 1) (\<lambda>vt.
       case sd_opcode vt of
         ISD_VALUETYPE bits \<Rightarrow>
           Inr (N EVMISD_SIGNEXTEND
             [Op0, N (ISD_Constant (unat (32 - word_of_nat (bits div 8) :: 32 word))) []])
       | _ \<Rightarrow> Inl (AssertFailed ''cast<VTSDNode>''))))"

definition LowerOperation ::
    "(string \<Rightarrow> bool) \<Rightarrow> (string \<Rightarrow> nat) \<Rightarrow> nat \<Rightarrow> sdnode \<Rightarrow> sdnode result" where
  "LowerOperation is_function node_id resultBits Op =
     (case sd_opcode Op of
        ISD_BR \<Rightarrow> LowerBR Op
      | ISD_BR_CC \<Rightarrow> LowerBR_CC Op
      | ISD_SELECT_CC \<Rightarrow> LowerSELECT_CC Op
      | ISD_FrameIndex FI \<Rightarrow> LowerFrameIndex Op
      | ISD_SIGN_EXTEND \<Rightarrow> LowerSIGN_EXTEND resultBits Op
      | ISD_SIGN_EXTEND_INREG \<Rightarrow> LowerSIGN_EXTEND resultBits Op
      | ISD_GlobalAddress g a \<Rightarrow> LowerGlobalAddress is_function node_id Op
      | ISD_ExternalSymbol s \<Rightarrow> LowerExternalSymbol Op
      | ISD_BlockAddress b \<Rightarrow> LowerBlockAddress Op
      | _ \<Rightarrow> Inl (Unreachable ''unimplemented lowering operation,''))"

section \<open>Calls, arguments and returns\<close>

definition LowerFormalArguments ::
    "sdnode \<Rightarrow> 'i list \<Rightarrow> EVMMachineFunctionInfo \<Rightarrow> sdnode list \<Rightarrow> sdnode \<times> sdnode list \<times> EVMMachineFunctionInfo" where
  "LowerFormalArguments Chain Ins MFI InVals =
     (Chain,
      fold (\<lambda>In InVals. InVals @ [N EVMISD_STACKARG [N (ISD_TargetConstant (length InVals)) []]])
        Ins InVals,
      MFI\<lparr>NumStackArgs := length Ins\<rparr>)"

datatype calling_conv = CC_C | CC_Fast | CC_Cold | CC_Numbered nat

record output_arg =
  oa_isByVal :: bool
  oa_byValSize :: nat

record call_info =
  cli_IsVarArg :: bool
  cli_CallConv :: calling_conv
  cli_Outs :: "output_arg list"
  cli_OutVals :: "sdnode list"
  cli_numIns :: nat
  cli_Chain :: sdnode
  cli_Callee :: sdnode

text \<open>
  A by-value argument is copied to a new frame object, whose number is the next one of the
  frame, and the object is passed. The loop carries the chain, the values and the next number.
\<close>

fun byval_loop :: "output_arg list \<Rightarrow> sdnode list \<Rightarrow> sdnode \<Rightarrow> int \<Rightarrow> sdnode \<times> sdnode list" where
  "byval_loop (Out # Outs) (OutVal # OutVals) Chain nextFI =
     (if oa_isByVal Out \<and> oa_byValSize Out \<noteq> 0
      then let FINode = N (ISD_FrameIndex nextFI) [];
               Chain' = N (ISD_MEMCPY (oa_byValSize Out)) [Chain, FINode, OutVal];
               (C, vs) = byval_loop Outs OutVals Chain' (nextFI + 1)
           in (C, FINode # vs)
      else let (C, vs) = byval_loop Outs OutVals Chain nextFI in (C, OutVal # vs))"
| "byval_loop _ OutVals Chain nextFI = (Chain, OutVals)"

text \<open>
  \<open>NumBytes\<close> is the stack offset the generated calling convention \<open>CC_EVM\<close> computes. The
  operand list of the call holds the chain as it was before the copies of the loop. The
  result is the new chain and the value of the call, if it has one.
\<close>

definition LowerCall :: "call_info \<Rightarrow> nat \<Rightarrow> int \<Rightarrow> (sdnode \<times> sdnode option) result" where
  "LowerCall CLI NumBytes nextFI =
     (if cli_IsVarArg CLI then Inl (Unreachable ''unimplemented.'')
      else if cli_CallConv CLI \<noteq> CC_C \<and> cli_CallConv CLI \<noteq> CC_Fast
      then Inl (Unreachable ''Unsupported calling convention'')
      else if cli_numIns CLI > 1 then Inl (Unreachable ''unimplemented.'')
      else
        let Chain0 = N (ISD_CALLSEQ_START NumBytes) [cli_Chain CLI];
            (Chain1, OutVals) = byval_loop (cli_Outs CLI) (cli_OutVals CLI) Chain0 nextFI;
            opc = (if cli_numIns CLI = 0 then EVMISD_CALLVOID else EVMISD_CALL);
            Res = N opc ([Chain0, cli_Callee CLI] @ OutVals)
        in Inr (N (ISD_CALLSEQ_END NumBytes) [Res],
                if cli_numIns CLI = 0 then None else Some Res))"

definition CanLowerReturn :: "'o list \<Rightarrow> bool" where
  "CanLowerReturn Outs = (length Outs \<le> 1)"

definition LowerReturn :: "sdnode \<Rightarrow> 'o list \<Rightarrow> sdnode list \<Rightarrow> sdnode result" where
  "LowerReturn Chain Outs OutVals =
     rbind (check_assert (length Outs \<le> 1) ''EVM can only return up to one value'') (\<lambda>_.
       Inr (N EVMISD_RET_FLAG (Chain # OutVals)))"

section \<open>Custom selection\<close>

text \<open>
  The map \<open>GlobalSlots\<close> from nodes to byte offsets, as the list of its entries, and the
  subtarget, whose number of global slots the pass updates.
\<close>

record isel_state =
  GlobalSlots :: "(nat \<times> 64 word) list"
  is_Subtarget :: EVMSubtarget

definition SelectTargetGlobalAddress :: "sdnode \<Rightarrow> isel_state \<Rightarrow> (sdnode option \<times> isel_state) result" where
  "SelectTargetGlobalAddress Node st =
     (case sd_opcode Node of
        ISD_TargetGlobalAddress i g is_function \<Rightarrow>
          if is_function then Inr (None, st)
          else
            let (offset, st') =
              (case map_of (GlobalSlots st) i of
                 None \<Rightarrow>
                   let offset = word_of_nat (length (GlobalSlots st)) * 32;
                       slots = GlobalSlots st @ [(i, offset)]
                   in (offset, st\<lparr>GlobalSlots := slots,
                         is_Subtarget := updateAllocatedGlobalSlots (word_of_nat (length slots)) (is_Subtarget st)\<rparr>)
               | Some offset \<Rightarrow> (offset, st))
            in Inr (Some (N (ISD_Machine (R (PUSH 32))) [N (ISD_Constant (unat offset)) []]), st')
      | _ \<Rightarrow> Inl (AssertFailed ''cast<GlobalAddressSDNode>''))"

text \<open>
  \<open>1 << bytesToFill\<close> is a shift of the constant 1 of the 32-bit type \<open>int\<close>.
\<close>

definition SelectLOAD :: "sdnode \<Rightarrow> sdnode option result" where
  "SelectLOAD Node =
     (case sd_opcode Node of
        ISD_LOAD SEXTLOAD bits \<Rightarrow>
          rbind (node_operand Node 1) (\<lambda>Src.
            let bytesToShift = unat (32 - word_of_nat (bits div 8) :: 64 word);
                shift = N (ISD_Machine (R (PUSH 32))) [N (ISD_Constant bytesToShift) []];
                mload = N (ISD_Machine (R MLOAD)) [Src]
            in Inr (Some (N (ISD_Machine (R SIGNEXTEND)) [mload, shift])))
      | ISD_LOAD ZEXTLOAD bits \<Rightarrow>
          rbind (node_operand Node 1) (\<lambda>Src.
            let bytesToFill = unat (256 - word_of_nat bits :: 64 word)
            in if bytesToFill < 31
               then let push_mul = N (ISD_Machine (R (PUSH 32))) [N (ISD_Constant (2 ^ bytesToFill)) []];
                        mload = N (ISD_Machine (R MLOAD)) [Src];
                        mul = N (ISD_Machine (R MUL)) [mload, push_mul]
                    in Inr (Some (N (ISD_Machine (R DIV)) [mul, push_mul]))
               else Inl (UndefinedBehaviour ''shift count of an int''))
      | ISD_LOAD NON_EXTLOAD bits \<Rightarrow> Inr None
      | ISD_LOAD EXTLOAD bits \<Rightarrow> Inr None
      | _ \<Rightarrow> Inl (AssertFailed ''cast<LoadSDNode>''))"

definition SelectBlockAddress :: "sdnode \<Rightarrow> sdnode option result" where
  "SelectBlockAddress Node =
     (case sd_opcode Node of
        ISD_BlockAddress b \<Rightarrow>
          Inr (Some (N (ISD_Machine (R (PUSH 32))) [N (ISD_TargetBlockAddress b) []]))
      | _ \<Rightarrow> Inl (AssertFailed ''cast<BlockAddressSDNode>''))"

definition SelectSIGNEXTEND :: "sdnode \<Rightarrow> sdnode option result" where
  "SelectSIGNEXTEND Node =
     rbind (check_assert (sd_opcode Node = EVMISD_SIGNEXTEND) ''opcode == EVMISD::SIGNEXTEND'') (\<lambda>_.
     rbind (node_operand Node 0) (\<lambda>rg.
     rbind (node_operand Node 1) (\<lambda>shiftVal.
       case sd_opcode shiftVal of
         ISD_Constant c \<Rightarrow>
           if c < 2 ^ 64
           then let shift = N (ISD_Machine (R (PUSH 32))) [N (ISD_Constant c) []]
                in Inr (Some (N (ISD_Machine (R SIGNEXTEND)) [rg, shift]))
           else Inl (AssertFailed ''Too many bits for uint64_t'')
       | _ \<Rightarrow> Inl (UndefinedBehaviour ''null pointer''))))"

definition SelectCall :: "sdnode \<Rightarrow> sdnode option result" where
  "SelectCall Node =
     rbind (check_assert (sd_opcode Node = EVMISD_CALL \<or> sd_opcode Node = EVMISD_CALLVOID)
              ''opcode == EVMISD::CALL || opcode == EVMISD::CALLVOID'') (\<lambda>_.
     let mopcode = (if sd_opcode Node = EVMISD_CALLVOID then pJUMPSUBVOID_r else pJUMPSUB_r) in
     rbind (node_operand Node 0) (\<lambda>chain.
     rbind (node_operand Node 1) (\<lambda>targetWrapper.
     rbind (check_assert (sd_opcode targetWrapper = EVMISD_WRAPPER)
              ''targetWrapper.getOpcode() == EVMISD::WRAPPER'') (\<lambda>_.
     rbind (node_operand targetWrapper 0) (\<lambda>target.
     rbind (check_assert (case sd_opcode target of ISD_TargetGlobalAddress i g f \<Rightarrow> True | _ \<Rightarrow> False)
              ''target.getOpcode() == ISD::TargetGlobalAddress'') (\<lambda>_.
       let opsVec = drop 2 (sd_operands Node);
           push = N (ISD_Machine (R (PUSH 32))) [target]
       in Inr (Some (N (ISD_Machine mopcode) (opsVec @ [push, chain])))))))))"

definition SelectSETCC :: "sdnode \<Rightarrow> sdnode option result" where
  "SelectSETCC Node =
     rbind (rbind (node_operand Node 2) condcode_of) (\<lambda>cc.
       case (case cc of
               SETNE \<Rightarrow> Some EQ
             | SETUGE \<Rightarrow> Some LT
             | SETGE \<Rightarrow> Some SLT
             | SETULE \<Rightarrow> Some GT
             | SETLE \<Rightarrow> Some SGT
             | _ \<Rightarrow> None) of
         None \<Rightarrow> Inr None
       | Some firstOpcode \<Rightarrow>
           rbind (node_operand Node 0) (\<lambda>LHS.
           rbind (node_operand Node 1) (\<lambda>RHS.
             Inr (Some (N (ISD_Machine (R ISZERO)) [N (ISD_Machine (R firstOpcode)) [LHS, RHS]])))))"

text \<open>
  What replaces the node: a custom selection that succeeds, or the result of the generated
  matcher. A node that is selected already is left alone.
\<close>

definition or_select_code :: "(sdnode \<Rightarrow> sdnode) \<Rightarrow> sdnode \<Rightarrow> isel_state \<Rightarrow> sdnode option result \<Rightarrow>
    (sdnode \<times> isel_state) result" where
  "or_select_code SelectCode Node st r =
     rbind r (\<lambda>sel. Inr (case sel of Some N' \<Rightarrow> N' | None \<Rightarrow> SelectCode Node, st))"

definition Select :: "(sdnode \<Rightarrow> sdnode) \<Rightarrow> sdnode \<Rightarrow> isel_state \<Rightarrow> (sdnode \<times> isel_state) result" where
  "Select SelectCode Node st =
     (case sd_opcode Node of
        ISD_Machine opc \<Rightarrow> Inr (Node, st)
      | ISD_LOAD e bits \<Rightarrow> or_select_code SelectCode Node st (SelectLOAD Node)
      | ISD_TargetGlobalAddress i g f \<Rightarrow>
          rbind (SelectTargetGlobalAddress Node st) (\<lambda>(sel, st').
            or_select_code SelectCode Node st' (Inr sel))
      | ISD_SETCC \<Rightarrow> or_select_code SelectCode Node st (SelectSETCC Node)
      | ISD_BlockAddress b \<Rightarrow> or_select_code SelectCode Node st (SelectBlockAddress Node)
      | EVMISD_CALL \<Rightarrow> or_select_code SelectCode Node st (SelectCall Node)
      | EVMISD_CALLVOID \<Rightarrow> or_select_code SelectCode Node st (SelectCall Node)
      | EVMISD_SIGNEXTEND \<Rightarrow> or_select_code SelectCode Node st (SelectSIGNEXTEND Node)
      | _ \<Rightarrow> Inr (SelectCode Node, st))"

section \<open>The value of a node\<close>

text \<open>
  Comparisons are 0 or 1. The operands of a machine node are in the order of its stack
  operands, the first one on top, so \<open>SIGNEXTEND_r a b\<close> extends \<open>b\<close> by \<open>a + 1\<close> bytes.
\<close>

fun cc_holds :: "condcode \<Rightarrow> word256 \<Rightarrow> word256 \<Rightarrow> bool option" where
  "cc_holds SETEQ a b = Some (a = b)"
| "cc_holds SETNE a b = Some (a \<noteq> b)"
| "cc_holds SETLT a b = Some (a <s b)"
| "cc_holds SETLE a b = Some (a \<le>s b)"
| "cc_holds SETGT a b = Some (b <s a)"
| "cc_holds SETGE a b = Some (b \<le>s a)"
| "cc_holds SETULT a b = Some (a < b)"
| "cc_holds SETULE a b = Some (a \<le> b)"
| "cc_holds SETUGT a b = Some (b < a)"
| "cc_holds SETUGE a b = Some (b \<le> a)"
| "cc_holds _ a b = None"

definition machine_value :: "memory \<Rightarrow> opcode \<Rightarrow> word256 list \<Rightarrow> word256 option" where
  "machine_value m opc vs =
     (case opc of
        R b \<Rightarrow>
          (case (b, vs) of
             (PUSH n, [x]) \<Rightarrow> Some x
           | (MLOAD, [x]) \<Rightarrow> Some (mload m (unat x))
           | _ \<Rightarrow> if pure_arity b = Some (length vs) then Some (pure_value b vs) else None)
      | _ \<Rightarrow> None)"

lemma machine_values:
  "machine_value m (R (PUSH n)) [x] = Some x"
  "machine_value m (R MLOAD) [x] = Some (mload m (unat x))"
  "machine_value m (R ISZERO) [x] = Some (truth (x = 0))"
  "machine_value m (R EQ) [x, y] = Some (truth (x = y))"
  "machine_value m (R LT) [x, y] = Some (truth (x < y))"
  "machine_value m (R GT) [x, y] = Some (truth (y < x))"
  "machine_value m (R SLT) [x, y] = Some (truth (x <s y))"
  "machine_value m (R SGT) [x, y] = Some (truth (y <s x))"
  "machine_value m (R MUL) [x, y] = Some (x * y)"
  "machine_value m (R DIV) [x, y] = Some (x div y)"
  "machine_value m (R SIGNEXTEND) [x, y] = Some (evm_signextend x y)"
  by (simp_all add: machine_value_def pure_arity_def pure_values)

definition node_value :: "memory \<Rightarrow> sdopcode \<Rightarrow> word256 list \<Rightarrow> word256 option" where
  "node_value m opc vs =
     (case opc of
        ISD_Constant c \<Rightarrow> Some (word_of_nat c)
      | ISD_Machine mo \<Rightarrow> machine_value m mo vs
      | _ \<Rightarrow> None)"

fun eval_node :: "(reg \<Rightarrow> word256) \<Rightarrow> memory \<Rightarrow> sdnode \<Rightarrow> word256 option" where
  "eval_node \<rho> m (N opc args) =
     (let vs = map (eval_node \<rho> m) args in
      case opc of
        ISD_CopyFromReg r \<Rightarrow> Some (\<rho> r)
      | ISD_SETCC \<Rightarrow>
          (case (vs, map sd_opcode args) of
             ([Some x, Some y, _], [_, _, ISD_CONDCODE cc]) \<Rightarrow> map_option truth (cc_holds cc x y)
           | _ \<Rightarrow> None)
      | _ \<Rightarrow> if None \<in> set vs then None else node_value m opc (map the vs))"

lemma not_signed_less: "\<not> (a <s b) \<longleftrightarrow> b \<le>s (a :: word256)"
  by (simp add: word_sless_alt word_sle_eq not_less)

text \<open>The comparisons with no instruction of their own.\<close>

lemma SelectSETCC_value:
  assumes "SelectSETCC (N ISD_SETCC [l, r, N (ISD_CONDCODE cc) []]) = Inr (Some Node')"
  shows "eval_node \<rho> m Node' = eval_node \<rho> m (N ISD_SETCC [l, r, N (ISD_CONDCODE cc) []])"
  using assms
  by (cases cc; cases "eval_node \<rho> m l"; cases "eval_node \<rho> m r")
    (auto simp: SelectSETCC_def node_operand_def condcode_of_def node_value_def machine_values truth_def
      not_signed_less not_less Let_def)

end
