(* ===== verification/SelectCC.thy ===== *)
theory SelectCC
  imports InstructionSelection ExpandPseudos
begin

text \<open>
  The custom inserter for \<open>Selectcc\<close> (\<open>insertSELECTCC\<close> and \<open>EmitInstrWithCustomInserter\<close> of
  \<open>EVMISelLowering.cpp\<close>), which splits a block into a diamond. Blocks are created in the
  middle of the layout here, so a function is a map from block numbers to blocks with the
  layout as a list of numbers. \<open>FallThrough\<close>, the block \<open>MBB\<close> falls through to, comes from
  the generic \<open>MachineBasicBlock::getFallThrough\<close> and is an argument.
\<close>

section \<open>The inserter\<close>

record cfg =
  cf_order :: "nat list"
  cf_block :: "nat \<Rightarrow> mbb"
  cf_next :: nat
  cf_vregs :: nat

abbreviation JUMPTO_MI :: "nat \<Rightarrow> minstr" where
  "JUMPTO_MI b \<equiv> MI pJUMPTO_r [MO_MachineBasicBlock b]"

text \<open>
  The comparison: a single instruction, or the opposite comparison and \<open>ISZERO\<close>. The result
  register is created first; the second register only where it is needed.
\<close>

definition compare_code :: "int \<Rightarrow> reg \<Rightarrow> reg \<Rightarrow> nat \<Rightarrow> (minstr list \<times> nat) result" where
  "compare_code CC LHS RHS n =
     (let rvreg = VReg n; rg = VReg (n + 1);
          direct = (\<lambda>b. Inr ([MI (R b) [defOf rvreg, useOf LHS, useOf RHS]], n + 1));
          negated = (\<lambda>b. Inr ([MI (R b) [defOf rg, useOf LHS, useOf RHS],
                               MI (R ISZERO) [defOf rvreg, useOf rg]], n + 2))
      in if CC = int (cc_code SETEQ) then direct EQ
         else if CC = int (cc_code SETNE) then negated EQ
         else if CC = int (cc_code SETLT) then direct SLT
         else if CC = int (cc_code SETLE) then negated SGT
         else if CC = int (cc_code SETGT) then direct SGT
         else if CC = int (cc_code SETGE) then negated SLT
         else if CC = int (cc_code SETULT) then direct LT
         else if CC = int (cc_code SETULE) then negated GT
         else if CC = int (cc_code SETUGT) then direct GT
         else if CC = int (cc_code SETUGE) then negated LT
         else Inl (Unreachable ''unimplemented.''))"

definition insert_after :: "nat \<Rightarrow> nat list \<Rightarrow> nat list \<Rightarrow> nat list" where
  "insert_after b new order =
     takeWhile (\<lambda>x. x \<noteq> b) order @
       (case dropWhile (\<lambda>x. x \<noteq> b) order of [] \<Rightarrow> new | x # rest \<Rightarrow> x # new @ rest)"

text \<open>\<open>replacePhiUsesWith\<close>, and the change of the predecessor.\<close>

definition replace_phi_uses :: "nat \<Rightarrow> nat \<Rightarrow> minstr \<Rightarrow> minstr" where
  "replace_phi_uses old new mi =
     (if mi_opcode mi = PHI
      then mi\<lparr>mi_operands := map (\<lambda>mo. if mo = MO_MachineBasicBlock old
                                       then MO_MachineBasicBlock new else mo) (mi_operands mi)\<rparr>
      else mi)"

definition transfer_pred :: "nat \<Rightarrow> nat \<Rightarrow> mbb \<Rightarrow> mbb" where
  "transfer_pred old new b =
     b\<lparr>mbb_preds := map (\<lambda>p. if p = old then new else p) (mbb_preds b),
       mbb_instrs := map (replace_phi_uses old new) (mbb_instrs b)\<rparr>"

definition insertSELECTCC :: "nat option \<Rightarrow> nat \<Rightarrow> nat \<Rightarrow> cfg \<Rightarrow> (nat \<times> cfg) result" where
  "insertSELECTCC FallThrough MBB i C =
     (let b = cf_block C MBB;
          instrs = mbb_instrs b @ (case FallThrough of None \<Rightarrow> [] | Some ft \<Rightarrow> [JUMPTO_MI ft]);
          mi = instrs ! i;
          trueMBB = cf_next C; falseMBB = cf_next C + 1;
          blocks = fold (\<lambda>s bs. bs(s := transfer_pred MBB trueMBB (bs s))) (mbb_succs b)
                     ((cf_block C)(MBB := b\<lparr>mbb_instrs := take i instrs\<rparr>))
      in if length instrs \<le> i then Inl (UndefinedBehaviour ''no instruction'')
      else
        rbind (rbind (getOperand mi 0) getRegister) (\<lambda>SelectedValue.
        rbind (rbind (getOperand mi 1) getRegister) (\<lambda>LHS.
        rbind (rbind (getOperand mi 2) getRegister) (\<lambda>RHS.
        rbind (rbind (getOperand mi 3) getImm) (\<lambda>CC.
        rbind (compare_code CC LHS RHS (cf_vregs C)) (\<lambda>(cmp, n).
        let rvreg = VReg (cf_vregs C);
            m = blocks MBB;
            m' = m\<lparr>mbb_instrs := mbb_instrs m @ cmp @
                     [MI pJUMPIF_r [useOf rvreg, MO_MachineBasicBlock trueMBB], JUMPTO_MI falseMBB],
                   mbb_succs := [falseMBB, trueMBB]\<rparr>;
            phi = MI PHI [defOf SelectedValue, useOf LHS, MO_MachineBasicBlock MBB,
                          useOf RHS, MO_MachineBasicBlock falseMBB];
            t = \<lparr>mbb_instrs = phi # drop (Suc i) instrs, mbb_preds = [MBB, falseMBB],
                 mbb_succs = mbb_succs b\<rparr>;
            f = \<lparr>mbb_instrs = [JUMPTO_MI trueMBB], mbb_preds = [MBB], mbb_succs = [trueMBB]\<rparr>
        in Inr (trueMBB,
             C\<lparr>cf_order := insert_after MBB [falseMBB, trueMBB] (cf_order C),
               cf_block := blocks(MBB := m', falseMBB := f, trueMBB := t),
               cf_next := cf_next C + 2, cf_vregs := n\<rparr>)))))))"

definition EmitInstrWithCustomInserter ::
    "nat option \<Rightarrow> nat \<Rightarrow> nat \<Rightarrow> cfg \<Rightarrow> (nat \<times> cfg) result" where
  "EmitInstrWithCustomInserter FallThrough MBB i C =
     (if i < length (mbb_instrs (cf_block C MBB)) \<and>
         mi_opcode (mbb_instrs (cf_block C MBB) ! i) = Selectcc
      then insertSELECTCC FallThrough MBB i C
      else Inl (Unreachable ''unimplemented.''))"

section \<open>Running the diamond\<close>

text \<open>
  Comparisons and jumps on a register file. A run of a block ends at the first jump that is
  taken; a \<open>PHI\<close> has the value of the register for the block it is entered from.
\<close>

definition exec_cmp :: "minstr \<Rightarrow> (reg \<Rightarrow> word256) \<Rightarrow> (reg \<Rightarrow> word256) option" where
  "exec_cmp mi \<rho> =
     (case mi_operands mi of
        MO_Register d True # uses \<Rightarrow>
          map_option (\<lambda>v. \<rho>(d := v)) (machine_value (\<lambda>_. 0) (mi_opcode mi) (map (\<lambda>u. \<rho> (getReg u)) uses))
      | _ \<Rightarrow> None)"

fun run_to_jump :: "minstr list \<Rightarrow> (reg \<Rightarrow> word256) \<Rightarrow> ((reg \<Rightarrow> word256) \<times> nat) option" where
  "run_to_jump [] \<rho> = None"
| "run_to_jump (mi # mis) \<rho> =
     (if mi_opcode mi = pJUMPTO_r
      then (case mi_operands mi of [MO_MachineBasicBlock b] \<Rightarrow> Some (\<rho>, b) | _ \<Rightarrow> None)
      else if mi_opcode mi = pJUMPIF_r
      then (case mi_operands mi of
              [MO_Register c False, MO_MachineBasicBlock b] \<Rightarrow>
                if \<rho> c \<noteq> 0 then Some (\<rho>, b) else run_to_jump mis \<rho>
            | _ \<Rightarrow> None)
      else case exec_cmp mi \<rho> of None \<Rightarrow> None | Some \<rho>' \<Rightarrow> run_to_jump mis \<rho>')"

fun phi_value :: "nat \<Rightarrow> operand list \<Rightarrow> (reg \<Rightarrow> word256) \<Rightarrow> word256 option" where
  "phi_value from (MO_Register r False # MO_MachineBasicBlock b # rest) \<rho> =
     (if b = from then Some (\<rho> r) else phi_value from rest \<rho>)"
| "phi_value from _ \<rho> = None"

lemma cc_code_simps [simp]:
  "cc_code SETEQ = 17" "cc_code SETNE = 22" "cc_code SETLT = 20" "cc_code SETLE = 21"
  "cc_code SETGT = 18" "cc_code SETGE = 19" "cc_code SETULT = 12" "cc_code SETULE = 13"
  "cc_code SETUGT = 10" "cc_code SETUGE = 11"
  by (simp_all add: cc_code_def condcodes_def)

lemma truth_eq [simp]: "truth b = 0 \<longleftrightarrow> \<not> b" "truth b = 1 \<longleftrightarrow> b"
  by (simp_all add: truth_def)

text \<open>Code that leaves a truth value in register \<open>n\<close>, with register \<open>n + 1\<close> as scratch.\<close>

definition computes :: "minstr list \<Rightarrow> nat \<Rightarrow> (reg \<Rightarrow> word256) \<Rightarrow> bool \<Rightarrow> bool" where
  "computes code n \<rho> v \<longleftrightarrow>
     (\<exists>\<rho>'. (\<forall>rest. run_to_jump (code @ rest) \<rho> = run_to_jump rest \<rho>') \<and> \<rho>' (VReg n) = truth v \<and>
       (\<forall>q. q \<noteq> VReg n \<longrightarrow> q \<noteq> VReg (n + 1) \<longrightarrow> \<rho>' q = \<rho> q))"

lemma computes_direct:
  "machine_value (\<lambda>_. 0) (R b) [\<rho> l, \<rho> r] = Some (truth v) \<Longrightarrow>
   computes [MI (R b) [defOf (VReg n), useOf l, useOf r]] n \<rho> v"
  unfolding computes_def by (intro exI [of _ "\<rho>(VReg n := truth v)"]) (simp add: exec_cmp_def)

lemma computes_negated:
  "machine_value (\<lambda>_. 0) (R b) [\<rho> l, \<rho> r] = Some (truth v) \<Longrightarrow>
   computes [MI (R b) [defOf (VReg (n + 1)), useOf l, useOf r],
     MI (R ISZERO) [defOf (VReg n), useOf (VReg (n + 1))]] n \<rho> (\<not> v)"
  unfolding computes_def
  by (intro exI [of _ "\<rho>(VReg (n + 1) := truth v, VReg n := truth (\<not> v))"])
     (simp add: exec_cmp_def machine_values)

text \<open>The ten comparisons of integers are implemented, and the jump is taken when they hold.\<close>

lemma compare_code_run:
  assumes "cc_holds cc (\<rho> l) (\<rho> r) = Some c"
  shows "\<exists>code n'. compare_code (int (cc_code cc)) l r n = Inr (code, n') \<and> computes code n \<rho> c"
proof (cases cc)
  case SETNE
  with assms computes_negated [of EQ \<rho> l r "\<rho> l = \<rho> r" n] show ?thesis
    by (simp add: compare_code_def Let_def machine_values)
next
  case SETLE
  with assms computes_negated [of SGT \<rho> l r "\<rho> r <s \<rho> l" n] show ?thesis
    by (simp add: compare_code_def Let_def machine_values not_signed_less)
next
  case SETGE
  with assms computes_negated [of SLT \<rho> l r "\<rho> l <s \<rho> r" n] show ?thesis
    by (simp add: compare_code_def Let_def machine_values not_signed_less)
next
  case SETULE
  with assms computes_negated [of GT \<rho> l r "\<rho> r < \<rho> l" n] show ?thesis
    by (simp add: compare_code_def Let_def machine_values not_less)
next
  case SETUGE
  with assms computes_negated [of LT \<rho> l r "\<rho> l < \<rho> r" n] show ?thesis
    by (simp add: compare_code_def Let_def machine_values not_less)
qed (use assms in \<open>auto simp: compare_code_def Let_def machine_values intro!: computes_direct\<close>)

text \<open>
  What the diamond computes: control goes from \<open>MBB\<close> to the block with the \<open>PHI\<close>, directly
  when the condition holds and through the empty block otherwise, and the \<open>PHI\<close> selects
  between the two operands of the comparison.
\<close>

lemma insertSELECTCC_selects:
  assumes sel: "mbb_instrs (cf_block C MBB) = before @ [MI Selectcc
      [defOf d, useOf l, useOf r, MO_Immediate (int (cc_code cc)), useOf tv, useOf fv]] @ rest"
    and cc: "cc_holds cc (\<rho> l) (\<rho> r) = Some c"
    and fresh: "l \<notin> {VReg (cf_vregs C), VReg (cf_vregs C + 1)}" "r \<notin> {VReg (cf_vregs C), VReg (cf_vregs C + 1)}"
    and blk: "MBB < cf_next C" and succs: "MBB \<notin> set (mbb_succs (cf_block C MBB))"
  shows "\<exists>C' code. EmitInstrWithCustomInserter ft MBB (length before) C = Inr (cf_next C, C') \<and>
    mbb_instrs (cf_block C' MBB) = before @ code \<and>
    (\<exists>\<rho>' ops. run_to_jump code \<rho> = Some (\<rho>', if c then cf_next C else cf_next C + 1) \<and>
      run_to_jump (mbb_instrs (cf_block C' (cf_next C + 1))) \<rho>' = Some (\<rho>', cf_next C) \<and>
      mi_opcode (hd (mbb_instrs (cf_block C' (cf_next C)))) = PHI \<and>
      mi_operands (hd (mbb_instrs (cf_block C' (cf_next C)))) = defOf d # ops \<and>
      phi_value (if c then MBB else cf_next C + 1) ops \<rho>' = Some (if c then \<rho> l else \<rho> r))"
proof -
  let ?n = "cf_vregs C"
  obtain cmp n' \<rho>' where cmp: "compare_code (int (cc_code cc)) l r ?n = Inr (cmp, n')"
    and run: "\<And>rest. run_to_jump (cmp @ rest) \<rho> = run_to_jump rest \<rho>'"
    and v: "\<rho>' (VReg ?n) = truth c"
    and same: "\<And>q. q \<noteq> VReg ?n \<Longrightarrow> q \<noteq> VReg (?n + 1) \<Longrightarrow> \<rho>' q = \<rho> q"
    using compare_code_run [OF cc, of ?n] by (auto simp: computes_def)
  have keep: "fold (\<lambda>s bs. bs(s := transfer_pred MBB (cf_next C) (bs s))) ss bs MBB = bs MBB"
    if "MBB \<notin> set ss" for ss bs
    using that by (induction ss arbitrary: bs) auto
  have "\<rho>' l = \<rho> l" "\<rho>' r = \<rho> r" using same fresh by auto
  then show ?thesis
    using blk run v keep [OF succs]
    by (auto simp: EmitInstrWithCustomInserter_def insertSELECTCC_def Let_def sel getOperand_def
        nth_append cmp append_assoc simp del: append_assoc)
qed

end
