(* ===== verification/SelectionProperties.thy ===== *)
theory SelectionProperties
  imports SelectCC
begin

text \<open>
  The properties of instruction selection: comparisons, the select diamond, calls, the slots
  of global variables, and extensions.
\<close>

section \<open>Comparisons and selects\<close>

text \<open>
  C21: each of the five comparisons the EVM has no instruction for (\<open>SETNE\<close>, \<open>SETGE\<close>, \<open>SETLE\<close>,
  \<open>SETUGE\<close>, \<open>SETULE\<close>) is selected as \<open>ISZERO\<close> of one comparison instruction of the EVM on the
  same operands in the same order, and this has the value of the comparison whatever the
  operands are. Every other condition is left to the generated matcher.
\<close>

theorem selected_comparison_value:
  "if cc \<in> {SETNE, SETGE, SETLE, SETUGE, SETULE}
   then \<exists>b. b \<in> {EQ, LT, GT, SLT, SGT} \<and>
     SelectSETCC (N ISD_SETCC [l, r, N (ISD_CONDCODE cc) []]) =
       Inr (Some (N (ISD_Machine (R ISZERO)) [N (ISD_Machine (R b)) [l, r]])) \<and>
     (\<forall>\<rho> m. eval_node \<rho> m (N (ISD_Machine (R ISZERO)) [N (ISD_Machine (R b)) [l, r]]) =
             eval_node \<rho> m (N ISD_SETCC [l, r, N (ISD_CONDCODE cc) []]))
   else SelectSETCC (N ISD_SETCC [l, r, N (ISD_CONDCODE cc) []]) = Inr None"
proof (cases "cc \<in> {SETNE, SETGE, SETLE, SETUGE, SETULE}")
  case True
  then have "\<exists>b. b \<in> {EQ, LT, GT, SLT, SGT} \<and> SelectSETCC (N ISD_SETCC [l, r, N (ISD_CONDCODE cc) []]) =
      Inr (Some (N (ISD_Machine (R ISZERO)) [N (ISD_Machine (R b)) [l, r]]))"
    by (cases cc) (simp_all add: SelectSETCC_def node_operand_def condcode_of_def)
  then obtain b where b: "b \<in> {EQ, LT, GT, SLT, SGT}" and s: "SelectSETCC (N ISD_SETCC [l, r, N (ISD_CONDCODE cc) []]) =
      Inr (Some (N (ISD_Machine (R ISZERO)) [N (ISD_Machine (R b)) [l, r]]))" by blast
  from SelectSETCC_value [OF s] show ?thesis
    unfolding if_P [OF True] by (intro exI [of _ b] conjI allI b s)
next
  case False
  then have "SelectSETCC (N ISD_SETCC [l, r, N (ISD_CONDCODE cc) []]) = Inr None"
    by (cases cc) (simp_all add: SelectSETCC_def node_operand_def condcode_of_def)
  then show ?thesis unfolding if_not_P [OF False] .
qed

theorem selected_comparison_value_witness:
  "\<exists>Node'. SelectSETCC (N ISD_SETCC [N (ISD_CopyFromReg (VReg 0)) [], N (ISD_Constant 7) [],
      N (ISD_CONDCODE SETULE) []]) = Inr (Some Node') \<and>
    eval_node (\<lambda>_. 3) (\<lambda>_. 0) Node' = Some 1"
proof -
  let ?n = "N ISD_SETCC [N (ISD_CopyFromReg (VReg 0)) [], N (ISD_Constant 7) [], N (ISD_CONDCODE SETULE) []]"
  obtain b where s: "SelectSETCC ?n = Inr (Some (N (ISD_Machine (R ISZERO))
      [N (ISD_Machine (R b)) [N (ISD_CopyFromReg (VReg 0)) [], N (ISD_Constant 7) []]]))"
    and v: "eval_node (\<lambda>_. 3) (\<lambda>_. 0) (N (ISD_Machine (R ISZERO))
      [N (ISD_Machine (R b)) [N (ISD_CopyFromReg (VReg 0)) [], N (ISD_Constant 7) []]]) = eval_node (\<lambda>_. 3) (\<lambda>_. 0) ?n"
    using selected_comparison_value [of SETULE "N (ISD_CopyFromReg (VReg 0)) []" "N (ISD_Constant 7) []"]
    by (simp del: eval_node.simps) blast
  have "(3 :: word256) \<le> 7" by (simp add: word_le_nat_alt)
  then have "eval_node (\<lambda>_. 3) (\<lambda>_. 0) ?n = Some 1" by (simp add: node_value_def truth_def)
  with s v show ?thesis by (intro exI conjI) (assumption, simp only:)
qed

text \<open>
  The diamond a conditional select is expanded into branches on its comparison, for all
  ten comparisons of integers, and joins in the block that holds the rest of the code. The
  value it selects there is an operand of the comparison: the first one when the comparison
  holds, the second one otherwise. The two values the select was given, \<open>tv\<close> and \<open>fv\<close>, are
  not used.
\<close>

lemma select_diamond_value:
  assumes "mbb_instrs (cf_block C MBB) = before @ [MI Selectcc
      [defOf d, useOf l, useOf r, MO_Immediate (int (cc_code cc)), useOf tv, useOf fv]] @ rest"
    and "cc_holds cc (\<rho> l) (\<rho> r) = Some c"
    and "l \<notin> {VReg (cf_vregs C), VReg (cf_vregs C + 1)}" "r \<notin> {VReg (cf_vregs C), VReg (cf_vregs C + 1)}"
    and "MBB < cf_next C" and "MBB \<notin> set (mbb_succs (cf_block C MBB))"
  shows "\<exists>C' code. EmitInstrWithCustomInserter ft MBB (length before) C = Inr (cf_next C, C') \<and>
    mbb_instrs (cf_block C' MBB) = before @ code \<and>
    (\<exists>\<rho>' ops. run_to_jump code \<rho> = Some (\<rho>', if c then cf_next C else cf_next C + 1) \<and>
      run_to_jump (mbb_instrs (cf_block C' (cf_next C + 1))) \<rho>' = Some (\<rho>', cf_next C) \<and>
      mi_opcode (hd (mbb_instrs (cf_block C' (cf_next C)))) = PHI \<and>
      mi_operands (hd (mbb_instrs (cf_block C' (cf_next C)))) = defOf d # ops \<and>
      phi_value (if c then MBB else cf_next C + 1) ops \<rho>' = Some (if c then \<rho> l else \<rho> r))"
  using assms by (rule insertSELECTCC_selects)

definition ex_select :: cfg where
  "ex_select = \<lparr>cf_order = [0], cf_block = (\<lambda>_. \<lparr>mbb_instrs =
     [MI Selectcc [defOf (VReg 4), useOf (VReg 0), useOf (VReg 1), MO_Immediate (int (cc_code SETULT)),
        useOf (VReg 2), useOf (VReg 3)]], mbb_preds = [], mbb_succs = []\<rparr>),
     cf_next = 1, cf_vregs = 5\<rparr>"

lemma select_diamond_value_witness:
  "\<exists>C' \<rho>' ops. EmitInstrWithCustomInserter None 0 0 ex_select = Inr (1, C') \<and>
    run_to_jump (mbb_instrs (cf_block C' 0)) (\<lambda>r. if r = VReg 0 then 3 else 5) = Some (\<rho>', 1) \<and>
    mi_operands (hd (mbb_instrs (cf_block C' 1))) = defOf (VReg 4) # ops \<and>
    phi_value 0 ops \<rho>' = Some 3"
proof -
  let ?\<rho> = "\<lambda>r. if r = VReg 0 then 3 else 5 :: word256"
  have lt: "(3 :: word256) < 5" by (simp add: word_less_nat_alt)
  then have c: "cc_holds SETULT (?\<rho> (VReg 0)) (?\<rho> (VReg 1)) = Some True" by simp
  have "mbb_instrs (cf_block ex_select 0) = [] @ [MI Selectcc [defOf (VReg 4), useOf (VReg 0),
      useOf (VReg 1), MO_Immediate (int (cc_code SETULT)), useOf (VReg 2), useOf (VReg 3)]] @ []"
    by (simp add: ex_select_def)
  from select_diamond_value [OF this c, of None] show ?thesis
    by (simp add: ex_select_def) metis
qed

section \<open>Calls\<close>

text \<open>
  A direct call of a function with a fixed number of arguments, none of them by value, with the
  conventions C or Fast and at most one result, is lowered and selected to a machine call whose
  operands are the arguments in order, then the address of the callee, the operand order the
  calling sequence relies on.
\<close>

lemma call_operand_order:
  assumes "\<not> cli_IsVarArg CLI" and "cli_CallConv CLI = CC_C \<or> cli_CallConv CLI = CC_Fast"
    and "cli_numIns CLI \<le> 1" and "list_all (\<lambda>o'. \<not> oa_isByVal o') (cli_Outs CLI)"
    and "cli_Callee CLI = N EVMISD_WRAPPER [N (ISD_TargetGlobalAddress i g fn) []]"
  shows "\<exists>call res. LowerCall CLI nb fi = Inr (N (ISD_CALLSEQ_END nb) [call], res) \<and>
    (\<forall>SelectCode st. Select SelectCode call st =
      Inr (N (ISD_Machine (if cli_numIns CLI = 0 then pJUMPSUBVOID_r else pJUMPSUB_r))
        (cli_OutVals CLI @
         [N (ISD_Machine (R (PUSH 32))) [N (ISD_TargetGlobalAddress i g fn) []],
          N (ISD_CALLSEQ_START nb) [cli_Chain CLI]]), st))"
proof -
  have byval: "byval_loop Outs OutVals Chain k = (Chain, OutVals)"
    if "list_all (\<lambda>o'. \<not> oa_isByVal o') Outs" for Outs OutVals Chain k
    using that by (induction Outs OutVals Chain k rule: byval_loop.induct) auto
  show ?thesis
    using assms byval
    by (auto simp: LowerCall_def Let_def Select_def SelectCall_def or_select_code_def node_operand_def)
qed

definition ex_call :: call_info where
  "ex_call = \<lparr>cli_IsVarArg = False, cli_CallConv = CC_C, cli_Outs = [\<lparr>oa_isByVal = False, oa_byValSize = 0\<rparr>],
     cli_OutVals = [N (ISD_CopyFromReg (VReg 0)) []], cli_numIns = 1, cli_Chain = N ISD_EntryToken [],
     cli_Callee = N EVMISD_WRAPPER [N (ISD_TargetGlobalAddress 0 ''callee'' True) []]\<rparr>"

lemma call_operand_order_witness:
  "\<exists>call res. LowerCall ex_call 0 0 = Inr (N (ISD_CALLSEQ_END 0) [call], res) \<and>
    Select id call \<lparr>GlobalSlots = [], is_Subtarget = \<lparr>HasSubroutine = False, AllocatedGlobalSlots = 0\<rparr>\<rparr> =
      Inr (N (ISD_Machine pJUMPSUB_r)
        [N (ISD_CopyFromReg (VReg 0)) [],
         N (ISD_Machine (R (PUSH 32))) [N (ISD_TargetGlobalAddress 0 ''callee'' True) []],
         N (ISD_CALLSEQ_START 0) [N ISD_EntryToken []]],
       \<lparr>GlobalSlots = [], is_Subtarget = \<lparr>HasSubroutine = False, AllocatedGlobalSlots = 0\<rparr>\<rparr>)"
  using call_operand_order [of ex_call 0 "''callee''" True 0 0] by (simp add: ex_call_def) blast

text \<open>A node from which a copy of memory is reachable.\<close>

fun has_memcpy :: "sdnode \<Rightarrow> bool" where
  "has_memcpy (N opc args) =
     ((case opc of ISD_MEMCPY k \<Rightarrow> True | _ \<Rightarrow> False) \<or> (\<exists>a \<in> set args. has_memcpy a))"

lemma byval_loop_no_memcpy:
  "list_all (\<lambda>v. \<not> has_memcpy v) OutVals \<Longrightarrow>
   list_all (\<lambda>v. \<not> has_memcpy v) (snd (byval_loop Outs OutVals Chain k))"
  by (induction Outs OutVals Chain k rule: byval_loop.induct) (auto simp: Let_def split: prod.splits)

text \<open>
  The copy of an argument passed by value is never made. The call takes the chain as it
  was before the copies, so the nodes that copy are reachable from neither the chain nor the
  value of the call.
\<close>

lemma byval_copy_unreachable:
  assumes "LowerCall CLI nb fi = Inr (Chain, res)"
    and "\<not> has_memcpy (cli_Chain CLI)" and "\<not> has_memcpy (cli_Callee CLI)"
    and "list_all (\<lambda>v. \<not> has_memcpy v) (cli_OutVals CLI)"
  shows "\<not> has_memcpy Chain \<and> (\<forall>v. res = Some v \<longrightarrow> \<not> has_memcpy v)"
proof -
  let ?C = "N (ISD_CALLSEQ_START nb) [cli_Chain CLI]"
  have "list_all (\<lambda>v. \<not> has_memcpy v) (snd (byval_loop (cli_Outs CLI) (cli_OutVals CLI) ?C fi))"
    using assms(4) by (rule byval_loop_no_memcpy)
  then show ?thesis
    using assms(1-3)
    by (auto simp: LowerCall_def Let_def list_all_iff split: if_splits prod.splits)
qed

lemma byval_copy_unreachable_witness:
  "\<exists>Chain res. LowerCall (ex_call\<lparr>cli_Outs := [\<lparr>oa_isByVal = True, oa_byValSize = 64\<rparr>]\<rparr>) 0 0 = Inr (Chain, res) \<and>
    \<not> has_memcpy Chain"
proof -
  let ?c = "ex_call\<lparr>cli_Outs := [\<lparr>oa_isByVal = True, oa_byValSize = 64\<rparr>]\<rparr>"
  have "is_ok (LowerCall ?c 0 0)" by code_simp
  then obtain Chain res where l: "LowerCall ?c 0 0 = Inr (Chain, res)" by (auto simp: is_ok_iff)
  from byval_copy_unreachable [OF l] l show ?thesis by (simp add: ex_call_def)
qed

section \<open>Global variables\<close>

text \<open>
  The slots of the global variables are numbered in the order in which their nodes are
  first selected, and the subtarget knows their number, from which the frame pointer is
  computed.
\<close>

definition global_slots_ok :: "isel_state \<Rightarrow> bool" where
  "global_slots_ok st \<longleftrightarrow>
     map snd (GlobalSlots st) = map (\<lambda>k. word_of_nat k * 32) [0..<length (GlobalSlots st)] \<and>
     distinct (map fst (GlobalSlots st)) \<and>
     AllocatedGlobalSlots (is_Subtarget st) = word_of_nat (length (GlobalSlots st))"

lemma select_new_global:
  assumes "map_of (GlobalSlots st) i = None"
  shows "SelectTargetGlobalAddress (N (ISD_TargetGlobalAddress i g False) []) st =
    Inr (Some (N (ISD_Machine (R (PUSH 32)))
           [N (ISD_Constant (unat (word_of_nat (length (GlobalSlots st)) * 32 :: 64 word))) []]),
         st\<lparr>GlobalSlots := GlobalSlots st @ [(i, word_of_nat (length (GlobalSlots st)) * 32)],
            is_Subtarget := updateAllocatedGlobalSlots (word_of_nat (Suc (length (GlobalSlots st)))) (is_Subtarget st)\<rparr>)"
  using assms by (simp add: SelectTargetGlobalAddress_def Let_def)

text \<open>
  Selecting the address of a global variable keeps the numbering of the slots: the slots
  lie one word apart from address 0 on, each node has its own, and the number of slots the
  frame pointer is computed from is the number of slots handed out.
\<close>

lemma global_slots_numbered:
  assumes "global_slots_ok st"
  shows "\<exists>sel st'. SelectTargetGlobalAddress (N (ISD_TargetGlobalAddress i g fn) []) st = Inr (sel, st') \<and>
    global_slots_ok st'"
proof (cases "fn \<or> map_of (GlobalSlots st) i \<noteq> None")
  case True
  with assms show ?thesis by (auto simp: SelectTargetGlobalAddress_def Let_def split: option.splits)
next
  case False
  then have "i \<notin> fst ` set (GlobalSlots st)" by (simp add: map_of_eq_None_iff)
  with assms have "global_slots_ok (st\<lparr>GlobalSlots := GlobalSlots st @ [(i, word_of_nat (length (GlobalSlots st)) * 32)],
      is_Subtarget := updateAllocatedGlobalSlots (word_of_nat (Suc (length (GlobalSlots st)))) (is_Subtarget st)\<rparr>)"
    by (simp add: global_slots_ok_def updateAllocatedGlobalSlots_def)
  with False select_new_global [of st i g] show ?thesis by auto
qed

definition ex_isel :: isel_state where
  "ex_isel = \<lparr>GlobalSlots = [], is_Subtarget = \<lparr>HasSubroutine = False, AllocatedGlobalSlots = 0\<rparr>\<rparr>"

lemma global_slots_numbered_witness:
  "\<exists>sel st'. SelectTargetGlobalAddress (N (ISD_TargetGlobalAddress 4 ''x'' False) []) ex_isel = Inr (sel, st') \<and>
    global_slots_ok st'"
  by (rule global_slots_numbered) (simp add: global_slots_ok_def ex_isel_def)

text \<open>
  The slot belongs to the node and not to the variable. Two nodes for the same global
  variable, as two basic blocks that mention it have them, get two different addresses.
\<close>

lemma global_variable_two_addresses:
  assumes "map_of (GlobalSlots st) i = None" and "map_of (GlobalSlots st) j = None" and "i \<noteq> j"
    and "length (GlobalSlots st) + 1 < 2 ^ 59"
  shows "\<exists>a b st1 st2.
    SelectTargetGlobalAddress (N (ISD_TargetGlobalAddress i g False) []) st =
      Inr (Some (N (ISD_Machine (R (PUSH 32))) [N (ISD_Constant a) []]), st1) \<and>
    SelectTargetGlobalAddress (N (ISD_TargetGlobalAddress j g False) []) st1 =
      Inr (Some (N (ISD_Machine (R (PUSH 32))) [N (ISD_Constant b) []]), st2) \<and> a \<noteq> b"
proof -
  let ?k = "length (GlobalSlots st)"
  let ?st1 = "st\<lparr>GlobalSlots := GlobalSlots st @ [(i, word_of_nat ?k * 32)],
      is_Subtarget := updateAllocatedGlobalSlots (word_of_nat (Suc ?k)) (is_Subtarget st)\<rparr>"
  have slot: "unat (word_of_nat k * 32 :: 64 word) = 32 * k" if "k < 2 ^ 59" for k
    using that by (simp add: unat_word_ariths unat_of_nat take_bit_nat_eq_self)
  have "map_of (GlobalSlots ?st1) j = None" using assms(2,3) by (simp add: map_add_def)
  from select_new_global [OF this, of g] select_new_global [OF assms(1), of g]
    slot [of ?k] slot [of "Suc ?k"] assms(4) show ?thesis
    by (simp del: of_nat_Suc)
qed

lemma global_variable_two_addresses_witness:
  "\<exists>a b st1 st2.
    SelectTargetGlobalAddress (N (ISD_TargetGlobalAddress 4 ''x'' False) []) ex_isel =
      Inr (Some (N (ISD_Machine (R (PUSH 32))) [N (ISD_Constant a) []]), st1) \<and>
    SelectTargetGlobalAddress (N (ISD_TargetGlobalAddress 5 ''x'' False) []) st1 =
      Inr (Some (N (ISD_Machine (R (PUSH 32))) [N (ISD_Constant b) []]), st2) \<and> a \<noteq> b"
  by (rule global_variable_two_addresses) (simp_all add: ex_isel_def)

section \<open>Extensions\<close>

text \<open>
  A sign extension of a value that is not a small number comes out as a constant. The
  value and the width change places, so the EVM extends the constant by the value: for every
  operand of 31 or more the result is 32 minus the width in bytes.
\<close>

lemma sign_extension_loses_value:
  assumes "eval_node \<rho> m x = Some v" and "31 \<le> unat v" and "bits \<le> 256"
  shows "\<exists>Node sel. LowerSIGN_EXTEND 256 (N ISD_SIGN_EXTEND_INREG [x, N (ISD_VALUETYPE bits) []]) = Inr Node \<and>
    SelectSIGNEXTEND Node = Inr (Some sel) \<and>
    eval_node \<rho> m sel = Some (32 - word_of_nat (bits div 8))"
proof -
  have b: "bits div 8 \<le> 32" using assms(3) by simp
  then have u: "unat (32 - word_of_nat (bits div 8) :: 32 word) = 32 - bits div 8"
    by (simp add: unat_sub word_le_nat_alt unat_of_nat take_bit_nat_eq_self)
  have "(word_of_nat (32 - bits div 8) :: word256) = 32 - word_of_nat (bits div 8)"
    using b by (simp add: of_nat_diff)
  with u assms(1,2) show ?thesis
    by (simp add: LowerSIGN_EXTEND_def SelectSIGNEXTEND_def node_operand_def node_value_def
        machine_values evm_signextend_def Let_def)
qed

lemma sign_extension_loses_value_witness:
  "\<exists>Node sel. LowerSIGN_EXTEND 256
      (N ISD_SIGN_EXTEND_INREG [N (ISD_CopyFromReg (VReg 0)) [], N (ISD_VALUETYPE 8) []]) = Inr Node \<and>
    SelectSIGNEXTEND Node = Inr (Some sel) \<and>
    eval_node (\<lambda>_. 255) (\<lambda>_. 0) sel = Some (32 - word_of_nat (8 div 8))"
  by (rule sign_extension_loses_value [where v = 255]) simp_all

text \<open>
  A zero-extending load of an integer of up to 225 bits cannot be selected: the
  multiplier is computed by a shift of a 32-bit constant by 31 or more, which has no defined
  result.
\<close>

lemma zero_extending_load_undefined:
  assumes "bits \<le> 225"
  shows "SelectLOAD (N (ISD_LOAD ZEXTLOAD bits) [chain, src]) = Inl (UndefinedBehaviour ''shift count of an int'')"
proof -
  have "unat (256 - word_of_nat bits :: 64 word) = 256 - bits"
    using assms by (simp add: unat_sub word_le_nat_alt unat_of_nat take_bit_nat_eq_self)
  with assms show ?thesis by (simp add: SelectLOAD_def node_operand_def Let_def)
qed

end
