(* ===== verification/AssemblyProperties.thy ===== *)
theory AssemblyProperties
  imports AssemblyTotal
begin

text \<open>
  The properties of the emitted bytes.
\<close>




text \<open>
  C7: the bytes do what the instructions do: if the encoder accepts the instructions of a stream
  with no label twice and at most 65535 bytes, and its code runs on the reference machine, the
  bytes run on the byte machine, which knows only the opcode numbers of the EVM, and reach the
  same state.
\<close>

theorem assembled_code_runs:
  assumes "\<forall>mi \<in> set (instructions items). encodable mi"
    and "code_size (instructions items) \<le> 0xFFFF" and "distinct (labels_of items)"
    and "run_evm pc (instructions items) st = Some st'"
  shows "\<exists>bs. assemble td_code 0 items = Inr bs \<and> run_bytes pc bs st = Some st'"
  using assms by (rule assembled_runs)

theorem assembled_code_runs_witness:
  "\<exists>bs. assemble td_code 0 [ItemInstr (MI (S (PUSH 1)) [MO_Immediate 5]), ItemInstr (MI (S SUB) [])] = Inr bs \<and>
    run_bytes 0 bs ([3], \<lambda>_. 0) = Some ([2], \<lambda>_. 0)"
proof (rule assembled_code_runs)
  let ?items = "[ItemInstr (MI (S (PUSH 1)) [MO_Immediate 5]), ItemInstr (MI (S SUB) [])]"
  show "\<forall>mi \<in> set (instructions ?items). encodable mi"
    by (simp add: encodable_def stack_form_def push_operand_ok_def)
  show "code_size (instructions ?items) \<le> 0xFFFF" by (simp add: code_size_def)
  show "distinct (labels_of ?items)" by simp
  have "take_bit 8 (5 :: word256) = 5" by code_simp
  then show "run_evm 0 (instructions ?items) ([3], \<lambda>_. 0) = Some ([2], \<lambda>_. 0)"
    by (simp add: push_value_def)
qed

end
