(* ===== verification/WideInt.thy ===== *)
theory WideInt
  imports Prelude
begin

unbundle bit_operations_syntax

text \<open>
  Multi-word integers, the static \<open>tc\<close> functions of \<open>APInt.cpp\<close>: the arithmetic of constants
  wider than 64 bits, which every 256-bit constant of this target goes through.

  An array of \<open>parts\<close> words is the list of its words, the least significant first, and the
  number of parts is the length of the list. A loop that goes through the words from the
  least significant one is a recursion on the list; a loop that counts down is a recursion
  on the counter. The specification is \<open>tc_value\<close>, the natural number an array stands for.

  This theory holds the operations whose loops visit every word once: assignment, bits,
  addition and subtraction with their carries, negation, the bitwise operations, comparison.
\<close>

type_synonym part = "64 word"

section \<open>Numbers of words\<close>

fun tc_value :: "part list \<Rightarrow> nat" where
  "tc_value [] = 0"
| "tc_value (w # ws) = unat w + 2 ^ 64 * tc_value ws"

lemma unat_part_less: "unat (w :: part) < 2 ^ 64"
  using unsigned_less [of w, where ?'a = nat] by simp

lemmas unat_part_numeral = unat_part_less [simplified]

lemma unat_part_mod [simp]: "unat (w :: part) mod 18446744073709551616 = unat w"
  by (rule mod_less) (rule unat_part_numeral)

lemma unat_part_div [simp]: "unat (w :: part) div 18446744073709551616 = 0"
  by (rule div_less) (rule unat_part_numeral)

lemma tc_value_append: "tc_value (xs @ ys) = tc_value xs + 2 ^ (64 * length xs) * tc_value ys"
  by (induction xs) (simp_all add: algebra_simps power_add)

lemma tc_value_less: "tc_value ws < 2 ^ (64 * length ws)"
proof (induction ws)
  case (Cons w ws)
  then have "Suc (tc_value ws) \<le> 2 ^ (64 * length ws)" by (simp add: Suc_le_eq)
  then have "2 ^ 64 * Suc (tc_value ws) \<le> 2 ^ 64 * 2 ^ (64 * length ws)" by (intro mult_le_mono2)
  moreover have "unat w < 2 ^ 64" by (rule unat_part_less)
  ultimately show ?case by (simp add: power_add)
qed simp

lemma tc_value_replicate_0 [simp]: "tc_value (replicate n 0) = 0"
  by (induction n) simp_all

lemma tc_value_eq_0_iff: "tc_value ws = 0 \<longleftrightarrow> (\<forall>w \<in> set ws. w = 0)"
  by (induction ws) (auto simp: unat_eq_0)

text \<open>The bits of the number are the bits of the words.\<close>

lemma bit_tc_value:
  "bit (tc_value ws) i \<longleftrightarrow> i div 64 < length ws \<and> bit (ws ! (i div 64)) (i mod 64)"
proof (induction ws arbitrary: i)
  case (Cons w ws)
  show ?case
  proof (cases "i < 64")
    case True
    have "tc_value (w # ws) mod 2 ^ 64 = unat w" by simp
    then have "take_bit 64 (tc_value (w # ws)) = unat w" by (simp only: take_bit_eq_mod)
    with True have "bit (tc_value (w # ws)) i \<longleftrightarrow> bit (unat w) i"
      by (metis bit_take_bit_iff)
    with True show ?thesis by (simp add: bit_unsigned_iff)
  next
    case False
    then have i: "i div 64 = Suc ((i - 64) div 64)" "i mod 64 = (i - 64) mod 64"
      by (simp_all add: le_div_geq le_mod_geq)
    have "drop_bit 64 (tc_value (w # ws)) = tc_value ws" by (simp add: drop_bit_eq_div)
    then have "bit (tc_value (w # ws)) i \<longleftrightarrow> bit (tc_value ws) (i - 64)"
      using False by (metis bit_drop_bit_eq comp_def le_add_diff_inverse linorder_not_less)
    with i Cons.IH [of "i - 64"] show ?thesis by simp
  qed
qed simp

lemma tc_value_eqI:
  assumes "\<And>i. i < 64 * length ws \<Longrightarrow> bit n i \<longleftrightarrow> bit (ws ! (i div 64)) (i mod 64)"
    and "n < 2 ^ (64 * length ws)"
  shows "tc_value ws = n"
proof (rule bit_eqI)
  fix i
  show "bit (tc_value ws) i \<longleftrightarrow> bit n i"
  proof (cases "i < 64 * length ws")
    case True
    then have "i div 64 < length ws" by (simp add: less_mult_imp_div_less mult.commute)
    with True assms(1) show ?thesis by (simp add: bit_tc_value)
  next
    case False
    then have "n < 2 ^ i" using assms(2) by (meson less_le_trans not_less one_le_numeral power_increasing)
    then have "\<not> bit n i" by (metis bit_take_bit_iff less_irrefl take_bit_nat_eq_self)
    moreover have "\<not> i div 64 < length ws" using False by (simp add: div_less_iff_less_mult mult.commute)
    ultimately show ?thesis by (simp add: bit_tc_value)
  qed
qed

lemma tc_value_inject:
  "length xs = length ys \<Longrightarrow> tc_value xs = tc_value ys \<longleftrightarrow> xs = ys"
proof (induction xs ys rule: list_induct2)
  case (Cons x xs y ys)
  show ?case
  proof
    assume e: "tc_value (x # xs) = tc_value (y # ys)"
    then have "tc_value (x # xs) mod 2 ^ 64 = tc_value (y # ys) mod 2 ^ 64"
      "tc_value (x # xs) div 2 ^ 64 = tc_value (y # ys) div 2 ^ 64" by simp_all
    with Cons.IH show "x # xs = y # ys" by (simp add: word_unat_eq_iff)
  qed simp
qed simp

section \<open>Assignment and single bits\<close>

fun tcSet :: "part \<Rightarrow> part list \<Rightarrow> part list result" where
  "tcSet part [] = Inl (AssertFailed ''parts > 0'')"
| "tcSet part (d # dst) = Inr (part # replicate (length dst) 0)"

definition tcAssign :: "part list \<Rightarrow> part list \<Rightarrow> part list" where
  "tcAssign dst src = fold (\<lambda>i d. d[i := src ! i]) [0..<length dst] dst"

fun tcIsZero :: "part list \<Rightarrow> bool" where
  "tcIsZero [] = True"
| "tcIsZero (w # ws) = (if w \<noteq> 0 then False else tcIsZero ws)"

definition whichWord :: "nat \<Rightarrow> nat" where
  "whichWord bitPosition = bitPosition div 64"

definition whichBit :: "nat \<Rightarrow> nat" where
  "whichBit bitPosition = bitPosition mod 64"

definition maskBit :: "nat \<Rightarrow> part" where
  "maskBit bitPosition = push_bit (whichBit bitPosition) 1"

text \<open>An access outside of the array is undefined behaviour.\<close>

definition tcExtractBit :: "part list \<Rightarrow> nat \<Rightarrow> bool result" where
  "tcExtractBit parts i =
    (if whichWord i < length parts then Inr (parts ! whichWord i AND maskBit i \<noteq> 0)
     else Inl (UndefinedBehaviour ''parts''))"

definition tcSetBit :: "part list \<Rightarrow> nat \<Rightarrow> part list result" where
  "tcSetBit parts i =
    (if whichWord i < length parts
     then Inr (parts[whichWord i := parts ! whichWord i OR maskBit i])
     else Inl (UndefinedBehaviour ''parts''))"

definition tcClearBit :: "part list \<Rightarrow> nat \<Rightarrow> part list result" where
  "tcClearBit parts i =
    (if whichWord i < length parts
     then Inr (parts[whichWord i := parts ! whichWord i AND NOT (maskBit i)])
     else Inl (UndefinedBehaviour ''parts''))"

lemma tcSet_value:
  "tcSet part dst = Inr dst' \<Longrightarrow> length dst' = length dst \<and> tc_value dst' = unat part"
  by (cases dst) auto

lemma fold_upt_update:
  "m \<le> length d \<Longrightarrow> fold (\<lambda>i d. d[i := f i]) [0..<m] d = map f [0..<m] @ drop m d"
proof (induction m)
  case (Suc m)
  then have "drop m d = d ! m # drop (Suc m) d" by (simp add: Cons_nth_drop_Suc)
  with Suc show ?case by (simp add: list_update_append)
qed simp

lemma tcAssign_eq: "length dst \<le> length src \<Longrightarrow> tcAssign dst src = take (length dst) src"
  by (simp add: tcAssign_def fold_upt_update) (rule nth_equalityI; simp)

lemma tcIsZero_iff: "tcIsZero ws \<longleftrightarrow> tc_value ws = 0"
  by (induction ws) (auto simp: unat_eq_0)

lemma bit_maskBit: "bit (maskBit i) j \<longleftrightarrow> j = i mod 64"
  by (auto simp: maskBit_def whichBit_def bit_exp_iff)

lemma and_maskBit_eq_0: "w AND maskBit i = 0 \<longleftrightarrow> \<not> bit w (i mod 64)"
proof
  assume "w AND maskBit i = 0"
  then have "\<not> bit (w AND maskBit i) (i mod 64)" by simp
  then show "\<not> bit w (i mod 64)" by (simp add: bit_and_iff bit_maskBit)
next
  assume "\<not> bit w (i mod 64)"
  then show "w AND maskBit i = 0"
    by (intro bit_eqI) (auto simp: bit_and_iff bit_maskBit)
qed

lemma tcExtractBit_value:
  "i < 64 * length ws \<Longrightarrow> tcExtractBit ws i = Inr (bit (tc_value ws) i)"
  by (simp add: tcExtractBit_def whichWord_def and_maskBit_eq_0 bit_tc_value
      less_mult_imp_div_less mult.commute)

lemma tcSetBit_value:
  assumes "i < 64 * length ws"
  shows "\<exists>ws'. tcSetBit ws i = Inr ws' \<and> length ws' = length ws \<and> tc_value ws' = set_bit i (tc_value ws)"
proof -
  from assms have i: "i div 64 < length ws" by (simp add: less_mult_imp_div_less mult.commute)
  let ?ws = "ws[i div 64 := ws ! (i div 64) OR maskBit i]"
  have "tc_value ?ws = set_bit i (tc_value ws)"
  proof (rule bit_eqI)
    fix j :: nat
    have "j = i \<longleftrightarrow> j div 64 = i div 64 \<and> j mod 64 = i mod 64" by (metis div_mult_mod_eq)
    with i show "bit (tc_value ?ws) j \<longleftrightarrow> bit (set_bit i (tc_value ws)) j"
      by (auto simp: bit_tc_value bit_set_bit_iff nth_list_update bit_or_iff bit_maskBit)
  qed
  with i show ?thesis by (simp add: tcSetBit_def whichWord_def)
qed

lemma tcClearBit_value:
  assumes "i < 64 * length ws"
  shows "\<exists>ws'. tcClearBit ws i = Inr ws' \<and> length ws' = length ws \<and> tc_value ws' = unset_bit i (tc_value ws)"
proof -
  from assms have i: "i div 64 < length ws" by (simp add: less_mult_imp_div_less mult.commute)
  let ?ws = "ws[i div 64 := ws ! (i div 64) AND NOT (maskBit i)]"
  have "tc_value ?ws = unset_bit i (tc_value ws)"
  proof (rule bit_eqI)
    fix j :: nat
    have "j = i \<longleftrightarrow> j div 64 = i div 64 \<and> j mod 64 = i mod 64" by (metis div_mult_mod_eq)
    moreover have "j mod 64 < 64" by simp
    ultimately show "bit (tc_value ?ws) j \<longleftrightarrow> bit (unset_bit i (tc_value ws)) j" using i
      by (auto simp: bit_tc_value bit_unset_bit_iff nth_list_update bit_and_iff bit_not_iff bit_maskBit)
  qed
  with i show ?thesis by (simp add: tcClearBit_def whichWord_def)
qed

section \<open>Addition and subtraction\<close>

fun add_loop :: "part list \<Rightarrow> part list \<Rightarrow> part \<Rightarrow> part list \<times> part" where
  "add_loop (l # dst) (r # rhs) c =
    (let d = (if c \<noteq> 0 then l + (r + 1) else l + r);
         c' = (if c \<noteq> 0 then of_bool (d \<le> l) else of_bool (d < l));
         (dst', c'') = add_loop dst rhs c'
     in (d # dst', c''))"
| "add_loop dst rhs c = (dst, c)"

definition tcAdd :: "part list \<Rightarrow> part list \<Rightarrow> part \<Rightarrow> (part list \<times> part) result" where
  "tcAdd dst rhs c = (if c \<le> 1 then Inr (add_loop dst rhs c) else Inl (AssertFailed ''c <= 1''))"

fun tcAddPart :: "part list \<Rightarrow> part \<Rightarrow> part list \<times> part" where
  "tcAddPart [] src = ([], 1)"
| "tcAddPart (d # dst) src =
    (let d' = d + src
     in if src \<le> d' then (d' # dst, 0)
        else let (dst', c) = tcAddPart dst 1 in (d' # dst', c))"

fun sub_loop :: "part list \<Rightarrow> part list \<Rightarrow> part \<Rightarrow> part list \<times> part" where
  "sub_loop (l # dst) (r # rhs) c =
    (let d = (if c \<noteq> 0 then l - (r + 1) else l - r);
         c' = (if c \<noteq> 0 then of_bool (l \<le> d) else of_bool (l < d));
         (dst', c'') = sub_loop dst rhs c'
     in (d # dst', c''))"
| "sub_loop dst rhs c = (dst, c)"

definition tcSubtract :: "part list \<Rightarrow> part list \<Rightarrow> part \<Rightarrow> (part list \<times> part) result" where
  "tcSubtract dst rhs c = (if c \<le> 1 then Inr (sub_loop dst rhs c) else Inl (AssertFailed ''c <= 1''))"

fun tcSubtractPart :: "part list \<Rightarrow> part \<Rightarrow> part list \<times> part" where
  "tcSubtractPart [] src = ([], 1)"
| "tcSubtractPart (d # dst) src =
    (if src \<le> d then ((d - src) # dst, 0)
     else let (dst', c) = tcSubtractPart dst 1 in ((d - src) # dst', c))"

definition tcComplement :: "part list \<Rightarrow> part list" where
  "tcComplement dst = map (\<lambda>w. NOT w) dst"

definition tcIncrement :: "part list \<Rightarrow> part list \<times> part" where
  "tcIncrement dst = tcAddPart dst 1"

definition tcDecrement :: "part list \<Rightarrow> part list \<times> part" where
  "tcDecrement dst = tcSubtractPart dst 1"

definition tcNegate :: "part list \<Rightarrow> part list" where
  "tcNegate dst = fst (tcIncrement (tcComplement dst))"

text \<open>One step of the two loops with a carry.\<close>

lemma unat_part_add: "unat (a + b :: part) =
    (if unat a + unat b < 2 ^ 64 then unat a + unat b else unat a + unat b - 2 ^ 64)"
  using unat_plus_if' [of a b] by simp

lemma unat_part_sub: "unat (a - b :: part) =
    (if unat b \<le> unat a then unat a - unat b else 2 ^ 64 + unat a - unat b)"
  using unat_sub_if' [of a b] by (auto simp: add.commute [of "2 ^ 64"])

lemmas part_arith = unat_part_add unat_part_sub word_less_nat_alt word_le_nat_alt

lemma add_step:
  fixes l r :: part and c :: bool
  defines "d \<equiv> if c then l + (r + 1) else l + r"
  defines "c' \<equiv> if c then d \<le> l else d < l"
  shows "unat d + 2 ^ 64 * of_bool c' = unat l + unat r + of_bool c"
  using unat_part_numeral [of l] unat_part_numeral [of r]
  by (cases c) (auto simp: d_def c'_def part_arith split: if_splits)

lemma sub_step:
  fixes l r :: part and c :: bool
  defines "d \<equiv> if c then l - (r + 1) else l - r"
  defines "c' \<equiv> if c then l \<le> d else l < d"
  shows "unat d + unat r + of_bool c = unat l + 2 ^ 64 * of_bool c'"
  using unat_part_numeral [of l] unat_part_numeral [of r]
  by (cases c) (auto simp: d_def c'_def part_arith split: if_splits)

text \<open>The result and the carry together are the exact sum, or the exact difference.\<close>

lemma add_loop_value:
  "length rhs = length dst \<Longrightarrow> add_loop dst rhs (of_bool c) = (dst', c') \<Longrightarrow>
   length dst' = length dst \<and> c' \<le> 1 \<and>
   tc_value dst' + 2 ^ (64 * length dst) * unat c' = tc_value dst + tc_value rhs + of_bool c"
proof (induction rhs dst arbitrary: c dst' c' rule: list_induct2)
  case (Cons r rhs l dst)
  define d where "d = (if c then l + (r + 1) else l + r)"
  define k where "k = (if c then d \<le> l else d < l)"
  obtain ds c2 where rec: "add_loop dst rhs (of_bool k) = (ds, c2)" by fastforce
  from Cons.prems rec have res: "dst' = d # ds" "c' = c2"
    by (cases c; simp add: d_def k_def Let_def of_bool_def split: if_splits prod.splits)+
  have "length ds = length dst \<and> c2 \<le> 1 \<and>
      tc_value ds + 2 ^ (64 * length dst) * unat c2 = tc_value dst + tc_value rhs + of_bool k" by (rule Cons.IH [OF rec])
  moreover have "unat d + 2 ^ 64 * of_bool k = unat l + unat r + of_bool c"
    unfolding d_def k_def by (rule add_step)
  ultimately show ?case by (simp add: res power_add algebra_simps)
qed (auto simp: of_bool_def)

lemma sub_loop_value:
  "length rhs = length dst \<Longrightarrow> sub_loop dst rhs (of_bool c) = (dst', c') \<Longrightarrow>
   length dst' = length dst \<and> c' \<le> 1 \<and>
   tc_value dst' + tc_value rhs + of_bool c = tc_value dst + 2 ^ (64 * length dst) * unat c'"
proof (induction rhs dst arbitrary: c dst' c' rule: list_induct2)
  case (Cons r rhs l dst)
  define d where "d = (if c then l - (r + 1) else l - r)"
  define k where "k = (if c then l \<le> d else l < d)"
  obtain ds c2 where rec: "sub_loop dst rhs (of_bool k) = (ds, c2)" by fastforce
  from Cons.prems rec have res: "dst' = d # ds" "c' = c2"
    by (cases c; simp add: d_def k_def Let_def of_bool_def split: if_splits prod.splits)+
  have "length ds = length dst \<and> c2 \<le> 1 \<and>
      tc_value ds + tc_value rhs + of_bool k = tc_value dst + 2 ^ (64 * length dst) * unat c2" by (rule Cons.IH [OF rec])
  moreover have "unat d + unat r + of_bool c = unat l + 2 ^ 64 * of_bool k"
    unfolding d_def k_def by (rule sub_step)
  ultimately show ?case by (simp add: res power_add algebra_simps)
qed (auto simp: of_bool_def)

lemma tcAddPart_value:
  "tcAddPart dst src = (dst', c) \<Longrightarrow> dst \<noteq> [] \<or> src = 1 \<Longrightarrow>
   length dst' = length dst \<and> c \<le> 1 \<and>
   tc_value dst' + 2 ^ (64 * length dst) * unat c = tc_value dst + unat src"
proof (induction dst src arbitrary: dst' c rule: tcAddPart.induct)
  case (2 d dst src)
  show ?case
  proof (cases "src \<le> d + src")
    case True
    with unat_part_numeral [of d] have "unat (d + src) = unat d + unat src"
      by (simp add: part_arith split: if_splits)
    with True 2(2) show ?thesis by auto
  next
    case False
    obtain ds c2 where rec: "tcAddPart dst 1 = (ds, c2)" by fastforce
    from False rec 2(2) have res: "dst' = (d + src) # ds" "c = c2" by (auto simp: Let_def)
    from 2(1) [OF refl False rec] have "length ds = length dst \<and> c2 \<le> 1 \<and>
      tc_value ds + 2 ^ (64 * length dst) * unat c2 = tc_value dst + 1" by simp
    moreover from False have "unat (d + src) + 2 ^ 64 = unat d + unat src"
      by (auto simp: part_arith split: if_splits)
    ultimately show ?thesis by (simp add: res power_add algebra_simps)
  qed
qed auto

lemma tcSubtractPart_value:
  "tcSubtractPart dst src = (dst', c) \<Longrightarrow> dst \<noteq> [] \<or> src = 1 \<Longrightarrow>
   length dst' = length dst \<and> c \<le> 1 \<and>
   tc_value dst' + unat src = tc_value dst + 2 ^ (64 * length dst) * unat c"
proof (induction dst src arbitrary: dst' c rule: tcSubtractPart.induct)
  case (2 d dst src)
  show ?case
  proof (cases "src \<le> d")
    case True
    with 2(2) show ?thesis by (auto simp: part_arith split: if_splits)
  next
    case False
    obtain ds c2 where rec: "tcSubtractPart dst 1 = (ds, c2)" by fastforce
    from False rec 2(2) have res: "dst' = (d - src) # ds" "c = c2" by (auto simp: Let_def)
    from 2(1) [OF False rec] have "length ds = length dst \<and> c2 \<le> 1 \<and>
      tc_value ds + 1 = tc_value dst + 2 ^ (64 * length dst) * unat c2" by simp
    moreover from False unat_part_numeral [of src] have "unat (d - src) + unat src = unat d + 2 ^ 64"
      by (auto simp: part_arith split: if_splits)
    ultimately show ?thesis by (simp add: res power_add algebra_simps)
  qed
qed auto

lemma unat_part_not: "unat (NOT w :: part) + unat w = 2 ^ 64 - 1"
proof -
  have "unat (- 1 :: part) = 2 ^ 64 - 1" by (simp add: unsigned_minus_1_eq_mask mask_eq_exp_minus_1)
  moreover have "NOT w = - 1 - w" by (simp add: not_eq_complement)
  ultimately show ?thesis
    using unat_part_numeral [of w] unat_part_sub [of "- 1" w] by (simp split: if_splits)
qed

lemma tcComplement_value:
  "length (tcComplement dst) = length dst \<and>
   tc_value (tcComplement dst) + tc_value dst + 1 = 2 ^ (64 * length dst)"
proof (induction dst)
  case (Cons w dst)
  have "unat (NOT w) + unat w + 1 = 2 ^ 64" using unat_part_not [of w] by simp
  moreover have "2 ^ 64 * (tc_value (tcComplement dst) + tc_value dst + 1) = 2 ^ 64 * 2 ^ (64 * length dst)"
    using Cons.IH by simp
  ultimately show ?case by (simp add: tcComplement_def power_add algebra_simps)
qed (simp add: tcComplement_def)

lemma tcNegate_value:
  "length (tcNegate dst) = length dst \<and>
   tc_value (tcNegate dst) = (2 ^ (64 * length dst) - tc_value dst) mod 2 ^ (64 * length dst)"
proof -
  let ?n = "tcComplement dst" and ?m = "2 ^ (64 * length dst) :: nat"
  obtain d c where r: "tcAddPart ?n 1 = (d, c)" by fastforce
  from tcAddPart_value [OF r] tcComplement_value [of dst]
  have *: "length d = length dst" "tc_value d + ?m * unat c = ?m - tc_value dst" by auto
  from * tc_value_less [of d] have "tc_value d = (?m - tc_value dst) mod ?m"
    by (metis mod_less mod_mult_self2)
  with * r show ?thesis by (simp add: tcNegate_def tcIncrement_def)
qed

section \<open>Bitwise operations and comparison\<close>

fun tcAnd :: "part list \<Rightarrow> part list \<Rightarrow> part list" where
  "tcAnd (d # dst) (r # rhs) = (d AND r) # tcAnd dst rhs"
| "tcAnd dst rhs = dst"

fun tcOr :: "part list \<Rightarrow> part list \<Rightarrow> part list" where
  "tcOr (d # dst) (r # rhs) = (d OR r) # tcOr dst rhs"
| "tcOr dst rhs = dst"

fun tcXor :: "part list \<Rightarrow> part list \<Rightarrow> part list" where
  "tcXor (d # dst) (r # rhs) = (d XOR r) # tcXor dst rhs"
| "tcXor dst rhs = dst"

fun tcCompare :: "part list \<Rightarrow> part list \<Rightarrow> nat \<Rightarrow> int" where
  "tcCompare lhs rhs 0 = 0"
| "tcCompare lhs rhs (Suc parts) =
    (if lhs ! parts \<noteq> rhs ! parts then (if rhs ! parts < lhs ! parts then 1 else -1)
     else tcCompare lhs rhs parts)"

lemma tc_bitwise_map2:
  "length rhs = length dst \<Longrightarrow> tcAnd dst rhs = map2 (AND) dst rhs"
  "length rhs = length dst \<Longrightarrow> tcOr dst rhs = map2 (OR) dst rhs"
  "length rhs = length dst \<Longrightarrow> tcXor dst rhs = map2 (XOR) dst rhs"
  by (induction rhs dst rule: list_induct2; simp)+

lemma tc_bitwise_value:
  assumes "length rhs = length dst"
  shows "tc_value (tcAnd dst rhs) = tc_value dst AND tc_value rhs"
    and "tc_value (tcOr dst rhs) = tc_value dst OR tc_value rhs"
    and "tc_value (tcXor dst rhs) = tc_value dst XOR tc_value rhs"
  using assms
  by (auto intro!: bit_eqI simp: tc_bitwise_map2 bit_tc_value bit_and_iff bit_or_iff bit_xor_iff)

lemma take_Suc_value:
  "n < length ws \<Longrightarrow> tc_value (take (Suc n) ws) = tc_value (take n ws) + 2 ^ (64 * n) * unat (ws ! n)"
  by (simp add: take_Suc_conv_app_nth tc_value_append)

lemma tc_value_take_less: "tc_value (take n ws) < 2 ^ (64 * n)"
  using tc_value_less [of "take n ws"] by (rule less_le_trans) (simp add: min_def)

lemma high_digit_less:
  assumes "(a :: nat) < M" "x < y"
  shows "a + M * x < b + M * y"
proof -
  from assms have "a + M * x < M * Suc x" by simp
  also from assms(2) have "M * Suc x \<le> M * y" by (intro mult_le_mono2) simp
  finally show ?thesis by simp
qed

lemma tcCompare_value:
  "n \<le> length lhs \<Longrightarrow> n \<le> length rhs \<Longrightarrow>
   tcCompare lhs rhs n = sgn (int (tc_value (take n lhs)) - int (tc_value (take n rhs)))"
proof (induction n)
  case (Suc n)
  then have l: "n < length lhs" "n < length rhs" by simp_all
  show ?case
  proof (cases "lhs ! n" "rhs ! n" rule: linorder_cases)
    case less
    then have "unat (lhs ! n) < unat (rhs ! n)" by (simp add: word_less_nat_alt)
    from high_digit_less [OF tc_value_take_less this] l
    have "tc_value (take (Suc n) lhs) < tc_value (take (Suc n) rhs)" by (simp add: take_Suc_value)
    with less show ?thesis by (simp add: less_imp_neq less_not_sym)
  next
    case equal
    with l have "int (tc_value (take (Suc n) lhs)) - int (tc_value (take (Suc n) rhs)) =
        int (tc_value (take n lhs)) - int (tc_value (take n rhs))"
      by (simp only: take_Suc_value of_nat_add add_diff_cancel_right)
    with equal Suc show ?thesis by simp
  next
    case greater
    then have "unat (rhs ! n) < unat (lhs ! n)" by (simp add: word_less_nat_alt)
    from high_digit_less [OF tc_value_take_less this] l
    have "tc_value (take (Suc n) rhs) < tc_value (take (Suc n) lhs)" by (simp add: take_Suc_value)
    with greater show ?thesis by (simp add: less_imp_neq [symmetric])
  qed
qed simp

end
