(* ===== verification/WideIntShift.thy ===== *)
theory WideIntShift
  imports WideInt MathExtras
begin

unbundle bit_operations_syntax

text \<open>
  Shifts and bit fields of multi-word integers. The shifts work in place: the left shift
  writes the words from the top down and the right shift from the bottom up, so that a word
  is read before it is overwritten.
\<close>

section \<open>Operations\<close>

definition shl_word :: "nat \<Rightarrow> nat \<Rightarrow> nat \<Rightarrow> part list \<Rightarrow> part list" where
  "shl_word WordShift BitShift i Dst =
    (let Dst = Dst[i := push_bit BitShift (Dst ! (i - WordShift))]
     in if WordShift < i
        then Dst[i := Dst ! i OR drop_bit (64 - BitShift) (Dst ! (i - WordShift - 1))]
        else Dst)"

definition tcShiftLeft :: "part list \<Rightarrow> nat \<Rightarrow> part list" where
  "tcShiftLeft Dst Count =
    (if Count = 0 then Dst
     else let Words = length Dst;
              WordShift = min (Count div 64) Words;
              BitShift = Count mod 64;
              Dst' = (if BitShift = 0 then take WordShift Dst @ take (Words - WordShift) Dst
                      else fold (shl_word WordShift BitShift) (rev [WordShift..<Words]) Dst)
          in replicate WordShift 0 @ drop WordShift Dst')"

definition shr_word :: "nat \<Rightarrow> nat \<Rightarrow> nat \<Rightarrow> nat \<Rightarrow> part list \<Rightarrow> part list" where
  "shr_word WordShift BitShift WordsToMove i Dst =
    (let Dst = Dst[i := drop_bit BitShift (Dst ! (i + WordShift))]
     in if i + 1 \<noteq> WordsToMove
        then Dst[i := Dst ! i OR push_bit (64 - BitShift) (Dst ! (i + WordShift + 1))]
        else Dst)"

definition tcShiftRight :: "part list \<Rightarrow> nat \<Rightarrow> part list" where
  "tcShiftRight Dst Count =
    (if Count = 0 then Dst
     else let Words = length Dst;
              WordShift = min (Count div 64) Words;
              BitShift = Count mod 64;
              WordsToMove = Words - WordShift;
              Dst' = (if BitShift = 0 then drop WordShift Dst @ drop WordsToMove Dst
                      else fold (shr_word WordShift BitShift WordsToMove) [0..<WordsToMove] Dst)
          in take WordsToMove Dst' @ replicate WordShift 0)"

section \<open>Words of a shifted number\<close>

lemma shl_loop_nth:
  assumes "s \<le> n" "n \<le> length D" "b < 64"
  shows "length (fold (shl_word s b) (rev [s..<n]) D) = length D \<and>
    (\<forall>i < length D. fold (shl_word s b) (rev [s..<n]) D ! i =
      (if s \<le> i \<and> i < n
       then push_bit b (D ! (i - s)) OR (if s < i then drop_bit (64 - b) (D ! (i - s - 1)) else 0)
       else D ! i))"
  using assms
proof (induction n arbitrary: D)
  case (Suc n)
  show ?case
  proof (cases "s = Suc n")
    case False
    with Suc.prems have s: "s \<le> n" by simp
    define E where "E = shl_word s b n D"
    have l: "length E = length D" by (simp add: E_def shl_word_def Let_def)
    have e: "E ! i = (if i = n then push_bit b (D ! (n - s)) OR
        (if s < n then drop_bit (64 - b) (D ! (n - s - 1)) else 0) else D ! i)" if "i < length D" for i
      using that Suc.prems(2) by (auto simp: E_def shl_word_def Let_def nth_list_update)
    have f: "fold (shl_word s b) (rev [s..<Suc n]) D = fold (shl_word s b) (rev [s..<n]) E"
      using s by (simp add: E_def)
    from Suc.IH [OF s, of E] Suc.prems l
    have IH: "length (fold (shl_word s b) (rev [s..<n]) E) = length D"
      "\<And>i. i < length D \<Longrightarrow> fold (shl_word s b) (rev [s..<n]) E ! i =
        (if s \<le> i \<and> i < n
         then push_bit b (E ! (i - s)) OR (if s < i then drop_bit (64 - b) (E ! (i - s - 1)) else 0)
         else E ! i)" by simp_all
    have "fold (shl_word s b) (rev [s..<n]) E ! i =
        (if s \<le> i \<and> i < Suc n
         then push_bit b (D ! (i - s)) OR (if s < i then drop_bit (64 - b) (D ! (i - s - 1)) else 0)
         else D ! i)" if "i < length D" for i
      unfolding IH(2) [OF that] using that Suc.prems(2) s by (auto simp: e less_Suc_eq)
    with IH(1) f show ?thesis by simp
  qed auto
qed simp

lemma drop_bit_part_64 [simp]: "drop_bit 64 (w :: part) = 0"
  using unat_part_less [of w] by (simp add: drop_bit_eq_0_unat del: drop_bit_eq_div)

lemma push_bit_part_64 [simp]: "push_bit 64 (w :: part) = 0"
  by (rule bit_eqI) (auto simp: bit_push_bit_iff)

lemma length_tcShiftLeft [simp]: "length (tcShiftLeft D c) = length D"
proof -
  let ?s = "min (c div 64) (length D)"
  have "length (fold (shl_word ?s (c mod 64)) (rev [?s..<length D]) D) = length D"
    using shl_loop_nth [of ?s "length D" D "c mod 64"] by simp
  then show ?thesis by (simp add: tcShiftLeft_def Let_def)
qed

lemma tcShiftLeft_nth:
  assumes c: "0 < c" and i: "i < length D" and q: "q = c div 64" and b: "b = c mod 64"
  shows "tcShiftLeft D c ! i =
      (if i < q then 0
       else push_bit b (D ! (i - q)) OR (if q < i then drop_bit (64 - b) (D ! (i - q - 1)) else 0))"
proof (cases "i < q")
  case True
  then show ?thesis using c i by (simp add: tcShiftLeft_def Let_def nth_append q)
next
  case False
  let ?F = "fold (shl_word q b) (rev [q..<length D]) D"
  from False i have m: "min q (length D) = q" by simp
  have b': "b < 64" by (simp add: b)
  have e: "tcShiftLeft D c = replicate q 0 @ drop q (if b = 0 then take q D @ take (length D - q) D else ?F)"
    using c m by (simp add: tcShiftLeft_def Let_def flip: q b)
  from shl_loop_nth [of q "length D" D b] False i b'
  have F: "length ?F = length D" "?F ! i = push_bit b (D ! (i - q)) OR
      (if q < i then drop_bit (64 - b) (D ! (i - q - 1)) else 0)" by simp_all
  show ?thesis
  proof (cases "b = 0")
    case True
    then show ?thesis using False i m by (simp add: e nth_append)
  next
    case b0: False
    then show ?thesis using False i F by (simp add: e nth_append)
  qed
qed

lemma shr_loop_nth:
  assumes "m \<le> n" "n + s \<le> length D" "0 < b" "b < 64"
  shows "length (fold (shr_word s b n) [0..<m] D) = length D \<and>
    (\<forall>i < length D. fold (shr_word s b n) [0..<m] D ! i =
      (if i < m
       then drop_bit b (D ! (i + s)) OR (if i + 1 \<noteq> n then push_bit (64 - b) (D ! (i + s + 1)) else 0)
       else D ! i))"
  using assms
proof (induction m)
  case (Suc m)
  define E where "E = fold (shr_word s b n) [0..<m] D"
  from Suc have l: "length E = length D"
    and e: "\<And>i. i < length D \<Longrightarrow> E ! i = (if i < m
       then drop_bit b (D ! (i + s)) OR (if i + 1 \<noteq> n then push_bit (64 - b) (D ! (i + s + 1)) else 0)
       else D ! i)" by (simp_all add: E_def)
  have f: "fold (shr_word s b n) [0..<Suc m] D = shr_word s b n m E" by (simp add: E_def)
  have "shr_word s b n m E ! i = (if i < Suc m
       then drop_bit b (D ! (i + s)) OR (if i + 1 \<noteq> n then push_bit (64 - b) (D ! (i + s + 1)) else 0)
       else D ! i)" if "i < length D" for i
    using that Suc.prems l e [OF that] e [of "m + s"] e [of "m + s + 1"]
    by (auto simp: shr_word_def Let_def nth_list_update)
  moreover have "length (shr_word s b n m E) = length D" by (simp add: shr_word_def Let_def l)
  ultimately show ?case unfolding f by blast
qed simp

lemma length_tcShiftRight [simp]: "length (tcShiftRight D c) = length D"
proof -
  let ?s = "min (c div 64) (length D)"
  have "length (fold (shr_word ?s (c mod 64) (length D - ?s)) [0..<length D - ?s] D) = length D"
    if "c mod 64 \<noteq> 0" using that shr_loop_nth [of "length D - ?s" "length D - ?s" ?s D "c mod 64"] by simp
  then show ?thesis by (simp add: tcShiftRight_def Let_def)
qed

lemma tcShiftRight_nth:
  assumes c: "0 < c" and i: "i < length D" and q: "q = c div 64" and b: "b = c mod 64"
  shows "tcShiftRight D c ! i =
      (if length D \<le> i + q then 0
       else drop_bit b (D ! (i + q)) OR
         (if i + q + 1 < length D then push_bit (64 - b) (D ! (i + q + 1)) else 0))"
proof (cases "length D \<le> i + q")
  case True
  let ?n = "length D - min q (length D)"
  obtain D' where D': "tcShiftRight D c = take ?n D' @ replicate (min q (length D)) 0"
    using c by (simp add: tcShiftRight_def Let_def flip: q b)
  moreover from arg_cong [OF D', of length] have "length (take ?n D') = ?n" by simp
  moreover have "?n \<le> i" "i - ?n < min q (length D)" using True i by auto
  ultimately show ?thesis using True by (simp add: nth_append)
next
  case False
  let ?n = "length D - q"
  let ?F = "fold (shr_word q b ?n) [0..<?n] D"
  from False i have m: "min q (length D) = q" by simp
  have b': "b < 64" by (simp add: b)
  have e: "tcShiftRight D c = take ?n (if b = 0 then drop q D @ drop ?n D else ?F) @ replicate q 0"
    using c m by (simp add: tcShiftRight_def Let_def flip: q b)
  show ?thesis
  proof (cases "b = 0")
    case True
    moreover have "i < length D - q" using False by simp
    ultimately show ?thesis using False i m by (simp add: e nth_append add.commute)
  next
    case b0: False
    have n: "i < ?n" using False by simp
    with shr_loop_nth [of ?n ?n q D b] False i b0 b'
    have "length ?F = length D" "?F ! i = drop_bit b (D ! (i + q)) OR
        (if i + 1 \<noteq> ?n then push_bit (64 - b) (D ! (i + q + 1)) else 0)" by simp_all
    moreover have "i + 1 \<noteq> ?n \<longleftrightarrow> i + q + 1 < length D" using False by auto
    ultimately show ?thesis using False i b0 n by (simp add: e nth_append)
  qed
qed

section \<open>Values\<close>

lemma bit_part_bound: "bit (w :: part) n \<Longrightarrow> n < 64"
  using bit_imp_le_length [of w n] by simp

lemma bit_tc_value_word:
  "r < 64 \<Longrightarrow> bit (tc_value ws) (64 * k + r) \<longleftrightarrow> k < length ws \<and> bit (ws ! k) r"
  by (simp add: bit_tc_value)

lemma tc_value_eqI_word:
  assumes "\<And>k r. k < length ws \<Longrightarrow> r < 64 \<Longrightarrow> bit n (64 * k + r) \<longleftrightarrow> bit (ws ! k) r"
    and "n < 2 ^ (64 * length ws)"
  shows "tc_value ws = n"
proof (rule tc_value_eqI)
  fix i
  assume "i < 64 * length ws"
  then have "i div 64 < length ws" by (simp add: less_mult_imp_div_less mult.commute)
  from assms(1) [OF this, of "i mod 64"] show "bit n i \<longleftrightarrow> bit (ws ! (i div 64)) (i mod 64)" by simp
qed (rule assms(2))

lemma tcShiftLeft_value:
  "tc_value (tcShiftLeft D c) = (tc_value D * 2 ^ c) mod 2 ^ (64 * length D)"
proof (cases "c = 0")
  case True
  then show ?thesis using tc_value_less [of D] by (simp add: tcShiftLeft_def)
next
  case False
  define q b where "q = c div 64" and "b = c mod 64"
  then have c: "c = 64 * q + b" and b: "b < 64" by simp_all
  have "tc_value (tcShiftLeft D c) = take_bit (64 * length D) (push_bit c (tc_value D))"
  proof (rule tc_value_eqI_word)
    fix k r :: nat
    assume k: "k < length (tcShiftLeft D c)" and r: "r < 64"
    then have N: "tcShiftLeft D c ! k = (if k < q then 0
       else push_bit b (D ! (k - q)) OR (if q < k then drop_bit (64 - b) (D ! (k - q - 1)) else 0))"
      using tcShiftLeft_nth [of c k D] False by (simp add: q_def b_def)
    have l: "64 * k + r < 64 * length D" using k r by simp
    consider "k < q" | "q = k" "r < b" | "q < k" "r < b" | "q \<le> k" "b \<le> r" by linarith
    then show "bit (take_bit (64 * length D) (push_bit c (tc_value D))) (64 * k + r) \<longleftrightarrow>
        bit (tcShiftLeft D c ! k) r"
    proof cases
      case 1
      then have "\<not> c \<le> 64 * k + r" using c r by auto
      with 1 show ?thesis using r by (simp add: N bit_take_bit_iff bit_push_bit_iff)
    next
      case 2
      then have "\<not> c \<le> 64 * k + r" using c r by auto
      with 2 show ?thesis using r by (simp add: N bit_take_bit_iff bit_push_bit_iff)
    next
      case 3
      then have "c \<le> 64 * k + r" using c b by auto
      moreover have "64 * k + r - c = 64 * (k - q - 1) + (64 - b + r)" using 3 c b by auto
      then have "bit (tc_value D) (64 * k + r - c) \<longleftrightarrow> bit (D ! (k - q - 1)) (64 - b + r)"
        using 3 k b by (simp only: bit_tc_value_word length_tcShiftLeft) auto
      ultimately show ?thesis using 3 r l
        by (simp add: N bit_take_bit_iff bit_push_bit_iff bit_or_iff bit_drop_bit_eq)
    next
      case 4
      then have "c \<le> 64 * k + r" using c by auto
      moreover have "64 * k + r - c = 64 * (k - q) + (r - b)" using 4 c by auto
      then have "bit (tc_value D) (64 * k + r - c) \<longleftrightarrow> bit (D ! (k - q)) (r - b)"
        using 4 k r by (simp only: bit_tc_value_word length_tcShiftLeft) auto
      moreover have "\<not> bit w (64 - b + r)" for w :: part using 4 b bit_part_bound [of w] by fastforce
      ultimately show ?thesis using 4 r l
        by (simp add: N bit_take_bit_iff bit_push_bit_iff bit_or_iff bit_drop_bit_eq)
    qed
  qed simp
  then show ?thesis by (simp add: take_bit_eq_mod push_bit_eq_mult)
qed

lemma tcShiftRight_value: "tc_value (tcShiftRight D c) = tc_value D div 2 ^ c"
proof (cases "c = 0")
  case True
  then show ?thesis by (simp add: tcShiftRight_def)
next
  case False
  define q b where "q = c div 64" and "b = c mod 64"
  then have c: "c = 64 * q + b" and b: "b < 64" by simp_all
  have "tc_value (tcShiftRight D c) = drop_bit c (tc_value D)"
  proof (rule tc_value_eqI_word)
    fix k r :: nat
    assume k: "k < length (tcShiftRight D c)" and r: "r < 64"
    then have N: "tcShiftRight D c ! k = (if length D \<le> k + q then 0
       else drop_bit b (D ! (k + q)) OR
         (if k + q + 1 < length D then push_bit (64 - b) (D ! (k + q + 1)) else 0))"
      using tcShiftRight_nth [of c k D] False by (simp add: q_def b_def)
    show "bit (drop_bit c (tc_value D)) (64 * k + r) \<longleftrightarrow> bit (tcShiftRight D c ! k) r"
    proof (cases "64 \<le> r + b")
      case True
      then have e: "c + (64 * k + r) = 64 * (k + q + 1) + (b + r - 64)" using c by simp
      have "\<not> bit w (b + r)" for w :: part using True bit_part_bound [of w] by fastforce
      moreover have "b + r - 64 < 64" "64 - b \<le> r" "r - (64 - b) = b + r - 64" using True r b by auto
      ultimately show ?thesis using r k bit_tc_value_word [of "b + r - 64" D "k + q + 1"]
        by (simp add: N bit_drop_bit_eq e bit_or_iff bit_push_bit_iff del: add_Suc_right)
    next
      case lt: False
      then have e: "c + (64 * k + r) = 64 * (k + q) + (b + r)" using c by simp
      moreover have "\<not> 64 - b \<le> r" using lt by simp
      ultimately show ?thesis using lt r k bit_tc_value_word [of "b + r" D "k + q"]
        by (simp add: N bit_drop_bit_eq e bit_or_iff bit_push_bit_iff)
    qed
  next
    have "drop_bit c (tc_value D) \<le> tc_value D" by (simp add: drop_bit_eq_div)
    with tc_value_less [of D] show "drop_bit c (tc_value D) < 2 ^ (64 * length (tcShiftRight D c))" by simp
  qed
  then show ?thesis by (simp add: drop_bit_eq_div)
qed

section \<open>Highest and lowest bit\<close>

text \<open>The bit numbers are of the type \<open>unsigned\<close>; \<open>-1U\<close> stands for no bit.\<close>

definition partMSB :: "part \<Rightarrow> 32 word result" where
  "partMSB value = rbind (findLastSet value ZB_Max) (\<lambda>n. Inr (ucast n))"

definition partLSB :: "part \<Rightarrow> 32 word result" where
  "partLSB value = rbind (findFirstSet value ZB_Max) (\<lambda>n. Inr (ucast n))"

fun lsb_loop :: "nat \<Rightarrow> part list \<Rightarrow> 32 word result" where
  "lsb_loop i [] = Inr (- 1)"
| "lsb_loop i (p # parts) =
    (if p \<noteq> 0 then rbind (partLSB p) (\<lambda>lsb. Inr (lsb + of_nat i * 64)) else lsb_loop (Suc i) parts)"

definition tcLSB :: "part list \<Rightarrow> 32 word result" where
  "tcLSB parts = lsb_loop 0 parts"

fun msb_loop :: "part list \<Rightarrow> nat \<Rightarrow> 32 word result" where
  "msb_loop parts 0 = Inr (- 1)"
| "msb_loop parts (Suc n) =
    (if parts ! n \<noteq> 0 then rbind (partMSB (parts ! n)) (\<lambda>msb. Inr (msb + of_nat n * 64))
     else msb_loop parts n)"

definition tcMSB :: "part list \<Rightarrow> 32 word result" where
  "tcMSB parts = (if parts = [] then Inl (UndefinedBehaviour ''parts[-1U]'') else msb_loop parts (length parts))"

lemma partMSB_value:
  assumes "p \<noteq> 0"
  shows "\<exists>n < 64. partMSB p = Inr (of_nat n) \<and> 2 ^ n \<le> unat p \<and> unat p < 2 ^ Suc n"
proof -
  from findLastSet_64 [OF assms, of ZB_Max] obtain n where n: "n < 64"
    "findLastSet p ZB_Max = Inr (of_nat n)" "2 ^ n \<le> unat p" "unat p < 2 ^ Suc n" by auto
  have "ucast (of_nat n :: part) = (of_nat n :: 32 word)"
    using n(1) by (simp add: unsigned_of_nat take_bit_nat_eq_self)
  with n show ?thesis by (auto simp: partMSB_def)
qed

lemma partLSB_value:
  assumes "p \<noteq> 0"
  shows "\<exists>n < 64. partLSB p = Inr (of_nat n) \<and> bit (unat p) n \<and> 2 ^ n dvd unat p"
proof -
  from findFirstSet_64 [OF assms, of ZB_Max] obtain n where n: "n < 64"
    "findFirstSet p ZB_Max = Inr (of_nat n)" "bit (unat p) n" "2 ^ n dvd unat p" by auto
  have "ucast (of_nat n :: part) = (of_nat n :: 32 word)"
    using n(1) by (simp add: unsigned_of_nat take_bit_nat_eq_self)
  with n show ?thesis by (auto simp: partLSB_def)
qed

lemma msb_loop_value:
  "n \<le> length ws \<Longrightarrow> tc_value (take n ws) \<noteq> 0 \<Longrightarrow>
   \<exists>m < 64 * n. msb_loop ws n = Inr (of_nat m) \<and> 2 ^ m \<le> tc_value (take n ws) \<and> tc_value (take n ws) < 2 ^ Suc m"
proof (induction n)
  case (Suc n)
  then have n: "n < length ws" by simp
  show ?case
  proof (cases "ws ! n = 0")
    case True
    with Suc n have "tc_value (take (Suc n) ws) = tc_value (take n ws)" by (simp add: take_Suc_value)
    with Suc True n show ?thesis by (simp, metis less_SucI add_Suc_shift trans_less_add2 numeral_Bit0)
  next
    case False
    from partMSB_value [OF this] obtain k where k: "k < 64" "partMSB (ws ! n) = Inr (of_nat k)"
      "2 ^ k \<le> unat (ws ! n)" "unat (ws ! n) < 2 ^ Suc k" by auto
    let ?v = "tc_value (take n ws)" and ?p = "unat (ws ! n)"
    have v: "tc_value (take (Suc n) ws) = ?v + 2 ^ (64 * n) * ?p" using n by (rule take_Suc_value)
    have "2 ^ (64 * n + k) \<le> ?v + 2 ^ (64 * n) * ?p"
      using k(3) by (simp add: power_add trans_le_add2)
    moreover have "?v + 2 ^ (64 * n) * ?p < 0 + 2 ^ (64 * n) * 2 ^ Suc k"
      using k(4) by (intro high_digit_less tc_value_take_less)
    ultimately show ?thesis using False k(1,2)
      by (intro exI [of _ "64 * n + k"]) (simp add: v power_add mult.commute add.commute)
  qed
qed simp

lemma msb_loop_0: "n \<le> length ws \<Longrightarrow> tc_value (take n ws) = 0 \<Longrightarrow> msb_loop ws n = Inr (- 1)"
proof (induction n)
  case (Suc n)
  then have n: "n < length ws" by simp
  with Suc.prems(2) have "tc_value (take n ws) = 0" "ws ! n = 0"
    by (simp_all add: take_Suc_value unat_eq_0)
  with Suc show ?case by simp
qed simp

text \<open>The highest bit is the logarithm of the value, and \<open>-1U\<close> for zero.\<close>

lemma tcMSB_value:
  assumes "ws \<noteq> []"
  shows "tc_value ws = 0 \<Longrightarrow> tcMSB ws = Inr (- 1)"
    and "tc_value ws \<noteq> 0 \<Longrightarrow> \<exists>m < 64 * length ws. tcMSB ws = Inr (of_nat m) \<and> 2 ^ m \<le> tc_value ws \<and> tc_value ws < 2 ^ Suc m"
  using msb_loop_0 [of "length ws" ws] msb_loop_value [of "length ws" ws] assms
  by (simp_all add: tcMSB_def)

lemma lsb_loop_value:
  "tc_value ws \<noteq> 0 \<Longrightarrow>
   \<exists>m < 64 * length ws. lsb_loop i ws = Inr (of_nat (64 * i + m)) \<and> bit (tc_value ws) m \<and> 2 ^ m dvd tc_value ws"
proof (induction ws arbitrary: i)
  case (Cons w ws)
  show ?case
  proof (cases "w = 0")
    case True
    with Cons.prems have "tc_value ws \<noteq> 0" by simp
    from Cons.IH [OF this, of "Suc i"] obtain m where m: "m < 64 * length ws"
      "lsb_loop (Suc i) ws = Inr (of_nat (64 * Suc i + m))" "bit (tc_value ws) m" "2 ^ m dvd tc_value ws" by auto
    have "tc_value (w # ws) = push_bit 64 (tc_value ws)" using True by (simp add: push_bit_eq_mult)
    with m have "bit (tc_value (w # ws)) (64 + m)" by (simp add: bit_push_bit_iff)
    moreover have "2 ^ (64 + m) dvd tc_value (w # ws)"
      using True mult_dvd_mono [OF dvd_refl [of "2 ^ 64"] m(4)] by (simp add: power_add)
    ultimately show ?thesis using True m(1,2)
      by (intro exI [of _ "64 + m"]) (simp add: add.assoc [symmetric])
  next
    case False
    from partLSB_value [OF this] obtain n where n: "n < 64" "partLSB w = Inr (of_nat n)"
      "bit (unat w) n" "2 ^ n dvd unat w" by auto
    from n have "bit (tc_value (w # ws)) n" using bit_tc_value [of "w # ws" n] by (simp add: bit_unsigned_iff)
    moreover have "2 ^ n dvd (2 :: nat) ^ 64" using n(1) by (intro le_imp_power_dvd) simp
    then have "2 ^ n dvd tc_value (w # ws)" using n(4) unfolding tc_value.simps by (intro dvd_add dvd_mult2)
    ultimately show ?thesis using False n(1,2) by (intro exI [of _ n]) (simp add: add.commute mult.commute)
  qed
qed simp

section \<open>Bit fields\<close>

definition lowBitMask :: "nat \<Rightarrow> part result" where
  "lowBitMask bits =
    (if bits \<noteq> 0 \<and> bits \<le> 64 then Inr (drop_bit (64 - bits) (NOT 0))
     else Inl (AssertFailed ''bits != 0 && bits <= APInt::APINT_BITS_PER_WORD''))"

definition tcExtract :: "part list \<Rightarrow> part list \<Rightarrow> nat \<Rightarrow> nat \<Rightarrow> part list result" where
  "tcExtract dst src srcBits srcLSB =
    (let dstCount = length dst; dstParts = (srcBits + 64 - 1) div 64;
         firstSrcPart = srcLSB div 64; shift = srcLSB mod 64;
         n = (dstParts * 64 + 2 ^ 32 - shift) mod 2 ^ 32
     in rbind (check_assert (dstParts \<le> dstCount) ''dstParts <= dstCount'') (\<lambda>_.
        if length src < firstSrcPart + dstParts then Inl (UndefinedBehaviour ''src'')
        else let d = tcShiftRight (tcAssign (take dstParts dst) (drop firstSrcPart src)) shift
        in rbind
          (if n < srcBits
           then rbind (lowBitMask (srcBits - n)) (\<lambda>mask.
             if length src \<le> firstSrcPart + dstParts then Inl (UndefinedBehaviour ''src'')
             else Inr (d[dstParts - 1 := d ! (dstParts - 1) OR
               push_bit (n mod 64) (src ! (firstSrcPart + dstParts) AND mask)]))
           else if srcBits < n \<and> srcBits mod 64 \<noteq> 0
           then rbind (lowBitMask (srcBits mod 64)) (\<lambda>mask.
             Inr (d[dstParts - 1 := d ! (dstParts - 1) AND mask]))
           else Inr d)
          (\<lambda>d. Inr (d @ replicate (dstCount - dstParts) 0))))"

fun set_low_loop :: "nat \<Rightarrow> nat \<Rightarrow> part list \<Rightarrow> nat \<times> nat \<times> part list" where
  "set_low_loop i bits dst =
    (if 64 < bits then set_low_loop (Suc i) (bits - 64) (dst[i := NOT 0]) else (i, bits, dst))"

declare set_low_loop.simps [simp del]

definition tcSetLeastSignificantBits :: "part list \<Rightarrow> nat \<Rightarrow> part list result" where
  "tcSetLeastSignificantBits dst bits =
    (if 64 * length dst < bits then Inl (UndefinedBehaviour ''dst'')
     else let parts = length dst; (i, bits, dst) = set_low_loop 0 bits dst;
              dst = (if bits \<noteq> 0 then dst[i := drop_bit (64 - bits) (NOT 0)] else dst);
              i = (if bits \<noteq> 0 then Suc i else i)
          in Inr (fold (\<lambda>i dst. dst[i := 0]) [i..<parts] dst))"

lemma lowBitMask_eq: "0 < b \<Longrightarrow> b \<le> 64 \<Longrightarrow> lowBitMask b = Inr (mask b)"
  using drop_bit_mask_half [of 64 "64 - b", where ?'a = 64] by (simp add: lowBitMask_def)

lemma last_word_and_mask:
  assumes "length ws = Suc k" "r < 64"
  shows "tc_value (ws[k := ws ! k AND mask r]) = take_bit (64 * k + r) (tc_value ws)"
proof (rule tc_value_eqI_word)
  fix j s :: nat
  assume "j < length (ws[k := ws ! k AND mask r])" and s: "s < 64"
  then have "j = k \<or> j < k" using assms(1) by auto
  then show "bit (take_bit (64 * k + r) (tc_value ws)) (64 * j + s) \<longleftrightarrow>
      bit (ws[k := ws ! k AND mask r] ! j) s"
    using assms s by (auto simp: bit_take_bit_iff bit_tc_value_word bit_and_iff bit_mask_iff)
next
  have "take_bit (64 * k + r) (tc_value ws) < 2 ^ (64 * k + r)" by simp
  also have "\<dots> \<le> 2 ^ (64 * length (ws[k := ws ! k AND mask r]))"
    using assms by (intro power_increasing) simp_all
  finally show "take_bit (64 * k + r) (tc_value ws) < 2 ^ (64 * length (ws[k := ws ! k AND mask r]))" .
qed

lemma less_exp_bitI: "(\<And>i. bit n i \<Longrightarrow> i < m) \<Longrightarrow> n < (2 :: nat) ^ m"
  by (metis (no_types, lifting) bit_eqI bit_take_bit_iff take_bit_nat_less_exp)

lemma last_word_or:
  assumes "length ws = Suc k" "b < 64"
  shows "tc_value (ws[k := ws ! k OR push_bit b w]) =
    tc_value ws OR push_bit (64 * k + b) (take_bit (64 - b) (unat w))"
proof (rule tc_value_eqI_word)
  fix j s :: nat
  assume "j < length (ws[k := ws ! k OR push_bit b w])" and s: "s < 64"
  then have "j = k \<or> j < k" using assms(1) by auto
  then show "bit (tc_value ws OR push_bit (64 * k + b) (take_bit (64 - b) (unat w))) (64 * j + s) \<longleftrightarrow>
      bit (ws[k := ws ! k OR push_bit b w] ! j) s"
    using assms s by (auto simp: bit_or_iff bit_take_bit_iff bit_push_bit_iff bit_tc_value_word bit_unsigned_iff)
next
  have "bit (tc_value ws OR push_bit (64 * k + b) (take_bit (64 - b) (unat w))) i \<Longrightarrow> i < 64 * Suc k" for i
    using assms tc_value_less [of ws]
    by (auto simp: bit_or_iff bit_push_bit_iff bit_take_bit_iff bit_tc_value div_less_iff_less_mult)
  then have "tc_value ws OR push_bit (64 * k + b) (take_bit (64 - b) (unat w)) < 2 ^ (64 * Suc k)"
    by (rule less_exp_bitI)
  then show "tc_value ws OR push_bit (64 * k + b) (take_bit (64 - b) (unat w)) <
      2 ^ (64 * length (ws[k := ws ! k OR push_bit b w]))"
    using assms(1) by simp
qed

lemma tc_value_take_drop:
  "m + k \<le> length ws \<Longrightarrow> tc_value (take m (drop k ws)) = take_bit (64 * m) (drop_bit (64 * k) (tc_value ws))"
proof (rule tc_value_eqI_word)
  fix j s :: nat
  assume a: "m + k \<le> length ws" "j < length (take m (drop k ws))" "s < 64"
  have "64 * k + (64 * j + s) = 64 * (k + j) + s" by simp
  with a have "bit (tc_value ws) (64 * k + (64 * j + s)) \<longleftrightarrow> bit (ws ! (k + j)) s"
    by (simp only: bit_tc_value_word) simp
  with a show "bit (take_bit (64 * m) (drop_bit (64 * k) (tc_value ws))) (64 * j + s) \<longleftrightarrow>
      bit (take m (drop k ws) ! j) s"
    by (simp add: bit_take_bit_iff bit_drop_bit_eq)
qed simp

lemma extract_wrap:
  assumes "0 < p" "64 * p \<le> 2 ^ 31" "s < 64"
  shows "(p * 64 + 2 ^ 32 - s) mod 2 ^ 32 = 64 * p - (s :: nat)"
proof -
  have "p * 64 + 2 ^ 32 - s = (64 * p - s) + 2 ^ 32" using assms by simp
  moreover have "64 * p - s < 2 ^ 32" using assms by simp
  ultimately show ?thesis by (metis mod_add_self2 mod_less)
qed

lemma take_bit_split:
  "n \<le> m \<Longrightarrow> take_bit m (x :: nat) = take_bit n x OR push_bit n (take_bit (m - n) (drop_bit n x))"
  by (rule bit_eqI) (auto simp: bit_or_iff bit_take_bit_iff bit_push_bit_iff bit_drop_bit_eq)

lemma tc_value_append_0 [simp]: "tc_value (ws @ replicate n 0) = tc_value ws"
  by (simp add: tc_value_append)

lemma tcExtract_value:
  assumes src: "srcLSB + srcBits \<le> 64 * length src" "length src \<le> 2 ^ 25"
    and dst: "(srcBits + 63) div 64 \<le> length dst"
  shows "\<exists>dst'. tcExtract dst src srcBits srcLSB = Inr dst' \<and> length dst' = length dst \<and>
    tc_value dst' = take_bit srcBits (drop_bit srcLSB (tc_value src))"
proof (cases "srcBits = 0")
  case True
  have "srcLSB div 64 \<le> length src" using src(1) by (simp add: True div_le_mono [of _ "64 * length src" 64, simplified])
  moreover have "tcShiftRight (tcAssign [] ws) s = []" for ws s
    using length_tcShiftRight [of "[]" s] by (simp add: tcAssign_def del: length_tcShiftRight)
  ultimately show ?thesis using dst by (simp add: tcExtract_def Let_def True)
next
  case False
  define P f s where "P = (srcBits + 63) div 64" and "f = srcLSB div 64" and "s = srcLSB mod 64"
  have lsb: "srcLSB = 64 * f + s" and s: "s < 64" by (simp_all add: f_def s_def)
  have P: "srcBits \<le> 64 * P" "64 * P < srcBits + 64" "0 < P" using False by (simp_all add: P_def)
  have fP: "f + P \<le> length src" using src(1) P lsb by linarith
  have P32: "64 * P \<le> 2 ^ 31" using fP src(2) by simp
  define n where "n = 64 * P - s"
  define X where "X = drop_bit srcLSB (tc_value src)"
  define d where "d = tcShiftRight (take P (drop f src)) s"
  have ld: "length d = P" using fP by (simp add: d_def)
  have vd: "tc_value d = take_bit n X"
    using fP s P(3) by (simp add: d_def tcShiftRight_value tc_value_take_drop X_def n_def lsb drop_bit_take_bit
        add.commute flip: drop_bit_eq_div)
  have as: "tcAssign (take P dst) (drop f src) = take P (drop f src)"
    using fP dst by (simp add: tcAssign_eq P_def [symmetric])
  define E where "E = (if n < srcBits
           then rbind (lowBitMask (srcBits - n)) (\<lambda>mask.
             if length src \<le> f + P then Inl (UndefinedBehaviour ''src'')
             else Inr (d[P - 1 := d ! (P - 1) OR push_bit (n mod 64) (src ! (f + P) AND mask)]))
           else if srcBits < n \<and> srcBits mod 64 \<noteq> 0
           then rbind (lowBitMask (srcBits mod 64)) (\<lambda>mask. Inr (d[P - 1 := d ! (P - 1) AND mask]))
           else Inr d)"
  have E: "tcExtract dst src srcBits srcLSB = rbind E (\<lambda>d. Inr (d @ replicate (length dst - P) 0))"
  proof -
    have pd: "(srcBits + 64 - 1) div 64 = P" by (simp add: P_def)
    have nd: "(P * 64 + 2 ^ 32 - s) mod 2 ^ 32 = n"
      unfolding n_def by (rule extract_wrap [OF P(3) P32 s])
    have dP: "P \<le> length dst" using dst by (simp add: P_def)
    show ?thesis
      unfolding tcExtract_def Let_def pd f_def [symmetric] s_def [symmetric] nd as
        d_def [symmetric] E_def [symmetric]
      using fP dP by simp
  qed
  have "\<exists>d'. E = Inr d' \<and> length d' = P \<and> tc_value d' = take_bit srcBits X"
  proof (cases "n < srcBits")
    case True
    then have t: "0 < srcBits - n" "srcBits - n \<le> s" using P s by (simp_all add: n_def)
    have sP: "f + P < length src" using src(1) P lsb True by (simp add: n_def)
    have nn: "n mod 64 = 64 - s" "n = 64 * (P - 1) + (64 - s)"
    proof -
      show e: "n = 64 * (P - 1) + (64 - s)" using P(3) s by (simp add: n_def diff_mult_distrib2)
      show "n mod 64 = 64 - s" using t unfolding e by simp
    qed
    have "take_bit (srcBits - n) (drop_bit n X) = take_bit (srcBits - n) (unat (src ! (f + P)))"
    proof (rule bit_eqI)
      fix i
      have "i < srcBits - n \<Longrightarrow> bit (tc_value src) (64 * (f + P) + i) \<longleftrightarrow> bit (src ! (f + P)) i"
        using sP t s by (subst bit_tc_value_word) simp_all
      moreover have "n + srcLSB + i = 64 * (f + P) + i" using P(3) s lsb by (simp add: n_def)
      then have "bit (drop_bit n X) i \<longleftrightarrow> bit (tc_value src) (64 * (f + P) + i)"
        by (simp add: X_def bit_drop_bit_eq)
      ultimately show "bit (take_bit (srcBits - n) (drop_bit n X)) i \<longleftrightarrow>
          bit (take_bit (srcBits - n) (unat (src ! (f + P)))) i"
        using t s by (auto simp: bit_take_bit_iff bit_unsigned_iff)
    qed
    moreover have "take_bit (64 - (64 - s)) (unat (src ! (f + P) AND mask (srcBits - n))) =
        take_bit (srcBits - n) (unat (src ! (f + P)))"
      using t s by (simp add: unsigned_take_bit_eq min_def flip: take_bit_eq_mask)
    moreover have "tc_value (d[P - 1 := d ! (P - 1) OR push_bit (64 - s) (src ! (f + P) AND mask (srcBits - n))]) =
        tc_value d OR push_bit (64 * (P - 1) + (64 - s))
          (take_bit (64 - (64 - s)) (unat (src ! (f + P) AND mask (srcBits - n))))"
      using ld P(3) t by (intro last_word_or) simp_all
    ultimately have "tc_value (d[P - 1 := d ! (P - 1) OR push_bit (64 - s) (src ! (f + P) AND mask (srcBits - n))]) =
        take_bit n X OR push_bit n (take_bit (srcBits - n) (drop_bit n X))"
      by (simp only: vd nn(2) [symmetric])
    also have "\<dots> = take_bit srcBits X" using True by (intro take_bit_split [symmetric]) simp
    finally have "tc_value (d[P - 1 := d ! (P - 1) OR push_bit (64 - s) (src ! (f + P) AND mask (srcBits - n))]) =
        take_bit srcBits X" .
    with True t s sP nn ld show ?thesis by (simp add: E_def lowBitMask_eq)
  next
    case ge: False
    show ?thesis
    proof (cases "srcBits mod 64 = 0")
      case True
      then have "srcBits = 64 * P" using P by presburger
      with ge s have "n = srcBits" by (simp add: n_def)
      with True ge ld vd show ?thesis by (simp add: E_def)
    next
      case r: False
      have b: "srcBits = 64 * (P - 1) + srcBits mod 64"
      proof -
        have e: "64 * (srcBits div 64) + srcBits mod 64 = srcBits" by simp
        have "srcBits mod 64 < 64" by simp
        with r P e have "srcBits div 64 < P" "P < srcBits div 64 + 2" by linarith+
        then have "P - 1 = srcBits div 64" by simp
        with e show ?thesis by simp
      qed
      show ?thesis
      proof (cases "srcBits = n")
        case True
        with ld vd show ?thesis by (simp add: E_def)
      next
        case ne: False
        have "tc_value (d[P - 1 := d ! (P - 1) AND mask (srcBits mod 64)]) = take_bit srcBits X"
          using last_word_and_mask [of d "P - 1" "srcBits mod 64"] ld P(3) ge b by (simp add: vd min_def)
        with r ne ge ld show ?thesis by (simp add: E_def lowBitMask_eq)
      qed
    qed
  qed
  then show ?thesis using dst by (auto simp: E X_def simp flip: P_def)
qed

lemma set_low_loop_eq:
  "bits \<le> 64 * length rest \<Longrightarrow>
   \<exists>k \<le> length rest. set_low_loop (length xs) bits (xs @ rest) =
       (length xs + k, bits - 64 * k, xs @ replicate k (- 1) @ drop k rest) \<and>
     64 * k \<le> bits \<and> bits - 64 * k \<le> 64"
proof (induction "length xs" bits "xs @ rest" arbitrary: xs rest rule: set_low_loop.induct)
  case (1 bits)
  show ?case
  proof (cases "64 < bits")
    case True
    with 1(2) obtain r rs where r: "rest = r # rs" by (cases rest) auto
    have u: "(xs @ rest)[length xs := NOT 0] = (xs @ [- 1]) @ rs" by (simp add: r list_update_append)
    from 1(1) [OF True, of "xs @ [- 1]" rs] 1(2) obtain k where k: "k \<le> length rs"
      "set_low_loop (Suc (length xs)) (bits - 64) ((xs @ rest)[length xs := NOT 0]) =
         (Suc (length xs) + k, bits - 64 - 64 * k, (xs @ [- 1]) @ replicate k (- 1) @ drop k rs)"
      "64 * k \<le> bits - 64" "bits - 64 - 64 * k \<le> 64"
      unfolding u by (auto simp: r le_diff_conv)
    then show ?thesis using True
      by (intro exI [of _ "Suc k"]) (simp add: set_low_loop.simps [of "length xs" bits] r)
  next
    case False
    then show ?thesis by (intro exI [of _ 0]) (simp add: set_low_loop.simps [of "length xs" bits])
  qed
qed

lemma tc_value_replicate_ones: "tc_value (replicate k (- 1)) = 2 ^ (64 * k) - 1"
proof (induction k)
  case (Suc k)
  have "1 \<le> (2 :: nat) ^ (64 * k)" by simp
  with Suc unat_part_not [of 0] show ?case by (simp add: power_add algebra_simps)
qed simp

lemma fold_clear:
  fixes d :: "part list"
  shows "i \<le> length d \<Longrightarrow> n = length d \<Longrightarrow> fold (\<lambda>i d. d[i := 0]) [i..<n] d = take i d @ replicate (n - i) 0"
proof (induction "n - i" arbitrary: i d)
  case (Suc m)
  then have i: "i < length d" "i < n" by simp_all
  have IH: "fold (\<lambda>i d. d[i := 0]) [Suc i..<n] (d[i := 0]) = take (Suc i) (d[i := 0]) @ replicate (n - Suc i) 0"
    using Suc.hyps(2) Suc.prems i by (intro Suc.hyps(1)) simp_all
  from i have "[i..<n] = i # [Suc i..<n]" by (simp add: upt_conv_Cons)
  moreover have "take (Suc i) (d[i := 0]) = take i d @ [0]" using i by (simp add: take_Suc_conv_app_nth)
  moreover have "replicate (n - i) (0 :: part) = 0 # replicate (n - Suc i) 0"
    using i by (metis Suc_diff_Suc replicate_Suc)
  ultimately show ?case using IH by simp
qed simp

lemma unat_mask_part: "b \<le> 64 \<Longrightarrow> unat (mask b :: part) = mask b"
  by (rule bit_eqI) (auto simp: bit_unsigned_iff bit_mask_iff)

lemma tcSetLeastSignificantBits_value:
  assumes "bits \<le> 64 * length dst"
  shows "\<exists>dst'. tcSetLeastSignificantBits dst bits = Inr dst' \<and> length dst' = length dst \<and>
    tc_value dst' = 2 ^ bits - 1"
proof -
  from set_low_loop_eq [OF assms, of "[]"] obtain k where k: "k \<le> length dst"
    "set_low_loop 0 bits dst = (k, bits - 64 * k, replicate k (- 1) @ drop k dst)"
    "64 * k \<le> bits" "bits - 64 * k \<le> 64" by auto
  show ?thesis
  proof (cases "bits = 64 * k")
    case True
    with k assms show ?thesis
      by (simp add: tcSetLeastSignificantBits_def fold_clear tc_value_replicate_ones)
  next
    case False
    define b where "b = bits - 64 * k"
    with False k have b: "0 < b" "b \<le> 64" "bits = 64 * k + b" by simp_all
    with assms have kd: "k < length dst" by simp
    have m: "drop_bit (64 - b) (NOT 0) = (mask b :: part)" using lowBitMask_eq [OF b(1,2)] b by (simp add: lowBitMask_def)
    have "tc_value (replicate k (- 1) @ [mask b] @ replicate (length dst - Suc k) 0) = 2 ^ bits - 1"
    proof -
      have "unat (mask b :: part) = 2 ^ b - 1"
        using b by (simp only: unat_mask_part) (simp add: mask_eq_exp_minus_1)
      then have "tc_value (replicate k (- 1) @ [mask b]) = 2 ^ (64 * k) - 1 + 2 ^ (64 * k) * (2 ^ b - 1)"
        by (simp add: tc_value_append tc_value_replicate_ones)
      also have "\<dots> = 2 ^ bits - 1" by (simp add: b power_add diff_mult_distrib2)
      finally show ?thesis
        using tc_value_append_0 [of "replicate k (- 1) @ [mask b]" "length dst - Suc k"] by simp
    qed
    moreover have "take (Suc k) ((replicate k (- 1) @ drop k dst)[k := mask b]) = replicate k (- 1) @ [mask b]"
      using kd by (simp add: list_update_append take_Suc_conv_app_nth Cons_nth_drop_Suc [symmetric])
    ultimately show ?thesis using k kd b assms
      by (simp add: tcSetLeastSignificantBits_def fold_clear b_def [symmetric] m)
  qed
qed

end
