(* ===== verification/FixedWidth.thy ===== *)
theory FixedWidth
  imports Prelude
begin

text \<open>
  The contract of unsigned integers of a fixed width whose operations may fail: what an
  implementation promises of the value of a sum, a difference, a product and a negation of two
  numbers of the same width, and the laws of arithmetic modulo a power of two that follow.
  The arrays of words and the class \<open>APInt\<close> are two implementations of it.
\<close>

locale fixed_width =
  fixes wf :: "'a \<Rightarrow> bool" and width :: "'a \<Rightarrow> nat" and val :: "'a \<Rightarrow> nat"
    and add sub mul :: "'a \<Rightarrow> 'a \<Rightarrow> 'a result" and neg :: "'a \<Rightarrow> 'a result"
  assumes val_inject: "wf x \<Longrightarrow> wf y \<Longrightarrow> width x = width y \<Longrightarrow> val x = val y \<Longrightarrow> x = y"
    and val_less: "wf x \<Longrightarrow> val x < 2 ^ width x"
    and add_law: "wf x \<Longrightarrow> wf y \<Longrightarrow> width x = width y \<Longrightarrow>
      \<exists>z. add x y = Inr z \<and> wf z \<and> width z = width x \<and> val z = (val x + val y) mod 2 ^ width x"
    and sub_law: "wf x \<Longrightarrow> wf y \<Longrightarrow> width x = width y \<Longrightarrow>
      \<exists>z. sub x y = Inr z \<and> wf z \<and> width z = width x \<and> (val z + val y) mod 2 ^ width x = val x"
    and mul_law: "wf x \<Longrightarrow> wf y \<Longrightarrow> width x = width y \<Longrightarrow>
      \<exists>z. mul x y = Inr z \<and> wf z \<and> width z = width x \<and> val z = (val x * val y) mod 2 ^ width x"
    and neg_law: "wf x \<Longrightarrow>
      \<exists>z. neg x = Inr z \<and> wf z \<and> width z = width x \<and> (val z + val x) mod 2 ^ width x = 0"
begin

lemma eqI:
  "wf x \<Longrightarrow> wf y \<Longrightarrow> width x = width y \<Longrightarrow> val x mod 2 ^ width x = val y mod 2 ^ width y \<Longrightarrow> x = y"
  using val_less [of x] val_less [of y] by (intro val_inject) simp_all

lemma add_commute:
  assumes "wf x" "wf y" "width x = width y"
  shows "add x y = add y x"
proof -
  from add_law [of x y] add_law [of y x] assms obtain a b where
    "add x y = Inr a" "wf a" "width a = width x" "val a = (val x + val y) mod 2 ^ width x"
    "add y x = Inr b" "wf b" "width b = width x" "val b = (val y + val x) mod 2 ^ width x" by auto
  then show ?thesis using val_inject [of a b] by (simp add: add.commute)
qed

lemma add_assoc:
  assumes "wf x" "wf y" "wf z" "width x = width y" "width y = width z"
  shows "rbind (add x y) (\<lambda>s. add s z) = rbind (add y z) (add x)"
proof -
  from add_law [of x y] add_law [of y z] assms obtain a b where
    a: "add x y = Inr a" "wf a" "width a = width x" "val a = (val x + val y) mod 2 ^ width x" and
    b: "add y z = Inr b" "wf b" "width b = width x" "val b = (val y + val z) mod 2 ^ width x" by auto
  from add_law [of a z] add_law [of x b] assms a b obtain c d where
    "add a z = Inr c" "wf c" "width c = width x" "val c = (val a + val z) mod 2 ^ width x"
    "add x b = Inr d" "wf d" "width d = width x" "val d = (val x + val b) mod 2 ^ width x" by auto
  then show ?thesis using val_inject [of c d] a b by (simp add: mod_simps add.assoc)
qed

lemma sub_add_cancel:
  assumes "wf x" "wf y" "width x = width y"
  shows "rbind (sub x y) (\<lambda>d. add d y) = Inr x"
proof -
  from sub_law [of x y] assms obtain d where
    d: "sub x y = Inr d" "wf d" "width d = width x" "(val d + val y) mod 2 ^ width x = val x" by auto
  from add_law [of d y] assms d obtain z where
    "add d y = Inr z" "wf z" "width z = width x" "val z = (val d + val y) mod 2 ^ width x" by auto
  with d assms show ?thesis using val_inject [of z x] by simp
qed

lemma sub_unique:
  assumes "wf x" "wf y" "wf d" "width x = width y" "width d = width x"
    and "(val d + val y) mod 2 ^ width x = val x"
  shows "sub x y = Inr d"
proof -
  from sub_law [of x y] assms obtain e where
    e: "sub x y = Inr e" "wf e" "width e = width x" "(val e + val y) mod 2 ^ width x = val x" by auto
  have "val d mod 2 ^ width x = val e mod 2 ^ width x"
  proof -
    let ?m = "int (2 ^ width x)"
    have "int (val d + val y) mod ?m = int (val e + val y) mod ?m"
      using e(4) assms(6) by (simp only: of_nat_mod [symmetric])
    from mod_diff_cong [OF this refl, of "int (val y)"]
    have "int (val d) mod ?m = int (val e) mod ?m" by (simp only: of_nat_add add_diff_cancel_right')
    then show ?thesis by (simp only: of_nat_mod [symmetric] of_nat_eq_iff)
  qed
  then have "d = e" using assms e by (intro eqI) simp_all
  with e show ?thesis by simp
qed

lemma add_neg_sub:
  assumes "wf x" "wf y" "width x = width y"
  shows "rbind (neg y) (add x) = sub x y"
proof -
  from neg_law [of y] assms obtain n where
    n: "neg y = Inr n" "wf n" "width n = width x" "(val n + val y) mod 2 ^ width x = 0" by auto
  from add_law [of x n] assms n obtain z where
    z: "add x n = Inr z" "wf z" "width z = width x" "val z = (val x + val n) mod 2 ^ width x" by auto
  have "(val z + val y) mod 2 ^ width x = (val x + (val n + val y) mod 2 ^ width x) mod 2 ^ width x"
    by (simp add: z(4) mod_simps add.assoc)
  also have "\<dots> = val x" using val_less [of x] assms n(4) by simp
  finally have "sub x y = Inr z" using assms z by (intro sub_unique) simp_all
  with n z show ?thesis by simp
qed

lemma mul_commute:
  assumes "wf x" "wf y" "width x = width y"
  shows "mul x y = mul y x"
proof -
  from mul_law [of x y] mul_law [of y x] assms obtain a b where
    "mul x y = Inr a" "wf a" "width a = width x" "val a = (val x * val y) mod 2 ^ width x"
    "mul y x = Inr b" "wf b" "width b = width x" "val b = (val y * val x) mod 2 ^ width x" by auto
  then show ?thesis using val_inject [of a b] by (simp add: mult.commute)
qed

lemma mul_assoc:
  assumes "wf x" "wf y" "wf z" "width x = width y" "width y = width z"
  shows "rbind (mul x y) (\<lambda>s. mul s z) = rbind (mul y z) (mul x)"
proof -
  from mul_law [of x y] mul_law [of y z] assms obtain a b where
    a: "mul x y = Inr a" "wf a" "width a = width x" "val a = (val x * val y) mod 2 ^ width x" and
    b: "mul y z = Inr b" "wf b" "width b = width x" "val b = (val y * val z) mod 2 ^ width x" by auto
  from mul_law [of a z] mul_law [of x b] assms a b obtain c d where
    "mul a z = Inr c" "wf c" "width c = width x" "val c = (val a * val z) mod 2 ^ width x"
    "mul x b = Inr d" "wf d" "width d = width x" "val d = (val x * val b) mod 2 ^ width x" by auto
  then show ?thesis using val_inject [of c d] a b by (simp add: mod_simps mult.assoc)
qed

lemma distrib:
  assumes "wf x" "wf y" "wf z" "width x = width y" "width y = width z"
  shows "rbind (add y z) (mul x) = rbind (mul x y) (\<lambda>p. rbind (mul x z) (add p))"
proof -
  from add_law [of y z] mul_law [of x y] mul_law [of x z] assms obtain s p q where
    s: "add y z = Inr s" "wf s" "width s = width x" "val s = (val y + val z) mod 2 ^ width x" and
    p: "mul x y = Inr p" "wf p" "width p = width x" "val p = (val x * val y) mod 2 ^ width x" and
    q: "mul x z = Inr q" "wf q" "width q = width x" "val q = (val x * val z) mod 2 ^ width x" by auto
  from mul_law [of x s] add_law [of p q] assms s p q obtain c d where
    "mul x s = Inr c" "wf c" "width c = width x" "val c = (val x * val s) mod 2 ^ width x"
    "add p q = Inr d" "wf d" "width d = width x" "val d = (val p + val q) mod 2 ^ width x" by auto
  then show ?thesis using val_inject [of c d] s p q by (simp add: mod_simps distrib_left)
qed

end

end
