(* ===== verification/WideIntMul.thy ===== *)
theory WideIntMul
  imports WideIntShift FixedWidth
begin

unbundle bit_operations_syntax

text \<open>
  Multiplication and division of multi-word integers. A product of two words has 128 bits and
  is put together from four products of half words; division shifts the divisor to the top and
  subtracts it where it fits, bit by bit.
\<close>

section \<open>Product of two words\<close>

definition lowHalf :: "part \<Rightarrow> part" where
  "lowHalf part = part AND drop_bit (64 - 64 div 2) (NOT 0)"

definition highHalf :: "part \<Rightarrow> part" where
  "highHalf part = drop_bit (64 div 2) part"

text \<open>The two middle products and the carry are added in the same way, with the overflow counted in \<open>high\<close>.\<close>

definition add_mid :: "part \<Rightarrow> part \<times> part \<Rightarrow> part \<times> part" where
  "add_mid mid lh =
    (let (low, high) = lh;
         high = high + highHalf mid;
         mid = push_bit (64 div 2) mid;
         high = (if low + mid < low then high + 1 else high)
     in (low + mid, high))"

definition add_low :: "part \<Rightarrow> part \<times> part \<Rightarrow> part \<times> part" where
  "add_low c lh = (let (low, high) = lh in (low + c, if low + c < low then high + 1 else high))"

definition multiply_word :: "part \<Rightarrow> part \<Rightarrow> part \<Rightarrow> part \<times> part" where
  "multiply_word multiplier carry srcPart =
    (if multiplier = 0 \<or> srcPart = 0 then (carry, 0)
     else let low = lowHalf srcPart * lowHalf multiplier;
              high = highHalf srcPart * highHalf multiplier
          in add_low carry (add_mid (highHalf srcPart * lowHalf multiplier)
               (add_mid (lowHalf srcPart * highHalf multiplier) (low, high))))"

text \<open>The pair of \<open>low\<close> and \<open>high\<close> stands for a number modulo two to the power 128.\<close>

definition wide :: "part \<times> part \<Rightarrow> nat" where
  "wide lh = unat (fst lh) + 2 ^ 64 * unat (snd lh)"

lemma wide_less: "wide lh < 2 ^ 128"
  using unat_part_numeral [of "fst lh"] unat_part_numeral [of "snd lh"] by (simp add: wide_def)

lemma wide_add:
  assumes "wide (low, high) + unat c + 2 ^ 64 * unat h < 2 ^ 128"
  shows "wide (low + c, if low + c < low then high + h + 1 else high + h) =
    wide (low, high) + unat c + 2 ^ 64 * unat h"
  using assms unat_part_numeral [of low] unat_part_numeral [of high] unat_part_numeral [of c] unat_part_numeral [of h]
  by (auto simp: wide_def part_arith split: if_splits)

lemma lowHalf_eq: "lowHalf p = take_bit 32 p"
  using drop_bit_mask_half [of 64 32, where ?'a = 64] by (simp add: lowHalf_def take_bit_eq_mask)

lemma unat_halves:
  "unat (lowHalf p) < 2 ^ 32" "unat (highHalf p) < 2 ^ 32"
  "unat p = unat (lowHalf p) + 2 ^ 32 * unat (highHalf p)"
proof -
  have l: "unat (lowHalf p) = unat p mod 2 ^ 32"
    by (metis lowHalf_eq take_bit_eq_mod unsigned_take_bit_eq)
  have h: "unat (highHalf p) = unat p div 2 ^ 32"
    by (simp add: highHalf_def unat_drop_bit_eq flip: drop_bit_eq_div) (simp add: drop_bit_eq_div)
  show "unat (lowHalf p) < 2 ^ 32" by (simp add: l)
  show "unat (highHalf p) < 2 ^ 32" using unat_part_numeral [of p] by (simp add: h less_mult_imp_div_less)
  show "unat p = unat (lowHalf p) + 2 ^ 32 * unat (highHalf p)" by (simp only: l h) simp
qed

lemma unat_half_mult:
  assumes "unat a < 2 ^ 32" "unat b < 2 ^ 32"
  shows "unat (a * b :: part) = unat a * unat b"
proof -
  have "unat a * unat b < 2 ^ 32 * 2 ^ 32" using assms by (intro mult_strict_mono) simp_all
  then show ?thesis by (simp add: unat_mult_lem [THEN iffD1])
qed

lemma add_mid_value:
  assumes "wide lh + 2 ^ 32 * unat mid < 2 ^ 128"
  shows "wide (add_mid mid lh) = wide lh + 2 ^ 32 * unat mid"
proof -
  obtain low high where lh: "lh = (low, high)" by (cases lh)
  have "unat (push_bit 32 mid) = 2 ^ 32 * unat (lowHalf mid)"
  proof -
    have "unat (push_bit 32 mid) = take_bit 64 (push_bit 32 (unat mid))" by (simp add: unsigned_push_bit_eq)
    also have "\<dots> = push_bit 32 (take_bit 32 (unat mid))" by (simp add: take_bit_push_bit)
    also have "take_bit 32 (unat mid) = unat (lowHalf mid)" by (simp add: lowHalf_eq unsigned_take_bit_eq)
    finally show ?thesis by (simp add: push_bit_eq_mult)
  qed
  then have "unat (push_bit 32 mid) + 2 ^ 64 * unat (highHalf mid) = 2 ^ 32 * unat mid"
    unfolding unat_halves(3) [of mid] by (simp add: algebra_simps)
  then show ?thesis using assms wide_add [of low high "push_bit 32 mid" "highHalf mid"]
    by (simp add: lh add_mid_def Let_def add.commute add.left_commute)
qed

lemma add_low_value:
  "wide lh + unat c < 2 ^ 128 \<Longrightarrow> wide (add_low c lh) = wide lh + unat c"
  using wide_add [of "fst lh" "snd lh" c 0] by (cases lh) (simp add: add_low_def cong: if_cong)

text \<open>The largest product of words with two words added still fits into two words.\<close>

lemma product_bound:
  assumes "a < 2 ^ 64" "b < 2 ^ 64" "c < 2 ^ 64" "d < 2 ^ 64"
  shows "a * b + c + d < (2 :: nat) ^ 128"
proof -
  have "a * b \<le> (2 ^ 64 - 1) * (2 ^ 64 - 1)" using assms by (intro mult_le_mono) simp_all
  with assms show ?thesis by simp
qed

lemma multiply_word_value:
  "wide (multiply_word m c s) = unat s * unat m + unat c"
proof (cases "m = 0 \<or> s = 0")
  case True
  then show ?thesis by (auto simp: multiply_word_def wide_def)
next
  case False
  define s0 s1 m0 m1 where h: "s0 = unat (lowHalf s)" "s1 = unat (highHalf s)"
    "m0 = unat (lowHalf m)" "m1 = unat (highHalf m)"
  have s: "unat s = s0 + 2 ^ 32 * s1" and m: "unat m = m0 + 2 ^ 32 * m1"
    unfolding h by (rule unat_halves(3))+
  have p: "unat s * unat m = s0 * m0 + 2 ^ 64 * (s1 * m1) + 2 ^ 32 * (s0 * m1) + 2 ^ 32 * (s1 * m0)"
    by (simp add: s m algebra_simps)
  have u: "unat (lowHalf s * lowHalf m) = s0 * m0" "unat (highHalf s * highHalf m) = s1 * m1"
    "unat (lowHalf s * highHalf m) = s0 * m1" "unat (highHalf s * lowHalf m) = s1 * m0"
    unfolding h by (rule unat_half_mult; rule unat_halves)+
  have b: "unat s * unat m + unat c + 0 < 2 ^ 128"
    by (rule product_bound) (simp_all add: unat_part_less [simplified])
  define lh where "lh = (lowHalf s * lowHalf m, highHalf s * highHalf m)"
  have w0: "wide lh = s0 * m0 + 2 ^ 64 * (s1 * m1)" by (simp add: lh_def wide_def u)
  have "wide lh + 2 ^ 32 * unat (lowHalf s * highHalf m) < 2 ^ 128"
    using b unfolding p w0 u by linarith
  from add_mid_value [OF this] have w1: "wide (add_mid (lowHalf s * highHalf m) lh) = wide lh + 2 ^ 32 * (s0 * m1)"
    by (simp only: u)
  then have "wide (add_mid (lowHalf s * highHalf m) lh) + 2 ^ 32 * unat (highHalf s * lowHalf m) < 2 ^ 128"
    using b unfolding p w0 u by linarith
  from add_mid_value [OF this]
  have w2: "wide (add_mid (highHalf s * lowHalf m) (add_mid (lowHalf s * highHalf m) lh)) = unat s * unat m"
    unfolding p w0 w1 u by linarith
  show ?thesis using False add_low_value w2 b by (simp add: multiply_word_def Let_def lh_def)
qed

section \<open>Multiplication\<close>

text \<open>The loop runs over the common length of the two arrays.\<close>

fun multiply_loop :: "part \<Rightarrow> bool \<Rightarrow> part list \<Rightarrow> part list \<Rightarrow> part \<Rightarrow> part list \<times> part" where
  "multiply_loop multiplier add (d # dst) (s # src) carry =
    (let (low, high) = multiply_word multiplier carry s;
         high = (if add \<and> low + d < low then high + 1 else high);
         d' = (if add then d + low else low);
         (dst', carry') = multiply_loop multiplier add dst src high
     in (d' # dst', carry'))"
| "multiply_loop multiplier add dst src carry = (dst, carry)"

text \<open>The returned flag is whether the result was cut off.\<close>

definition tcMultiplyPart :: "part list \<Rightarrow> part list \<Rightarrow> part \<Rightarrow> part \<Rightarrow> bool \<Rightarrow> (part list \<times> bool) result" where
  "tcMultiplyPart dst src multiplier carry add =
    rbind (check_assert (length dst \<le> length src + 1) ''dstParts <= srcParts + 1'') (\<lambda>_.
      let (dst', carry') = multiply_loop multiplier add dst src carry
      in if length src < length dst then Inr (dst'[length src := carry'], False)
         else Inr (dst', carry' \<noteq> 0 \<or> multiplier \<noteq> 0 \<and> (\<exists>i \<in> {length dst..<length src}. src ! i \<noteq> 0)))"

definition tcMultiply :: "part list \<Rightarrow> part list \<Rightarrow> part list \<Rightarrow> (part list \<times> bool) result" where
  "tcMultiply dst lhs rhs =
    rbind (tcSet 0 dst) (\<lambda>dst.
      foldM (\<lambda>i (dst, overflow).
          rbind (tcMultiplyPart (drop i dst) lhs (rhs ! i) 0 True) (\<lambda>(d, ov).
            Inr (take i dst @ d, overflow \<or> ov)))
        [0..<length dst] (dst, False))"

definition full_multiply_loop :: "part list \<Rightarrow> part list \<Rightarrow> part list \<Rightarrow> part list result" where
  "full_multiply_loop dst lhs rhs =
    rbind (tcSet 0 (take (length rhs) dst)) (\<lambda>d.
      foldM (\<lambda>i dst.
          rbind (tcMultiplyPart (take (length rhs + 1) (drop i dst)) rhs (lhs ! i) 0 True) (\<lambda>(d, _).
            Inr (take i dst @ d @ drop (i + length rhs + 1) dst)))
        [0..<length lhs] (d @ drop (length rhs) dst))"

definition tcFullMultiply :: "part list \<Rightarrow> part list \<Rightarrow> part list \<Rightarrow> part list result" where
  "tcFullMultiply dst lhs rhs =
    (if length rhs < length lhs then full_multiply_loop dst rhs lhs else full_multiply_loop dst lhs rhs)"

lemma multiply_step_value:
  assumes "multiply_word m c s = (low, high)"
  shows "wide (if add then d + low else low, if add \<and> low + d < low then high + 1 else high) =
    unat s * unat m + unat c + (if add then unat d else 0)"
proof (cases add)
  case True
  have w: "wide (low, high) = unat s * unat m + unat c" using multiply_word_value [of m c s] assms by simp
  have "unat s * unat m + unat c + unat d < 2 ^ 128" by (rule product_bound; rule unat_part_less)
  then have "wide (add_low d (low, high)) = wide (low, high) + unat d" by (intro add_low_value) (simp add: w)
  with True w show ?thesis by (simp add: add_low_def add.commute)
next
  case False
  then show ?thesis using multiply_word_value [of m c s] assms by simp
qed

lemma digits_step:
  fixes x M h e ds K c f :: nat
  assumes "x + M * h = e" "ds + K * c = f + h"
  shows "x + M * ds + M * K * c = e + M * f"
proof -
  have "x + M * ds + M * K * c = x + M * (ds + K * c)" by (simp add: algebra_simps)
  also have "\<dots> = e + M * f" using assms by (simp add: algebra_simps)
  finally show ?thesis .
qed

lemma multiply_loop_value:
  "length dst = length src \<Longrightarrow> multiply_loop m add dst src c = (dst', c') \<Longrightarrow>
   length dst' = length dst \<and>
   tc_value dst' + 2 ^ (64 * length dst) * unat c' =
     tc_value src * unat m + unat c + (if add then tc_value dst else 0)"
proof (induction dst src arbitrary: c dst' c' rule: list_induct2)
  case (Cons d dst s src)
  obtain low high where mw: "multiply_word m c s = (low, high)" by fastforce
  let ?d = "if add then d + low else low" and ?h = "if add \<and> low + d < low then high + 1 else high"
  obtain ds c2 where rec: "multiply_loop m add dst src ?h = (ds, c2)" by fastforce
  from Cons.prems mw rec have res: "dst' = ?d # ds" "c' = c2" by simp_all
  let ?f = "tc_value src * unat m + (if add then tc_value dst else 0)"
  from Cons.IH [OF rec] have l: "length ds = length dst"
    and IH: "tc_value ds + 2 ^ (64 * length dst) * unat c2 = ?f + unat ?h" by simp_all
  have "unat ?d + 2 ^ 64 * unat ?h = unat s * unat m + unat c + (if add then unat d else 0)"
    using multiply_step_value [OF mw, of add d] by (simp only: wide_def fst_conv snd_conv)
  from digits_step [OF this IH] l show ?case unfolding res
    by (cases add) (simp_all add: power_add algebra_simps)
qed simp

lemma multiply_loop_append:
  assumes "length ds = length ss" "dt = [] \<or> st = []"
  shows "multiply_loop m add (ds @ dt) (ss @ st) c =
    (fst (multiply_loop m add ds ss c) @ dt, snd (multiply_loop m add ds ss c))"
  using assms(1)
proof (induction ds ss arbitrary: c rule: list_induct2)
  case Nil
  then show ?case using assms(2) by (cases dt; cases st) simp_all
next
  case (Cons d ds s ss)
  then show ?case by (simp add: split_def Let_def)
qed

text \<open>
  One row of a multiplication: the words that are kept, and the flag exactly when the number
  does not fit into them.
\<close>

definition row_value :: "part list \<Rightarrow> part list \<Rightarrow> part \<Rightarrow> part \<Rightarrow> bool \<Rightarrow> nat" where
  "row_value dst src m c add = tc_value src * unat m + unat c + (if add then tc_value (take (length src) dst) else 0)"

lemma tcMultiplyPart_full:
  assumes l: "length dst = length src + 1"
  shows "\<exists>dst'. tcMultiplyPart dst src m c add = Inr (dst', False) \<and> length dst' = length dst \<and>
    tc_value dst' = row_value dst src m c add"
proof -
  let ?d = "take (length src) dst"
  from l have s: "dst = ?d @ [last dst]" by (metis append_butlast_last_id butlast_conv_take diff_add_inverse2 length_0_conv Suc_eq_plus1 nat.distinct(1))
  obtain d' c' where r: "multiply_loop m add ?d src c = (d', c')" by fastforce
  with multiply_loop_value [of ?d src m add c d' c'] l
  have v: "length d' = length src" "tc_value d' + 2 ^ (64 * length src) * unat c' = row_value dst src m c add"
    by (simp_all add: row_value_def)
  have "multiply_loop m add dst src c = (d' @ [last dst], c')"
    using multiply_loop_append [of ?d src "[last dst]" "[]" m add c] l r s by (simp add: s [symmetric])
  then have "tcMultiplyPart dst src m c add = Inr (d' @ [c'], False)"
    using l v by (simp add: tcMultiplyPart_def list_update_append)
  with v l show ?thesis by (simp add: tc_value_append)
qed

lemma tcMultiplyPart_cut:
  assumes l: "length dst \<le> length src"
  shows "\<exists>dst' ov K. tcMultiplyPart dst src m c add = Inr (dst', ov) \<and> length dst' = length dst \<and>
    tc_value dst' + 2 ^ (64 * length dst) * K = row_value dst src m c add \<and> (ov \<longleftrightarrow> 0 < K)"
proof -
  let ?n = "length dst"
  let ?s = "take ?n src" and ?t = "drop ?n src"
  obtain d' c' where r: "multiply_loop m add dst ?s c = (d', c')" by fastforce
  with multiply_loop_value [of dst ?s m add c d' c'] l
  have v: "length d' = ?n" "tc_value d' + 2 ^ (64 * ?n) * unat c' =
      tc_value ?s * unat m + unat c + (if add then tc_value dst else 0)" by simp_all
  have loop: "multiply_loop m add dst src c = (d', c')"
    using multiply_loop_append [of dst ?s "[]" ?t m add c] l r by simp
  have t: "(\<exists>i \<in> {?n..<length src}. src ! i \<noteq> 0) \<longleftrightarrow> tc_value ?t \<noteq> 0"
  proof -
    have "?t = map ((!) src) [?n..<length src]" by (rule nth_equalityI) simp_all
    then have "set ?t = (!) src ` {?n..<length src}" by simp
    then show ?thesis by (simp add: tc_value_eq_0_iff)
  qed
  have p: "tcMultiplyPart dst src m c add = Inr (d', c' \<noteq> 0 \<or> m \<noteq> 0 \<and> tc_value ?t \<noteq> 0)"
    using l by (simp add: tcMultiplyPart_def loop t)
  have "tc_value src = tc_value ?s + 2 ^ (64 * ?n) * tc_value ?t"
    using tc_value_append [of ?s ?t] l by simp
  then have "tc_value d' + 2 ^ (64 * ?n) * (unat c' + tc_value ?t * unat m) = row_value dst src m c add"
    using v(2) l by (simp add: row_value_def algebra_simps)
  moreover have "(c' \<noteq> 0 \<or> m \<noteq> 0 \<and> tc_value ?t \<noteq> 0) \<longleftrightarrow> 0 < unat c' + tc_value ?t * unat m"
    by (auto simp: unat_gt_0 unat_eq_0)
  ultimately show ?thesis using p v(1) by (intro exI conjI) auto
qed

text \<open>Products of whole numbers: the truncated product with its overflow flag, and the full product.\<close>

lemma tc_value_take_Suc_drop:
  "i \<le> length dst \<Longrightarrow> tc_value dst = tc_value (take i dst) + 2 ^ (64 * i) * tc_value (drop i dst)"
  using tc_value_append [of "take i dst" "drop i dst"] by simp

lemma multiply_row:
  assumes l: "length lhs = length dst" "i < length dst" and dst: "tc_value dst + 2 ^ (64 * length dst) * K = tc_value lhs * R"
    and r: "R' = R + 2 ^ (64 * i) * unat m"
  shows "\<exists>d ov K'. tcMultiplyPart (drop i dst) lhs m 0 True = Inr (d, ov) \<and> length (take i dst @ d) = length dst \<and>
    tc_value (take i dst @ d) + 2 ^ (64 * length dst) * K' = tc_value lhs * R' \<and> (0 < K' \<longleftrightarrow> 0 < K \<or> ov)"
proof -
  from tcMultiplyPart_cut [of "drop i dst" lhs m 0 True] l obtain d ov k where p:
    "tcMultiplyPart (drop i dst) lhs m 0 True = Inr (d, ov)" "length d = length dst - i"
    "tc_value d + 2 ^ (64 * (length dst - i)) * k = row_value (drop i dst) lhs m 0 True" "ov \<longleftrightarrow> 0 < k" by auto
  have rv: "row_value (drop i dst) lhs m 0 True = tc_value lhs * unat m + tc_value (drop i dst)"
    using l by (simp add: row_value_def)
  have e: "2 ^ (64 * i) * 2 ^ (64 * (length dst - i)) = (2 :: nat) ^ (64 * length dst)"
    using l(2) by (simp flip: power_add)
  have "tc_value (take i dst @ d) + 2 ^ (64 * length dst) * (K + k) =
      tc_value (take i dst) + 2 ^ (64 * i) * (tc_value d + 2 ^ (64 * (length dst - i)) * k) + 2 ^ (64 * length dst) * K"
    using l(2) by (simp add: tc_value_append distrib_left mult.assoc [symmetric] e)
  also have "\<dots> = tc_value dst + 2 ^ (64 * length dst) * K + 2 ^ (64 * i) * (tc_value lhs * unat m)"
    using tc_value_take_Suc_drop [of i dst] l(2) unfolding p(3) rv by (simp add: algebra_simps)
  also have "\<dots> = tc_value lhs * R'" unfolding dst r by (simp add: algebra_simps)
  finally show ?thesis using p l(2) by (intro exI [of _ d] exI [of _ ov] exI [of _ "K + k"]) auto
qed

lemma multiply_rows:
  assumes l: "length lhs = length dst" "length rhs = length dst" "n \<le> length dst" and z: "tc_value dst = 0"
  shows "\<exists>dst' ov K. foldM (\<lambda>i (dst, overflow).
          rbind (tcMultiplyPart (drop i dst) lhs (rhs ! i) 0 True) (\<lambda>(d, ov).
            Inr (take i dst @ d, overflow \<or> ov))) [0..<n] (dst, False) = Inr (dst', ov) \<and>
    length dst' = length dst \<and>
    tc_value dst' + 2 ^ (64 * length dst) * K = tc_value lhs * tc_value (take n rhs) \<and> (ov \<longleftrightarrow> 0 < K)"
  using l(3)
proof (induction n)
  case 0
  then show ?case using z by (intro exI [of _ dst] exI [of _ False] exI [of _ 0]) simp
next
  case (Suc n)
  then obtain d ov K where IH: "foldM (\<lambda>i (dst, overflow).
          rbind (tcMultiplyPart (drop i dst) lhs (rhs ! i) 0 True) (\<lambda>(d, ov).
            Inr (take i dst @ d, overflow \<or> ov))) [0..<n] (dst, False) = Inr (d, ov)"
    "length d = length dst" "tc_value d + 2 ^ (64 * length dst) * K = tc_value lhs * tc_value (take n rhs)" "ov \<longleftrightarrow> 0 < K"
    by auto
  have n: "n < length dst" "n < length rhs" using Suc.prems l by simp_all
  from multiply_row [of lhs d n K "tc_value (take n rhs)" "tc_value (take (Suc n) rhs)" "rhs ! n"] IH n l take_Suc_value [OF n(2)]
  obtain e ov' K' where "tcMultiplyPart (drop n d) lhs (rhs ! n) 0 True = Inr (e, ov')"
    "length (take n d @ e) = length dst"
    "tc_value (take n d @ e) + 2 ^ (64 * length dst) * K' = tc_value lhs * tc_value (take (Suc n) rhs)"
    "0 < K' \<longleftrightarrow> 0 < K \<or> ov'" by auto
  with IH show ?case
    by (intro exI [of _ "take n d @ e"] exI [of _ "ov \<or> ov'"] exI [of _ K']) (simp add: foldM_append)
qed

lemma tcMultiply_value:
  assumes "length lhs = length dst" "length rhs = length dst" "dst \<noteq> []"
  shows "\<exists>dst' ov. tcMultiply dst lhs rhs = Inr (dst', ov) \<and> length dst' = length dst \<and>
    tc_value dst' = (tc_value lhs * tc_value rhs) mod 2 ^ (64 * length dst) \<and>
    (ov \<longleftrightarrow> 2 ^ (64 * length dst) \<le> tc_value lhs * tc_value rhs)"
proof -
  let ?M = "2 ^ (64 * length dst) :: nat"
  from assms(3) obtain z where z: "tcSet 0 dst = Inr z" by (cases dst) auto
  with tcSet_value [OF z] have lz: "length z = length dst" "tc_value z = 0" by simp_all
  from multiply_rows [of lhs z rhs "length dst"] assms lz obtain d ov K where
    m: "tcMultiply dst lhs rhs = Inr (d, ov)" "length d = length dst"
    "tc_value d + ?M * K = tc_value lhs * tc_value rhs" "ov \<longleftrightarrow> 0 < K"
    by (auto simp: tcMultiply_def z)
  have less: "tc_value d < ?M" using tc_value_less [of d] m(2) by simp
  have "tc_value d = (tc_value lhs * tc_value rhs) mod ?M" using m(3) less by (metis mod_less mod_mult_self2)
  moreover have "0 < K \<longleftrightarrow> ?M \<le> tc_value lhs * tc_value rhs" using m(3) less by (cases K) auto
  ultimately show ?thesis using m by blast
qed

lemma full_multiply_rows:
  assumes l: "n \<le> length lhs" "length lhs + length rhs \<le> length dst" and z: "tc_value (take (length rhs) dst) = 0"
  shows "\<exists>dst'. foldM (\<lambda>i dst.
          rbind (tcMultiplyPart (take (length rhs + 1) (drop i dst)) rhs (lhs ! i) 0 True) (\<lambda>(d, _).
            Inr (take i dst @ d @ drop (i + length rhs + 1) dst))) [0..<n] dst = Inr dst' \<and>
    length dst' = length dst \<and> tc_value (take (n + length rhs) dst') = tc_value rhs * tc_value (take n lhs)"
  using l(1)
proof (induction n)
  case 0
  then show ?case using z by simp
next
  case (Suc n)
  let ?r = "length rhs"
  from Suc obtain d where IH: "foldM (\<lambda>i dst.
          rbind (tcMultiplyPart (take (?r + 1) (drop i dst)) rhs (lhs ! i) 0 True) (\<lambda>(d, _).
            Inr (take i dst @ d @ drop (i + ?r + 1) dst))) [0..<n] dst = Inr d"
    "length d = length dst" "tc_value (take (n + ?r) d) = tc_value rhs * tc_value (take n lhs)" by auto
  let ?D = "take (?r + 1) (drop n d)"
  have lD: "length ?D = ?r + 1" using IH(2) Suc.prems l(2) by simp
  from tcMultiplyPart_full [OF lD, of "lhs ! n" 0 True] obtain e where
    e: "tcMultiplyPart ?D rhs (lhs ! n) 0 True = Inr (e, False)" "length e = ?r + 1"
    "tc_value e = tc_value rhs * unat (lhs ! n) + tc_value (take ?r (drop n d))"
    using lD by (auto simp: row_value_def min_def)
  let ?d = "take n d @ e @ drop (n + ?r + 1) d"
  have ln: "length (take n d) = n" "length ?d = length dst" using IH(2) e(2) Suc.prems l(2) by simp_all
  have "take (Suc n + ?r) ?d = take n d @ e" using ln(1) e(2) by simp
  then have "tc_value (take (Suc n + ?r) ?d) =
      (tc_value (take n d) + 2 ^ (64 * n) * tc_value (take ?r (drop n d))) + 2 ^ (64 * n) * (tc_value rhs * unat (lhs ! n))"
    using ln(1) by (simp add: tc_value_append e(3) algebra_simps)
  also have "tc_value (take n d) + 2 ^ (64 * n) * tc_value (take ?r (drop n d)) = tc_value (take (n + ?r) d)"
    using ln(1) by (simp add: take_add tc_value_append)
  also have "\<dots> + 2 ^ (64 * n) * (tc_value rhs * unat (lhs ! n)) = tc_value rhs * tc_value (take (Suc n) lhs)"
    using IH(3) Suc.prems by (simp add: take_Suc_value algebra_simps)
  finally show ?case using IH(1) e(1) ln(2)
    by (intro exI [of _ ?d]) (simp add: foldM_append)
qed

lemma full_multiply_loop_value:
  assumes "length dst = length lhs + length rhs" "rhs \<noteq> []"
  shows "\<exists>dst'. full_multiply_loop dst lhs rhs = Inr dst' \<and> length dst' = length dst \<and>
    tc_value dst' = tc_value lhs * tc_value rhs"
proof -
  from assms obtain z where z: "tcSet 0 (take (length rhs) dst) = Inr z" by (cases dst; cases rhs) auto
  with tcSet_value [OF z] assms have lz: "length z = length rhs" "tc_value z = 0" by simp_all
  from full_multiply_rows [of "length lhs" lhs rhs "z @ drop (length rhs) dst"] assms lz show ?thesis
    by (auto simp: full_multiply_loop_def z mult.commute)
qed

lemma tcFullMultiply_value:
  assumes "length dst = length lhs + length rhs" "lhs \<noteq> []" "rhs \<noteq> []"
  shows "\<exists>dst'. tcFullMultiply dst lhs rhs = Inr dst' \<and> length dst' = length dst \<and>
    tc_value dst' = tc_value lhs * tc_value rhs"
  using full_multiply_loop_value [of dst lhs rhs] full_multiply_loop_value [of dst rhs lhs] assms
  by (simp add: tcFullMultiply_def add.commute mult.commute)

section \<open>Division\<close>

definition divide_digit :: "nat \<Rightarrow> part \<Rightarrow> part list \<Rightarrow> part list \<Rightarrow> part list \<Rightarrow> (part list \<times> part list) result" where
  "divide_digit n msk lhs remainder srhs =
    (if 0 \<le> tcCompare remainder srhs (length lhs)
     then rbind (tcSubtract remainder srhs 0) (\<lambda>(remainder, _).
       if n < length lhs then Inr (lhs[n := lhs ! n OR msk], remainder)
       else Inl (UndefinedBehaviour ''lhs[n]''))
     else Inr (lhs, remainder))"

fun divide_loop :: "nat \<Rightarrow> nat \<Rightarrow> part \<Rightarrow> part list \<Rightarrow> part list \<Rightarrow> part list \<Rightarrow> (part list \<times> part list \<times> part list) result" where
  "divide_loop shiftCount n msk lhs remainder srhs =
    rbind (divide_digit n msk lhs remainder srhs) (\<lambda>(lhs, remainder).
      case shiftCount of
        0 \<Rightarrow> Inr (lhs, remainder, srhs)
      | Suc sc \<Rightarrow>
          let srhs = tcShiftRight srhs 1; msk = drop_bit 1 msk
          in if msk = 0 then divide_loop sc (n - 1) (push_bit (64 - 1) 1) lhs remainder srhs
             else divide_loop sc n msk lhs remainder srhs)"

declare divide_loop.simps [simp del]

text \<open>The last component is the returned flag, set when the divisor is zero.\<close>

definition tcDivide :: "part list \<Rightarrow> part list \<Rightarrow> part list \<Rightarrow> part list \<Rightarrow> (part list \<times> part list \<times> part list \<times> bool) result" where
  "tcDivide lhs rhs remainder srhs =
    rbind (tcMSB rhs) (\<lambda>msb.
      let shiftCount = msb + 1
      in if shiftCount = 0 then Inr (lhs, remainder, srhs, True)
         else let shiftCount = unat (of_nat (length lhs) * 64 - shiftCount);
                  n = shiftCount div 64;
                  msk = push_bit (shiftCount mod 64) 1;
                  srhs = tcShiftLeft (tcAssign srhs rhs) shiftCount;
                  remainder = tcAssign remainder lhs
              in rbind (tcSet 0 lhs) (\<lambda>lhs.
                 rbind (divide_loop shiftCount n msk lhs remainder srhs) (\<lambda>(lhs, remainder, srhs).
                   Inr (lhs, remainder, srhs, False))))"

lemma tcSubtract_value:
  assumes "length y = length x" "tc_value y \<le> tc_value x"
  shows "\<exists>z. tcSubtract x y 0 = Inr (z, 0) \<and> length z = length x \<and> tc_value z = tc_value x - tc_value y"
proof -
  obtain z c where r: "sub_loop x y (of_bool False) = (z, c)" by fastforce
  from sub_loop_value [OF assms(1) r] have v: "length z = length x"
    "tc_value z + tc_value y = tc_value x + 2 ^ (64 * length x) * unat c" by simp_all
  have "c = 0"
  proof (rule ccontr)
    assume "c \<noteq> 0"
    then have "2 ^ (64 * length x) * 1 \<le> 2 ^ (64 * length x) * unat c"
      by (intro mult_le_mono2) (simp add: unat_gt_0 Suc_le_eq)
    with v assms(2) tc_value_less [of z] show False by simp
  qed
  with r v show ?thesis by (simp add: tcSubtract_def)
qed

lemma divide_mask_step:
  assumes "n = Suc sc div 64" "msk = (push_bit (Suc sc mod 64) 1 :: part)"
  shows "drop_bit 1 msk = 0 \<Longrightarrow> n - 1 = sc div 64 \<and> push_bit 63 1 = (push_bit (sc mod 64) 1 :: part)"
    and "drop_bit 1 msk \<noteq> 0 \<Longrightarrow> n = sc div 64 \<and> drop_bit 1 msk = push_bit (sc mod 64) 1"
proof -
  have m: "Suc sc mod 64 = (if sc mod 64 = 63 then 0 else Suc (sc mod 64))" by (simp add: mod_Suc)
  have d: "Suc sc div 64 = (if sc mod 64 = 63 then Suc (sc div 64) else sc div 64)" by (simp add: div_Suc m)
  have z: "drop_bit 1 msk = (if sc mod 64 = 63 then 0 else push_bit (sc mod 64) 1)"
    by (rule bit_eqI) (auto simp: assms m bit_drop_bit_eq bit_exp_iff)
  have "push_bit (sc mod 64) (1 :: part) \<noteq> 0" by simp
  with z show "drop_bit 1 msk = 0 \<Longrightarrow> n - 1 = sc div 64 \<and> push_bit 63 1 = (push_bit (sc mod 64) 1 :: part)"
    and "drop_bit 1 msk \<noteq> 0 \<Longrightarrow> n = sc div 64 \<and> drop_bit 1 msk = push_bit (sc mod 64) 1"
    by (auto simp: assms(1) d split: if_splits)
qed

text \<open>
  The loop with \<open>q\<close> the quotient collected so far: the divisor is at its place for the bit
  \<open>sc\<close>, the rest is less than twice the shifted divisor, and the bits of the quotient up to
  \<open>sc\<close> are still clear.
\<close>

lemma set_clear_bit: "2 ^ Suc i dvd q \<Longrightarrow> set_bit i q = q + (2 :: nat) ^ i"
  using set_bit_eq [of i q] by (auto simp: bit_iff_odd elim!: dvdE)

lemma divide_digit_value:
  assumes l: "length remainder = length lhs" "length srhs = length lhs" and n: "n = sc div 64" "msk = push_bit (sc mod 64) 1"
    and v: "tc_value srhs = d * 2 ^ sc" "tc_value remainder < 2 * (d * 2 ^ sc)" "2 ^ Suc sc dvd tc_value lhs"
    and sc: "sc < 64 * length lhs"
  shows "\<exists>l r. divide_digit n msk lhs remainder srhs = Inr (l, r) \<and> length l = length lhs \<and>
    length r = length lhs \<and> tc_value l * d + tc_value r = tc_value lhs * d + tc_value remainder \<and>
    tc_value r < d * 2 ^ sc \<and> 2 ^ sc dvd tc_value l"
proof -
  have d: "2 ^ sc dvd tc_value lhs" using v(3) by (rule dvd_trans [rotated]) (simp add: le_imp_power_dvd)
  have c: "0 \<le> tcCompare remainder srhs (length lhs) \<longleftrightarrow> tc_value srhs \<le> tc_value remainder"
    using tcCompare_value [of "length lhs" remainder srhs] l by (simp add: sgn_if)
  show ?thesis
  proof (cases "tc_value srhs \<le> tc_value remainder")
    case True
    from tcSubtract_value [of srhs remainder] True l obtain r where
      r: "tcSubtract remainder srhs 0 = Inr (r, 0)" "length r = length lhs" "tc_value r = tc_value remainder - d * 2 ^ sc"
      by (auto simp: v(1))
    have nl: "n < length lhs" using sc by (simp add: n less_mult_imp_div_less mult.commute)
    from tcSetBit_value [OF sc] nl have q: "tc_value (lhs[n := lhs ! n OR msk]) = tc_value lhs + 2 ^ sc"
      by (simp add: tcSetBit_def whichWord_def maskBit_def whichBit_def n set_clear_bit [OF v(3)])
    have "(tc_value lhs + 2 ^ sc) * d + (tc_value remainder - d * 2 ^ sc) = tc_value lhs * d + tc_value remainder"
      using True v(1) by (simp add: algebra_simps)
    moreover have "2 ^ sc dvd tc_value lhs + 2 ^ sc" using d by simp
    ultimately show ?thesis using True c r q nl v(2) by (simp add: divide_digit_def)
  next
    case False
    with c d l v(1) show ?thesis by (simp add: divide_digit_def)
  qed
qed

lemma divide_loop_value:
  assumes "length remainder = length lhs" "length srhs = length lhs" "n = sc div 64" "msk = push_bit (sc mod 64) 1"
    and "tc_value srhs = d * 2 ^ sc" "tc_value remainder < 2 * (d * 2 ^ sc)" "2 ^ Suc sc dvd tc_value lhs"
    and "sc < 64 * length lhs"
  shows "\<exists>l r s. divide_loop sc n msk lhs remainder srhs = Inr (l, r, s) \<and> length l = length lhs \<and>
    length r = length lhs \<and>
    tc_value l * d + tc_value r = tc_value lhs * d + tc_value remainder \<and> tc_value r < d"
  using assms
proof (induction sc arbitrary: n msk lhs remainder srhs)
  case 0
  from divide_digit_value [OF 0] obtain l r where "divide_digit n msk lhs remainder srhs = Inr (l, r)"
    "length l = length lhs" "length r = length lhs"
    "tc_value l * d + tc_value r = tc_value lhs * d + tc_value remainder" "tc_value r < d" by auto
  then show ?case by (simp add: divide_loop.simps [of 0])
next
  case (Suc sc)
  from divide_digit_value [OF Suc.prems] obtain l r where
    b: "divide_digit n msk lhs remainder srhs = Inr (l, r)" "length l = length lhs" "length r = length lhs"
    "tc_value l * d + tc_value r = tc_value lhs * d + tc_value remainder" "tc_value r < d * 2 ^ Suc sc"
    "2 ^ Suc sc dvd tc_value l" by auto
  let ?s = "tcShiftRight srhs 1"
  have s: "length ?s = length lhs" "tc_value ?s = d * 2 ^ sc"
    using Suc.prems by (simp_all add: tcShiftRight_value)
  define n' msk' where "n' = (if drop_bit 1 msk = 0 then n - 1 else n)"
    and "msk' = (if drop_bit 1 msk = 0 then push_bit (64 - 1) 1 else drop_bit 1 msk)"
  have m: "n' = sc div 64" "msk' = push_bit (sc mod 64) 1"
    using divide_mask_step [OF Suc.prems(3,4)] by (auto simp: n'_def msk'_def)
  have e: "divide_loop (Suc sc) n msk lhs remainder srhs = divide_loop sc n' msk' l r ?s"
    by (simp add: divide_loop.simps [of "Suc sc"] b(1) Let_def n'_def msk'_def)
  have "\<exists>l' r' s'. divide_loop sc n' msk' l r ?s = Inr (l', r', s') \<and> length l' = length l \<and> length r' = length l \<and>
    tc_value l' * d + tc_value r' = tc_value l * d + tc_value r \<and> tc_value r' < d"
    using b s m Suc.prems(8) by (intro Suc.IH) simp_all
  with b e show ?case by auto
qed

text \<open>Division by a number that is not zero gives the quotient and the remainder.\<close>

lemma tcDivide_value:
  assumes l: "length rhs = length lhs" "length remainder = length lhs" "length srhs = length lhs" "length lhs \<le> 2 ^ 25"
    and rhs: "tc_value rhs \<noteq> 0"
  shows "\<exists>q r s. tcDivide lhs rhs remainder srhs = Inr (q, r, s, False) \<and> length q = length lhs \<and>
    length r = length lhs \<and> tc_value q = tc_value lhs div tc_value rhs \<and> tc_value r = tc_value lhs mod tc_value rhs"
proof -
  from rhs have ne: "rhs \<noteq> []" by auto
  from tcMSB_value(2) [OF ne rhs] l obtain m where m: "m < 64 * length lhs" "tcMSB rhs = Inr (of_nat m)"
    "2 ^ m \<le> tc_value rhs" "tc_value rhs < 2 ^ Suc m" by auto
  let ?N = "64 * length lhs"
  define sc where "sc = ?N - Suc m"
  have small: "?N < 2 ^ 32" using l(4) by simp
  have k: "(of_nat m :: 32 word) + 1 = of_nat (Suc m)" by simp
  have k0: "(of_nat (Suc m) :: 32 word) \<noteq> 0"
  proof -
    have "Suc m < 2 ^ 32" using m(1) small by simp
    then have "unat (of_nat (Suc m) :: 32 word) = Suc m" by (simp only: unat_of_nat) simp
    then show ?thesis by (metis nat.distinct(1) unsigned_0)
  qed
  have sc': "unat (of_nat (length lhs) * 64 - of_nat (Suc m) :: 32 word) = sc"
  proof -
    have "(of_nat (length lhs) * 64 - of_nat (Suc m) :: 32 word) = of_nat sc"
      using m(1) by (simp add: sc_def of_nat_diff mult.commute)
    then show ?thesis using small by (simp add: unat_of_nat sc_def)
  qed
  define z where "z = replicate (length lhs) (0 :: part)"
  from ne l(1) obtain x xs where x: "lhs = x # xs" by (cases lhs) auto
  have set: "tcSet 0 lhs = Inr z" "length z = length lhs" "tc_value z = 0" by (simp_all add: z_def x)
  have as: "tcAssign srhs rhs = rhs" "tcAssign remainder lhs = lhs" using l by (simp_all add: tcAssign_eq)
  define s where "s = tcShiftLeft rhs sc"
  have "tc_value rhs * 2 ^ sc < 2 ^ Suc m * 2 ^ sc" using m(4) by simp
  also have "\<dots> = 2 ^ ?N" using m(1) by (simp add: sc_def flip: power_add power_Suc)
  finally have s: "length s = length lhs" "tc_value s = tc_value rhs * 2 ^ sc"
    using l by (simp_all add: s_def tcShiftLeft_value)
  have "2 ^ ?N = 2 * (2 ^ m * (2 :: nat) ^ sc)" using m(1) by (simp add: sc_def flip: power_add power_Suc)
  also have "\<dots> \<le> 2 * (tc_value rhs * 2 ^ sc)" using m(3) by simp
  finally have r: "tc_value lhs < 2 * (tc_value rhs * 2 ^ sc)" using tc_value_less [of lhs] by simp
  have "\<exists>q r' s'. divide_loop sc (sc div 64) (push_bit (sc mod 64) 1) z lhs s = Inr (q, r', s') \<and> length q = length z \<and>
    length r' = length z \<and> tc_value q * tc_value rhs + tc_value r' = tc_value z * tc_value rhs + tc_value lhs \<and> tc_value r' < tc_value rhs"
    using set s r m(1) by (intro divide_loop_value) (simp_all add: sc_def)
  then obtain q r' s' where q: "divide_loop sc (sc div 64) (push_bit (sc mod 64) 1) z lhs s = Inr (q, r', s')"
    "length q = length lhs" "length r' = length lhs" "tc_value q * tc_value rhs + tc_value r' = tc_value lhs" "tc_value r' < tc_value rhs"
    using set by auto
  have "tcDivide lhs rhs remainder srhs = Inr (q, r', s', False)"
    unfolding tcDivide_def m(2) rbind_Inr Let_def k sc' as s_def [symmetric] set(1) q(1) by (simp add: k0 del: of_nat_Suc)
  moreover from q(4,5) have "tc_value q = tc_value lhs div tc_value rhs" "tc_value r' = tc_value lhs mod tc_value rhs"
    by (metis add_0_right div_less div_mult_self3 rhs mult.commute, metis mod_less mod_mult_self3)
  ultimately show ?thesis using q by blast
qed

lemma tcDivide_zero:
  "rhs \<noteq> [] \<Longrightarrow> tc_value rhs = 0 \<Longrightarrow> tcDivide lhs rhs remainder srhs = Inr (lhs, remainder, srhs, True)"
  by (simp add: tcDivide_def tcMSB_value(1))

section \<open>Arrays of words as integers of a fixed width\<close>

interpretation words: fixed_width "\<lambda>ws. ws \<noteq> []" "\<lambda>ws. 64 * length ws" tc_value
  "\<lambda>x y. rbind (tcAdd x y 0) (\<lambda>r. Inr (fst r))" "\<lambda>x y. rbind (tcSubtract x y 0) (\<lambda>r. Inr (fst r))"
  "\<lambda>x y. rbind (tcMultiply (replicate (length x) 0) x y) (\<lambda>r. Inr (fst r))" "\<lambda>x. Inr (tcNegate x)"
proof unfold_locales
  fix x y :: "part list"
  assume xy: "x \<noteq> []" "y \<noteq> []" "64 * length x = 64 * length y"
  then have l: "length y = length x" by simp
  show "tc_value x = tc_value y \<Longrightarrow> x = y" using tc_value_inject [OF l [symmetric]] by blast
  obtain d c where a: "add_loop x y (of_bool False) = (d, c)" by fastforce
  from add_loop_value [OF l a] have a': "length d = length x"
    "tc_value d + 2 ^ (64 * length x) * unat c = tc_value x + tc_value y" by simp_all
  then have "tc_value d = (tc_value x + tc_value y) mod 2 ^ (64 * length x)"
    using tc_value_less [of d] by (simp flip: a'(2))
  with a a' xy show "\<exists>z. rbind (tcAdd x y 0) (\<lambda>r. Inr (fst r)) = Inr z \<and> z \<noteq> [] \<and> 64 * length z = 64 * length x \<and>
      tc_value z = (tc_value x + tc_value y) mod 2 ^ (64 * length x)"
    by (auto simp: tcAdd_def)
  obtain e c' where s: "sub_loop x y (of_bool False) = (e, c')" by fastforce
  from sub_loop_value [OF l s] have s': "length e = length x"
    "tc_value e + tc_value y = tc_value x + 2 ^ (64 * length x) * unat c'" by simp_all
  then have "(tc_value e + tc_value y) mod 2 ^ (64 * length x) = tc_value x"
    using tc_value_less [of x] by simp
  with s s' xy show "\<exists>z. rbind (tcSubtract x y 0) (\<lambda>r. Inr (fst r)) = Inr z \<and> z \<noteq> [] \<and> 64 * length z = 64 * length x \<and>
      (tc_value z + tc_value y) mod 2 ^ (64 * length x) = tc_value x"
    by (auto simp: tcSubtract_def)
  from tcMultiply_value [of x "replicate (length x) 0" y] xy
  show "\<exists>z. rbind (tcMultiply (replicate (length x) 0) x y) (\<lambda>r. Inr (fst r)) = Inr z \<and> z \<noteq> [] \<and>
      64 * length z = 64 * length x \<and> tc_value z = (tc_value x * tc_value y) mod 2 ^ (64 * length x)"
    by force
next
  fix x :: "part list"
  assume "x \<noteq> []"
  show "tc_value x < 2 ^ (64 * length x)" by (rule tc_value_less)
  then show "\<exists>z. Inr (tcNegate x) = Inr z \<and> z \<noteq> [] \<and> 64 * length z = 64 * length x \<and>
      (tc_value z + tc_value x) mod 2 ^ (64 * length x) = 0"
    using tcNegate_value [of x] \<open>x \<noteq> []\<close> by (auto simp: mod_simps)
qed

end
