(* ===== verification/ApInt.thy ===== *)
theory ApInt
  imports WideIntMul FixedWidth
begin

unbundle bit_operations_syntax

text \<open>
  The class \<open>APInt\<close> (\<open>APInt.h\<close>, \<open>APInt.cpp\<close>): integers of a fixed width of any number of bits.

  The union of the word \<open>VAL\<close> and the pointer \<open>pVal\<close> is one list of words, of one word when
  the width is at most 64; \<open>U.VAL\<close> is its head. An operation that works in place returns the
  changed object. The abstraction \<open>ap_val\<close> is the unsigned value, \<open>ap_sval\<close> the signed one,
  and \<open>ap_ok\<close> the invariant of the class: the right number of words, and no bit set above the
  width. Bit positions and widths are of the type \<open>unsigned\<close>; they are natural numbers here, and
  where the source lets one wrap around the wrap-around is written out.
\<close>

record APInt =
  BitWidth :: nat
  pVal :: "part list"

definition getNumWords :: "nat \<Rightarrow> nat" where
  "getNumWords w = (w + 64 - 1) div 64"

abbreviation VAL :: "APInt \<Rightarrow> part" where
  "VAL x \<equiv> hd (pVal x)"

abbreviation VAL_update :: "(part \<Rightarrow> part) \<Rightarrow> APInt \<Rightarrow> APInt" where
  "VAL_update f x \<equiv> x\<lparr>pVal := [f (VAL x)]\<rparr>"

definition isSingleWord :: "APInt \<Rightarrow> bool" where
  "isSingleWord x \<longleftrightarrow> BitWidth x \<le> 64"

definition clearUnusedBits :: "APInt \<Rightarrow> APInt" where
  "clearUnusedBits x =
    (let WordBits = ((BitWidth x - 1) mod 64) + 1;
         m = drop_bit (64 - WordBits) (- 1)
     in if isSingleWord x then VAL_update (\<lambda>v. v AND m) x
        else let n = getNumWords (BitWidth x) - 1
             in x\<lparr>pVal := (pVal x)[n := pVal x ! n AND m]\<rparr>)"

section \<open>Value and invariant\<close>

definition ap_val :: "APInt \<Rightarrow> nat" where
  "ap_val x = tc_value (pVal x)"

definition ap_sval :: "APInt \<Rightarrow> int" where
  "ap_sval x = (if ap_val x < 2 ^ (BitWidth x - 1) then int (ap_val x) else int (ap_val x) - 2 ^ BitWidth x)"

definition ap_shape :: "APInt \<Rightarrow> bool" where
  "ap_shape x \<longleftrightarrow> 0 < BitWidth x \<and> length (pVal x) = getNumWords (BitWidth x)"

definition ap_ok :: "APInt \<Rightarrow> bool" where
  "ap_ok x \<longleftrightarrow> ap_shape x \<and> ap_val x < 2 ^ BitWidth x"

lemma getNumWords_split:
  assumes "0 < w"
  shows "getNumWords w = Suc ((w - 1) div 64)" "w = 64 * ((w - 1) div 64) + ((w - 1) mod 64 + 1)"
proof -
  have "w + 64 - 1 = (w - 1) + 64" using assms by simp
  then show "getNumWords w = Suc ((w - 1) div 64)" by (simp add: getNumWords_def)
  show "w = 64 * ((w - 1) div 64) + ((w - 1) mod 64 + 1)" using assms by simp
qed

lemma getNumWords_single: "0 < w \<Longrightarrow> getNumWords w = 1 \<longleftrightarrow> w \<le> 64"
  by (auto simp: getNumWords_split div_eq_0_iff)

lemma width_le_words: "w \<le> 64 * getNumWords w"
  unfolding getNumWords_def by linarith

lemma last_word_mask:
  assumes "length ws = Suc k" "r \<le> 64"
  shows "tc_value (ws[k := ws ! k AND mask r]) = take_bit (64 * k + r) (tc_value ws)"
proof (cases "r = 64")
  case True
  have "tc_value ws < 2 ^ (64 * Suc k)" using tc_value_less [of ws] assms by simp
  then have "take_bit (64 * k + 64) (tc_value ws) = tc_value ws"
    by (simp add: take_bit_nat_eq_self add.commute)
  moreover have "(mask 64 :: part) = - 1" using minus_1_eq_mask [where ?'a = 64] by simp
  ultimately show ?thesis using True by simp
next
  case False
  with assms show ?thesis by (intro last_word_and_mask) simp_all
qed

lemma clearUnusedBits_ok:
  assumes "ap_shape x"
  shows "ap_ok (clearUnusedBits x)" "BitWidth (clearUnusedBits x) = BitWidth x"
    "ap_val (clearUnusedBits x) = ap_val x mod 2 ^ BitWidth x"
proof -
  let ?w = "BitWidth x"
  let ?k = "(?w - 1) div 64" and ?r = "(?w - 1) mod 64 + 1"
  from assms have w: "0 < ?w" and l: "length (pVal x) = Suc ?k"
    by (simp_all add: ap_shape_def getNumWords_split)
  have r: "?r \<le> 64" by (simp add: Suc_le_eq)
  then have m: "drop_bit (64 - ?r) (- 1) = (mask ?r :: part)"
    using lowBitMask_eq [of ?r] by (simp add: lowBitMask_def)
  have e: "pVal (clearUnusedBits x) = (pVal x)[?k := pVal x ! ?k AND mask ?r]"
  proof (cases "isSingleWord x")
    case True
    with w have "?k = 0" by (simp add: isSingleWord_def)
    with l True m show ?thesis by (cases "pVal x") (simp_all add: clearUnusedBits_def Let_def)
  next
    case False
    then show ?thesis using m getNumWords_split(1) [OF w] by (simp add: clearUnusedBits_def Let_def)
  qed
  have "64 * ?k + ?r = ?w" using getNumWords_split(2) [OF w] by simp
  with last_word_mask [OF l r] have v: "ap_val (clearUnusedBits x) = take_bit ?w (ap_val x)"
    by (simp only: ap_val_def e)
  show b: "BitWidth (clearUnusedBits x) = ?w" by (simp add: clearUnusedBits_def Let_def)
  show "ap_val (clearUnusedBits x) = ap_val x mod 2 ^ ?w" by (simp add: v take_bit_eq_mod)
  show "ap_ok (clearUnusedBits x)" using assms by (simp add: ap_ok_def ap_shape_def v b e)
qed

lemma ap_shapeI: "ap_ok x \<Longrightarrow> ap_shape x"
  by (simp add: ap_ok_def)

lemma ap_ok_unique:
  assumes "ap_ok x" "ap_ok y" "BitWidth x = BitWidth y" "ap_val x = ap_val y"
  shows "x = y"
proof -
  have "pVal x = pVal y"
    using assms tc_value_inject [of "pVal x" "pVal y"] by (simp add: ap_ok_def ap_shape_def ap_val_def)
  with assms(3) show ?thesis by simp
qed

lemma single_word:
  assumes "ap_shape x" "isSingleWord x"
  shows "pVal x = [VAL x]" "ap_val x = unat (VAL x)"
proof -
  from assms have "length (pVal x) = 1"
    using getNumWords_single [of "BitWidth x"] by (simp add: ap_shape_def isSingleWord_def)
  then show "pVal x = [VAL x]" by (cases "pVal x") simp_all
  then have "ap_val x = tc_value [VAL x]" by (simp add: ap_val_def)
  then show "ap_val x = unat (VAL x)" by simp
qed

text \<open>The object of a given width and value: every object that satisfies the invariant is one of them.\<close>

fun words_of :: "nat \<Rightarrow> nat \<Rightarrow> part list" where
  "words_of 0 v = []"
| "words_of (Suc n) v = of_nat v # words_of n (v div 2 ^ 64)"

definition ap_make :: "nat \<Rightarrow> nat \<Rightarrow> APInt" where
  "ap_make w v = \<lparr>BitWidth = w, pVal = words_of (getNumWords w) (v mod 2 ^ w)\<rparr>"

lemma length_words_of [simp]: "length (words_of n v) = n"
  by (induction n arbitrary: v) simp_all

lemma tc_value_words_of: "tc_value (words_of n v) = v mod 2 ^ (64 * n)"
proof (induction n arbitrary: v)
  case (Suc n)
  have "unat (of_nat v :: part) = v mod 2 ^ 64" by (simp add: unat_of_nat)
  moreover have "v mod 2 ^ (64 * Suc n) = v mod 2 ^ 64 + 2 ^ 64 * (v div 2 ^ 64 mod 2 ^ (64 * n))"
    by (simp add: power_add mod_mult2_eq)
  ultimately show ?case using Suc by simp
qed simp

lemma ap_make_width [simp]: "BitWidth (ap_make w v) = w"
  by (simp add: ap_make_def)

lemma ap_make_val [simp]: "ap_val (ap_make w v) = v mod 2 ^ w"
proof -
  have "v mod 2 ^ w < (2 :: nat) ^ w" by simp
  also have "\<dots> \<le> 2 ^ (64 * getNumWords w)" using width_le_words by (intro power_increasing) simp_all
  finally show ?thesis by (simp add: ap_val_def ap_make_def tc_value_words_of)
qed

lemma ap_make_ok [simp]: "0 < w \<Longrightarrow> ap_ok (ap_make w v)"
  by (simp add: ap_ok_def ap_shape_def) (simp add: ap_make_def)

lemma ap_makeI: "ap_ok z \<Longrightarrow> BitWidth z = w \<Longrightarrow> ap_val z = v mod 2 ^ w \<Longrightarrow> z = ap_make w v"
  by (rule ap_ok_unique) (auto simp: ap_ok_def [of z] ap_shape_def)

lemma ap_make_self: "ap_ok x \<Longrightarrow> ap_make (BitWidth x) (ap_val x) = x"
  by (rule ap_makeI [symmetric]) (simp_all add: ap_ok_def)

lemma ap_make_mod [simp]: "ap_make w (v mod 2 ^ w) = ap_make w v"
  by (simp add: ap_make_def)

lemma clearUnusedBits_make:
  "ap_shape x \<Longrightarrow> BitWidth x = w \<Longrightarrow> clearUnusedBits x = ap_make w (ap_val x)"
  using clearUnusedBits_ok [of x] by (intro ap_makeI) simp_all

text \<open>A step on the words followed by the clearing of the unused bits.\<close>

lemma clear_words:
  assumes "ap_shape x" "length d = length (pVal x)" "BitWidth x = w"
  shows "clearUnusedBits (x\<lparr>pVal := d\<rparr>) = ap_make w (tc_value d)"
  using clearUnusedBits_make [of "x\<lparr>pVal := d\<rparr>" w] assms by (simp add: ap_shape_def ap_val_def)

lemma clear_word:
  assumes "ap_shape x" "isSingleWord x" "BitWidth x = w"
  shows "clearUnusedBits (VAL_update f x) = ap_make w (unat (f (VAL x)))"
  using clear_words [of x "[f (VAL x)]" w] assms single_word [of x] by (cases "pVal x") simp_all

text \<open>A word operation agrees with the operation on numbers modulo the width.\<close>

lemma mod_part_width: "w \<le> 64 \<Longrightarrow> ap_make w (v mod 2 ^ 64) = ap_make w v"
proof -
  assume "w \<le> 64"
  then have "(2 :: nat) ^ w dvd 2 ^ 64" by (rule le_imp_power_dvd)
  then have "v mod 2 ^ 64 mod 2 ^ w = v mod 2 ^ w" by (rule mod_mod_cancel)
  then show ?thesis by (metis ap_make_mod)
qed

lemma mod_words_width: "ap_make w (v mod 2 ^ (64 * getNumWords w)) = ap_make w v"
proof -
  have "(2 :: nat) ^ w dvd 2 ^ (64 * getNumWords w)" using width_le_words by (rule le_imp_power_dvd)
  then have "v mod 2 ^ (64 * getNumWords w) mod 2 ^ w = v mod 2 ^ w" by (rule mod_mod_cancel)
  then show ?thesis by (metis ap_make_mod)
qed

lemma ap_make_cong: "a mod 2 ^ w = b mod 2 ^ w \<Longrightarrow> ap_make w a = ap_make w b"
  by (metis ap_make_mod)

section \<open>Construction\<close>

definition initSlowCase :: "nat \<Rightarrow> part \<Rightarrow> bool \<Rightarrow> APInt" where
  "initSlowCase numBits val isSigned =
    (let n = getNumWords numBits
     in clearUnusedBits \<lparr>BitWidth = numBits,
          pVal = val # replicate (n - 1) (if isSigned \<and> sint val < 0 then - 1 else 0)\<rparr>)"

definition new_APInt :: "nat \<Rightarrow> part \<Rightarrow> bool \<Rightarrow> APInt result" where
  "new_APInt numBits val isSigned =
    rbind (check_assert (numBits \<noteq> 0) ''bitwidth too small'') (\<lambda>_.
      Inr (if numBits \<le> 64 then clearUnusedBits \<lparr>BitWidth = numBits, pVal = [val]\<rparr>
           else initSlowCase numBits val isSigned))"

definition initFromArray :: "nat \<Rightarrow> part list \<Rightarrow> APInt result" where
  "initFromArray numBits bigVal =
    rbind (check_assert (numBits \<noteq> 0) ''Bitwidth too small'') (\<lambda>_.
      if numBits \<le> 64
      then (if bigVal = [] then Inl (UndefinedBehaviour ''bigVal[0]'')
            else Inr (clearUnusedBits \<lparr>BitWidth = numBits, pVal = [hd bigVal]\<rparr>))
      else let n = getNumWords numBits; k = min (length bigVal) n
           in Inr (clearUnusedBits \<lparr>BitWidth = numBits, pVal = take k bigVal @ replicate (n - k) 0\<rparr>))"

lemma new_APInt_unsigned: "0 < w \<Longrightarrow> new_APInt w v False = Inr (ap_make w (unat v))"
proof -
  assume w: "0 < w"
  let ?one = "\<lparr>BitWidth = w, pVal = [v]\<rparr>"
  let ?many = "\<lparr>BitWidth = w, pVal = v # replicate (getNumWords w - 1) 0\<rparr>"
  have "w \<le> 64 \<Longrightarrow> ap_shape ?one"
    using w getNumWords_single [OF w] by (simp add: ap_shape_def)
  moreover have "ap_shape ?many" using w by (simp add: ap_shape_def getNumWords_split)
  ultimately show ?thesis using w clearUnusedBits_make [of ?one w] clearUnusedBits_make [of ?many w]
    by (simp add: new_APInt_def initSlowCase_def Let_def ap_val_def)
qed

lemma sint_part_cases: "sint (v :: part) = (if sint v < 0 then int (unat v) - 2 ^ 64 else int (unat v))"
proof -
  have u: "int (unat v) = sint v mod 2 ^ 64" using uint_sint [of v] by (simp add: take_bit_eq_mod)
  have b: "- (2 ^ 63) \<le> sint v" "sint v < 2 ^ 63" using sint_ge [of v] sint_lt [of v] by simp_all
  have "sint v mod 2 ^ 64 = sint v + 2 ^ 64" if "sint v < 0"
  proof -
    have "(sint v + 2 ^ 64) mod 2 ^ 64 = sint v + 2 ^ 64" using that b by (intro mod_pos_pos_trivial) simp_all
    then show ?thesis by simp
  qed
  with u b show ?thesis by simp
qed

lemma new_APInt_signed:
  assumes w: "0 < w"
  shows "new_APInt w v True = Inr (ap_make w (nat (sint v mod 2 ^ w)))"
proof (cases "w \<le> 64")
  case True
  have "(2 :: int) ^ w dvd 2 ^ 64" using True by (rule le_imp_power_dvd)
  then have "int (unat v) mod 2 ^ w = sint v mod 2 ^ w"
    by (subst sint_part_cases) (auto simp: mod_diff_eq [symmetric] dvd_imp_mod_0)
  then have "unat v mod 2 ^ w = nat (sint v mod 2 ^ w)"
    by (metis nat_int of_nat_numeral of_nat_power zmod_int)
  with True w have "ap_make w (unat v) = ap_make w (nat (sint v mod 2 ^ w))"
    by (intro ap_make_cong) (simp add: nat_mod_distrib)
  with True w new_APInt_unsigned [OF w, of v] show ?thesis by (simp add: new_APInt_def)
next
  case False
  let ?n = "getNumWords w"
  let ?z = "\<lparr>BitWidth = w, pVal = v # replicate (?n - 1) (if sint v < 0 then - 1 else 0)\<rparr>"
  have n: "?n = Suc (?n - 1)" using w by (simp add: getNumWords_split)
  have "ap_shape ?z" using w n by (simp add: ap_shape_def)
  from clearUnusedBits_make [OF this, of w] False w
  have c: "new_APInt w v True = Inr (ap_make w (ap_val ?z))" by (simp add: new_APInt_def initSlowCase_def Let_def)
  have "int (ap_val ?z) mod 2 ^ w = sint v mod 2 ^ w"
  proof (cases "sint v < 0")
    case True
    have "ap_val ?z = unat v + 2 ^ 64 * (2 ^ (64 * (?n - 1)) - 1)"
      using True by (simp add: ap_val_def tc_value_replicate_ones)
    also have "int \<dots> = sint v + 2 ^ (64 * ?n)"
    proof -
      have "(2 :: int) ^ (64 * ?n) = 2 ^ 64 * 2 ^ (64 * (?n - 1))" by (subst n) (simp add: power_add)
      moreover have "int (2 ^ m - 1) = 2 ^ m - 1" for m by (simp add: of_nat_diff)
      then have "int (unat v + 2 ^ 64 * (2 ^ (64 * (?n - 1)) - 1)) =
          int (unat v) + 2 ^ 64 * (2 ^ (64 * (?n - 1)) - 1)" by (simp only: of_nat_add of_nat_mult) simp
      moreover have "int (unat v) = sint v + 2 ^ 64" using True sint_part_cases [of v] by simp
      ultimately show ?thesis by (simp only: right_diff_distrib)
    qed
    finally have "int (ap_val ?z) = sint v + 2 ^ (64 * ?n)" .
    moreover have "(2 :: int) ^ w dvd 2 ^ (64 * ?n)" using width_le_words by (rule le_imp_power_dvd)
    ultimately show ?thesis by (simp add: mod_add_eq [symmetric] dvd_imp_mod_0)
  next
    case False
    then show ?thesis by (subst sint_part_cases) (simp add: ap_val_def)
  qed
  then have "ap_val ?z mod 2 ^ w = nat (sint v mod 2 ^ w)"
    by (metis nat_int of_nat_numeral of_nat_power zmod_int)
  then have "ap_make w (ap_val ?z) = ap_make w (nat (sint v mod 2 ^ w))"
    by (intro ap_make_cong) (simp add: nat_mod_distrib)
  with c show ?thesis by simp
qed

lemma initFromArray_value:
  assumes w: "0 < w" and b: "bigVal \<noteq> []"
  shows "initFromArray w bigVal = Inr (ap_make w (tc_value bigVal))"
proof (cases "w \<le> 64")
  case True
  let ?z = "\<lparr>BitWidth = w, pVal = [hd bigVal]\<rparr>"
  have "ap_shape ?z" using True w getNumWords_single [OF w] by (simp add: ap_shape_def)
  from clearUnusedBits_make [OF this, of w] True w b
  have c: "initFromArray w bigVal = Inr (ap_make w (unat (hd bigVal)))" by (simp add: initFromArray_def ap_val_def)
  have "unat (hd bigVal) = tc_value bigVal mod 2 ^ 64" using b by (cases bigVal) simp_all
  with c mod_part_width [OF True] show ?thesis by metis
next
  case False
  let ?n = "getNumWords w"
  let ?z = "\<lparr>BitWidth = w, pVal = take (min (length bigVal) ?n) bigVal @ replicate (?n - min (length bigVal) ?n) 0\<rparr>"
  have "ap_shape ?z" using w by (simp add: ap_shape_def)
  from clearUnusedBits_make [OF this, of w] False w
  have c: "initFromArray w bigVal = Inr (ap_make w (ap_val ?z))" by (simp add: initFromArray_def Let_def)
  have "ap_val ?z = tc_value (take ?n bigVal)" by (simp add: ap_val_def min_def)
  also have "\<dots> = tc_value bigVal mod 2 ^ (64 * ?n)"
  proof (cases "length bigVal \<le> ?n")
    case True
    then have "(2 :: nat) ^ (64 * length bigVal) \<le> 2 ^ (64 * ?n)" by (intro power_increasing) simp_all
    with tc_value_less [of bigVal] have "tc_value bigVal < 2 ^ (64 * ?n)" by (rule less_le_trans)
    with True show ?thesis by simp
  next
    case False
    with tc_value_append [of "take ?n bigVal" "drop ?n bigVal"] tc_value_take_less [of ?n bigVal] show ?thesis by simp
  qed
  finally show ?thesis using c by (simp add: mod_words_width)
qed

section \<open>Arithmetic\<close>

definition same_width :: "APInt \<Rightarrow> APInt \<Rightarrow> unit result" where
  "same_width x y = check_assert (BitWidth x = BitWidth y) ''Bit widths must be the same''"

definition ap_incr :: "APInt \<Rightarrow> APInt" where
  "ap_incr x =
    clearUnusedBits (if isSingleWord x then VAL_update (\<lambda>v. v + 1) x
      else x\<lparr>pVal := fst (tcIncrement (pVal x))\<rparr>)"

definition ap_decr :: "APInt \<Rightarrow> APInt" where
  "ap_decr x =
    clearUnusedBits (if isSingleWord x then VAL_update (\<lambda>v. v - 1) x
      else x\<lparr>pVal := fst (tcDecrement (pVal x))\<rparr>)"

definition ap_plus :: "APInt \<Rightarrow> APInt \<Rightarrow> APInt result" where
  "ap_plus x y =
    rbind (same_width x y) (\<lambda>_.
      if isSingleWord x then Inr (clearUnusedBits (VAL_update (\<lambda>v. v + VAL y) x))
      else rbind (tcAdd (pVal x) (pVal y) 0) (\<lambda>(d, _). Inr (clearUnusedBits (x\<lparr>pVal := d\<rparr>))))"

definition ap_plus_word :: "APInt \<Rightarrow> part \<Rightarrow> APInt" where
  "ap_plus_word x y =
    clearUnusedBits (if isSingleWord x then VAL_update (\<lambda>v. v + y) x
      else x\<lparr>pVal := fst (tcAddPart (pVal x) y)\<rparr>)"

definition ap_minus :: "APInt \<Rightarrow> APInt \<Rightarrow> APInt result" where
  "ap_minus x y =
    rbind (same_width x y) (\<lambda>_.
      if isSingleWord x then Inr (clearUnusedBits (VAL_update (\<lambda>v. v - VAL y) x))
      else rbind (tcSubtract (pVal x) (pVal y) 0) (\<lambda>(d, _). Inr (clearUnusedBits (x\<lparr>pVal := d\<rparr>))))"

definition ap_minus_word :: "APInt \<Rightarrow> part \<Rightarrow> APInt" where
  "ap_minus_word x y =
    clearUnusedBits (if isSingleWord x then VAL_update (\<lambda>v. v - y) x
      else x\<lparr>pVal := fst (tcSubtractPart (pVal x) y)\<rparr>)"

text \<open>The memory of a product is not initialised before it is written; it is the parameter \<open>mem\<close>.\<close>

definition ap_times :: "part list \<Rightarrow> APInt \<Rightarrow> APInt \<Rightarrow> APInt result" where
  "ap_times mem x y =
    rbind (same_width x y) (\<lambda>_.
      if isSingleWord x then new_APInt (BitWidth x) (VAL x * VAL y) False
      else rbind (tcMultiply mem (pVal x) (pVal y)) (\<lambda>(d, _).
        Inr (clearUnusedBits \<lparr>BitWidth = BitWidth x, pVal = d\<rparr>)))"

definition ap_times_word :: "APInt \<Rightarrow> part \<Rightarrow> APInt result" where
  "ap_times_word x y =
    (if isSingleWord x then Inr (clearUnusedBits (VAL_update (\<lambda>v. v * y) x))
     else rbind (tcMultiplyPart (pVal x) (pVal x) y 0 False) (\<lambda>(d, _).
       Inr (clearUnusedBits (x\<lparr>pVal := d\<rparr>))))"

definition flipAllBits :: "APInt \<Rightarrow> APInt" where
  "flipAllBits x =
    clearUnusedBits (if isSingleWord x then VAL_update (\<lambda>v. v XOR - 1) x
      else x\<lparr>pVal := tcComplement (pVal x)\<rparr>)"

definition ap_negate :: "APInt \<Rightarrow> APInt" where
  "ap_negate x = ap_incr (flipAllBits x)"

lemma ap_make_words:
  "a mod 2 ^ (64 * getNumWords w) = b mod 2 ^ (64 * getNumWords w) \<Longrightarrow> ap_make w a = ap_make w b"
  by (metis mod_words_width)

lemma mod_carry: "a + M * k = b \<Longrightarrow> a mod M = b mod (M :: nat)"
  by (metis mod_mult_self2)

lemma mod_borrow: "a = b + M * k \<Longrightarrow> a mod M = b mod (M :: nat)"
  by simp

lemma ap_make_minus:
  assumes "(d + y) mod 2 ^ w = x mod 2 ^ w" "y \<le> 2 ^ w"
  shows "ap_make w d = ap_make w (x + 2 ^ w - y)"
proof (rule ap_make_cong)
  let ?m = "int (2 ^ w)"
  have "int (d + y) mod ?m = int x mod ?m" using assms(1) by (simp only: of_nat_mod [symmetric])
  then have "int (d + y) mod ?m = (int x + ?m) mod ?m" by simp
  from mod_diff_cong [OF this refl, of "int y"]
  have "int d mod ?m = (int x + ?m - int y) mod ?m" by (simp only: of_nat_add add_diff_cancel_right')
  also have "int x + ?m - int y = int (x + 2 ^ w - y)" using assms(2) by (simp add: of_nat_diff)
  finally show "d mod 2 ^ w = (x + 2 ^ w - y) mod 2 ^ w" by (simp only: of_nat_mod [symmetric] of_nat_eq_iff)
qed

lemma mod_words_to_width:
  "a mod 2 ^ (64 * getNumWords w) = b mod 2 ^ (64 * getNumWords w) \<Longrightarrow> a mod 2 ^ w = (b :: nat) mod 2 ^ w"
  using ap_make_words [of a w b] by (metis ap_make_val)

lemma mod_part_to_width:
  "w \<le> 64 \<Longrightarrow> a mod 2 ^ 64 = b mod 2 ^ 64 \<Longrightarrow> a mod 2 ^ w = (b :: nat) mod 2 ^ w"
  by (metis ap_make_val mod_part_width)

text \<open>Every operation, as an operation on the value.\<close>

lemma ap_words:
  assumes "ap_ok x" "\<not> isSingleWord x"
  shows "pVal x \<noteq> []" "length (pVal x) = getNumWords (BitWidth x)"
proof -
  show l: "length (pVal x) = getNumWords (BitWidth x)" using assms by (simp add: ap_ok_def ap_shape_def)
  with assms show "pVal x \<noteq> []" by (auto simp: getNumWords_split ap_ok_def ap_shape_def)
qed

lemma ap_plus_make:
  assumes x: "ap_ok x" and y: "ap_ok y" and w: "BitWidth x = w" "BitWidth y = w"
  shows "ap_plus x y = Inr (ap_make w (ap_val x + ap_val y))"
proof (cases "isSingleWord x")
  case True
  then have s: "isSingleWord y" "w \<le> 64" using w by (simp_all add: isSingleWord_def)
  have "unat (VAL x + VAL y) = (ap_val x + ap_val y) mod 2 ^ 64"
    using single_word(2) [of x] single_word(2) [of y] True s x y
    by (simp add: ap_shapeI unat_word_ariths)
  with True s show ?thesis
    using clear_word [OF ap_shapeI [OF x] True w(1), of "\<lambda>v. v + VAL y"] mod_part_width [OF s(2)]
    by (simp add: ap_plus_def same_width_def w)
next
  case False
  have l: "length (pVal y) = length (pVal x)" "length (pVal x) = getNumWords w"
    using x y w by (simp_all add: ap_ok_def ap_shape_def)
  obtain d c where r: "add_loop (pVal x) (pVal y) (of_bool False) = (d, c)" by fastforce
  from add_loop_value [OF l(1) r] have d: "length d = length (pVal x)"
    "tc_value d + 2 ^ (64 * getNumWords w) * unat c = ap_val x + ap_val y" by (simp_all add: ap_val_def l)
  from d(2) have "ap_make w (tc_value d) = ap_make w (ap_val x + ap_val y)"
    by (intro ap_make_words) (rule mod_carry)
  then show ?thesis using False r clear_words [OF ap_shapeI [OF x] d(1) w(1)]
    by (simp add: ap_plus_def same_width_def w tcAdd_def)
qed

lemma ap_minus_make:
  assumes x: "ap_ok x" and y: "ap_ok y" and w: "BitWidth x = w" "BitWidth y = w"
  shows "ap_minus x y = Inr (ap_make w (ap_val x + 2 ^ w - ap_val y))"
proof -
  have yl: "ap_val y \<le> 2 ^ w" using y w by (simp add: ap_ok_def)
  show ?thesis
  proof (cases "isSingleWord x")
    case True
    then have s: "isSingleWord y" "w \<le> 64" using w by (simp_all add: isSingleWord_def)
    have "(unat (VAL x - VAL y) + unat (VAL y)) mod 2 ^ 64 = unat (VAL x) mod 2 ^ 64"
      using unat_part_numeral [of "VAL y"] by (simp add: unat_part_sub)
    from mod_part_to_width [OF s(2) this] ap_make_minus [of "unat (VAL x - VAL y)" "ap_val y" w "ap_val x"] yl
    have "ap_make w (unat (VAL x - VAL y)) = ap_make w (ap_val x + 2 ^ w - ap_val y)"
      using single_word(2) [of x] single_word(2) [of y] True s x y by (simp add: ap_shapeI)
    then show ?thesis using True clear_word [OF ap_shapeI [OF x] True w(1), of "\<lambda>v. v - VAL y"]
      by (simp add: ap_minus_def same_width_def w)
  next
    case False
    have l: "length (pVal y) = length (pVal x)" "length (pVal x) = getNumWords w"
      using x y w by (simp_all add: ap_ok_def ap_shape_def)
    obtain d c where r: "sub_loop (pVal x) (pVal y) (of_bool False) = (d, c)" by fastforce
    from sub_loop_value [OF l(1) r] have d: "length d = length (pVal x)"
      "tc_value d + ap_val y = ap_val x + 2 ^ (64 * getNumWords w) * unat c" by (simp_all add: ap_val_def l)
    from d(2) have "(tc_value d + ap_val y) mod 2 ^ w = ap_val x mod 2 ^ w"
      by (rule mod_words_to_width [OF mod_borrow])
    then have "ap_make w (tc_value d) = ap_make w (ap_val x + 2 ^ w - ap_val y)" using yl by (rule ap_make_minus)
    then show ?thesis using False r clear_words [OF ap_shapeI [OF x] d(1) w(1)]
      by (simp add: ap_minus_def same_width_def w tcSubtract_def)
  qed
qed

lemma ap_plus_word_make:
  assumes x: "ap_ok x" and w: "BitWidth x = w"
  shows "ap_plus_word x y = ap_make w (ap_val x + unat y)"
proof (cases "isSingleWord x")
  case True
  then have s: "w \<le> 64" using w by (simp add: isSingleWord_def)
  have "unat (VAL x + y) = (ap_val x + unat y) mod 2 ^ 64"
    using single_word(2) [OF ap_shapeI [OF x] True] by (simp add: unat_word_ariths)
  with True show ?thesis
    using clear_word [OF ap_shapeI [OF x] True w, of "\<lambda>v. v + y"] mod_part_width [OF s]
    by (simp add: ap_plus_word_def)
next
  case False
  obtain d c where r: "tcAddPart (pVal x) y = (d, c)" by fastforce
  from tcAddPart_value [OF r] ap_words [OF x False] w have d: "length d = length (pVal x)"
    "tc_value d + 2 ^ (64 * getNumWords w) * unat c = ap_val x + unat y" by (simp_all add: ap_val_def)
  from d(2) have "ap_make w (tc_value d) = ap_make w (ap_val x + unat y)"
    by (intro ap_make_words) (rule mod_carry)
  then show ?thesis using False r clear_words [OF ap_shapeI [OF x] d(1) w] by (simp add: ap_plus_word_def)
qed

lemma ap_minus_word_make:
  assumes x: "ap_ok x" and w: "BitWidth x = w"
  shows "ap_minus_word x y = ap_make w (ap_val x + 2 ^ w - unat y mod 2 ^ w)"
proof -
  have small: "unat y mod 2 ^ w \<le> 2 ^ w" by simp
  show ?thesis
  proof (cases "isSingleWord x")
    case True
    then have s: "w \<le> 64" using w by (simp add: isSingleWord_def)
    have "(unat (VAL x - y) + unat y) mod 2 ^ 64 = unat (VAL x) mod 2 ^ 64"
      using unat_part_numeral [of y] by (simp add: unat_part_sub)
    from mod_part_to_width [OF s this]
    have "(unat (VAL x - y) + unat y mod 2 ^ w) mod 2 ^ w = ap_val x mod 2 ^ w"
      using single_word(2) [OF ap_shapeI [OF x] True] by (simp add: mod_simps)
    from ap_make_minus [OF this small] True show ?thesis
      using clear_word [OF ap_shapeI [OF x] True w, of "\<lambda>v. v - y"] by (simp add: ap_minus_word_def)
  next
    case False
    obtain d c where r: "tcSubtractPart (pVal x) y = (d, c)" by fastforce
    from tcSubtractPart_value [OF r] ap_words [OF x False] w have d: "length d = length (pVal x)"
      "tc_value d + unat y = ap_val x + 2 ^ (64 * getNumWords w) * unat c" by (simp_all add: ap_val_def)
    from d(2) have "(tc_value d + unat y) mod 2 ^ w = ap_val x mod 2 ^ w"
      by (rule mod_words_to_width [OF mod_borrow])
    then have "(tc_value d + unat y mod 2 ^ w) mod 2 ^ w = ap_val x mod 2 ^ w" by (simp add: mod_simps)
    from ap_make_minus [OF this small] show ?thesis
      using False r clear_words [OF ap_shapeI [OF x] d(1) w] by (simp add: ap_minus_word_def)
  qed
qed

lemma ap_incr_make: "ap_ok x \<Longrightarrow> BitWidth x = w \<Longrightarrow> ap_incr x = ap_make w (ap_val x + 1)"
  using ap_plus_word_make [of x w 1]
  by (simp only: ap_incr_def ap_plus_word_def tcIncrement_def unsigned_1)

lemma ap_decr_make:
  assumes "ap_ok x" "BitWidth x = w"
  shows "ap_decr x = ap_make w (ap_val x + 2 ^ w - 1)"
proof -
  have "0 < w" using assms by (simp add: ap_ok_def ap_shape_def)
  then have "1 mod 2 ^ w = (1 :: nat)" by (simp add: one_less_power)
  then show ?thesis
    using ap_minus_word_make [OF assms, of 1]
    by (simp only: ap_decr_def ap_minus_word_def tcDecrement_def unsigned_1)
qed

lemma ap_times_make:
  assumes x: "ap_ok x" and y: "ap_ok y" and w: "BitWidth x = w" "BitWidth y = w"
    and mem: "isSingleWord x \<or> length mem = getNumWords w"
  shows "ap_times mem x y = Inr (ap_make w (ap_val x * ap_val y))"
proof (cases "isSingleWord x")
  case True
  then have s: "isSingleWord y" "w \<le> 64" using w by (simp_all add: isSingleWord_def)
  have w0: "0 < w" using x w by (simp add: ap_ok_def ap_shape_def)
  have "unat (VAL x * VAL y) = (ap_val x * ap_val y) mod 2 ^ 64"
    using single_word(2) [of x] single_word(2) [of y] True s x y
    by (simp add: ap_shapeI unat_word_ariths)
  with True show ?thesis using new_APInt_unsigned [OF w0] mod_part_width [OF s(2)]
    by (simp add: ap_times_def same_width_def w)
next
  case False
  have l: "length (pVal x) = length mem" "length (pVal y) = length mem" "mem \<noteq> []"
    using x y w mem False ap_words [OF x False] by (auto simp: ap_ok_def ap_shape_def)
  from tcMultiply_value [OF l] obtain d ov where d: "tcMultiply mem (pVal x) (pVal y) = Inr (d, ov)"
    "length d = length mem" "tc_value d = (ap_val x * ap_val y) mod 2 ^ (64 * getNumWords w)"
    using mem False by (auto simp: ap_val_def)
  have "clearUnusedBits \<lparr>BitWidth = w, pVal = d\<rparr> = clearUnusedBits (x\<lparr>pVal := d\<rparr>)"
    by (rule arg_cong [where f = clearUnusedBits]) (simp add: w flip: w(1))
  with d clear_words [OF ap_shapeI [OF x] _ w(1), of d] l False show ?thesis
    by (simp add: ap_times_def same_width_def w mod_words_width)
qed

lemma ap_times_word_make:
  assumes x: "ap_ok x" and w: "BitWidth x = w"
  shows "ap_times_word x y = Inr (ap_make w (ap_val x * unat y))"
proof (cases "isSingleWord x")
  case True
  then have s: "w \<le> 64" using w by (simp add: isSingleWord_def)
  have "unat (VAL x * y) = (ap_val x * unat y) mod 2 ^ 64"
    using single_word(2) [OF ap_shapeI [OF x] True] by (simp add: unat_word_ariths)
  with True show ?thesis
    using clear_word [OF ap_shapeI [OF x] True w, of "\<lambda>v. v * y"] mod_part_width [OF s]
    by (simp add: ap_times_word_def)
next
  case False
  from tcMultiplyPart_cut [of "pVal x" "pVal x" y 0 False] obtain d ov K where
    d: "tcMultiplyPart (pVal x) (pVal x) y 0 False = Inr (d, ov)" "length d = length (pVal x)"
    "tc_value d + 2 ^ (64 * getNumWords w) * K = ap_val x * unat y"
    using ap_words(2) [OF x False] w by (auto simp: row_value_def ap_val_def)
  from d(3) have "ap_make w (tc_value d) = ap_make w (ap_val x * unat y)"
    by (intro ap_make_words) (rule mod_carry)
  then show ?thesis using False d clear_words [OF ap_shapeI [OF x] d(2) w] by (simp add: ap_times_word_def)
qed

lemma flipAllBits_make:
  assumes x: "ap_ok x" and w: "BitWidth x = w"
  shows "flipAllBits x = ap_make w (2 ^ w - 1 - ap_val x)"
proof -
  have lt: "ap_val x < 2 ^ w" using x w by (simp add: ap_ok_def)
  have key: "ap_make w d = ap_make w (2 ^ w - 1 - ap_val x)" if "(d + ap_val x + 1) mod 2 ^ w = 0" for d
  proof -
    have "ap_make w d = ap_make w (0 + 2 ^ w - (ap_val x + 1))"
      using that lt by (intro ap_make_minus) (simp_all add: add.assoc)
    then show ?thesis by simp
  qed
  show ?thesis
  proof (cases "isSingleWord x")
    case True
    then have s: "w \<le> 64" using w by (simp add: isSingleWord_def)
    have v: "unat (VAL x) = ap_val x" using single_word(2) [OF ap_shapeI [OF x] True] by simp
    have "VAL x XOR - 1 = NOT (VAL x)" by simp
    moreover have "unat (NOT (VAL x)) + ap_val x + 1 = 2 ^ 64" using unat_part_not [of "VAL x"] v by simp
    then have "(unat (NOT (VAL x)) + ap_val x + 1) mod 2 ^ w = 0"
      using le_imp_power_dvd [OF s, of "2 :: nat"] by (simp add: mod_eq_0_iff_dvd)
    ultimately show ?thesis using True key
        clear_word [OF ap_shapeI [OF x] True w, of "\<lambda>v. v XOR - 1"] by (simp add: flipAllBits_def)
  next
    case False
    let ?d = "tcComplement (pVal x)"
    have "length ?d = length (pVal x)" "tc_value ?d + ap_val x + 1 = 2 ^ (64 * getNumWords w)"
      using tcComplement_value [of "pVal x"] ap_words(2) [OF x False] w by (simp_all add: ap_val_def)
    moreover from this(2) have "(tc_value ?d + ap_val x + 1) mod 2 ^ w = 0"
      using le_imp_power_dvd [OF width_le_words [of w], of "2 :: nat"] by (simp only: mod_eq_0_iff_dvd)
    ultimately show ?thesis using False key clear_words [OF ap_shapeI [OF x], of ?d w] w
      by (simp add: flipAllBits_def)
  qed
qed

lemma ap_negate_make:
  assumes x: "ap_ok x" and w: "BitWidth x = w"
  shows "ap_negate x = ap_make w (2 ^ w - ap_val x)"
proof -
  have lt: "ap_val x < 2 ^ w" "0 < w" using x w by (simp_all add: ap_ok_def ap_shape_def)
  have "ap_negate x = ap_make w ((2 ^ w - 1 - ap_val x) mod 2 ^ w + 1)"
    using ap_incr_make [of "flipAllBits x" w] lt by (simp add: ap_negate_def flipAllBits_make [OF x w])
  also have "(2 ^ w - 1 - ap_val x) mod 2 ^ w + 1 = 2 ^ w - ap_val x" using lt by simp
  finally show ?thesis .
qed

lemmas ap_arith_make = ap_plus_make ap_minus_make ap_times_make ap_plus_word_make ap_minus_word_make
  ap_incr_make ap_decr_make ap_negate_make flipAllBits_make

section \<open>Bitwise operations\<close>

definition ap_and :: "APInt \<Rightarrow> APInt \<Rightarrow> APInt result" where
  "ap_and x y =
    rbind (same_width x y) (\<lambda>_.
      Inr (if isSingleWord x then VAL_update (\<lambda>v. v AND VAL y) x else x\<lparr>pVal := tcAnd (pVal x) (pVal y)\<rparr>))"

definition ap_or :: "APInt \<Rightarrow> APInt \<Rightarrow> APInt result" where
  "ap_or x y =
    rbind (same_width x y) (\<lambda>_.
      Inr (if isSingleWord x then VAL_update (\<lambda>v. v OR VAL y) x else x\<lparr>pVal := tcOr (pVal x) (pVal y)\<rparr>))"

definition ap_xor :: "APInt \<Rightarrow> APInt \<Rightarrow> APInt result" where
  "ap_xor x y =
    rbind (same_width x y) (\<lambda>_.
      Inr (if isSingleWord x then VAL_update (\<lambda>v. v XOR VAL y) x else x\<lparr>pVal := tcXor (pVal x) (pVal y)\<rparr>))"

lemma ap_bitwise_make:
  assumes x: "ap_ok x" and y: "ap_ok y" and w: "BitWidth x = w" "BitWidth y = w"
  shows "ap_and x y = Inr (ap_make w (ap_val x AND ap_val y))"
    and "ap_or x y = Inr (ap_make w (ap_val x OR ap_val y))"
    and "ap_xor x y = Inr (ap_make w (ap_val x XOR ap_val y))"
proof -
  have l: "length (pVal y) = length (pVal x)" using x y w by (simp add: ap_ok_def ap_shape_def)
  have one: "pVal x = [VAL x]" "pVal y = [VAL y]" if "isSingleWord x"
    using that single_word(1) [of x] single_word(1) [of y] x y w by (simp_all add: ap_shapeI isSingleWord_def)
  have e: "ap_and x y = Inr (x\<lparr>pVal := tcAnd (pVal x) (pVal y)\<rparr>)"
    "ap_or x y = Inr (x\<lparr>pVal := tcOr (pVal x) (pVal y)\<rparr>)"
    "ap_xor x y = Inr (x\<lparr>pVal := tcXor (pVal x) (pVal y)\<rparr>)"
    using one w by (cases "isSingleWord x"; simp add: ap_and_def ap_or_def ap_xor_def same_width_def;
      metis tcAnd.simps(1,2) tcOr.simps(1,2) tcXor.simps(1,2))+
  have make: "x\<lparr>pVal := d\<rparr> = ap_make w v"
    if "length d = length (pVal x)" "tc_value d = v" "\<And>i. bit v i \<Longrightarrow> i < w" for d v
  proof -
    from that(3) have "v < 2 ^ w" by (rule less_exp_bitI)
    with that x w show ?thesis by (intro ap_makeI) (simp_all add: ap_ok_def ap_shape_def ap_val_def)
  qed
  have b: "bit (ap_val x) i \<Longrightarrow> i < w" "bit (ap_val y) i \<Longrightarrow> i < w" for i
  proof -
    have "take_bit w (ap_val x) = ap_val x" "take_bit w (ap_val y) = ap_val y"
      using x y w by (simp_all add: ap_ok_def take_bit_nat_eq_self)
    then show "bit (ap_val x) i \<Longrightarrow> i < w" "bit (ap_val y) i \<Longrightarrow> i < w" by (metis bit_take_bit_iff)+
  qed
  show "ap_and x y = Inr (ap_make w (ap_val x AND ap_val y))"
    "ap_or x y = Inr (ap_make w (ap_val x OR ap_val y))"
    "ap_xor x y = Inr (ap_make w (ap_val x XOR ap_val y))"
    unfolding e using l b tc_bitwise_value [OF l]
    by (auto simp: tc_bitwise_map2 ap_val_def bit_and_iff bit_or_iff bit_xor_iff intro!: make)
qed

section \<open>Bits and comparison\<close>

definition getWord :: "APInt \<Rightarrow> nat \<Rightarrow> part" where
  "getWord x bitPosition = (if isSingleWord x then VAL x else pVal x ! whichWord bitPosition)"

definition ap_bit :: "APInt \<Rightarrow> nat \<Rightarrow> bool result" where
  "ap_bit x bitPosition =
    rbind (check_assert (bitPosition < BitWidth x) ''Bit position out of bounds!'') (\<lambda>_.
      Inr (maskBit bitPosition AND getWord x bitPosition \<noteq> 0))"

definition isNegative :: "APInt \<Rightarrow> bool result" where
  "isNegative x = ap_bit x (BitWidth x - 1)"

definition ap_setBit :: "APInt \<Rightarrow> nat \<Rightarrow> APInt result" where
  "ap_setBit x i =
    rbind (check_assert (i < BitWidth x) ''BitPosition out of range'') (\<lambda>_.
      Inr (if isSingleWord x then VAL_update (\<lambda>v. v OR maskBit i) x
           else x\<lparr>pVal := (pVal x)[whichWord i := pVal x ! whichWord i OR maskBit i]\<rparr>))"

definition ap_clearBit :: "APInt \<Rightarrow> nat \<Rightarrow> APInt result" where
  "ap_clearBit x i =
    rbind (check_assert (i < BitWidth x) ''BitPosition out of range'') (\<lambda>_.
      Inr (if isSingleWord x then VAL_update (\<lambda>v. v AND NOT (maskBit i)) x
           else x\<lparr>pVal := (pVal x)[whichWord i := pVal x ! whichWord i AND NOT (maskBit i)]\<rparr>))"

definition flipBit :: "APInt \<Rightarrow> nat \<Rightarrow> APInt result" where
  "flipBit x i =
    rbind (check_assert (i < BitWidth x) ''Out of the bit-width range!'') (\<lambda>_.
      rbind (ap_bit x i) (\<lambda>b. if b then ap_clearBit x i else ap_setBit x i))"

definition SignExtend64 :: "part \<Rightarrow> nat \<Rightarrow> int result" where
  "SignExtend64 X B =
    rbind (check_assert (0 < B) ''Bit width can't be 0.'') (\<lambda>_.
      rbind (check_assert (B \<le> 64) ''Bit width out of range.'') (\<lambda>_.
        Inr (sint (push_bit (64 - B) X) div 2 ^ (64 - B))))"

definition ap_equal :: "APInt \<Rightarrow> APInt \<Rightarrow> bool result" where
  "ap_equal x y =
    rbind (check_assert (BitWidth x = BitWidth y) ''Comparison requires equal bit widths'') (\<lambda>_.
      Inr (if isSingleWord x then VAL x = VAL y else pVal x = take (getNumWords (BitWidth x)) (pVal y)))"

definition ap_compare :: "APInt \<Rightarrow> APInt \<Rightarrow> int result" where
  "ap_compare x y =
    rbind (check_assert (BitWidth x = BitWidth y) ''Bit widths must be same for comparison'') (\<lambda>_.
      Inr (if isSingleWord x then (if VAL x < VAL y then - 1 else of_bool (VAL y < VAL x))
           else tcCompare (pVal x) (pVal y) (getNumWords (BitWidth x))))"

definition compareSigned :: "APInt \<Rightarrow> APInt \<Rightarrow> int result" where
  "compareSigned x y =
    rbind (check_assert (BitWidth x = BitWidth y) ''Bit widths must be same for comparison'') (\<lambda>_.
      if isSingleWord x
      then rbind (SignExtend64 (VAL x) (BitWidth x)) (\<lambda>l.
           rbind (SignExtend64 (VAL y) (BitWidth x)) (\<lambda>r.
             Inr (if l < r then - 1 else of_bool (r < l))))
      else rbind (isNegative x) (\<lambda>lhsNeg. rbind (isNegative y) (\<lambda>rhsNeg.
        Inr (if lhsNeg \<noteq> rhsNeg then (if lhsNeg then - 1 else 1)
             else tcCompare (pVal x) (pVal y) (getNumWords (BitWidth x))))))"

definition ap_ult :: "APInt \<Rightarrow> APInt \<Rightarrow> bool result" where
  "ap_ult x y = rbind (ap_compare x y) (\<lambda>c. Inr (c < 0))"

definition ap_slt :: "APInt \<Rightarrow> APInt \<Rightarrow> bool result" where
  "ap_slt x y = rbind (compareSigned x y) (\<lambda>c. Inr (c < 0))"

lemma ap_bit_value: "ap_ok x \<Longrightarrow> i < BitWidth x \<Longrightarrow> ap_bit x i = Inr (bit (ap_val x) i)"
proof -
  assume x: "ap_ok x" and i: "i < BitWidth x"
  have k: "i div 64 < length (pVal x)"
  proof -
    have "i < 64 * getNumWords (BitWidth x)" using i width_le_words by (rule less_le_trans)
    then show ?thesis using x by (simp add: ap_ok_def ap_shape_def less_mult_imp_div_less mult.commute)
  qed
  have "getWord x i = pVal x ! (i div 64)"
  proof (cases "isSingleWord x")
    case True
    with single_word(1) [OF ap_shapeI [OF x] True] k have "i div 64 = 0"
      by (metis length_Cons less_Suc0 list.size(3))
    with True k show ?thesis by (cases "pVal x") (simp_all add: getWord_def)
  qed (simp add: getWord_def whichWord_def)
  with i k show ?thesis
    using and_maskBit_eq_0 [of "pVal x ! (i div 64)" i]
    by (simp add: ap_bit_def ap_val_def bit_tc_value and.commute)
qed

lemma isNegative_value:
  assumes "ap_ok x"
  shows "isNegative x = Inr (2 ^ (BitWidth x - 1) \<le> ap_val x)" "isNegative x = Inr (ap_sval x < 0)"
proof -
  have w: "0 < BitWidth x" and v: "ap_val x < 2 ^ Suc (BitWidth x - 1)"
    using assms by (simp_all add: ap_ok_def ap_shape_def)
  from bit_top [OF v] ap_bit_value [OF assms, of "BitWidth x - 1"] w
  show n: "isNegative x = Inr (2 ^ (BitWidth x - 1) \<le> ap_val x)" by (simp add: isNegative_def)
  have "int (ap_val x) < 2 ^ BitWidth x" using assms by (simp add: ap_ok_def)
  with n show "isNegative x = Inr (ap_sval x < 0)" by (auto simp: ap_sval_def)
qed

lemma ap_setBit_make:
  assumes x: "ap_ok x" and w: "BitWidth x = w" and i: "i < w"
  shows "ap_setBit x i = Inr (ap_make w (set_bit i (ap_val x)))"
    and "ap_clearBit x i = Inr (ap_make w (unset_bit i (ap_val x)))"
    and "flipBit x i = Inr (ap_make w (flip_bit i (ap_val x)))"
proof -
  let ?s = "(pVal x)[i div 64 := pVal x ! (i div 64) OR maskBit i]"
  let ?c = "(pVal x)[i div 64 := pVal x ! (i div 64) AND NOT (maskBit i)]"
  have l: "i < 64 * length (pVal x)"
    using i x w less_le_trans [OF i width_le_words] by (simp add: ap_ok_def ap_shape_def)
  then have k: "i div 64 < length (pVal x)" by (simp add: less_mult_imp_div_less mult.commute)
  have z: "i div 64 = 0" "pVal x = [VAL x]" if "isSingleWord x"
    using that single_word(1) [OF ap_shapeI [OF x]] k by (simp_all, metis length_Cons less_Suc0 list.size(3))
  have e: "ap_setBit x i = Inr (x\<lparr>pVal := ?s\<rparr>)" "ap_clearBit x i = Inr (x\<lparr>pVal := ?c\<rparr>)"
    using i w z by (cases "isSingleWord x"; simp add: ap_setBit_def ap_clearBit_def whichWord_def;
      metis list_update_code(2) nth_Cons_0)+
  have v: "tc_value ?s = set_bit i (ap_val x)" "tc_value ?c = unset_bit i (ap_val x)"
    using tcSetBit_value [OF l] tcClearBit_value [OF l] k
    by (auto simp: tcSetBit_def tcClearBit_def whichWord_def ap_val_def)
  have b: "bit (ap_val x) j \<Longrightarrow> j < w" for j
    using x w by (metis ap_ok_def bit_take_bit_iff take_bit_nat_eq_self)
  have "set_bit i (ap_val x) < 2 ^ w" "unset_bit i (ap_val x) < 2 ^ w"
    using i b by (auto intro!: less_exp_bitI simp: bit_set_bit_iff bit_unset_bit_iff)
  then show s: "ap_setBit x i = Inr (ap_make w (set_bit i (ap_val x)))"
    and c: "ap_clearBit x i = Inr (ap_make w (unset_bit i (ap_val x)))"
    using x w v by (auto simp: e ap_ok_def ap_shape_def ap_val_def intro!: ap_makeI)
  have "flip_bit i (ap_val x) = (if bit (ap_val x) i then unset_bit i (ap_val x) else set_bit i (ap_val x))"
    by (rule bit_eqI) (auto simp: bit_flip_bit_iff bit_set_bit_iff bit_unset_bit_iff)
  then show "flipBit x i = Inr (ap_make w (flip_bit i (ap_val x)))"
    using i w s c ap_bit_value [OF x, of i] by (simp add: flipBit_def)
qed

lemma SignExtend64_value:
  assumes B: "0 < B" "B \<le> 64"
  shows "SignExtend64 X B = Inr (if bit X (B - 1) then int (take_bit B (unat X)) - 2 ^ B else int (take_bit B (unat X)))"
proof -
  let ?Y = "push_bit (64 - B) X"
  have "unat ?Y = take_bit 64 (push_bit (64 - B) (unat X))" by (simp add: unsigned_push_bit_eq)
  also have "\<dots> = push_bit (64 - B) (take_bit B (unat X))" using B by (simp add: take_bit_push_bit)
  finally have u: "int (unat ?Y) = 2 ^ (64 - B) * int (take_bit B (unat X))"
    by (simp add: push_bit_eq_mult mult.commute)
  have e: "(2 :: int) ^ 64 = 2 ^ (64 - B) * 2 ^ B" using B by (simp flip: power_add)
  have n: "sint ?Y < 0 \<longleftrightarrow> bit X (B - 1)"
  proof -
    have "sint ?Y < 0 \<longleftrightarrow> bit ?Y 63" using bit_last_iff [of ?Y] by simp
    also have "\<dots> \<longleftrightarrow> bit X (B - 1)" using B by (auto simp: bit_push_bit_iff)
    finally show ?thesis .
  qed
  have "sint ?Y = 2 ^ (64 - B) * (if bit X (B - 1) then int (take_bit B (unat X)) - 2 ^ B else int (take_bit B (unat X)))"
    using sint_part_cases [of ?Y] u e n by (simp add: right_diff_distrib)
  then show ?thesis using B by (simp add: SignExtend64_def)
qed

lemma ap_sval_bounds:
  assumes "ap_ok x"
  shows "- (2 ^ (BitWidth x - 1)) \<le> ap_sval x" "ap_sval x < 2 ^ (BitWidth x - 1)"
    "ap_sval x mod 2 ^ BitWidth x = int (ap_val x)"
proof -
  have w: "0 < BitWidth x" and v: "ap_val x < 2 ^ BitWidth x" using assms by (simp_all add: ap_ok_def ap_shape_def)
  have e: "(2 :: int) ^ BitWidth x = 2 * 2 ^ (BitWidth x - 1)" using w by (simp flip: power_Suc)
  have "int (ap_val x) < 2 ^ BitWidth x" using v by simp
  moreover have "ap_val x < 2 ^ (BitWidth x - 1) \<longleftrightarrow> int (ap_val x) < 2 ^ (BitWidth x - 1)" by simp
  ultimately show "- (2 ^ (BitWidth x - 1)) \<le> ap_sval x" "ap_sval x < 2 ^ (BitWidth x - 1)"
    unfolding ap_sval_def e by (auto split: if_splits)
  show "ap_sval x mod 2 ^ BitWidth x = int (ap_val x)" using \<open>int (ap_val x) < 2 ^ BitWidth x\<close>
    by (simp add: ap_sval_def)
qed

lemma SignExtend64_sval:
  assumes x: "ap_ok x" and s: "isSingleWord x"
  shows "SignExtend64 (VAL x) (BitWidth x) = Inr (ap_sval x)"
proof -
  have w: "0 < BitWidth x" "BitWidth x \<le> 64" using x s by (simp_all add: ap_ok_def ap_shape_def isSingleWord_def)
  have v: "ap_val x = unat (VAL x)" "ap_val x < 2 ^ BitWidth x"
    using single_word(2) [OF ap_shapeI [OF x] s] x by (simp_all add: ap_ok_def)
  from v(2) w have "ap_val x < 2 ^ Suc (BitWidth x - 1)" by simp
  from bit_top [OF this] have "bit (VAL x) (BitWidth x - 1) \<longleftrightarrow> 2 ^ (BitWidth x - 1) \<le> ap_val x"
    using w by (simp add: v(1) bit_unsigned_iff)
  moreover have "take_bit (BitWidth x) (unat (VAL x)) = ap_val x" using v by (simp add: take_bit_nat_eq_self)
  ultimately show ?thesis using SignExtend64_value [OF w, of "VAL x"] by (auto simp: ap_sval_def)
qed

lemma ap_equal_value:
  assumes x: "ap_ok x" and y: "ap_ok y" and w: "BitWidth x = BitWidth y"
  shows "ap_equal x y = Inr (ap_val x = ap_val y)" "ap_equal x y = Inr (x = y)"
proof -
  have l: "length (pVal y) = getNumWords (BitWidth x)" "length (pVal x) = getNumWords (BitWidth x)"
    using x y w by (simp_all add: ap_ok_def ap_shape_def)
  have e: "pVal x = pVal y \<longleftrightarrow> ap_val x = ap_val y" using l by (simp add: ap_val_def tc_value_inject)
  show "ap_equal x y = Inr (ap_val x = ap_val y)"
  proof (cases "isSingleWord x")
    case True
    then have "isSingleWord y" using w by (simp add: isSingleWord_def)
    with True x y w show ?thesis using single_word(2) [of x] single_word(2) [of y]
      by (simp add: ap_equal_def ap_shapeI word_unat_eq_iff)
  next
    case False
    with e l w show ?thesis by (simp add: ap_equal_def)
  qed
  with x y w show "ap_equal x y = Inr (x = y)" by (auto intro: ap_ok_unique)
qed

lemma ap_compare_value:
  assumes x: "ap_ok x" and y: "ap_ok y" and w: "BitWidth x = BitWidth y"
  shows "ap_compare x y = Inr (sgn (int (ap_val x) - int (ap_val y)))"
proof (cases "isSingleWord x")
  case True
  then have "isSingleWord y" using w by (simp add: isSingleWord_def)
  with True x y have v: "ap_val x = unat (VAL x)" "ap_val y = unat (VAL y)" by (simp_all add: single_word(2) ap_shapeI)
  have "VAL x < VAL y \<longleftrightarrow> ap_val x < ap_val y" "VAL y < VAL x \<longleftrightarrow> ap_val y < ap_val x"
    unfolding v by (simp_all add: word_less_nat_alt)
  with True w show ?thesis by (simp add: ap_compare_def sgn_if)
next
  case False
  have "length (pVal y) = getNumWords (BitWidth x)" "length (pVal x) = getNumWords (BitWidth x)"
    using x y w by (simp_all add: ap_ok_def ap_shape_def)
  with False w tcCompare_value [of "getNumWords (BitWidth x)" "pVal x" "pVal y"] show ?thesis
    by (simp add: ap_compare_def ap_val_def)
qed

lemma compareSigned_value:
  assumes x: "ap_ok x" and y: "ap_ok y" and w: "BitWidth x = BitWidth y"
  shows "compareSigned x y = Inr (sgn (ap_sval x - ap_sval y))"
proof (cases "isSingleWord x")
  case True
  then have "isSingleWord y" using w by (simp add: isSingleWord_def)
  with True x y w SignExtend64_sval [OF x True] SignExtend64_sval [OF y] show ?thesis
    by (simp add: compareSigned_def sgn_if)
next
  case False
  have c: "tcCompare (pVal x) (pVal y) (getNumWords (BitWidth x)) = sgn (int (ap_val x) - int (ap_val y))"
    using ap_compare_value [OF x y w] False w by (simp add: ap_compare_def)
  have "ap_sval x - ap_sval y = int (ap_val x) - int (ap_val y)" if "(ap_sval x < 0) = (ap_sval y < 0)"
    using that isNegative_value [OF x] isNegative_value [OF y] w by (auto simp: ap_sval_def)
  then show ?thesis using False w c isNegative_value(2) [OF x] isNegative_value(2) [OF y]
    by (auto simp: compareSigned_def sgn_if)
qed

lemma ap_ult_value:
  "ap_ok x \<Longrightarrow> ap_ok y \<Longrightarrow> BitWidth x = BitWidth y \<Longrightarrow> ap_ult x y = Inr (ap_val x < ap_val y)"
  by (simp add: ap_ult_def ap_compare_value sgn_if)

lemma ap_slt_value:
  "ap_ok x \<Longrightarrow> ap_ok y \<Longrightarrow> BitWidth x = BitWidth y \<Longrightarrow> ap_slt x y = Inr (ap_sval x < ap_sval y)"
  by (simp add: ap_slt_def compareSigned_value sgn_if)

section \<open>The class implements arithmetic of a fixed width\<close>

interpretation apint: fixed_width ap_ok BitWidth ap_val ap_plus ap_minus
  "\<lambda>x y. ap_times (replicate (getNumWords (BitWidth x)) 0) x y" "\<lambda>x. Inr (ap_negate x)"
proof unfold_locales
  fix x y
  assume xy: "ap_ok x" "ap_ok y" "BitWidth x = BitWidth y"
  then have w: "0 < BitWidth x" "ap_val y \<le> 2 ^ BitWidth x" "ap_val x < 2 ^ BitWidth x"
    by (simp_all add: ap_ok_def ap_shape_def)
  show "ap_val x = ap_val y \<Longrightarrow> x = y" using xy by (intro ap_ok_unique)
  show "\<exists>z. ap_plus x y = Inr z \<and> ap_ok z \<and> BitWidth z = BitWidth x \<and>
      ap_val z = (ap_val x + ap_val y) mod 2 ^ BitWidth x"
    using xy w by (simp add: ap_plus_make [of x y "BitWidth x"])
  show "\<exists>z. ap_minus x y = Inr z \<and> ap_ok z \<and> BitWidth z = BitWidth x \<and>
      (ap_val z + ap_val y) mod 2 ^ BitWidth x = ap_val x"
    using xy w by (simp add: ap_minus_make [of x y "BitWidth x"] mod_simps)
  show "\<exists>z. ap_times (replicate (getNumWords (BitWidth x)) 0) x y = Inr z \<and> ap_ok z \<and> BitWidth z = BitWidth x \<and>
      ap_val z = (ap_val x * ap_val y) mod 2 ^ BitWidth x"
    using xy w by (simp add: ap_times_make [of x y "BitWidth x"])
next
  fix x
  assume x: "ap_ok x"
  then have w: "0 < BitWidth x" "ap_val x < 2 ^ BitWidth x" by (simp_all add: ap_ok_def ap_shape_def)
  then show "ap_val x < 2 ^ BitWidth x" by simp
  show "\<exists>z. Inr (ap_negate x) = Inr z \<and> ap_ok z \<and> BitWidth z = BitWidth x \<and>
      (ap_val z + ap_val x) mod 2 ^ BitWidth x = 0"
    using x w by (simp add: ap_negate_make [of x "BitWidth x"] mod_simps)
qed

end
