(* ===== verification/ApIntBits.thy ===== *)
theory ApIntBits
  imports ApInt
begin

unbundle bit_operations_syntax

text \<open>
  The class \<open>APInt\<close>: counting of bits, shifts and rotations, and the changes of width.
\<close>

section \<open>Counting\<close>

fun clz_loop :: "part list \<Rightarrow> nat \<Rightarrow> nat \<Rightarrow> nat result" where
  "clz_loop ws 0 Count = Inr Count"
| "clz_loop ws (Suc i) Count =
    (if ws ! i = 0 then clz_loop ws i (Count + 64)
     else rbind (MathExtras.countLeadingZeros (ws ! i) ZB_Width) (\<lambda>z. Inr (Count + z)))"

definition countLeadingZerosSlowCase :: "APInt \<Rightarrow> nat result" where
  "countLeadingZerosSlowCase x =
    rbind (clz_loop (pVal x) (getNumWords (BitWidth x)) 0) (\<lambda>Count.
      let Mod = BitWidth x mod 64
      in Inr (Count - (if 0 < Mod then 64 - Mod else 0)))"

definition ap_countLeadingZeros :: "APInt \<Rightarrow> nat result" where
  "ap_countLeadingZeros x =
    (if isSingleWord x
     then rbind (MathExtras.countLeadingZeros (VAL x) ZB_Width) (\<lambda>z. Inr (z - (64 - BitWidth x)))
     else countLeadingZerosSlowCase x)"

definition ap_getActiveBits :: "APInt \<Rightarrow> nat result" where
  "ap_getActiveBits x = rbind (ap_countLeadingZeros x) (\<lambda>z. Inr (BitWidth x - z))"

fun ctz_loop :: "part list \<Rightarrow> nat \<Rightarrow> nat result" where
  "ctz_loop [] Count = Inr Count"
| "ctz_loop (w # ws) Count =
    (if w = 0 then ctz_loop ws (Count + 64)
     else rbind (MathExtras.countTrailingZeros w ZB_Width) (\<lambda>z. Inr (Count + z)))"

definition ap_countTrailingZeros :: "APInt \<Rightarrow> nat result" where
  "ap_countTrailingZeros x =
    (if isSingleWord x
     then rbind (MathExtras.countTrailingZeros (VAL x) ZB_Width) (\<lambda>z. Inr (min z (BitWidth x)))
     else rbind (ctz_loop (pVal x) 0) (\<lambda>Count. Inr (min Count (BitWidth x))))"

lemma countLeadingZeros_part: "countLeadingZeros (v :: part) ZB_Width = Inr (lead_zeros (unat v) 64)"
  using countLeadingZeros_eq [of v ZB_Width] by simp

lemma countTrailingZeros_part: "countTrailingZeros (v :: part) ZB_Width = Inr (trail_zeros (unat v) 64)"
  using countTrailingZeros_eq [of v ZB_Width] by simp

lemma lead_zeros_small: "v < 2 ^ b \<Longrightarrow> lead_zeros v (a + b) = a + lead_zeros v b"
  by (simp add: lead_zeros_add drop_bit_eq_div)

lemma clz_loop_value:
  "n \<le> length ws \<Longrightarrow> clz_loop ws n c = Inr (c + lead_zeros (tc_value (take n ws)) (64 * n))"
proof (induction n arbitrary: c)
  case (Suc n)
  then have n: "n < length ws" by simp
  let ?v = "tc_value (take n ws)" and ?p = "unat (ws ! n)"
  have v: "tc_value (take (Suc n) ws) = ?v + 2 ^ (64 * n) * ?p" using n by (rule take_Suc_value)
  have lt: "?v < 2 ^ (64 * n)" by (rule tc_value_take_less)
  have d: "drop_bit (64 * n) (?v + 2 ^ (64 * n) * ?p) = ?p" using lt by (simp add: drop_bit_eq_div)
  have e: "64 * Suc n = 64 + 64 * n" by simp
  show ?case
  proof (cases "ws ! n = 0")
    case True
    with Suc v lt show ?thesis by (simp add: e lead_zeros_small)
  next
    case False
    then have "take_bit 64 ?p \<noteq> 0" by (simp add: unat_part_numeral take_bit_eq_mod unat_eq_0)
    with False show ?thesis by (simp add: v e lead_zeros_add d countLeadingZeros_part)
  qed
qed simp

lemma words_above_width:
  assumes "0 < w"
  shows "64 * getNumWords w = (if 0 < w mod 64 then 64 - w mod 64 else 0) + w"
proof -
  have m: "w mod 64 < 64" by simp
  have "w + 64 - 1 = 63 + w mod 64 + 64 * (w div 64)" by simp
  then have "getNumWords w = (63 + w mod 64) div 64 + w div 64" by (simp only: getNumWords_def div_mult_self2)
  moreover have "(63 + w mod 64) div 64 = (if 0 < w mod 64 then 1 else 0)"
    using m by (auto intro: div_nat_eqI)
  moreover have "64 * (w div 64) + w mod 64 = w" by simp
  ultimately show ?thesis using m by (simp only: distrib_left split: if_split) linarith
qed

lemma ap_countLeadingZeros_value:
  assumes x: "ap_ok x"
  shows "ap_countLeadingZeros x = Inr (lead_zeros (ap_val x) (BitWidth x))"
proof -
  have w: "0 < BitWidth x" and v: "ap_val x < 2 ^ BitWidth x" using x by (simp_all add: ap_ok_def ap_shape_def)
  show ?thesis
  proof (cases "isSingleWord x")
    case True
    then have "64 = (64 - BitWidth x) + BitWidth x" by (simp add: isSingleWord_def)
    with lead_zeros_small [OF v, of "64 - BitWidth x"] have "lead_zeros (ap_val x) 64 - (64 - BitWidth x) = lead_zeros (ap_val x) (BitWidth x)"
      by (metis add_diff_cancel_left')
    with True single_word(2) [OF ap_shapeI [OF x] True] show ?thesis
      by (simp add: ap_countLeadingZeros_def countLeadingZeros_part)
  next
    case False
    let ?u = "if 0 < BitWidth x mod 64 then 64 - BitWidth x mod 64 else 0"
    have l: "length (pVal x) = getNumWords (BitWidth x)" using ap_words [OF x False] by simp
    have "clz_loop (pVal x) (getNumWords (BitWidth x)) 0 = Inr (lead_zeros (ap_val x) (?u + BitWidth x))"
      using clz_loop_value [of "getNumWords (BitWidth x)" "pVal x" 0] l words_above_width [OF w]
      by (simp add: ap_val_def)
    then show ?thesis using False lead_zeros_small [OF v, of ?u]
      by (simp add: ap_countLeadingZeros_def countLeadingZerosSlowCase_def Let_def)
  qed
qed

text \<open>The number of active bits is the position after the highest set bit.\<close>

lemma ap_getActiveBits_value:
  assumes "ap_ok x"
  shows "\<exists>n \<le> BitWidth x. ap_getActiveBits x = Inr n \<and> ap_val x < 2 ^ n \<and> (0 < n \<longrightarrow> 2 ^ (n - 1) \<le> ap_val x)"
proof -
  have v: "ap_val x < 2 ^ BitWidth x" using assms by (simp add: ap_ok_def)
  let ?n = "BitWidth x - lead_zeros (ap_val x) (BitWidth x)"
  from lead_zeros_bounds [OF v] ap_countLeadingZeros_value [OF assms] show ?thesis
    by (intro exI [of _ ?n]) (simp add: ap_getActiveBits_def)
qed

lemma trail_zeros_0 [simp]: "trail_zeros 0 k = k"
  by (induction k) simp_all

lemma trail_zeros_take_bit: "trail_zeros (take_bit k v) k = trail_zeros v k"
  by (induction k arbitrary: v) (simp_all add: take_bit_Suc)

lemma ctz_loop_value: "ctz_loop ws c = Inr (c + trail_zeros (tc_value ws) (64 * length ws))"
proof (induction ws arbitrary: c)
  case (Cons w ws)
  have e: "64 * length (w # ws) = 64 + 64 * length ws" by simp
  have t: "take_bit 64 (tc_value (w # ws)) = unat w" "drop_bit 64 (tc_value (w # ws)) = tc_value ws"
    by (simp_all add: take_bit_eq_mod drop_bit_eq_div)
  have "trail_zeros (tc_value (w # ws)) 64 = trail_zeros (unat w) 64"
    using trail_zeros_take_bit [of 64 "tc_value (w # ws)"] by (simp only: t)
  then have "trail_zeros (tc_value (w # ws)) (64 + 64 * length ws) =
      (if unat w = 0 then 64 + trail_zeros (tc_value ws) (64 * length ws) else trail_zeros (unat w) 64)"
    by (simp only: trail_zeros_add t)
  then show ?case using Cons unfolding e by (simp add: countTrailingZeros_part unat_eq_0 del: tc_value.simps)
qed simp

lemma ap_countTrailingZeros_value:
  assumes x: "ap_ok x"
  shows "ap_countTrailingZeros x = Inr (trail_zeros (ap_val x) (BitWidth x))"
proof -
  have v: "ap_val x < 2 ^ BitWidth x" using x by (simp add: ap_ok_def ap_shape_def)
  have m: "min (trail_zeros (ap_val x) k) (BitWidth x) = trail_zeros (ap_val x) (BitWidth x)" if "BitWidth x \<le> k" for k
  proof (cases "ap_val x = 0")
    case False
    then have pos: "0 < ap_val x" by simp
    have "ap_val x < 2 ^ k" using v that by (meson less_le_trans one_le_numeral power_increasing)
    from trail_zeros_spec [OF pos v] trail_zeros_unique [OF this]
    show ?thesis by (metis min.strict_order_iff)
  qed (use that in simp)
  show ?thesis
  proof (cases "isSingleWord x")
    case True
    with m [of 64] single_word(2) [OF ap_shapeI [OF x] True] show ?thesis
      by (simp add: ap_countTrailingZeros_def countTrailingZeros_part isSingleWord_def)
  next
    case False
    have "length (pVal x) = getNumWords (BitWidth x)" using ap_words [OF x False] by simp
    with False m [OF width_le_words] show ?thesis
      by (simp add: ap_countTrailingZeros_def ctz_loop_value flip: ap_val_def)
  qed
qed

section \<open>Shifts\<close>

definition ap_shl :: "APInt \<Rightarrow> nat \<Rightarrow> APInt result" where
  "ap_shl x ShiftAmt =
    rbind (check_assert (ShiftAmt \<le> BitWidth x) ''Invalid shift amount'') (\<lambda>_.
      Inr (clearUnusedBits
        (if isSingleWord x
         then VAL_update (\<lambda>v. if ShiftAmt = BitWidth x then 0 else push_bit ShiftAmt v) x
         else x\<lparr>pVal := tcShiftLeft (pVal x) ShiftAmt\<rparr>)))"

definition ap_lshr :: "APInt \<Rightarrow> nat \<Rightarrow> APInt result" where
  "ap_lshr x ShiftAmt =
    rbind (check_assert (ShiftAmt \<le> BitWidth x) ''Invalid shift amount'') (\<lambda>_.
      Inr (if isSingleWord x
           then VAL_update (\<lambda>v. if ShiftAmt = BitWidth x then 0 else drop_bit ShiftAmt v) x
           else x\<lparr>pVal := tcShiftRight (pVal x) ShiftAmt\<rparr>))"

lemma ap_shl_make:
  assumes x: "ap_ok x" and w: "BitWidth x = w" and s: "s \<le> w"
  shows "ap_shl x s = Inr (ap_make w (ap_val x * 2 ^ s))"
proof (cases "isSingleWord x")
  case True
  then have w64: "w \<le> 64" using w by (simp add: isSingleWord_def)
  have v: "unat (VAL x) = ap_val x" using single_word(2) [OF ap_shapeI [OF x] True] by simp
  show ?thesis
  proof (cases "s = w")
    case eq: True
    have "ap_make w (ap_val x * 2 ^ w) = ap_make w 0" by (rule ap_make_cong) simp
    with eq True show ?thesis using clear_word [OF ap_shapeI [OF x] True w, of "\<lambda>_. 0"]
      by (simp add: ap_shl_def w)
  next
    case False
    have "unat (push_bit s (VAL x)) = (ap_val x * 2 ^ s) mod 2 ^ 64"
    proof -
      have "unat (push_bit s (VAL x)) = take_bit 64 (push_bit s (ap_val x))" by (simp only: unsigned_push_bit_eq v) simp
      then show ?thesis by (simp only: push_bit_eq_mult take_bit_eq_mod)
    qed
    with False True s show ?thesis
      using clear_word [OF ap_shapeI [OF x] True w, of "\<lambda>v. push_bit s v"] mod_part_width [OF w64]
      by (simp add: ap_shl_def w)
  qed
next
  case False
  have "tc_value (tcShiftLeft (pVal x) s) = (ap_val x * 2 ^ s) mod 2 ^ (64 * getNumWords w)"
    using tcShiftLeft_value [of "pVal x" s] ap_words(2) [OF x False] w by (simp add: ap_val_def)
  with False s show ?thesis
    using clear_words [OF ap_shapeI [OF x], of "tcShiftLeft (pVal x) s" w] w mod_words_width
    by (simp add: ap_shl_def)
qed

lemma ap_lshr_make:
  assumes x: "ap_ok x" and w: "BitWidth x = w" and s: "s \<le> w"
  shows "ap_lshr x s = Inr (ap_make w (ap_val x div 2 ^ s))"
proof -
  have v: "ap_val x < 2 ^ w" using x w by (simp add: ap_ok_def)
  have le: "ap_val x div 2 ^ s \<le> ap_val x" by (rule div_le_dividend)
  have make: "x\<lparr>pVal := d\<rparr> = ap_make w (ap_val x div 2 ^ s)"
    if "length d = length (pVal x)" "tc_value d = ap_val x div 2 ^ s" for d
  proof (rule ap_makeI)
    have lt: "ap_val x div 2 ^ s < 2 ^ w" using le v by (rule le_less_trans)
    with that x w show "ap_ok (x\<lparr>pVal := d\<rparr>)" by (simp add: ap_ok_def ap_shape_def) (simp add: ap_val_def)
    from lt that show "ap_val (x\<lparr>pVal := d\<rparr>) = ap_val x div 2 ^ s mod 2 ^ w" by (simp add: ap_val_def)
  qed (simp add: w)
  show ?thesis
  proof (cases "isSingleWord x")
    case True
    have u: "unat (VAL x) = ap_val x" and l: "length (pVal x) = 1"
      using single_word [OF ap_shapeI [OF x] True] by (simp, metis length_Cons list.size(3) One_nat_def)
    have "unat (if s = w then 0 else drop_bit s (VAL x)) = ap_val x div 2 ^ s"
    proof (cases "s = w")
      case False
      have "unat (drop_bit s (VAL x)) = drop_bit s (ap_val x)" by (simp only: unat_drop_bit_eq u)
      with False show ?thesis by (simp add: drop_bit_eq_div)
    qed (use v in simp)
    with make [of "[if s = w then 0 else drop_bit s (VAL x)]"] l True s show ?thesis
      by (simp add: ap_lshr_def w)
  next
    case False
    have "tc_value (tcShiftRight (pVal x) s) = ap_val x div 2 ^ s" by (simp add: tcShiftRight_value ap_val_def)
    with make [of "tcShiftRight (pVal x) s"] False s w show ?thesis by (simp add: ap_lshr_def)
  qed
qed

definition sext_part :: "part \<Rightarrow> nat \<Rightarrow> part result" where
  "sext_part X B = rbind (SignExtend64 X B) (\<lambda>v. Inr (word_of_int v))"

definition ashr_word :: "nat \<Rightarrow> nat \<Rightarrow> nat \<Rightarrow> part list \<Rightarrow> part list" where
  "ashr_word WordShift BitShift i D =
    D[i := drop_bit BitShift (D ! (i + WordShift)) OR push_bit (64 - BitShift) (D ! (i + WordShift + 1))]"

definition ashr_move :: "nat \<Rightarrow> nat \<Rightarrow> nat \<Rightarrow> part list \<Rightarrow> part list result" where
  "ashr_move WordShift BitShift WordsToMove D =
    (if BitShift = 0 then Inr (drop WordShift D @ drop WordsToMove D)
     else let D = fold (ashr_word WordShift BitShift) [0..<WordsToMove - 1] D;
              D = D[WordsToMove - 1 := drop_bit BitShift (D ! (WordShift + WordsToMove - 1))]
          in rbind (sext_part (D ! (WordsToMove - 1)) (64 - BitShift)) (\<lambda>v.
               Inr (D[WordsToMove - 1 := v])))"

definition ashrSlowCase :: "APInt \<Rightarrow> nat \<Rightarrow> APInt result" where
  "ashrSlowCase x ShiftAmt =
    (if ShiftAmt = 0 then Inr x
     else rbind (isNegative x) (\<lambda>Negative.
       let n = getNumWords (BitWidth x); WordShift = ShiftAmt div 64; BitShift = ShiftAmt mod 64;
           WordsToMove = n - WordShift; D = pVal x
       in rbind
         (if WordsToMove \<noteq> 0
          then rbind (sext_part (D ! (n - 1)) ((BitWidth x - 1) mod 64 + 1)) (\<lambda>v.
                 ashr_move WordShift BitShift WordsToMove (D[n - 1 := v]))
          else Inr D)
         (\<lambda>D. Inr (clearUnusedBits
            (x\<lparr>pVal := take WordsToMove D @ replicate WordShift (if Negative then - 1 else 0)\<rparr>)))))"

definition ap_ashr :: "APInt \<Rightarrow> nat \<Rightarrow> APInt result" where
  "ap_ashr x ShiftAmt =
    rbind (check_assert (ShiftAmt \<le> BitWidth x) ''Invalid shift amount'') (\<lambda>_.
      if isSingleWord x
      then rbind (SignExtend64 (VAL x) (BitWidth x)) (\<lambda>SExtVAL.
        Inr (clearUnusedBits (VAL_update (\<lambda>_. word_of_int
          (if ShiftAmt = BitWidth x then SExtVAL div 2 ^ (64 - 1) else SExtVAL div 2 ^ ShiftAmt)) x)))
      else ashrSlowCase x ShiftAmt)"

text \<open>
  The bits of the signed value: above the width they repeat the sign. A shifted word takes its
  bits from there.
\<close>

lemma sext_part_eq:
  assumes "0 < B" "B \<le> 64"
  shows "sext_part X B = Inr (signed_take_bit (B - 1) X)"
proof -
  have v: "(if bit X (B - 1) then int (take_bit B (unat X)) - 2 ^ B else int (take_bit B (unat X))) =
      signed_take_bit (B - 1) (uint X)"
  proof -
    have "signed_take_bit (B - 1) (uint X) = take_bit B (uint X) - 2 ^ B * of_bool (bit (uint X) (B - 1))"
      using assms signed_take_bit_eq_take_bit_minus [of "B - 1" "uint X"] by simp
    then show ?thesis using assms by (auto simp: bit_uint_iff of_nat_take_bit)
  qed
  have "word_of_int (signed_take_bit (B - 1) (uint X)) = signed_take_bit (B - 1) X"
    by (rule bit_eqI) (use assms in \<open>auto simp: bit_signed_take_bit_iff bit_word_of_int_iff bit_uint_iff min_def\<close>)
  with v show ?thesis using SignExtend64_value [OF assms, of X] by (simp add: sext_part_def)
qed

lemma bit_ap_sval:
  assumes x: "ap_ok x"
  shows "bit (ap_sval x) j \<longleftrightarrow> bit (ap_val x) (min j (BitWidth x - 1))"
proof -
  have w: "0 < BitWidth x" and v: "ap_val x < 2 ^ BitWidth x" using x by (simp_all add: ap_ok_def ap_shape_def)
  have "ap_sval x = signed_take_bit (BitWidth x - 1) (int (ap_val x))"
  proof -
    have "signed_take_bit (BitWidth x - 1) (int (ap_val x)) =
        take_bit (BitWidth x) (int (ap_val x)) - 2 ^ BitWidth x * of_bool (bit (int (ap_val x)) (BitWidth x - 1))"
      using w signed_take_bit_eq_take_bit_minus [of "BitWidth x - 1" "int (ap_val x)"] by simp
    moreover have "take_bit (BitWidth x) (int (ap_val x)) = int (ap_val x)" using v by (simp add: take_bit_int_eq_self)
    moreover have "bit (int (ap_val x)) (BitWidth x - 1) \<longleftrightarrow> 2 ^ (BitWidth x - 1) \<le> ap_val x"
      using bit_top [of "ap_val x" "BitWidth x - 1"] w v by (simp add: bit_of_nat_iff_bit)
    ultimately show ?thesis by (auto simp: ap_sval_def)
  qed
  then show ?thesis by (simp add: bit_signed_take_bit_iff bit_of_nat_iff_bit min.commute)
qed

lemma tc_value_int_bits:
  assumes "\<And>k r. k < length ws \<Longrightarrow> r < 64 \<Longrightarrow> bit (ws ! k) r \<longleftrightarrow> bit i (64 * k + r)"
  shows "tc_value ws = nat (take_bit (64 * length ws) (i :: int))"
proof (rule tc_value_eqI_word)
  fix k r :: nat
  assume k: "k < length ws" and r: "r < 64"
  then have "64 * k + r < 64 * length ws" by simp
  with k r assms show "bit (nat (take_bit (64 * length ws) i)) (64 * k + r) \<longleftrightarrow> bit (ws ! k) r"
    by (simp add: bit_nat_iff bit_take_bit_iff)
next
  have "take_bit (64 * length ws) i < 2 ^ (64 * length ws)" by simp
  then show "nat (take_bit (64 * length ws) i) < 2 ^ (64 * length ws)" by (simp add: nat_less_iff)
qed

lemma nat_take_bit_mod: "w \<le> m \<Longrightarrow> nat (take_bit m i) mod 2 ^ w = nat (i mod 2 ^ w)" for i :: int
proof -
  assume w: "w \<le> m"
  have "nat (take_bit m i) mod 2 ^ w = nat (take_bit m i mod 2 ^ w)"
    by (simp add: nat_mod_distrib nat_power_eq)
  also have "take_bit m i mod 2 ^ w = i mod 2 ^ w"
    unfolding take_bit_eq_mod using w by (simp add: le_imp_power_dvd mod_mod_cancel)
  finally show ?thesis .
qed

lemma ap_make_int: "w \<le> m \<Longrightarrow> ap_make w (nat (take_bit m i)) = ap_make w (nat (i mod 2 ^ w))"
  by (rule ap_make_cong) (simp add: nat_take_bit_mod nat_mod_distrib)

lemma sext_last_bits:
  assumes x: "ap_ok x" and k: "k < length (pVal x)" and r: "r < 64"
    and D: "D = (pVal x)[getNumWords (BitWidth x) - 1 := signed_take_bit ((BitWidth x - 1) mod 64) (pVal x ! (getNumWords (BitWidth x) - 1))]"
  shows "bit (D ! k) r \<longleftrightarrow> bit (ap_sval x) (64 * k + r)"
proof -
  let ?w = "BitWidth x"
  let ?q = "(?w - 1) div 64" and ?m = "(?w - 1) mod 64"
  have w0: "0 < ?w" using x by (simp add: ap_ok_def ap_shape_def)
  have l: "length (pVal x) = Suc ?q" using x getNumWords_split(1) [OF w0] by (simp add: ap_ok_def ap_shape_def)
  have n: "getNumWords ?w - 1 = ?q" using getNumWords_split(1) [OF w0] by simp
  have b: "bit (ap_val x) (64 * j + t) \<longleftrightarrow> bit (pVal x ! j) t" if "j < Suc ?q" "t < 64" for j t
    using that l by (simp add: ap_val_def bit_tc_value_word)
  have wm: "?w - 1 = 64 * ?q + ?m" by simp
  have m64: "?m < 64" by simp
  show ?thesis
  proof (cases "k = ?q")
    case True
    have "min (64 * ?q + r) (?w - 1) = 64 * ?q + min r ?m" using wm by linarith
    moreover have "min r ?m < 64" using m64 by simp
    ultimately show ?thesis using True l r b [of ?q "min r ?m"]
      by (simp only: bit_ap_sval [OF x]) (simp add: D n [unfolded One_nat_def] bit_signed_take_bit_iff min.commute)
  next
    case False
    then have kq: "k < ?q" using k l by simp
    then have "min (64 * k + r) (?w - 1) = 64 * k + r" using wm r by linarith
    with kq False r b [of k r] show ?thesis by (simp only: bit_ap_sval [OF x]) (simp add: D n [unfolded One_nat_def])
  qed
qed

lemma ashr_fold_nth:
  assumes "m + s \<le> length D" "j \<le> m - 1" "0 < b" "b < 64"
  shows "length (fold (ashr_word s b) [0..<j] D) = length D \<and>
    (\<forall>i < length D. fold (ashr_word s b) [0..<j] D ! i =
      (if i < j then drop_bit b (D ! (i + s)) OR push_bit (64 - b) (D ! (i + s + 1)) else D ! i))"
proof -
  have "fold (ashr_word s b) [0..<j] D = fold (shr_word s b m) [0..<j] D"
  proof (rule fold_cong [OF refl refl])
    fix i
    assume "i \<in> set [0..<j]"
    then have i: "i + 1 < m" using assms(2) by auto
    show "ashr_word s b i = shr_word s b m i"
    proof
      fix D
      show "ashr_word s b i D = shr_word s b m i D"
      proof (cases "i < length D")
        case True
        then show ?thesis using i by (simp add: ashr_word_def shr_word_def Let_def)
      next
        case False
        then have "D[i := v] = D" for v by (simp add: not_less list_update_beyond)
        then show ?thesis by (simp add: ashr_word_def shr_word_def Let_def)
      qed
    qed
  qed
  then show ?thesis using shr_loop_nth [of j m s D b] assms by auto
qed

lemma ashr_move_bits:
  assumes D: "length D = m + q" "0 < m" and b: "b < 64"
    and sv: "\<And>k r. k < m + q \<Longrightarrow> r < 64 \<Longrightarrow> bit (D ! k) r \<longleftrightarrow> bit i (64 * k + r)"
    and top: "\<And>j. 64 * (m + q) - 1 \<le> j \<Longrightarrow> bit (i :: int) j \<longleftrightarrow> bit i (64 * (m + q) - 1)"
  shows "\<exists>E. ashr_move q b m D = Inr E \<and> length E = m + q \<and>
    (\<forall>k < m. \<forall>r < 64. bit (E ! k) r \<longleftrightarrow> bit i (64 * k + r + (64 * q + b)))"
proof (cases "b = 0")
  case True
  have "bit ((drop q D @ drop m D) ! k) r \<longleftrightarrow> bit i (64 * k + r + 64 * q)" if "k < m" "r < 64" for k r
    using that sv [of "k + q" r] D by (simp add: nth_append add.commute add.left_commute)
  with True D show ?thesis by (simp add: ashr_move_def)
next
  case False
  let ?F = "fold (ashr_word q b) [0..<m - 1] D"
  define v where "v = signed_take_bit (63 - b) (drop_bit b (D ! (q + m - 1)))"
  have F: "length ?F = m + q" "\<And>i. i < m + q \<Longrightarrow> ?F ! i =
      (if i < m - 1 then drop_bit b (D ! (i + q)) OR push_bit (64 - b) (D ! (i + q + 1)) else D ! i)"
    using ashr_fold_nth [of m q D "m - 1" b] D False b by simp_all
  have last: "?F ! (q + m - 1) = D ! (q + m - 1)" 
  proof -
    have "\<not> q + m - 1 < m - 1" "q + m - 1 < m + q" using D(2) by simp_all
    then show ?thesis using F(2) [of "q + m - 1"] by simp
  qed
  let ?E = "?F[m - 1 := v]"
  have e: "ashr_move q b m D = Inr ?E"
    using False b F(1) D(2) sext_part_eq [of "64 - b" "drop_bit b (D ! (q + m - 1))"] last
    by (simp add: ashr_move_def Let_def v_def)
  have "bit (?E ! k) r \<longleftrightarrow> bit i (64 * k + r + (64 * q + b))" if k: "k < m" and r: "r < 64" for k r
  proof (cases "k = m - 1")
    case True
    have n: "64 * (q + m - 1) + 63 = 64 * (m + q) - 1" using D(2) by simp
    have s: "bit (D ! (q + m - 1)) t \<longleftrightarrow> bit i (64 * (q + m - 1) + t)" if "t < 64" for t
      using sv [of "q + m - 1" t] that D(2) by (simp add: add.commute)
    have E: "bit (?E ! k) r \<longleftrightarrow> bit (D ! (q + m - 1)) (b + min (63 - b) r)"
      using True F(1) D(2) r by (simp add: v_def bit_signed_take_bit_iff bit_drop_bit_eq)
    show ?thesis
    proof (cases "r \<le> 63 - b")
      case le: True
      have "64 * (q + m - 1) + (b + r) = 64 * k + r + (64 * q + b)" using True D(2) by (simp add: algebra_simps)
      moreover have "b + r < 64" using le b by simp
      ultimately have "bit (D ! (q + m - 1)) (b + r) \<longleftrightarrow> bit i (64 * k + r + (64 * q + b))"
        using s [of "b + r"] by (simp only:)
      moreover have "min (63 - b) r = r" using le by simp
      ultimately show ?thesis using E by simp
    next
      case gt: False
      have "64 * (m + q) - 1 \<le> 64 * k + r + (64 * q + b)" using True gt D(2) by simp
      from top [OF this] n have "bit i (64 * k + r + (64 * q + b)) \<longleftrightarrow> bit i (64 * (q + m - 1) + 63)" by simp
      moreover have "b + min (63 - b) r = 63" using gt b by simp
      ultimately show ?thesis using E s [of 63] by simp
    qed
  next
    case lt: False
    then have k': "k < m - 1" using k by simp
    have E: "?E ! k = drop_bit b (D ! (k + q)) OR push_bit (64 - b) (D ! (k + q + 1))"
      using F(2) [of k] k k' by simp
    show ?thesis
    proof (cases "b + r < 64")
      case True
      have "64 * (k + q) + (b + r) = 64 * k + r + (64 * q + b)" by simp
      then have "bit (D ! (k + q)) (b + r) \<longleftrightarrow> bit i (64 * k + r + (64 * q + b))"
        using True sv [of "k + q" "b + r"] k by (simp only: add_less_cancel_right)
      moreover have "\<not> 64 - b \<le> r" using True by simp
      ultimately show ?thesis using E by (simp add: bit_or_iff bit_drop_bit_eq bit_push_bit_iff)
    next
      case ge: False
      have e: "64 * (k + q + 1) + (b + r - 64) = 64 * k + r + (64 * q + b)" using ge by simp
      have "bit (D ! (k + q + 1)) (b + r - 64) \<longleftrightarrow> bit i (64 * (k + q + 1) + (b + r - 64))"
        using k' r b by (intro sv) simp_all
      then have "bit (D ! (k + q + 1)) (b + r - 64) \<longleftrightarrow> bit i (64 * k + r + (64 * q + b))" by (simp only: e)
      moreover have "\<not> bit (D ! (k + q)) (b + r)" using ge bit_part_bound by blast
      moreover have "64 - b \<le> r" "r - (64 - b) = b + r - 64" using ge b by auto
      ultimately show ?thesis using E r by (simp add: bit_or_iff bit_drop_bit_eq bit_push_bit_iff del: add_Suc_right)
    qed
  qed
  with e F(1) show ?thesis by auto
qed

lemma ap_ashr_make:
  assumes x: "ap_ok x" and w: "BitWidth x = w" and s: "s \<le> w"
  shows "ap_ashr x s = Inr (ap_make w (nat (ap_sval x div 2 ^ s mod 2 ^ w)))"
proof -
  have w0: "0 < w" using x w by (simp add: ap_ok_def ap_shape_def)
  show ?thesis
  proof (cases "isSingleWord x")
    case True
    then have w64: "w \<le> 64" using w by (simp add: isSingleWord_def)
    have b: "- (2 ^ (w - 1)) \<le> ap_sval x" "ap_sval x < 2 ^ (w - 1)" using ap_sval_bounds [OF x] w by simp_all
    have pw: "(2 :: int) ^ (w - 1) \<le> 2 ^ 63" "(2 :: int) ^ (w - 1) \<le> 2 ^ w"
      using w64 by (intro power_increasing; simp)+
    have e: "(if s = w then ap_sval x div 2 ^ (64 - 1) else ap_sval x div 2 ^ s) = ap_sval x div 2 ^ s"
    proof (cases "ap_sval x < 0")
      case neg: True
      have "0 \<le> ap_sval x + 2 ^ w" using b pw by linarith
      then have "ap_sval x div 2 ^ w = - 1"
        using neg by (intro int_div_pos_eq [of _ _ _ "ap_sval x + 2 ^ w"]) simp_all
      moreover have "0 \<le> ap_sval x + 2 ^ 63" using b pw by linarith
      then have "ap_sval x div 2 ^ 63 = - 1"
        using neg by (intro int_div_pos_eq [of _ _ _ "ap_sval x + 2 ^ 63"]) simp_all
      ultimately have "ap_sval x div 2 ^ 63 = - 1" "ap_sval x div 2 ^ w = - 1" by simp_all
      then show ?thesis by simp
    next
      case False
      have "ap_sval x < 2 ^ 63" "ap_sval x < 2 ^ w" using b pw by linarith+
      with False have "ap_sval x div 2 ^ 63 = 0" "ap_sval x div 2 ^ w = 0" by simp_all
      then show ?thesis by simp
    qed
    have "unat (word_of_int (ap_sval x div 2 ^ s) :: part) = nat (take_bit 64 (ap_sval x div 2 ^ s))"
      by (simp add: unsigned_of_int)
    with True s e w64 SignExtend64_sval [OF x True]
      clear_word [OF ap_shapeI [OF x] True w, of "\<lambda>_. word_of_int (ap_sval x div 2 ^ s)"] show ?thesis
      by (simp add: ap_ashr_def w ap_make_int)
  next
    case False
    let ?n = "getNumWords w" and ?sv = "ap_sval x"
    have l: "length (pVal x) = ?n" using ap_words(2) [OF x False] w by simp
    have rep: "ap_make w (nat (?sv div 2 ^ 0 mod 2 ^ w)) = x"
      using ap_sval_bounds(3) [OF x] ap_make_self [OF x] w by simp
    show ?thesis
    proof (cases "s = 0")
      case True
      with False rep w show ?thesis by (simp add: ap_ashr_def ashrSlowCase_def)
    next
      case s0: False
      define q b m where "q = s div 64" and "b = s mod 64" and "m = ?n - q"
      have sq: "s = 64 * q + b" and b64: "b < 64" by (simp_all add: q_def b_def)
      have "64 * q \<le> 64 * ?n" using sq s width_le_words [of w] by linarith
      then have mq: "m + q = ?n" by (simp add: m_def)
      define D where "D = (pVal x)[?n - 1 := signed_take_bit ((w - 1) mod 64) (pVal x ! (?n - 1))]"
      have D: "length D = m + q" "\<And>k r. k < m + q \<Longrightarrow> r < 64 \<Longrightarrow> bit (D ! k) r \<longleftrightarrow> bit ?sv (64 * k + r)"
        using sext_last_bits [OF x _ _ D_def [folded w]] l mq w by (simp_all add: D_def)
      have top: "bit ?sv j \<longleftrightarrow> ?sv < 0" if "w - 1 \<le> j" for j
        using that isNegative_value [OF x] w w0 bit_top [of "ap_val x" "w - 1"] x
        by (simp add: bit_ap_sval [OF x] ap_ok_def min_def)
      have nw: "w - 1 \<le> 64 * (m + q) - 1" using width_le_words [of w] mq by simp
      obtain E where E: "(if m \<noteq> 0 then rbind (sext_part (pVal x ! (?n - 1)) ((w - 1) mod 64 + 1)) (\<lambda>v.
            ashr_move q b m ((pVal x)[?n - 1 := v])) else Inr (pVal x)) = Inr E"
        "length E = ?n" "\<And>k r. k < m \<Longrightarrow> r < 64 \<Longrightarrow> bit (E ! k) r \<longleftrightarrow> bit ?sv (64 * k + r + s)"
      proof (cases "m = 0")
        case True
        then show thesis using that l by simp
      next
        case m0: False
        have "bit ?sv j \<longleftrightarrow> bit ?sv (64 * (m + q) - 1)" if "64 * (m + q) - 1 \<le> j" for j
          using top [of j] top [of "64 * (m + q) - 1"] that nw by simp
        from ashr_move_bits [OF D(1) _ b64 D(2) this] m0 obtain E where "ashr_move q b m D = Inr E"
          "length E = m + q" "\<forall>k < m. \<forall>r < 64. bit (E ! k) r \<longleftrightarrow> bit ?sv (64 * k + r + s)" by (auto simp: sq)
        moreover have "sext_part (pVal x ! (?n - 1)) ((w - 1) mod 64 + 1) =
            Inr (signed_take_bit ((w - 1) mod 64) (pVal x ! (?n - 1)))"
          by (subst sext_part_eq) (simp_all add: Suc_le_eq)
        ultimately show thesis using that m0 mq by (simp add: D_def)
      qed
      let ?fill = "if ?sv < 0 then - 1 else 0 :: part"
      let ?R = "take m E @ replicate q ?fill"
      have lR: "length ?R = ?n" using E(2) mq by simp
      have "bit (?R ! k) r \<longleftrightarrow> bit (drop_bit s ?sv) (64 * k + r)" if "k < length ?R" "r < 64" for k r
      proof (cases "k < m")
        case True
        with that E(2,3) mq show ?thesis by (simp add: nth_append bit_drop_bit_eq add.commute)
      next
        case ge: False
        then have "64 * (m + q) \<le> s + (64 * k + r)" unfolding sq by simp
        then have "bit ?sv (s + (64 * k + r)) \<longleftrightarrow> ?sv < 0" using nw by (intro top) simp
        with ge that E(2) mq show ?thesis by (simp add: nth_append bit_drop_bit_eq)
      qed
      from tc_value_int_bits [OF this] have v: "tc_value ?R = nat (take_bit (64 * ?n) (drop_bit s ?sv))"
        unfolding lR by simp
      have "ap_ashr x s = Inr (clearUnusedBits (x\<lparr>pVal := ?R\<rparr>))"
        unfolding ap_ashr_def ashrSlowCase_def Let_def w isNegative_value(2) [OF x] rbind_Inr
          q_def [symmetric] b_def [symmetric] m_def [symmetric] E(1)
        using False s s0 by simp
      also have "clearUnusedBits (x\<lparr>pVal := ?R\<rparr>) = ap_make w (tc_value ?R)"
        using clear_words [OF ap_shapeI [OF x] _ w] lR l by simp
      also have "\<dots> = ap_make w (nat (?sv div 2 ^ s mod 2 ^ w))"
        unfolding v using ap_make_int [OF width_le_words] by (simp add: drop_bit_eq_div)
      finally show ?thesis .
    qed
  qed
qed

section \<open>Changes of width\<close>

definition ap_trunc :: "APInt \<Rightarrow> nat \<Rightarrow> APInt result" where
  "ap_trunc x width =
    rbind (check_assert (width < BitWidth x) ''Invalid APInt Truncate request'') (\<lambda>_.
    rbind (check_assert (width \<noteq> 0) ''Can't truncate to 0 bits'') (\<lambda>_.
      if width \<le> 64 then new_APInt width (hd (pVal x)) False
      else let i = width div 64; bits = (2 ^ 32 - width) mod 64
           in Inr \<lparr>BitWidth = width,
                pVal = take i (pVal x) @
                  (if bits \<noteq> 0 then [drop_bit bits (push_bit bits (pVal x ! i))] else [])\<rparr>))"

definition ap_zext :: "APInt \<Rightarrow> nat \<Rightarrow> APInt result" where
  "ap_zext x width =
    rbind (check_assert (BitWidth x < width) ''Invalid APInt ZeroExtend request'') (\<lambda>_.
      if width \<le> 64 then new_APInt width (VAL x) False
      else Inr \<lparr>BitWidth = width,
             pVal = pVal x @ replicate (getNumWords width - getNumWords (BitWidth x)) 0\<rparr>)"

definition ap_sext :: "APInt \<Rightarrow> nat \<Rightarrow> APInt result" where
  "ap_sext x width =
    rbind (check_assert (BitWidth x < width) ''Invalid APInt SignExtend request'') (\<lambda>_.
      if width \<le> 64 then rbind (sext_part (VAL x) (BitWidth x)) (\<lambda>v. new_APInt width v False)
      else let n = getNumWords (BitWidth x)
           in rbind (sext_part (pVal x ! (n - 1)) ((BitWidth x - 1) mod 64 + 1)) (\<lambda>v.
              rbind (isNegative x) (\<lambda>neg.
                Inr (clearUnusedBits \<lparr>BitWidth = width,
                  pVal = (pVal x)[n - 1 := v] @ replicate (getNumWords width - n) (if neg then - 1 else 0)\<rparr>))))"

definition zextOrTrunc :: "APInt \<Rightarrow> nat \<Rightarrow> APInt result" where
  "zextOrTrunc x width =
    (if BitWidth x < width then ap_zext x width
     else if width < BitWidth x then ap_trunc x width else Inr x)"

definition sextOrTrunc :: "APInt \<Rightarrow> nat \<Rightarrow> APInt result" where
  "sextOrTrunc x width =
    (if BitWidth x < width then ap_sext x width
     else if width < BitWidth x then ap_trunc x width else Inr x)"

lemma getNumWords_mono: "a \<le> b \<Longrightarrow> getNumWords a \<le> getNumWords b"
  by (simp add: getNumWords_def div_le_mono)

lemma ap_zext_make:
  assumes x: "ap_ok x" and w: "BitWidth x < width"
  shows "ap_zext x width = Inr (ap_make width (ap_val x))"
proof -
  have v: "ap_val x < 2 ^ BitWidth x" and w0: "0 < BitWidth x" using x by (simp_all add: ap_ok_def ap_shape_def)
  show ?thesis
  proof (cases "width \<le> 64")
    case True
    then have "isSingleWord x" using w by (simp add: isSingleWord_def)
    with True w w0 single_word(2) [OF ap_shapeI [OF x]] new_APInt_unsigned [of width "VAL x"] show ?thesis
      by (simp add: ap_zext_def)
  next
    case False
    let ?z = "\<lparr>BitWidth = width, pVal = pVal x @ replicate (getNumWords width - getNumWords (BitWidth x)) 0\<rparr>"
    have "ap_val x < 2 ^ width" using v w by (meson less_le_trans less_imp_le one_le_numeral power_increasing)
    moreover have "getNumWords (BitWidth x) \<le> getNumWords width" using w by (intro getNumWords_mono) simp
    moreover have "ap_val ?z = ap_val x" by (simp add: ap_val_def)
    ultimately have "?z = ap_make width (ap_val x)"
      using x w by (intro ap_makeI) (simp_all add: ap_ok_def ap_shape_def)
    with False w show ?thesis by (simp add: ap_zext_def)
  qed
qed

lemma complement_mod:
  assumes "(t + r) mod 64 = 0" "t < 64" "r < 64"
  shows "t = (if r = 0 then 0 else 64 - (r :: nat))"
proof -
  from assms(1) obtain k where k: "t + r = 64 * k" by (auto elim!: dvdE simp: mod_eq_0_iff_dvd)
  with assms have "k = 0 \<or> k = 1" by linarith
  with k assms show ?thesis by auto
qed

lemma push_drop_part: "b < 64 \<Longrightarrow> drop_bit b (push_bit b (p :: part)) = p AND mask (64 - b)"
  by (rule bit_eqI) (auto simp: bit_drop_bit_eq bit_push_bit_iff bit_and_iff bit_mask_iff)

lemma ap_trunc_make:
  assumes x: "ap_ok x" and w: "0 < width" "width < BitWidth x" "BitWidth x < 2 ^ 32"
  shows "ap_trunc x width = Inr (ap_make width (ap_val x))"
proof (cases "width \<le> 64")
  case True
  have "length (pVal x) = getNumWords (BitWidth x)" "0 < BitWidth x" using x by (simp_all add: ap_ok_def ap_shape_def)
  then have "pVal x \<noteq> []" by (auto simp: getNumWords_split)
  then have "unat (hd (pVal x)) = ap_val x mod 2 ^ 64" by (cases "pVal x") (simp_all add: ap_val_def)
  with True w new_APInt_unsigned [OF w(1), of "hd (pVal x)"] mod_part_width [OF True] show ?thesis
    by (simp add: ap_trunc_def)
next
  case False
  define i r where "i = width div 64" and "r = width mod 64"
  have ir: "width = 64 * i + r" and r: "r < 64" by (simp_all add: i_def r_def)
  have l: "length (pVal x) = getNumWords (BitWidth x)" using x by (simp add: ap_ok_def ap_shape_def)
  have "width < 64 * length (pVal x)" using w(2) width_le_words [of "BitWidth x"] l by simp
  then have il: "i < length (pVal x)" using ir by simp
  have bits: "(2 ^ 32 - width) mod 64 = (if r = 0 then 0 else 64 - r)"
  proof -
    have wl: "width \<le> 2 ^ 32" using w by simp
    have "(2 ^ 32 - width + width) mod 64 = (0 :: nat)" using wl by simp
    then have "((2 ^ 32 - width) mod 64 + r) mod 64 = 0" by (simp add: r_def mod_simps)
    moreover have "(2 ^ 32 - width) mod 64 < (64 :: nat)" by simp
    ultimately show ?thesis using r by (intro complement_mod)
  qed
  have tv: "tc_value (take i (pVal x)) = take_bit (64 * i) (ap_val x)"
    using tc_value_take_drop [of i 0 "pVal x"] il by (simp add: ap_val_def)
  show ?thesis
  proof (cases "r = 0")
    case True
    let ?z = "\<lparr>BitWidth = width, pVal = take i (pVal x)\<rparr>"
    have "getNumWords width = i" using True ir by (simp add: getNumWords_def)
    then have "?z = ap_make width (ap_val x)"
      using il tv True ir w by (intro ap_makeI) (simp_all add: ap_ok_def ap_shape_def ap_val_def take_bit_eq_mod)
    with False w bits True show ?thesis by (simp add: ap_trunc_def Let_def flip: i_def)
  next
    case rn: False
    let ?d = "take (Suc i) (pVal x)"
    have td: "?d = take i (pVal x) @ [pVal x ! i]" using il by (simp add: take_Suc_conv_app_nth)
    have ld: "length ?d = Suc i" using il by simp
    have u: "take i (pVal x) @ [pVal x ! i AND mask r] = ?d[i := ?d ! i AND mask r]"
      using il by (simp add: td nth_append list_update_append)
    have "tc_value (?d[i := ?d ! i AND mask r]) = take_bit (64 * i + r) (tc_value ?d)"
      using ld r by (intro last_word_and_mask)
    also have "tc_value ?d = take_bit (64 * Suc i) (ap_val x)"
      using tc_value_take_drop [of "Suc i" 0 "pVal x"] il by (simp add: ap_val_def)
    finally have v: "tc_value (take i (pVal x) @ [pVal x ! i AND mask r]) = take_bit width (ap_val x)"
      unfolding u ir using r by (simp add: min_def)
    let ?z = "\<lparr>BitWidth = width, pVal = take i (pVal x) @ [pVal x ! i AND mask r]\<rparr>"
    have "getNumWords width = Suc i" using rn ir r by (simp add: getNumWords_def)
    then have "?z = ap_make width (ap_val x)"
      using il v w by (intro ap_makeI) (simp_all add: ap_ok_def ap_shape_def ap_val_def take_bit_eq_mod)
    with False w bits rn r push_drop_part [of "64 - r" "pVal x ! i"] show ?thesis
      by (simp add: ap_trunc_def Let_def flip: i_def)
  qed
qed

lemma ap_sext_make:
  assumes x: "ap_ok x" and w: "BitWidth x < width"
  shows "ap_sext x width = Inr (ap_make width (nat (ap_sval x mod 2 ^ width)))"
proof (cases "width \<le> 64")
  case True
  have s: "isSingleWord x" using w True by (simp add: isSingleWord_def)
  have "unat (word_of_int (ap_sval x) :: part) = nat (take_bit 64 (ap_sval x))" by (simp add: unsigned_of_int)
  with True w s SignExtend64_sval [OF x s] new_APInt_unsigned [of width "word_of_int (ap_sval x)"]
    ap_make_int [OF True] show ?thesis by (simp add: ap_sext_def sext_part_def)
next
  case False
  let ?w = "BitWidth x"
  let ?n = "getNumWords ?w" and ?N = "getNumWords width"
  have w0: "0 < ?w" and l: "length (pVal x) = ?n" using x by (simp_all add: ap_ok_def ap_shape_def)
  define D where "D = (pVal x)[?n - 1 := signed_take_bit ((?w - 1) mod 64) (pVal x ! (?n - 1))]"
  have nN: "?n \<le> ?N" using w by (intro getNumWords_mono) simp
  let ?fill = "if ap_sval x < 0 then - 1 else 0 :: part"
  let ?R = "D @ replicate (?N - ?n) ?fill"
  have lD: "length D = ?n" by (simp add: D_def l)
  then have lR: "length ?R = ?N" using nN by simp
  have "bit (?R ! k) r \<longleftrightarrow> bit (ap_sval x) (64 * k + r)" if "k < length ?R" "r < 64" for k r
  proof (cases "k < ?n")
    case True
    with that sext_last_bits [OF x _ _ D_def] l lD show ?thesis by (simp add: nth_append)
  next
    case ge: False
    then have "?w - 1 \<le> 64 * k + r" using width_le_words [of ?w] by simp
    then have "bit (ap_sval x) (64 * k + r) \<longleftrightarrow> ap_sval x < 0"
      using isNegative_value [OF x] w0 bit_top [of "ap_val x" "?w - 1"] x
      by (simp add: bit_ap_sval [OF x] ap_ok_def min_def)
    with ge that lD show ?thesis by (simp add: nth_append)
  qed
  from tc_value_int_bits [OF this] have v: "tc_value ?R = nat (take_bit (64 * ?N) (ap_sval x))"
    unfolding lR by simp
  have "sext_part (pVal x ! (?n - 1)) ((?w - 1) mod 64 + 1) =
      Inr (signed_take_bit ((?w - 1) mod 64) (pVal x ! (?n - 1)))"
    by (subst sext_part_eq) (simp_all add: Suc_le_eq)
  then have "ap_sext x width = Inr (clearUnusedBits \<lparr>BitWidth = width, pVal = ?R\<rparr>)"
    unfolding ap_sext_def Let_def isNegative_value(2) [OF x] D_def using False w by simp
  also have "clearUnusedBits \<lparr>BitWidth = width, pVal = ?R\<rparr> = ap_make width (tc_value ?R)"
    using clearUnusedBits_make [of "\<lparr>BitWidth = width, pVal = ?R\<rparr>" width] lR w by (simp add: ap_shape_def ap_val_def)
  also have "\<dots> = ap_make width (nat (ap_sval x mod 2 ^ width))"
    unfolding v using width_le_words by (rule ap_make_int)
  finally show ?thesis .
qed

section \<open>Rotations\<close>

definition ap_rotl :: "APInt \<Rightarrow> nat \<Rightarrow> APInt result" where
  "ap_rotl x rotateAmt =
    (let rotateAmt = rotateAmt mod BitWidth x
     in if rotateAmt = 0 then Inr x
        else rbind (ap_shl x rotateAmt) (\<lambda>l. rbind (ap_lshr x (BitWidth x - rotateAmt)) (ap_or l)))"

definition ap_rotr :: "APInt \<Rightarrow> nat \<Rightarrow> APInt result" where
  "ap_rotr x rotateAmt =
    (let rotateAmt = rotateAmt mod BitWidth x
     in if rotateAmt = 0 then Inr x
        else rbind (ap_lshr x rotateAmt) (\<lambda>l. rbind (ap_shl x (BitWidth x - rotateAmt)) (ap_or l)))"

lemma rotate_bits:
  assumes "v < 2 ^ w" "0 < s" "s < w"
  shows "(v * 2 ^ s) mod 2 ^ w OR v div 2 ^ (w - s) < (2 :: nat) ^ w"
    and "i < w \<Longrightarrow> bit ((v * 2 ^ s) mod 2 ^ w OR v div 2 ^ (w - s)) i \<longleftrightarrow> bit v ((i + (w - s)) mod w)"
proof -
  let ?r = "(v * 2 ^ s) mod 2 ^ w OR v div 2 ^ (w - s)"
  have r: "?r = take_bit w (push_bit s v) OR drop_bit (w - s) v"
    by (simp add: take_bit_eq_mod push_bit_eq_mult drop_bit_eq_div)
  have v: "bit v j \<Longrightarrow> j < w" for j using assms(1) by (metis bit_take_bit_iff take_bit_nat_eq_self)
  show "?r < 2 ^ w" unfolding r
    using v by (intro less_exp_bitI) (auto simp: bit_or_iff bit_take_bit_iff bit_drop_bit_eq dest!: v)
  assume i: "i < w"
  show "bit ?r i \<longleftrightarrow> bit v ((i + (w - s)) mod w)"
  proof (cases "s \<le> i")
    case True
    then have e: "i + (w - s) = (i - s) + w" using assms by simp
    have "(i + (w - s)) mod w = i - s" unfolding e using i by simp
    moreover have "\<not> bit v (w - s + i)" using v [of "w - s + i"] True assms by auto
    ultimately show ?thesis unfolding r using True i
      by (simp add: bit_or_iff bit_take_bit_iff bit_push_bit_iff bit_drop_bit_eq)
  next
    case False
    then have "(i + (w - s)) mod w = w - s + i" using assms by simp
    then show ?thesis unfolding r using False i
      by (simp add: bit_or_iff bit_take_bit_iff bit_push_bit_iff bit_drop_bit_eq add.commute)
  qed
qed

text \<open>Bit \<open>i\<close> of a number rotated left by \<open>s\<close> is bit \<open>i - s\<close> of the number, counted around.\<close>

lemma ap_rotl_value:
  assumes x: "ap_ok x" and w: "BitWidth x = w"
  shows "\<exists>z. ap_rotl x s = Inr z \<and> ap_ok z \<and> BitWidth z = w \<and>
    (\<forall>i < w. bit (ap_val z) i \<longleftrightarrow> bit (ap_val x) ((i + (w - s mod w)) mod w))"
proof -
  have w0: "0 < w" and v: "ap_val x < 2 ^ w" using x w by (simp_all add: ap_ok_def ap_shape_def)
  let ?s = "s mod w"
  have s: "?s < w" using w0 by simp
  show ?thesis
  proof (cases "?s = 0")
    case True
    with x w w0 show ?thesis by (simp add: ap_rotl_def)
  next
    case False
    let ?v = "(ap_val x * 2 ^ ?s) mod 2 ^ w OR ap_val x div 2 ^ (w - ?s)"
    have "ap_val x div 2 ^ (w - ?s) < 2 ^ w" using v by (meson div_le_dividend le_less_trans)
    then have "ap_rotl x s = Inr (ap_make w ?v)"
      using False s w w0 ap_shl_make [OF x w, of ?s] ap_lshr_make [OF x w, of "w - ?s"]
        ap_bitwise_make(2) [of "ap_make w (ap_val x * 2 ^ ?s)" "ap_make w (ap_val x div 2 ^ (w - ?s))" w]
      by (simp add: ap_rotl_def Let_def)
    with rotate_bits [OF v, of ?s] False s w0 show ?thesis by simp
  qed
qed

lemma ap_rotr_rotl:
  assumes x: "ap_ok x" and w: "BitWidth x = w" and s: "0 < s" "s < w"
  shows "ap_rotr x s = ap_rotl x (w - s)"
proof -
  have "0 < w" "ap_val x < 2 ^ w" using x w by (simp_all add: ap_ok_def ap_shape_def)
  then show ?thesis using s w ap_shl_make [OF x w, of "w - s"] ap_lshr_make [OF x w, of s]
      ap_bitwise_make(2) [of "ap_make w (ap_val x * 2 ^ (w - s))" "ap_make w (ap_val x div 2 ^ s)" w]
      ap_bitwise_make(2) [of "ap_make w (ap_val x div 2 ^ s)" "ap_make w (ap_val x * 2 ^ (w - s))" w]
    by (simp add: ap_rotl_def ap_rotr_def Let_def or.commute)
qed

end
