(* ===== verification/WideIntProperties.thy ===== *)
theory WideIntProperties
  imports ApIntBits
begin

unbundle bit_operations_syntax

text \<open>
  Properties of the integers wider than a machine word: the arrays of words (\<open>WideInt\<close>,
  \<open>WideIntShift\<close>, \<open>WideIntMul\<close>), the bit tricks of \<open>MathExtras\<close> and the class \<open>APInt\<close>
  (\<open>ApInt\<close>, \<open>ApIntBits\<close>).
\<close>

lemma carry_cases:
  assumes "c \<le> (1 :: part)"
  obtains q where "c = of_bool q"
proof -
  from assms have "unat c = 0 \<or> unat c = 1" by (simp add: word_le_nat_alt le_Suc_eq)
  then have "c = of_bool False \<or> c = of_bool True" by (simp add: word_unat_eq_iff)
  then show ?thesis using that by blast
qed

lemma nat_mod_minus:
  assumes "b \<le> 2 ^ w"
  shows "nat ((int a - int b) mod 2 ^ w) = (a + 2 ^ w - b) mod 2 ^ w"
proof -
  have "int ((a + 2 ^ w - b) mod 2 ^ w) = (int a - int b + 2 ^ w) mod 2 ^ w"
    using assms by (simp add: zmod_int of_nat_diff algebra_simps)
  then show ?thesis by (simp add: nat_eq_iff)
qed

lemma ap_bit_above:
  assumes "ap_ok x" "BitWidth x \<le> i"
  shows "\<not> bit (ap_val x) i"
proof -
  have "(2 :: nat) ^ BitWidth x \<le> 2 ^ i" using assms(2) by (intro power_increasing) auto
  moreover have "ap_val x < 2 ^ BitWidth x" using assms(1) by (simp add: ap_ok_def)
  ultimately have "ap_val x div 2 ^ i = 0" by (intro div_less) linarith
  then show ?thesis by (simp add: bit_iff_odd)
qed

text \<open>
  C40: the counters of leading and trailing zeros search by bisection, and on a word whose
  width is a power of two they return what counting the zeros one by one returns.
\<close>

theorem bisection_counts_zeros:
  assumes "LENGTH('a :: len) = 2 ^ Suc j"
  shows "LeadingZerosCounter (v :: 'a word) = lead_zeros (unat v) LENGTH('a) \<and>
    TrailingZerosCounter v = trail_zeros (unat v) LENGTH('a)"
  using LeadingZerosCounter_eq [OF assms] TrailingZerosCounter_eq [OF assms] by blast

theorem bisection_counts_zeros_witness:
  "LENGTH(8) = 2 ^ Suc 2 \<and> LeadingZerosCounter (0x14 :: 8 word) = 3 \<and> TrailingZerosCounter (0x14 :: 8 word) = 2"
proof -
  have "LENGTH(8) = 2 ^ Suc 2" by simp
  moreover have "lead_zeros 20 8 = 3" "trail_zeros 20 8 = 2"
    by code_simp+
  ultimately show ?thesis using bisection_counts_zeros [where 'a = 8 and j = 2 and v = "0x14"] by simp
qed

text \<open>
  Addition and subtraction of arrays of words with a carry are exact: the words of the
  result together with the carry that is returned are the sum, or the difference with the
  borrow.
\<close>

lemma wide_sum_and_difference:
  assumes "length rhs = length dst" and "c \<le> 1"
  shows "\<exists>s k d b. tcAdd dst rhs c = Inr (s, k) \<and> length s = length dst \<and> k \<le> 1 \<and>
      tc_value s + 2 ^ (64 * length dst) * unat k = tc_value dst + tc_value rhs + unat c \<and>
      tcSubtract dst rhs c = Inr (d, b) \<and> length d = length dst \<and> b \<le> 1 \<and>
      tc_value d + tc_value rhs + unat c = tc_value dst + 2 ^ (64 * length dst) * unat b"
proof -
  obtain q where c: "c = of_bool q" using assms(2) by (rule carry_cases)
  obtain s k d b where r: "add_loop dst rhs (of_bool q) = (s, k)" "sub_loop dst rhs (of_bool q) = (d, b)" by fastforce
  have t: "tcAdd dst rhs c = Inr (s, k)" "tcSubtract dst rhs c = Inr (d, b)" "unat c = of_bool q"
    using assms(2) r by (simp_all add: tcAdd_def tcSubtract_def c)
  from add_loop_value [OF assms(1) r(1)] sub_loop_value [OF assms(1) r(2)] t show ?thesis by auto
qed

lemma wide_sum_and_difference_witness:
  "\<exists>s k d b. tcAdd [- 1, - 1] [1, 0] 0 = Inr (s, k) \<and> tc_value s = 0 \<and> unat k = 1 \<and>
    tcSubtract [- 1, - 1] [1, 0] 0 = Inr (d, b) \<and> tc_value d = 2 ^ 128 - 2 \<and> unat b = 0"
proof -
  obtain s k d b where *: "tcAdd [- 1, - 1] [1, 0] 0 = Inr (s, k)" "length s = 2" "k \<le> 1"
      "tc_value s + 2 ^ 128 * unat k = 2 ^ 128"
      "tcSubtract [- 1, - 1] [1, 0] 0 = Inr (d, b)" "length d = 2" "b \<le> 1"
      "tc_value d + 1 = 2 ^ 128 - 1 + 2 ^ 128 * unat b"
    using wide_sum_and_difference [of "[1, 0]" "[- 1, - 1]" 0] by (auto simp: unsigned_minus_1_eq_mask mask_eq_exp_minus_1)
  from *(3,7) have "unat k \<le> 1" "unat b \<le> 1" by (simp_all add: word_le_nat_alt)
  moreover from *(2,6) have "tc_value s < 2 ^ 128" "tc_value d < 2 ^ 128"
    using tc_value_less [of s] tc_value_less [of d] by simp_all
  ultimately have "unat k = 1" "unat b = 0" using *(4,8) by (simp_all del: One_nat_def)
  with * show ?thesis by (intro exI [of _ s] exI [of _ k] exI [of _ d] exI [of _ b]) simp
qed


text \<open>
  C38: the product of two arrays of words is exact: \<open>tcMultiply\<close> returns the low words and
  reports an overflow exactly when the product does not fit, \<open>tcFullMultiply\<close> returns the
  whole product. The destination may hold anything before.
\<close>

theorem wide_product:
  assumes "length lhs = length dst" "length rhs = length dst" "dst \<noteq> []" "length big = 2 * length dst"
  shows "\<exists>p ov f. tcMultiply dst lhs rhs = Inr (p, ov) \<and> length p = length dst \<and>
      tc_value p = (tc_value lhs * tc_value rhs) mod 2 ^ (64 * length dst) \<and>
      (ov \<longleftrightarrow> 2 ^ (64 * length dst) \<le> tc_value lhs * tc_value rhs) \<and>
      tcFullMultiply big lhs rhs = Inr f \<and> tc_value f = tc_value lhs * tc_value rhs"
proof -
  have "lhs \<noteq> []" "rhs \<noteq> []" "length big = length lhs + length rhs" using assms by auto
  with tcMultiply_value [OF assms(1-3)] tcFullMultiply_value show ?thesis by meson
qed

theorem wide_product_witness:
  "\<exists>p f. tcMultiply [7, 7] [0, 1] [2, 3] = Inr (p, True) \<and> tc_value p = 2 * 2 ^ 64 \<and>
    tcFullMultiply [9, 9, 9, 9] [0, 1] [2, 3] = Inr f \<and> tc_value f = 2 * 2 ^ 64 + 3 * 2 ^ 128"
proof -
  have "\<exists>p ov f. tcMultiply [7, 7] [0, 1] [2, 3] = Inr (p, ov) \<and> length p = length [7 :: part, 7] \<and>
      tc_value p = (tc_value [0, 1] * tc_value [2, 3]) mod 2 ^ 128 \<and>
      (ov \<longleftrightarrow> 2 ^ 128 \<le> tc_value [0, 1] * tc_value [2, 3]) \<and>
      tcFullMultiply [9, 9, 9, 9] [0, 1] [2, 3] = Inr f \<and> tc_value f = tc_value [0, 1] * tc_value [2, 3]"
    using wide_product [of "[0, 1]" "[7, 7]" "[2, 3]" "[9, 9, 9, 9]"] by simp
  then show ?thesis by auto
qed

text \<open>
  C37: the bit-by-bit division of arrays of words always comes to an end, with quotient and
  remainder of the values when the divisor is not zero, and with an unchanged dividend and a
  report otherwise.
\<close>

theorem wide_division:
  assumes "length rhs = length lhs" "length remainder = length lhs" "length srhs = length lhs"
    and "lhs \<noteq> []" "length lhs \<le> 2 ^ 25"
  shows "\<exists>q r s z. tcDivide lhs rhs remainder srhs = Inr (q, r, s, z) \<and>
    (if tc_value rhs = 0 then z \<and> q = lhs
     else \<not> z \<and> tc_value q = tc_value lhs div tc_value rhs \<and> tc_value r = tc_value lhs mod tc_value rhs)"
proof (cases "tc_value rhs = 0")
  case True
  with assms(1,4) have "rhs \<noteq> []" by auto
  then show ?thesis using True by (intro exI [of _ lhs] exI [of _ remainder] exI [of _ srhs] exI [of _ True]) (simp add: tcDivide_zero)
next
  case False
  with tcDivide_value [OF assms(1-3,5) False] show ?thesis by auto
qed

theorem wide_division_witness:
  "\<exists>q r s. tcDivide [5, 1] [2, 0] [0, 0] [0, 0] = Inr (q, r, s, False) \<and>
    tc_value q = 2 ^ 63 + 2 \<and> tc_value r = 1"
proof -
  have "\<exists>q r s z. tcDivide [5, 1] [2, 0] [0, 0] [0, 0] = Inr (q, r, s, z) \<and>
      (if tc_value [2, 0] = 0 then z \<and> q = [5, 1]
       else \<not> z \<and> tc_value q = tc_value [5, 1] div tc_value [2, 0] \<and> tc_value r = tc_value [5, 1] mod tc_value [2, 0])"
    by (rule wide_division) simp_all
  then show ?thesis by auto
qed

text \<open>
  C39: shifting an array of words by any number of bits, whole words included, multiplies its
  value modulo the size of the array, or divides it.
\<close>

theorem wide_shifts:
  "length (tcShiftLeft ws n) = length ws \<and> length (tcShiftRight ws n) = length ws \<and>
   tc_value (tcShiftLeft ws n) = (tc_value ws * 2 ^ n) mod 2 ^ (64 * length ws) \<and>
   tc_value (tcShiftRight ws n) = tc_value ws div 2 ^ n"
  by (simp add: tcShiftLeft_value tcShiftRight_value)

text \<open>
  Extracting a field of bits that lies within the source copies exactly these bits to the
  bottom of the destination and clears the rest of it, whatever the alignment of the field.
\<close>

lemma bit_field_extracted:
  assumes "srcLSB + srcBits \<le> 64 * length src" "length src \<le> 2 ^ 25"
    and "(srcBits + 63) div 64 \<le> length dst"
  shows "\<exists>ws. tcExtract dst src srcBits srcLSB = Inr ws \<and> length ws = length dst \<and>
    (\<forall>i. bit (tc_value ws) i \<longleftrightarrow> i < srcBits \<and> bit (tc_value src) (srcLSB + i))"
proof -
  obtain ws where "tcExtract dst src srcBits srcLSB = Inr ws" "length ws = length dst"
      "tc_value ws = take_bit srcBits (drop_bit srcLSB (tc_value src))"
    using tcExtract_value [OF assms] by blast
  then show ?thesis by (simp add: bit_take_bit_iff bit_drop_bit_eq)
qed

lemma bit_field_extracted_witness:
  "\<exists>ws. tcExtract [9, 9] [2 ^ 63, 5] 4 63 = Inr ws \<and> length ws = length [9 :: part, 9] \<and>
    (\<forall>i. bit (tc_value ws) i \<longleftrightarrow> i < 4 \<and> bit (tc_value [2 ^ 63, 5]) (63 + i))"
  by (rule bit_field_extracted) simp_all

text \<open>
  C26: arithmetic on \<open>APInt\<close> is arithmetic modulo two to the width, for every width, one word or
  many: each operation on normalised numbers of the same width returns the one normalised
  number with the value of the mathematical operation.
\<close>

theorem apint_arithmetic_modulo:
  assumes "ap_ok x" "ap_ok y" "BitWidth x = w" "BitWidth y = w" "length mem = getNumWords w"
  shows "ap_plus x y = Inr (ap_make w (ap_val x + ap_val y)) \<and>
    ap_minus x y = Inr (ap_make w (nat ((int (ap_val x) - int (ap_val y)) mod 2 ^ w))) \<and>
    ap_times mem x y = Inr (ap_make w (ap_val x * ap_val y)) \<and>
    ap_negate x = ap_make w (nat (- int (ap_val x) mod 2 ^ w)) \<and>
    ap_and x y = Inr (ap_make w (ap_val x AND ap_val y)) \<and>
    ap_or x y = Inr (ap_make w (ap_val x OR ap_val y)) \<and>
    ap_xor x y = Inr (ap_make w (ap_val x XOR ap_val y))"
proof -
  have le: "ap_val x \<le> 2 ^ w" "ap_val y \<le> 2 ^ w" using assms by (auto simp: ap_ok_def intro: less_imp_le)
  have "ap_minus x y = Inr (ap_make w (nat ((int (ap_val x) - int (ap_val y)) mod 2 ^ w)))"
    by (simp add: ap_minus_make [OF assms(1-4)] nat_mod_minus [OF le(2)])
  moreover have "ap_negate x = ap_make w (nat (- int (ap_val x) mod 2 ^ w))"
    using nat_mod_minus [OF le(1), of 0] by (simp add: ap_negate_make [OF assms(1,3)])
  ultimately show ?thesis using assms(5)
    by (simp add: ap_plus_make [OF assms(1-4)] ap_times_make [OF assms(1-4)] ap_bitwise_make [OF assms(1-4)])
qed


theorem apint_arithmetic_modulo_witness:
  "ap_minus (ap_make 100 3) (ap_make 100 5) = Inr (ap_make 100 (2 ^ 100 - 2)) \<and>
   ap_times [7, 7] (ap_make 100 3) (ap_make 100 5) = Inr (ap_make 100 15)"
  using apint_arithmetic_modulo [of "ap_make 100 3" "ap_make 100 5" 100 "[7, 7]"]
  by (simp add: getNumWords_def)

lemma ap_sval_make_int:
  assumes "0 < w" "- (2 ^ (w - 1)) \<le> i" "i < 2 ^ (w - 1)"
  shows "ap_sval (ap_make w (nat (i mod 2 ^ w))) = i"
proof -
  have p: "(2 :: int) ^ w = 2 * 2 ^ (w - 1)" using assms(1) by (simp flip: power_Suc)
  have "nat (i mod 2 ^ w) < 2 ^ w" by (simp add: nat_less_iff)
  moreover have "i mod 2 ^ w = (if i < 0 then i + 2 ^ w else i)"
  proof (cases "i < 0")
    case True
    have "(i + 2 ^ w) mod 2 ^ w = i + 2 ^ w" using True assms(2) p by (intro mod_pos_pos_trivial) auto
    then show ?thesis using True by simp
  qed (use assms(3) p in \<open>auto intro: mod_pos_pos_trivial\<close>)
  ultimately show ?thesis using assms p by (auto simp: ap_sval_def)
qed

lemma div_int_bounds:
  fixes i B d :: int
  assumes "- B \<le> i" "i < B" "0 < d"
  shows "- B \<le> i div d" "i div d < B"
proof -
  have "0 < B \<or> B = 0" "0 \<le> B" using assms by auto
  then have "- B * d \<le> - B" using assms(3) by (simp add: mult_le_cancel_left1)
  then have "- B * d \<le> i" using assms(1) by linarith
  then show "- B \<le> i div d" using zdiv_mono1 [of "- B * d" i d] assms(3) by (simp del: mult_minus_left)
  show "i div d < B"
  proof (cases "0 < i")
    case True
    then show ?thesis using int_div_le_self [of i d] assms(2) by linarith
  next
    case False
    then show ?thesis using div_nonpos_pos_le0 [of i d] div_neg_pos_less0 [of i d] assms by (cases "i = 0") auto
  qed
qed

text \<open>
  C34: shifts of \<open>APInt\<close> by up to the full width: the left shift multiplies modulo two to the
  width, the logical right shift divides the unsigned value, and the arithmetic right shift
  divides the signed value rounding down.
\<close>

theorem apint_shifts:
  assumes "ap_ok x" "s \<le> BitWidth x"
  shows "\<exists>l r a. ap_shl x s = Inr l \<and> ap_ok l \<and> BitWidth l = BitWidth x \<and>
      ap_val l = (ap_val x * 2 ^ s) mod 2 ^ BitWidth x \<and>
    ap_lshr x s = Inr r \<and> ap_ok r \<and> BitWidth r = BitWidth x \<and> ap_val r = ap_val x div 2 ^ s \<and>
    ap_ashr x s = Inr a \<and> ap_ok a \<and> BitWidth a = BitWidth x \<and> ap_sval a = ap_sval x div 2 ^ s"
proof -
  have w: "0 < BitWidth x" "ap_val x < 2 ^ BitWidth x" using assms(1) by (simp_all add: ap_ok_def ap_shape_def)
  have "ap_val x div 2 ^ s < 2 ^ BitWidth x" using w(2) by (meson div_le_dividend le_less_trans)
  moreover have "ap_sval (ap_make (BitWidth x) (nat (ap_sval x div 2 ^ s mod 2 ^ BitWidth x))) = ap_sval x div 2 ^ s"
    by (rule ap_sval_make_int) (use w ap_sval_bounds [OF assms(1)] in \<open>auto intro: div_int_bounds\<close>)
  ultimately show ?thesis
    by (simp add: ap_shl_make [OF assms(1) refl assms(2)] ap_lshr_make [OF assms(1) refl assms(2)]
      ap_ashr_make [OF assms(1) refl assms(2)] w(1))
qed


theorem apint_shifts_witness:
  "\<exists>l r a. ap_shl (ap_make 100 (2 ^ 99 + 1)) 3 = Inr l \<and> ap_val l = 8 \<and>
    ap_lshr (ap_make 100 (2 ^ 99 + 1)) 3 = Inr r \<and> ap_val r = 2 ^ 96 \<and>
    ap_ashr (ap_make 100 (2 ^ 99 + 1)) 3 = Inr a \<and> ap_sval a = - (2 ^ 96)"
proof -
  have "ap_ok (ap_make 100 (2 ^ 99 + 1))" "ap_val (ap_make 100 (2 ^ 99 + 1)) = 2 ^ 99 + 1"
    "ap_sval (ap_make 100 (2 ^ 99 + 1)) = 1 - 2 ^ 99" by (simp_all add: ap_sval_def)
  then show ?thesis using apint_shifts [of "ap_make 100 (2 ^ 99 + 1)" 3] by auto
qed

text \<open>
  C35: changing the width: zero extension keeps the unsigned value, sign extension keeps the
  signed value, and truncation back to the original width undoes both.
\<close>

theorem apint_width_changes:
  assumes "ap_ok x" "BitWidth x < width" "width < 2 ^ 32"
  shows "\<exists>z s. ap_zext x width = Inr z \<and> BitWidth z = width \<and> ap_ok z \<and> ap_val z = ap_val x \<and>
    ap_sext x width = Inr s \<and> BitWidth s = width \<and> ap_ok s \<and> ap_sval s = ap_sval x \<and>
    ap_trunc z (BitWidth x) = Inr x \<and> ap_trunc s (BitWidth x) = Inr x"
proof -
  let ?w = "BitWidth x" and ?s = "nat (ap_sval x mod 2 ^ width)"
  have w: "0 < ?w" "0 < width" "ap_val x < 2 ^ ?w" using assms(1,2) by (simp_all add: ap_ok_def ap_shape_def)
  have "(2 :: nat) ^ ?w \<le> 2 ^ width" using assms(2) by (intro power_increasing) auto
  with w(3) have v: "ap_val x < 2 ^ width" by linarith
  have p: "(2 :: int) ^ (?w - 1) \<le> 2 ^ (width - 1)" using assms(2) by (intro power_increasing) auto
  have sv: "ap_sval (ap_make width ?s) = ap_sval x"
    using ap_sval_bounds(1,2) [OF assms(1)] p w(2) by (intro ap_sval_make_int) linarith+
  have "int (?s mod 2 ^ ?w) = int (ap_val x)"
    using ap_sval_bounds(3) [OF assms(1)] assms(2)
    by (simp add: zmod_int mod_mod_cancel le_imp_power_dvd)
  then have "ap_make ?w ?s = ap_make ?w (ap_val x)" using w(3) by (intro ap_make_cong) simp
  moreover have "ap_make ?w (ap_val x mod 2 ^ width) = x" using ap_make_self [OF assms(1)] v by simp
  moreover have "ap_make ?w (?s mod 2 ^ width) = ap_make ?w ?s" by (simp add: nat_less_iff)
  ultimately show ?thesis
    using assms(3) w sv v ap_make_self [OF assms(1)]
    by (simp add: ap_zext_make [OF assms(1,2)] ap_sext_make [OF assms(1,2)]
      ap_trunc_make [OF ap_make_ok w(1)] assms(2))
qed

theorem apint_width_changes_witness:
  "\<exists>z s. ap_zext (ap_make 8 200) 100 = Inr z \<and> ap_val z = 200 \<and>
    ap_sext (ap_make 8 200) 100 = Inr s \<and> ap_sval s = - 56 \<and>
    ap_trunc z 8 = Inr (ap_make 8 200) \<and> ap_trunc s 8 = Inr (ap_make 8 200)"
proof -
  have "ap_ok (ap_make 8 200)" "ap_val (ap_make 8 200) = 200" "ap_sval (ap_make 8 200) = - 56"
    by (simp_all add: ap_sval_def)
  then show ?thesis using apint_width_changes [of "ap_make 8 200" 100] by auto
qed

text \<open>
  C36: the comparisons of \<open>APInt\<close> are the comparisons of the unsigned and of the signed values,
  and equality of the objects is equality of the values.
\<close>

theorem apint_comparison:
  assumes "ap_ok x" "ap_ok y" "BitWidth x = BitWidth y"
  shows "ap_compare x y = Inr (sgn (int (ap_val x) - int (ap_val y))) \<and>
    compareSigned x y = Inr (sgn (ap_sval x - ap_sval y)) \<and>
    ap_ult x y = Inr (ap_val x < ap_val y) \<and> ap_slt x y = Inr (ap_sval x < ap_sval y) \<and>
    ap_equal x y = Inr (ap_val x = ap_val y) \<and> ap_equal x y = Inr (x = y)"
  using ap_compare_value [OF assms] compareSigned_value [OF assms] ap_ult_value [OF assms]
    ap_slt_value [OF assms] ap_equal_value [OF assms] by simp

theorem apint_comparison_witness:
  "ap_ult (ap_make 70 (2 ^ 69)) (ap_make 70 1) = Inr False \<and> ap_slt (ap_make 70 (2 ^ 69)) (ap_make 70 1) = Inr True"
  using apint_comparison [of "ap_make 70 (2 ^ 69)" "ap_make 70 1"] by (simp add: ap_sval_def)

text \<open>
  Laws of arithmetic for \<open>APInt\<close> of one width, from the contract of fixed-width integers: sums and
  products do not depend on order or grouping, products distribute over sums, adding what was
  subtracted gives the number back, and subtracting is adding the negation.
\<close>

lemma apint_ring_laws:
  assumes "ap_ok x" "ap_ok y" "ap_ok z" "BitWidth x = BitWidth y" "BitWidth y = BitWidth z"
  shows "let times = \<lambda>x y. ap_times (replicate (getNumWords (BitWidth x)) 0) x y in
    ap_plus x y = ap_plus y x \<and> times x y = times y x \<and>
    rbind (ap_plus x y) (\<lambda>s. ap_plus s z) = rbind (ap_plus y z) (ap_plus x) \<and>
    rbind (times x y) (\<lambda>p. times p z) = rbind (times y z) (times x) \<and>
    rbind (ap_plus y z) (times x) = rbind (times x y) (\<lambda>p. rbind (times x z) (ap_plus p)) \<and>
    rbind (ap_minus x y) (\<lambda>d. ap_plus d y) = Inr x \<and> ap_plus x (ap_negate y) = ap_minus x y"
  unfolding Let_def
  using apint.add_commute [OF assms(1,2,4)] apint.mul_commute [OF assms(1,2,4)] apint.add_assoc [OF assms]
    apint.mul_assoc [OF assms] apint.distrib [OF assms] apint.sub_add_cancel [OF assms(1,2,4)]
    apint.add_neg_sub [OF assms(1,2,4)]
  by (intro conjI) (simp_all only: rbind_Inr)

lemma apint_ring_laws_witness:
  "ap_plus (ap_make 200 (2 ^ 199)) (ap_negate (ap_make 200 1)) = ap_minus (ap_make 200 (2 ^ 199)) (ap_make 200 1)"
  using apint_ring_laws [of "ap_make 200 (2 ^ 199)" "ap_make 200 1" "ap_make 200 1"]
  by (simp add: Let_def)

text \<open>
  Rotating an \<open>APInt\<close> to the left moves every bit to its place in the rotated number, for
  every amount, and rotating back to the right restores the number.
\<close>

lemma apint_rotation:
  assumes "ap_ok x" "0 < s" "s < BitWidth x"
  shows "\<exists>z. ap_rotl x s = Inr z \<and> ap_ok z \<and> BitWidth z = BitWidth x \<and>
    (\<forall>i < BitWidth x. bit (ap_val z) ((i + s) mod BitWidth x) \<longleftrightarrow> bit (ap_val x) i) \<and> ap_rotr z s = Inr x"
proof -
  let ?w = "BitWidth x"
  obtain z where z: "ap_rotl x s = Inr z" "ap_ok z" "BitWidth z = ?w"
      "\<And>i. i < ?w \<Longrightarrow> bit (ap_val z) i \<longleftrightarrow> bit (ap_val x) ((i + (?w - s)) mod ?w)"
    using ap_rotl_value [OF assms(1) refl, of s] assms(3) by auto
  have fwd: "bit (ap_val z) ((i + s) mod ?w) \<longleftrightarrow> bit (ap_val x) i" if "i < ?w" for i
  proof -
    have "((i + s) mod ?w + (?w - s)) mod ?w = (i + s + (?w - s)) mod ?w" by (simp only: mod_add_left_eq)
    then have "((i + s) mod ?w + (?w - s)) mod ?w = i" using that assms(3) by simp
    moreover have "(i + s) mod ?w < ?w" using that by (intro mod_less_divisor) simp
    ultimately show ?thesis using z(4) [of "(i + s) mod ?w"] by simp
  qed
  obtain y where y: "ap_rotl z (?w - s) = Inr y" "ap_ok y" "BitWidth y = ?w"
      "\<And>i. i < ?w \<Longrightarrow> bit (ap_val y) i \<longleftrightarrow> bit (ap_val z) ((i + s) mod ?w)"
    using ap_rotl_value [OF z(2,3), of "?w - s"] assms(2,3) by auto
  have "bit (ap_val y) i \<longleftrightarrow> bit (ap_val x) i" for i
  proof (cases "i < ?w")
    case False
    then show ?thesis using y(2,3) assms(1) ap_bit_above [of x i] ap_bit_above [of y i] by simp
  qed (simp add: y(4) fwd)
  then have "y = x" using y(2,3) assms(1) by (intro ap_ok_unique bit_eqI) auto
  then have "ap_rotr z s = Inr x" using ap_rotr_rotl [OF z(2,3) assms(2,3)] y(1) by simp
  with z fwd show ?thesis by blast
qed

lemma apint_rotation_witness:
  "\<exists>z. ap_rotl (ap_make 90 (2 ^ 89)) 1 = Inr z \<and> bit (ap_val z) 0 \<and> ap_rotr z 1 = Inr (ap_make 90 (2 ^ 89))"
proof -
  obtain z where z: "ap_rotl (ap_make 90 (2 ^ 89)) 1 = Inr z" "ap_rotr z 1 = Inr (ap_make 90 (2 ^ 89))"
      "\<forall>i < 90. bit (ap_val z) ((i + 1) mod 90) \<longleftrightarrow> bit ((2 :: nat) ^ 89) i"
    using apint_rotation [of "ap_make 90 (2 ^ 89)" 1] by auto
  from z(3) [rule_format, of 89] have "bit (ap_val z) 0" by (simp add: bit_0)
  with z show ?thesis by blast
qed

end
