(* ===== verification/KnuthEstimate.thy ===== *)
theory KnuthEstimate
  imports Main
begin

text \<open>
  The arithmetic behind a digit of a long division (Knuth, volume 2, section 4.3.1): the
  trial digit computed from the two leading digits of the dividend and the leading digit of
  the divisor is never too small, and after the two tests against the second digit of the
  divisor it is at most one too large. \<open>B\<close> is the base, \<open>D\<close> the number of the two leading digits
  of the dividend, and the digits behind the third one have the weight \<open>T\<close>.
\<close>

lemma scaled_le:
  fixes a b c w :: nat
  assumes "a * c \<le> b * c + w" "w < c"
  shows "a \<le> b"
proof (rule ccontr)
  assume "\<not> a \<le> b"
  then have "(b + 1) * c \<le> a * c" by (intro mult_le_mono1) simp
  with assms show False by simp
qed

text \<open>The trial value is not too small.\<close>

lemma trial_ge:
  fixes B T D v1 v2 u2 x y q :: nat
  assumes "q * ((v1 * B + v2) * T + x) \<le> (D * B + u2) * T + y" "y < T" "u2 < B" "0 < v1"
  shows "q \<le> D div v1"
proof -
  have "q * (v1 * B) * T \<le> q * ((v1 * B + v2) * T + x)" by (simp add: algebra_simps)
  also note assms(1)
  finally have "q * (v1 * B) \<le> D * B + u2" using assms(2) by (rule scaled_le)
  then have "q * v1 * B \<le> D * B + u2" by (simp only: mult.assoc)
  then have "q * v1 \<le> D" using assms(3) by (rule scaled_le)
  then show ?thesis using assms(4) by (simp add: less_eq_div_iff_mult_less_eq)
qed

text \<open>When the test succeeds, the trial value is too large.\<close>

lemma trial_decrease:
  fixes B T D v1 v2 u2 x y q qp rp :: nat
  assumes "q * ((v1 * B + v2) * T + x) \<le> (D * B + u2) * T + y" "y < T"
    and "D = qp * v1 + rp" "B * rp + u2 < qp * v2"
  shows "q < qp"
proof (rule ccontr)
  assume "\<not> q < qp"
  then have "qp * ((v1 * B + v2) * T + x) \<le> q * ((v1 * B + v2) * T + x)" by (intro mult_le_mono1) simp
  with assms(1) have "qp * ((v1 * B + v2) * T + x) \<le> (D * B + u2) * T + y" by linarith
  moreover have "qp * (v1 * B + v2) * T \<le> qp * ((v1 * B + v2) * T + x)" by (simp add: algebra_simps)
  ultimately have "qp * (v1 * B + v2) * T \<le> (D * B + u2) * T + y" by linarith
  then have "qp * (v1 * B + v2) \<le> D * B + u2" using assms(2) by (rule scaled_le)
  with assms(3,4) show False by (simp add: algebra_simps)
qed

text \<open>When the test fails, the trial value is at most one too large.\<close>

lemma trial_keep:
  fixes B T D v1 v2 u2 x y qp rp :: nat
  assumes "x < T" "D = (qp + 1) * v1 + rp" "(qp + 1) * v2 \<le> B * rp + u2" "qp \<le> v1 * B + v2"
  shows "qp * ((v1 * B + v2) * T + x) \<le> (D * B + u2) * T + y"
proof -
  have "qp * ((v1 * B + v2) * T + x) \<le> qp * (v1 * B + v2) * T + qp * T"
    using assms(1) by (simp add: distrib_left) (simp add: algebra_simps)
  also have "\<dots> \<le> qp * (v1 * B + v2) * T + (v1 * B + v2) * T" using assms(4) by simp
  also have "\<dots> = ((qp + 1) * v1 * B + (qp + 1) * v2) * T" by (simp add: algebra_simps)
  also have "\<dots> \<le> (D * B + u2) * T"
    using assms(2,3) by (intro mult_le_mono1) (simp add: algebra_simps)
  finally show ?thesis by simp
qed

text \<open>With a leading digit of at least half the base the first trial value is at most two too large.\<close>

lemma trial_two:
  fixes B T D v1 v2 u2 x y qp rp :: nat
  assumes "x < T" "v2 < B" "D = (qp + 2) * v1 + rp" "qp \<le> 2 * v1"
  shows "qp * ((v1 * B + v2) * T + x) \<le> (D * B + u2) * T + y"
proof -
  have "(v1 * B + v2) * T + x \<le> (v1 * B + v2 + 1) * T" using assms(1) by (simp add: algebra_simps)
  also have "\<dots> \<le> (v1 + 1) * B * T" using assms(2) by (intro mult_le_mono1) simp
  finally have "qp * ((v1 * B + v2) * T + x) \<le> qp * ((v1 + 1) * B * T)" by (intro mult_le_mono2)
  also have "\<dots> = (qp * (v1 + 1)) * (B * T)" by (simp add: algebra_simps)
  also have "\<dots> \<le> D * (B * T)" using assms(3,4) by (intro mult_le_mono1) (simp add: algebra_simps)
  finally show ?thesis by (simp add: algebra_simps)
qed

text \<open>The trial digit as the algorithm computes it, on numbers.\<close>

definition trial :: "nat \<Rightarrow> nat \<Rightarrow> nat \<Rightarrow> nat \<Rightarrow> nat \<Rightarrow> nat" where
  "trial B D u2 v1 v2 =
    (let qp = D div v1; rp = D mod v1
     in if qp = B \<or> B * rp + u2 < qp * v2
        then let qp = qp - 1; rp = rp + v1
             in if rp < B \<and> (qp = B \<or> B * rp + u2 < qp * v2) then qp - 1 else qp
        else qp)"

lemma trial_first_le:
  assumes "u0 \<le> v1" "u1 < B" "B \<le> 2 * v1" "0 < B"
  shows "(u0 * B + u1) div v1 \<le> B + (1 :: nat)"
proof -
  have "u0 * B \<le> v1 * B" using assms(1) by simp
  moreover have "(B + 2) * v1 = v1 * B + 2 * v1" by (simp add: algebra_simps)
  ultimately have "u0 * B + u1 < (B + 2) * v1" using assms by linarith
  then have "(u0 * B + u1) div v1 < B + 2" by (simp add: less_mult_imp_div_less)
  then show ?thesis by simp
qed

lemma leading_digit_le:
  fixes B T u0 u1 u2 v1 v2 x y :: nat
  assumes "((u0 * B + u1) * B + u2) * T + y < ((v1 * B + v2) * T + x) * B" "v2 < B" "x < T"
  shows "u0 \<le> v1"
proof (rule ccontr)
  assume "\<not> u0 \<le> v1"
  then have "(v1 + 1) * (B * B * T) \<le> u0 * (B * B * T)" by (intro mult_le_mono1) simp
  also have "\<dots> \<le> ((u0 * B + u1) * B + u2) * T + y" by (simp add: algebra_simps)
  also note assms(1)
  also have "((v1 * B + v2) * T + x) * B \<le> (v1 + 1) * (B * B * T)"
  proof -
    have "(v1 * B + v2) * T + x \<le> (v1 * B + v2 + 1) * T" using assms(3) by (simp add: algebra_simps)
    also have "\<dots> \<le> (v1 + 1) * B * T" using assms(2) by (intro mult_le_mono1) simp
    finally have "((v1 * B + v2) * T + x) * B \<le> (v1 + 1) * B * T * B" by (rule mult_le_mono1)
    then show ?thesis by (simp add: algebra_simps)
  qed
  finally show False by simp
qed

lemma trial_correct:
  fixes B T u0 u1 u2 v1 v2 x y :: nat
  defines "V \<equiv> (v1 * B + v2) * T + x" and "W \<equiv> ((u0 * B + u1) * B + u2) * T + y"
  assumes B: "2 \<le> B" "B \<le> 2 * v1" "v1 < B" "v2 < B" "u1 < B" "u2 < B" and low: "x < T" "y < T"
    and less: "W < V * B"
  shows "trial B (u0 * B + u1) u2 v1 v2 < B \<and> W div V \<le> trial B (u0 * B + u1) u2 v1 v2 \<and>
    trial B (u0 * B + u1) u2 v1 v2 \<le> W div V + 1"
proof -
  define D where "D = u0 * B + u1"
  define q where "q = W div V"
  define qp where "qp = D div v1"
  define rp where "rp = D mod v1"
  have v1: "0 < v1" using B by simp
  then have V: "0 < V" using B low by (auto simp: V_def)
  have W: "W = (D * B + u2) * T + y" by (simp add: W_def D_def)
  have qV: "q * ((v1 * B + v2) * T + x) \<le> (D * B + u2) * T + y"
    using div_times_less_eq_dividend [of W V] by (simp add: q_def W V_def)
  have qI: "d \<le> q" if "d * ((v1 * B + v2) * T + x) \<le> (D * B + u2) * T + y" for d
    using that V by (simp add: q_def W V_def less_eq_div_iff_mult_less_eq)
  have qB: "q < B" using less by (simp add: q_def less_mult_imp_div_less mult.commute)
  have D: "D = qp * v1 + rp" by (simp add: qp_def rp_def)
  have u0: "u0 \<le> v1" using leading_digit_le [of u0 B u1 u2 T y v1 v2 x] less B low by (simp add: W_def V_def)
  have qp: "q \<le> qp" "qp \<le> B + 1"
    using trial_ge [OF qV low(2) B(6) v1] trial_first_le [OF u0 B(5,2)] B(1) by (simp_all add: qp_def D_def)
  have "B \<le> v1 * B" using v1 by simp
  then have big: "B \<le> v1 * B + v2" by linarith
  have keep: "d \<le> q + 1" if "D = d * v1 + r" "d * v2 \<le> B * r + u2" "d \<le> B + 1" for d r
  proof (cases d)
    case (Suc e)
    then show ?thesis using qI [of e] trial_keep [of x T D e v1 r v2 B u2 y] that low big by simp
  qed simp
  have dec: "q < d" if "D = d * v1 + r" "d = B \<or> B * r + u2 < d * v2" for d r
    using that qB trial_decrease [OF qV low(2)] by blast
  have D': "D = (qp - 1) * v1 + (rp + v1)" if "0 < qp" using that D by (cases qp) simp_all
  have result: "trial B D u2 v1 v2 < B \<and> q \<le> trial B D u2 v1 v2 \<and> trial B D u2 v1 v2 \<le> q + 1"
  proof (cases "qp = B \<or> B * rp + u2 < qp * v2")
    case False
    then show ?thesis using keep [OF D] qp qB by (auto simp: trial_def Let_def qp_def rp_def)
  next
    case t1: True
    note dec1 = dec [OF D t1]
    then have qp1: "0 < qp" "qp - 1 \<le> B" using qp by auto
    note D1 = D' [OF qp1(1)]
    show ?thesis
    proof (cases "rp + v1 < B \<and> (qp - 1 = B \<or> B * (rp + v1) + u2 < (qp - 1) * v2)")
      case t2: True
      then have "q < qp - 1" using dec [OF D1] by simp
      then have e: "qp = (qp - 2) + 2" "q \<le> qp - 2" by simp_all
      have "D = (qp - 2 + 2) * v1 + rp" using e(1) D by simp
      then have "qp - 2 \<le> q" using qp(2) B(2) by (intro qI trial_two [OF low(1) B(4)]) auto
      then show ?thesis using t1 t2 e(2) qB by (simp add: trial_def Let_def qp_def rp_def numeral_2_eq_2)
    next
      case t2: False
      have r: "qp - 1 < B \<and> qp - 1 \<le> q + 1"
      proof (cases "rp + v1 < B")
        case True
        with t2 have "qp - 1 \<noteq> B" "(qp - 1) * v2 \<le> B * (rp + v1) + u2" by auto
        then show ?thesis using keep [OF D1] qp1 by simp
      next
        case False
        have "u0 * B \<le> v1 * B" using u0 by simp
        then have "D < v1 * B + B" using B(5) unfolding D_def by linarith
        then have "D < B * v1 + B" by (simp only: mult.commute)
        then have lt: "qp - 1 < B" using D1 False qp1(2) by (cases "qp - 1 = B") auto
        have "(qp - 1) * v2 \<le> B * B" using lt B(4) by (intro mult_le_mono) simp_all
        also have "\<dots> \<le> B * (rp + v1)" using False by (intro mult_le_mono2) simp
        finally show ?thesis using keep [OF D1] lt by simp
      qed
      have "trial B D u2 v1 v2 = qp - 1" using t1 t2 by (auto simp: trial_def Let_def qp_def rp_def)
      then show ?thesis using r dec1 by simp
    qed
  qed
  then show ?thesis by (simp add: D_def q_def)
qed

end
