(* ===== verification/KnuthDivision.thy ===== *)
theory KnuthDivision
  imports WideIntMul KnuthEstimate
begin

unbundle bit_operations_syntax

text \<open>
  Long division of arrays of 32-bit digits: \<open>KnuthDiv\<close> of \<open>APInt.cpp\<close>, which is Algorithm D of
  Knuth, with its normalisation, the trial digits, the multiply-and-subtract step and the
  correction when a trial digit was one too large.
\<close>

type_synonym digit = "32 word"

fun dg_value :: "digit list \<Rightarrow> nat" where
  "dg_value [] = 0"
| "dg_value (d # ds) = unat d + 2 ^ 32 * dg_value ds"

definition Hi_32 :: "64 word \<Rightarrow> digit" where
  "Hi_32 Value = ucast (drop_bit 32 Value)"

definition Lo_32 :: "64 word \<Rightarrow> digit" where
  "Lo_32 Value = ucast Value"

definition Make_64 :: "digit \<Rightarrow> digit \<Rightarrow> 64 word" where
  "Make_64 High Low = push_bit 32 (ucast High) OR ucast Low"

text \<open>The steps of the algorithm. A signed 64-bit value is an integer; none of them leaves the range.\<close>

fun shl_digits :: "nat \<Rightarrow> digit list \<Rightarrow> digit \<Rightarrow> digit list \<times> digit" where
  "shl_digits shift [] carry = ([], carry)"
| "shl_digits shift (u # us) carry =
    (let u_tmp = drop_bit (32 - shift) u; (us', carry') = shl_digits shift us u_tmp
     in ((push_bit shift u OR carry) # us', carry'))"

fun shr_digits :: "nat \<Rightarrow> digit list \<Rightarrow> digit \<Rightarrow> digit list" where
  "shr_digits shift [] carry = []"
| "shr_digits shift (u # us) carry =
    (drop_bit shift u OR carry) # shr_digits shift us (push_bit (32 - shift) u)"

definition normalise :: "nat \<Rightarrow> digit list \<Rightarrow> digit list \<times> digit" where
  "normalise shift us = (if shift \<noteq> 0 then shl_digits shift us 0 else (us, 0))"

definition unnormalise :: "nat \<Rightarrow> digit list \<Rightarrow> digit list" where
  "unnormalise shift us = (if shift \<noteq> 0 then rev (shr_digits shift (rev us) 0) else us)"

definition too_large :: "64 word \<Rightarrow> 64 word \<Rightarrow> digit \<Rightarrow> digit \<Rightarrow> bool" where
  "too_large qp rp v2 u2 \<longleftrightarrow> qp = 2 ^ 32 \<or> 2 ^ 32 * rp + ucast u2 < qp * ucast v2"

definition trial_digit :: "digit \<Rightarrow> digit \<Rightarrow> digit \<Rightarrow> digit \<Rightarrow> digit \<Rightarrow> 64 word" where
  "trial_digit u0 u1 u2 v1 v2 =
    (let dividend = Make_64 u0 u1; qp = dividend div ucast v1; rp = dividend mod ucast v1
     in if too_large qp rp v2 u2
        then let qp = qp - 1; rp = rp + ucast v1
             in if rp < 2 ^ 32 \<and> too_large qp rp v2 u2 then qp - 1 else qp
        else qp)"

fun mulsub_loop :: "64 word \<Rightarrow> digit list \<Rightarrow> digit list \<Rightarrow> int \<Rightarrow> digit list \<times> int" where
  "mulsub_loop qp (u # us) (v # vs) borrow =
    (let p = qp * ucast v;
         subres = uint u - borrow - uint (Lo_32 p);
         (us', borrow') = mulsub_loop qp us vs (uint (Hi_32 p - Hi_32 (word_of_int subres)))
     in (Lo_32 (word_of_int subres) # us', borrow'))"
| "mulsub_loop qp us vs borrow = (us, borrow)"

fun addback_loop :: "digit list \<Rightarrow> digit list \<Rightarrow> bool \<Rightarrow> digit list \<times> bool" where
  "addback_loop (u # us) (v # vs) carry =
    (let limit = min u v; u' = u + (v + of_bool carry);
         (us', carry') = addback_loop us vs (u' < limit \<or> carry \<and> u' = limit)
     in (u' # us', carry'))"
| "addback_loop us vs carry = (us, carry)"

definition knuth_step :: "digit list \<Rightarrow> nat \<Rightarrow> digit list \<Rightarrow> digit list \<Rightarrow> digit list \<times> digit list" where
  "knuth_step v j u q =
    (let n = length v;
         qp = trial_digit (u ! (j + n)) (u ! (j + n - 1)) (u ! (j + n - 2)) (v ! (n - 1)) (v ! (n - 2));
         (w, borrow) = mulsub_loop qp (take n (drop j u)) v 0;
         isNeg = uint (u ! (j + n)) < borrow;
         top = u ! (j + n) - Lo_32 (word_of_int borrow);
         q = q[j := Lo_32 qp]
     in if isNeg
        then let q = q[j := q ! j - 1]; (w, carry) = addback_loop w v False
             in (take j u @ w @ (top + of_bool carry) # drop (Suc (j + n)) u, q)
        else (take j u @ w @ top # drop (Suc (j + n)) u, q))"

fun knuth_loop :: "digit list \<Rightarrow> nat \<Rightarrow> digit list \<Rightarrow> digit list \<Rightarrow> digit list \<times> digit list" where
  "knuth_loop v 0 u q = knuth_step v 0 u q"
| "knuth_loop v (Suc j) u q = (let (u, q) = knuth_step v (Suc j) u q in knuth_loop v j u q)"

definition KnuthDiv :: "digit list \<Rightarrow> digit list \<Rightarrow> digit list \<Rightarrow> digit list option \<Rightarrow> int \<Rightarrow> nat \<Rightarrow>
    (digit list \<times> digit list option) result" where
  "KnuthDiv u v q r m n =
    rbind (check_assert (1 < n) ''n must be > 1'') (\<lambda>_.
    if m < 0 \<or> int (length u) \<le> m + int n \<or> length v < n \<or> int (length q) \<le> m
    then Inl (UndefinedBehaviour ''index out of range'')
    else rbind (countLeadingZeros (v ! (n - 1)) ZB_Width) (\<lambda>shift.
    if shift = 32 then Inl (UndefinedBehaviour ''shift by the width of the type'')
    else let j = nat m;
             (us, u_carry) = normalise shift (take (j + n) u);
             (v, _) = normalise shift (take n v);
             (u, q) = knuth_loop v j (us @ u_carry # drop (Suc (j + n)) u) q
         in Inr (q, map_option (\<lambda>r. unnormalise shift (take n u) @ drop n r) r)))"

section \<open>Values of arrays of digits\<close>

lemma unat_digit_less: "unat (d :: digit) < 2 ^ 32"
  using unsigned_less [of d, where ?'a = nat] by simp

lemma unat_digit_mod [simp]: "unat (d :: digit) mod 4294967296 = unat d"
  using unat_digit_less [of d] by simp

lemma unat_ucast_digit: "unat (ucast (d :: digit) :: 64 word) = unat d"
  using unat_digit_less [of d] by (simp add: unsigned_ucast_eq take_bit_eq_mod)

lemma unat_drop_digit: "unat (drop_bit k (d :: digit)) = unat d div 2 ^ k"
  by (subst unsigned_drop_bit_eq) (simp add: drop_bit_eq_div take_bit_eq_mod)

lemma dg_value_append: "dg_value (xs @ ys) = dg_value xs + 2 ^ (32 * length xs) * dg_value ys"
  by (induction xs) (simp_all add: algebra_simps power_add)

lemma dg_value_less: "dg_value ds < 2 ^ (32 * length ds)"
proof (induction ds)
  case (Cons d ds)
  have "unat d + 2 ^ 32 * dg_value ds < 2 ^ 32 + 2 ^ 32 * dg_value ds" using unat_digit_less [of d] by simp
  also have "\<dots> = 2 ^ 32 * (dg_value ds + 1)" by simp
  also have "\<dots> \<le> 2 ^ 32 * 2 ^ (32 * length ds)" using Cons by (intro mult_le_mono2) simp
  finally show ?case by (simp add: power_add)
qed simp

lemma dg_value_replicate_0 [simp]: "dg_value (replicate n 0) = 0"
  by (induction n) simp_all

lemma unat_Lo_32: "unat (Lo_32 p) = unat p mod 2 ^ 32"
  by (simp add: Lo_32_def unsigned_ucast_eq take_bit_eq_mod)

lemma unat_Hi_32: "unat (Hi_32 p) = unat p div 2 ^ 32"
proof -
  have "unat p div 2 ^ 32 < 2 ^ 32" using unat_part_less [of p] by (simp add: less_mult_imp_div_less)
  then show ?thesis unfolding Hi_32_def
    by (subst unsigned_ucast_eq, subst unsigned_drop_bit_eq) (simp add: take_bit_eq_mod drop_bit_eq_div)
qed

lemma unat_Make_64: "unat (Make_64 h l) = unat h * 2 ^ 32 + unat l"
proof -
  have "push_bit 32 (ucast h :: 64 word) OR ucast l = push_bit 32 (ucast h) + ucast l"
    by (intro disjunctive_add [symmetric]) (auto simp: bit_simps dest: bit_imp_le_length)
  moreover have "unat (push_bit 32 (ucast h) :: 64 word) = unat h * 2 ^ 32"
    using unat_digit_less [of h]
    by (subst unsigned_push_bit_eq) (simp add: push_bit_eq_mult take_bit_eq_mod unsigned_ucast_eq)
  moreover have "unat (ucast l :: 64 word) = unat l" using unat_digit_less [of l] by (simp add: unsigned_ucast_eq take_bit_eq_mod)
  ultimately show ?thesis using unat_digit_less [of h] unat_digit_less [of l]
    by (simp add: Make_64_def unat_part_add)
qed


section \<open>Normalisation\<close>

lemma shl_digit_step:
  assumes s: "0 < s" "s < 32" and c: "unat c < 2 ^ s"
  shows "unat (push_bit s u OR c :: digit) + 2 ^ 32 * unat (drop_bit (32 - s) u) = unat u * 2 ^ s + unat c"
    and "unat (drop_bit (32 - s) u) < 2 ^ s"
proof -
  have c': "i < s" if "bit c i" for i
  proof -
    from that have "bit (unat c) i" by (simp add: bit_unsigned_iff)
    with c show ?thesis by (metis bit_take_bit_iff take_bit_nat_eq_self)
  qed
  have "push_bit s u OR c = push_bit s u + c"
    by (intro disjunctive_add [symmetric]) (auto simp: bit_simps dest: c')
  moreover have p: "unat (push_bit s u) = unat u * 2 ^ s mod 2 ^ 32"
    by (subst unsigned_push_bit_eq) (simp add: push_bit_eq_mult take_bit_eq_mod)
  have e: "(2 :: nat) ^ 32 = 2 ^ (32 - s) * 2 ^ s" using s by (simp flip: power_add)
  have m: "unat u * 2 ^ s mod 2 ^ 32 = (unat u mod 2 ^ (32 - s)) * 2 ^ s" unfolding e by (rule mult_mod_left [symmetric])
  have "(unat u mod 2 ^ (32 - s) + 1) * 2 ^ s \<le> 2 ^ (32 - s) * 2 ^ s"
    by (intro mult_le_mono1) (simp add: Suc_le_eq)
  then have "unat (push_bit s u) + unat c < 2 ^ 32" using c p m e by (simp add: algebra_simps)
  ultimately have o: "unat (push_bit s u OR c) = unat (push_bit s u) + unat c"
    by (simp add: unat_word_ariths)
  have d: "unat (drop_bit (32 - s) u) = unat u div 2 ^ (32 - s)"
    by (rule unat_drop_digit)
  show "unat (push_bit s u OR c :: digit) + 2 ^ 32 * unat (drop_bit (32 - s) u) = unat u * 2 ^ s + unat c"
  proof -
    have "unat u * 2 ^ s = (unat u mod 2 ^ (32 - s) + 2 ^ (32 - s) * (unat u div 2 ^ (32 - s))) * 2 ^ s"
      by simp
    also have "\<dots> = unat u mod 2 ^ (32 - s) * 2 ^ s + 2 ^ 32 * (unat u div 2 ^ (32 - s))"
      unfolding e by (simp only: algebra_simps)
    finally show ?thesis unfolding o d p m by linarith
  qed
  show "unat (drop_bit (32 - s) u) < 2 ^ s" unfolding d
    using unat_digit_less [of u] e by (intro less_mult_imp_div_less) (simp add: mult.commute)
qed

lemma shl_digits_value:
  assumes "0 < s" "s < 32"
  shows "unat c < 2 ^ s \<Longrightarrow> shl_digits s us c = (us', c') \<Longrightarrow>
    length us' = length us \<and> unat c' < 2 ^ s \<and>
    dg_value us' + 2 ^ (32 * length us) * unat c' = dg_value us * 2 ^ s + unat c"
proof (induction us arbitrary: c us')
  case (Cons u us)
  from Cons.prems(2) obtain ws where
    ws: "shl_digits s us (drop_bit (32 - s) u) = (ws, c')" "us' = (push_bit s u OR c) # ws"
    by (auto simp: Let_def split: prod.splits)
  note st = shl_digit_step [OF assms Cons.prems(1), of u]
  note ih = Cons.IH [OF st(2) ws(1)]
  have "unat (push_bit s u OR c) + 2 ^ 32 * (dg_value ws + 2 ^ (32 * length us) * unat c') =
      unat u * 2 ^ s + unat c + 2 ^ 32 * (dg_value us * 2 ^ s)"
    using ih st(1) by (simp add: algebra_simps)
  then show ?case using ih ws(2) by (simp add: algebra_simps power_add)
qed simp

lemma unat_push_digit:
  assumes "s < 32"
  shows "unat (push_bit (32 - s) (u :: digit)) = (unat u mod 2 ^ s) * 2 ^ (32 - s)"
proof -
  have e: "(2 :: nat) ^ 32 = 2 ^ s * 2 ^ (32 - s)" using assms by (simp flip: power_add)
  have "unat (push_bit (32 - s) u) = unat u * 2 ^ (32 - s) mod 2 ^ 32"
    by (subst unsigned_push_bit_eq) (simp add: push_bit_eq_mult take_bit_eq_mod)
  then show ?thesis unfolding e by (simp only: mult_mod_left)
qed

lemma unat_drop_or:
  assumes x: "x < 2 ^ s" "unat c = x * 2 ^ (32 - s)" and s: "s < 32"
  shows "unat (drop_bit s u OR c :: digit) = unat u div 2 ^ s + x * 2 ^ (32 - s)"
proof -
  have d: "unat (drop_bit s u) = unat u div 2 ^ s"
    by (rule unat_drop_digit)
  have c: "32 - s \<le> i" if "bit c i" for i
  proof -
    from that have "bit (unat c) i" by (simp add: bit_unsigned_iff)
    then have "bit (push_bit (32 - s) x) i" using x by (simp add: push_bit_eq_mult)
    then show ?thesis by (simp add: bit_push_bit_iff)
  qed
  have "drop_bit s u OR c = drop_bit s u + c"
    using c s by (intro disjunctive_add [symmetric]) (auto simp: bit_simps dest!: bit_imp_le_length c)
  moreover have "unat u div 2 ^ s + x * 2 ^ (32 - s) < 2 ^ 32"
  proof -
    have e: "(2 :: nat) ^ 32 = 2 ^ s * 2 ^ (32 - s)" using s by (simp flip: power_add)
    have "unat u div 2 ^ s < 2 ^ (32 - s)" using unat_digit_less [of u] e by (intro less_mult_imp_div_less) (simp add: mult.commute)
    moreover have "(x + 1) * 2 ^ (32 - s) \<le> 2 ^ s * 2 ^ (32 - s)" using x(1) by (intro mult_le_mono1) simp
    ultimately show ?thesis unfolding e by (simp add: algebra_simps)
  qed
  ultimately show ?thesis using d x(2) by (simp add: unat_word_ariths)
qed

lemma shr_digits_value:
  assumes "s < 32"
  shows "x < 2 ^ s \<Longrightarrow> unat c = x * 2 ^ (32 - s) \<Longrightarrow>
    length (shr_digits s hs c) = length hs \<and>
    dg_value (rev (shr_digits s hs c)) = (dg_value (rev hs) + 2 ^ (32 * length hs) * x) div 2 ^ s"
proof (induction hs arbitrary: x c)
  case (Cons u us)
  let ?L = "2 ^ (32 * length us) :: nat" and ?u = "unat u"
  have p: "unat (push_bit (32 - s) u) = (?u mod 2 ^ s) * 2 ^ (32 - s)" by (rule unat_push_digit [OF assms])
  have "?u mod 2 ^ s < 2 ^ s" by simp
  note ih = Cons.IH [OF this p]
  have o: "unat (drop_bit s u OR c) = ?u div 2 ^ s + x * 2 ^ (32 - s)"
    using Cons.prems assms by (rule unat_drop_or)
  have "dg_value (rev us) + ?L * ?u + ?L * 2 ^ 32 * x =
      dg_value (rev us) + ?L * (?u mod 2 ^ s) + 2 ^ s * (?L * (?u div 2 ^ s + x * 2 ^ (32 - s)))"
  proof -
    have "?L * ?u = ?L * (?u mod 2 ^ s) + 2 ^ s * (?L * (?u div 2 ^ s))"
    proof -
      have "?L * (?u mod 2 ^ s + 2 ^ s * (?u div 2 ^ s)) = ?L * (?u mod 2 ^ s) + 2 ^ s * (?L * (?u div 2 ^ s))"
        by (simp only: distrib_left mult.left_commute)
      then show ?thesis by (simp only: mod_mult_div_eq)
    qed
    moreover have "?L * 2 ^ 32 * x = 2 ^ s * (?L * (x * 2 ^ (32 - s)))"
    proof -
      have "(2 :: nat) ^ 32 = 2 ^ s * 2 ^ (32 - s)" using assms by (simp flip: power_add)
      then show ?thesis by (simp only: mult_ac)
    qed
    ultimately show ?thesis by (simp only: distrib_left add.assoc)
  qed
  then have "(dg_value (rev us) + ?L * ?u + ?L * 2 ^ 32 * x) div 2 ^ s =
      (dg_value (rev us) + ?L * (?u mod 2 ^ s)) div 2 ^ s + ?L * (?u div 2 ^ s + x * 2 ^ (32 - s))"
    by (simp only: div_mult_self2 power_not_zero zero_neq_numeral not_False_eq_True)
  then show ?case using ih o by (simp add: dg_value_append power_add mult.assoc mult.left_commute)
qed simp


section \<open>Multiply and subtract, add back\<close>

lemma uint_Lo_32: "uint (Lo_32 (word_of_int k)) = k mod 2 ^ 32"
  by (simp add: Lo_32_def unsigned_ucast_eq take_bit_eq_mod uint_word_of_int mod_mod_cancel)

lemma Hi_32_word_of_int: "Hi_32 (word_of_int k) = word_of_int (k div 2 ^ 32)"
proof -
  have "Hi_32 (word_of_int k) = word_of_int (drop_bit 32 k)"
    by (rule bit_word_eqI) (simp add: Hi_32_def bit_simps)
  then show ?thesis by (simp only: drop_bit_eq_div)
qed

lemma borrow_range:
  fixes l x b u d :: int
  assumes "l + x + b = u + 2 ^ 32 * d" "0 \<le> u" "l \<le> 2 ^ 32 - 1" "0 \<le> x" "x \<le> 18446744065119617025"
    "0 \<le> b" "b < 2 ^ 32" "u \<le> 2 ^ 32 - 1" "0 \<le> l"
  shows "0 \<le> d" "d < 2 ^ 32"
  using assms by simp_all

lemma mulsub_step:
  fixes qp :: "64 word" and u v :: digit and borrow :: int
  assumes q: "unat qp < 2 ^ 32" and b: "0 \<le> borrow" "borrow < 2 ^ 32"
  defines "p \<equiv> qp * ucast v"
  defines "subres \<equiv> uint u - borrow - uint (Lo_32 p)"
  defines "b' \<equiv> uint (Hi_32 p - Hi_32 (word_of_int subres))"
  shows "0 \<le> b'" "b' < 2 ^ 32"
    "uint (Lo_32 (word_of_int subres)) + int (unat qp) * uint v + borrow = uint u + 2 ^ 32 * b'"
proof -
  have v: "unat v \<le> 2 ^ 32 - 1" "unat qp \<le> 2 ^ 32 - 1" using unat_digit_less [of v] q by simp_all
  have le: "unat qp * unat v \<le> (2 ^ 32 - 1) * (2 ^ 32 - 1)" using v by (intro mult_le_mono)
  then have p: "unat p = unat qp * unat v"
    by (simp add: p_def unat_word_ariths unat_ucast_digit)
  have hl: "int (unat qp) * uint v = 2 ^ 32 * uint (Hi_32 p) + uint (Lo_32 p)"
  proof -
    have "unat qp * unat v = 2 ^ 32 * unat (Hi_32 p) + unat (Lo_32 p)"
      by (simp only: unat_Hi_32 unat_Lo_32 mult_div_mod_eq p)
    then have "int (unat qp * unat v) = int (2 ^ 32 * unat (Hi_32 p) + unat (Lo_32 p))" by (simp only:)
    then show ?thesis by (simp only: uint_nat of_nat_mult of_nat_add of_nat_power of_nat_numeral)
  qed
  define d where "d = uint (Hi_32 p) - subres div 2 ^ 32"
  have eq: "uint (Lo_32 (word_of_int subres)) + int (unat qp) * uint v + borrow = uint u + 2 ^ 32 * d"
  proof -
    have "2 ^ 32 * (subres div 2 ^ 32) + subres mod 2 ^ 32 = uint u - borrow - uint (Lo_32 p)"
      by (simp only: mult_div_mod_eq subres_def)
    then show ?thesis unfolding hl uint_Lo_32 d_def right_diff_distrib by linarith
  qed
  have r: "uint u \<le> 2 ^ 32 - 1" "0 \<le> uint u" "uint (Lo_32 (word_of_int subres)) \<le> 2 ^ 32 - 1"
    "0 \<le> uint (Lo_32 (word_of_int subres))"
    using uint_lt2p [of u] uint_lt2p [of "Lo_32 (word_of_int subres)"] by simp_all
  have "int (unat qp) * uint v = int (unat qp * unat v)" by (simp only: uint_nat of_nat_mult)
  moreover have "unat qp * unat v \<le> 18446744065119617025" using le by simp
  ultimately have "int (unat qp) * uint v \<le> 18446744065119617025" "0 \<le> int (unat qp) * uint v" by linarith+
  then have d: "0 \<le> d" "d < 2 ^ 32" using borrow_range [OF eq r(2,3) _ _ b r(1,4)] by blast+
  have "Hi_32 p - Hi_32 (word_of_int subres) = word_of_int d"
    by (simp add: Hi_32_word_of_int d_def)
  then have "b' = d" using d by (simp add: b'_def uint_word_of_int)
  then show "0 \<le> b'" "b' < 2 ^ 32"
    "uint (Lo_32 (word_of_int subres)) + int (unat qp) * uint v + borrow = uint u + 2 ^ 32 * b'"
    using d eq by simp_all
qed

lemma mulsub_loop_value:
  assumes "unat qp < 2 ^ 32"
  shows "length us = length vs \<Longrightarrow> 0 \<le> b \<Longrightarrow> b < 2 ^ 32 \<Longrightarrow> mulsub_loop qp us vs b = (us', b') \<Longrightarrow>
    length us' = length us \<and> 0 \<le> b' \<and> b' < 2 ^ 32 \<and>
    int (dg_value us') + int (unat qp) * int (dg_value vs) + b = int (dg_value us) + 2 ^ (32 * length us) * b'"
proof (induction us vs arbitrary: b us' rule: list_induct2')
  case (4 u us v vs)
  define p where "p = qp * ucast v"
  define subres where "subres = uint u - b - uint (Lo_32 p)"
  define c where "c = uint (Hi_32 p - Hi_32 (word_of_int subres))"
  obtain ws where ws: "mulsub_loop qp us vs c = (ws, b')" "us' = Lo_32 (word_of_int subres) # ws"
    using "4.prems"(4) by (auto simp: Let_def p_def subres_def c_def split: prod.splits)
  note st = mulsub_step [OF assms "4.prems"(2,3), where u = u and v = v, folded p_def, folded subres_def, folded c_def]
  have ih: "length ws = length us" "0 \<le> b'" "b' < 2 ^ 32"
    "int (dg_value ws) + int (unat qp) * int (dg_value vs) + c = int (dg_value us) + 2 ^ (32 * length us) * b'"
    using "4.IH" [OF _ st(1,2) ws(1)] "4.prems"(1) by auto
  have len: "(2 :: int) ^ (32 * length (u # us)) = 2 ^ 32 * 2 ^ (32 * length us)"
    by (simp add: power_add)
  have cons: "int (dg_value (d # ds)) = uint d + 2 ^ 32 * int (dg_value ds)" for d ds
    by (simp only: dg_value.simps uint_nat of_nat_add of_nat_mult of_nat_power of_nat_numeral)
  have "uint (Lo_32 (word_of_int subres)) + 2 ^ 32 * int (dg_value ws) +
      int (unat qp) * (uint v + 2 ^ 32 * int (dg_value vs)) + b =
      uint u + 2 ^ 32 * int (dg_value us) + 2 ^ 32 * 2 ^ (32 * length us) * b'"
  proof -
    have "2 ^ 32 * (int (dg_value ws) + int (unat qp) * int (dg_value vs) + c) =
        2 ^ 32 * (int (dg_value us) + 2 ^ (32 * length us) * b')" by (simp only: ih(4))
    then show ?thesis using st(3) by (simp only: distrib_left mult.assoc mult.left_commute [of _ "2 ^ 32"])
  qed
  then show ?case using ih(1-3) unfolding ws(2) len cons by simp
qed auto

lemma addback_step:
  fixes u v :: digit and c :: bool
  defines "u' \<equiv> u + (v + of_bool c)"
  shows "unat u' + 2 ^ 32 * of_bool (u' < min u v \<or> c \<and> u' = min u v) = unat u + unat v + of_bool c"
proof -
  let ?s = "unat u + unat v + of_bool c"
  have b: "unat u < 2 ^ 32" "unat v < 2 ^ 32" by (rule unat_digit_less)+
  have "unat (v + of_bool c) = (unat v + of_bool c) mod 2 ^ 32" by (simp add: unat_word_ariths)
  then have "unat u' = (unat u + (unat v + of_bool c) mod 2 ^ 32) mod 2 ^ 32"
    by (simp add: u'_def unat_word_ariths)
  then have w: "unat u' = ?s mod 2 ^ 32" by (simp add: mod_add_right_eq add.assoc)
  have m: "unat (min u v) = min (unat u) (unat v)" by (simp add: min_def word_le_nat_alt)
  have f: "u' < min u v \<longleftrightarrow> unat u' < min (unat u) (unat v)" "u' = min u v \<longleftrightarrow> unat u' = min (unat u) (unat v)"
    by (simp_all only: word_less_nat_alt word_unat_eq_iff m)
  show ?thesis
  proof (cases "?s < 2 ^ 32")
    case True
    with w have "unat u' = ?s" by simp
    then show ?thesis unfolding f by (auto simp: min_def)
  next
    case False
    then have "?s mod 2 ^ 32 = ?s - 2 ^ 32" using b by (subst mod_if, subst mod_less) (auto split: if_splits)
    with w have e: "unat u' = ?s - 2 ^ 32" by simp
    have "u' < min u v \<or> c \<and> u' = min u v"
      unfolding f e using b False by (cases c; cases "unat u \<le> unat v") (simp_all add: min_def, linarith+)
    then show ?thesis using e False by simp
  qed
qed

lemma addback_loop_value:
  "length us = length vs \<Longrightarrow> addback_loop us vs c = (us', c') \<Longrightarrow>
   length us' = length us \<and> dg_value us' + 2 ^ (32 * length us) * of_bool c' = dg_value us + dg_value vs + of_bool c"
proof (induction us vs arbitrary: c us' rule: list_induct2')
  case (4 u us v vs)
  define w where "w = u + (v + of_bool c)"
  define d where "d \<longleftrightarrow> w < min u v \<or> c \<and> w = min u v"
  obtain ws where ws: "addback_loop us vs d = (ws, c')" "us' = w # ws"
    using "4.prems"(2) by (auto simp: Let_def w_def d_def split: prod.splits)
  note st = addback_step [of u v c, folded w_def, folded d_def]
  have ih: "length ws = length us"
    "dg_value ws + 2 ^ (32 * length us) * of_bool c' = dg_value us + dg_value vs + of_bool d"
    using "4.IH" [OF _ ws(1)] "4.prems"(1) by auto
  have "unat w + 2 ^ 32 * (dg_value ws + 2 ^ (32 * length us) * of_bool c') =
      unat u + 2 ^ 32 * dg_value us + (unat v + 2 ^ 32 * dg_value vs) + of_bool c"
    using st ih(2) by (simp add: algebra_simps)
  then show ?case using ih(1) ws(2) by (simp add: algebra_simps power_add)
qed auto


section \<open>The trial digit\<close>

lemma unat_mult_small: "unat a * unat b < 2 ^ 64 \<Longrightarrow> unat (a * b :: 64 word) = unat a * unat b"
  by (simp add: unat_word_ariths)

lemma unat_add_small: "unat a + unat b < 2 ^ 64 \<Longrightarrow> unat (a + b :: 64 word) = unat a + unat b"
  by (simp add: unat_word_ariths)

lemma unat_base: "unat (2 ^ 32 :: 64 word) = 2 ^ 32"
  by simp

lemma too_large_iff:
  assumes "unat qp \<le> 2 ^ 32 + 1" "unat rp < 2 ^ 32"
  shows "too_large qp rp v2 u2 \<longleftrightarrow> unat qp = 2 ^ 32 \<or> 2 ^ 32 * unat rp + unat u2 < unat qp * unat v2"
proof -
  have "unat qp * unat v2 \<le> (2 ^ 32 + 1) * (2 ^ 32 - 1)"
    using assms(1) unat_digit_less [of v2] by (intro mult_le_mono) simp_all
  then have q: "unat (qp * ucast v2) = unat qp * unat v2"
    using unat_mult_small [of qp "ucast v2"] by (simp add: unat_ucast_digit)
  have m: "unat (2 ^ 32 * rp) = 2 ^ 32 * unat rp"
    using unat_mult_small [of "2 ^ 32" rp] assms(2) by (simp add: unat_base)
  have "2 ^ 32 * unat rp + unat u2 < 2 ^ 64" using assms(2) unat_digit_less [of u2] by simp
  then have "unat (2 ^ 32 * rp + ucast u2) = 2 ^ 32 * unat rp + unat u2"
    using unat_add_small [of "2 ^ 32 * rp" "ucast u2"] m by (simp only: unat_ucast_digit)
  moreover have "qp = 2 ^ 32 \<longleftrightarrow> unat qp = 2 ^ 32" by (simp only: word_unat_eq_iff unat_base)
  ultimately show ?thesis using q by (simp only: too_large_def word_less_nat_alt)
qed

lemma unat_trial_digit:
  assumes D: "(unat u0 * 2 ^ 32 + unat u1) div unat v1 \<le> 2 ^ 32 + 1" and v1: "0 < unat v1"
  shows "unat (trial_digit u0 u1 u2 v1 v2) =
    trial (2 ^ 32) (unat u0 * 2 ^ 32 + unat u1) (unat u2) (unat v1) (unat v2)"
proof -
  define D' where "D' = unat u0 * 2 ^ 32 + unat u1"
  define qp where "qp = Make_64 u0 u1 div ucast v1"
  define rp where "rp = Make_64 u0 u1 mod ucast v1"
  have uq: "unat qp = D' div unat v1" "unat rp = D' mod unat v1"
    by (simp_all only: qp_def rp_def D'_def unat_div_distrib unat_mod_distrib unat_Make_64 unat_ucast_digit)
  have q1: "unat qp \<le> 2 ^ 32 + 1" using D by (simp only: uq D'_def)
  have "D' mod unat v1 < unat v1" using v1 by (rule mod_less_divisor)
  then have r1: "unat rp < 2 ^ 32" using unat_digit_less [of v1] uq(2) by linarith
  note t1 = too_large_iff [OF q1 r1, of v2 u2]
  show ?thesis
  proof (cases "too_large qp rp v2 u2")
    case False
    then have "trial_digit u0 u1 u2 v1 v2 = qp"
      by (simp only: trial_digit_def Let_def qp_def [symmetric] rp_def [symmetric] if_False)
    moreover have "trial (2 ^ 32) D' (unat u2) (unat v1) (unat v2) = unat qp"
      using False t1 by (simp only: trial_def Let_def uq [symmetric] if_False)
    ultimately show ?thesis by (simp only: D'_def)
  next
    case True
    then have pos: "0 < unat qp" using t1 by (cases "unat qp") auto
    have q2: "unat (qp - 1) = unat qp - 1" using pos by (simp add: unat_minus_one word_neq_0_conv unat_gt_0)
    have r2: "unat (rp + ucast v1) = unat rp + unat v1"
      using unat_add_small [of rp "ucast v1"] r1 unat_digit_less [of v1] by (simp add: unat_ucast_digit)
    have q2': "unat (qp - 1) \<le> 2 ^ 32 + 1" using q1 q2 by simp
    have t2: "rp + ucast v1 < 2 ^ 32 \<and> too_large (qp - 1) (rp + ucast v1) v2 u2 \<longleftrightarrow>
        unat rp + unat v1 < 2 ^ 32 \<and> (unat qp - 1 = 2 ^ 32 \<or>
          2 ^ 32 * (unat rp + unat v1) + unat u2 < (unat qp - 1) * unat v2)"
      using too_large_iff [OF q2', of "rp + ucast v1" v2 u2]
      by (auto simp only: word_less_nat_alt unat_base r2 q2)
    have q3: "unat (qp - 1 - 1) = unat qp - 1 - 1" if "0 < unat qp - 1"
    proof -
      have "qp - 1 \<noteq> 0" using that q2 by (metis less_irrefl unat_0)
      from unat_minus_one [OF this] q2 show ?thesis by (simp only:)
    qed
    let ?t2 = "rp + ucast v1 < 2 ^ 32 \<and> too_large (qp - 1) (rp + ucast v1) v2 u2"
    have l: "trial_digit u0 u1 u2 v1 v2 = (if ?t2 then qp - 1 - 1 else qp - 1)"
      using True by (simp only: trial_digit_def Let_def qp_def [symmetric] rp_def [symmetric] if_True)
    have r: "trial (2 ^ 32) D' (unat u2) (unat v1) (unat v2) = (if ?t2 then unat qp - 1 - 1 else unat qp - 1)"
      using True t1 by (simp only: trial_def Let_def uq [symmetric] t2 if_True)
    show ?thesis
    proof (cases ?t2)
      case True
      with t2 have "0 < unat qp - 1" by (cases "unat qp - 1") auto
      with True show ?thesis by (simp only: l r q3 if_True simp_thms flip: D'_def)
    next
      case False
      then show ?thesis by (simp only: l r q2 if_False flip: D'_def)
    qed
  qed
qed

section \<open>One digit of the quotient\<close>

lemma window_split:
  assumes "j + length v < length u" "2 \<le> length v"
  defines "n \<equiv> length v"
  shows "dg_value (take (Suc n) (drop j u)) = dg_value (take n (drop j u)) + 2 ^ (32 * n) * unat (u ! (j + n))"
    and "dg_value (take (Suc n) (drop j u)) =
      ((unat (u ! (j + n)) * 2 ^ 32 + unat (u ! (j + n - 1))) * 2 ^ 32 + unat (u ! (j + n - 2))) * 2 ^ (32 * (n - 2)) +
      dg_value (take (n - 2) (drop j u))"
    and "dg_value v = (unat (v ! (n - 1)) * 2 ^ 32 + unat (v ! (n - 2))) * 2 ^ (32 * (n - 2)) + dg_value (take (n - 2) v)"
proof -
  have snoc: "dg_value (take (Suc k) xs) = dg_value (take k xs) + 2 ^ (32 * k) * unat (xs ! k)" if "k < length xs" for k xs
    using that by (simp add: take_Suc_conv_app_nth dg_value_append)
  obtain k where n: "n = Suc (Suc k)" using assms(2) by (auto simp: n_def numeral_2_eq_2 Suc_le_eq dest!: less_imp_Suc_add)
  show "dg_value (take (Suc n) (drop j u)) = dg_value (take n (drop j u)) + 2 ^ (32 * n) * unat (u ! (j + n))"
    using snoc [of n "drop j u"] assms(1) by (simp add: n_def)
  show "dg_value (take (Suc n) (drop j u)) =
      ((unat (u ! (j + n)) * 2 ^ 32 + unat (u ! (j + n - 1))) * 2 ^ 32 + unat (u ! (j + n - 2))) * 2 ^ (32 * (n - 2)) +
      dg_value (take (n - 2) (drop j u))"
    using snoc [of n "drop j u"] snoc [of "Suc k" "drop j u"] snoc [of k "drop j u"] assms(1)
    by (simp add: n n_def [symmetric] power_add algebra_simps)
  have "take n v = v" by (simp add: n_def)
  then show "dg_value v = (unat (v ! (n - 1)) * 2 ^ 32 + unat (v ! (n - 2))) * 2 ^ (32 * (n - 2)) + dg_value (take (n - 2) v)"
    using snoc [of "Suc k" v] snoc [of k v] n by (simp add: n_def [symmetric] power_add algebra_simps)
qed


lemma unat_Lo_small: "unat p < 2 ^ 32 \<Longrightarrow> unat (Lo_32 p) = unat p"
  by (simp add: unat_Lo_32)

lemma Lo_32_word_of_int: "Lo_32 (word_of_int k) = word_of_int k"
  by (rule bit_word_eqI) (simp add: Lo_32_def bit_simps)

lemma top_digit:
  assumes "0 \<le> uint d - b" "b \<ge> 0"
  shows "int (unat (d - Lo_32 (word_of_int b))) = uint d - b"
proof -
  have "b < 2 ^ 32" using assms(1) uint_lt2p [of d] by simp
  then have "uint (Lo_32 (word_of_int b)) = b" using assms(2) by (simp only: uint_Lo_32) simp
  then have "uint (d - Lo_32 (word_of_int b)) = uint d - b"
    using assms uint_lt2p [of d] by (simp only: uint_word_ariths(2)) (simp add: mod_pos_pos_trivial)
  then show ?thesis by (simp only: uint_nat)
qed

lemma trial_digit_range:
  assumes "j + length v < length u" "2 \<le> length v" "2 ^ 32 \<le> 2 * unat (v ! (length v - 1))"
    and "dg_value (take (Suc (length v)) (drop j u)) < dg_value v * 2 ^ 32"
  defines "W \<equiv> dg_value (take (Suc (length v)) (drop j u))" and "n \<equiv> length v"
  defines "qp \<equiv> trial_digit (u ! (j + n)) (u ! (j + n - 1)) (u ! (j + n - 2)) (v ! (n - 1)) (v ! (n - 2))"
  shows "unat qp < 2 ^ 32" "W div dg_value v \<le> unat qp" "unat qp \<le> W div dg_value v + 1"
proof -
  let ?B = "2 ^ 32 :: nat" and ?T = "2 ^ (32 * (n - 2)) :: nat"
  let ?x = "dg_value (take (n - 2) v)" and ?y = "dg_value (take (n - 2) (drop j u))"
  let ?D = "unat (u ! (j + n)) * ?B + unat (u ! (j + n - 1))"
  note ws = window_split [OF assms(1,2), folded n_def]
  have low: "?x < ?T" "?y < ?T"
    using dg_value_less [of "take (n - 2) v"] dg_value_less [of "take (n - 2) (drop j u)"] assms(1,2)
    by (simp_all add: n_def)
  have less: "(?D * ?B + unat (u ! (j + n - 2))) * ?T + ?y <
      ((unat (v ! (n - 1)) * ?B + unat (v ! (n - 2))) * ?T + ?x) * ?B"
    using assms(4) ws(2,3) by (simp only: n_def)
  note t = trial_correct [OF _ assms(3) [folded n_def] unat_digit_less unat_digit_less unat_digit_less
      unat_digit_less low less, folded ws(2,3)]
  have "unat (u ! (j + n)) \<le> unat (v ! (n - 1))"
    using leading_digit_le [OF less unat_digit_less low(1)] .
  then have "?D div unat (v ! (n - 1)) \<le> ?B + 1"
    using trial_first_le [OF _ unat_digit_less assms(3) [folded n_def]] by simp
  moreover have "0 < unat (v ! (n - 1))" using assms(3) by (cases "unat (v ! (n - 1))") (simp_all add: n_def)
  ultimately have "unat qp = trial ?B ?D (unat (u ! (j + n - 2))) (unat (v ! (n - 1))) (unat (v ! (n - 2)))"
    unfolding qp_def by (rule unat_trial_digit)
  with t show "unat qp < 2 ^ 32" "W div dg_value v \<le> unat qp" "unat qp \<le> W div dg_value v + 1"
    by (simp_all add: W_def n_def [symmetric])
qed


text \<open>
  A step replaces the window of \<open>n + 1\<close> digits by its remainder and writes its quotient; a
  trial digit that was one too large is noticed by the borrow and corrected.
\<close>

lemma knuth_step_value:
  assumes u: "j + length v < length u" and v: "2 \<le> length v" "2 ^ 32 \<le> 2 * unat (v ! (length v - 1))"
    and W: "dg_value (take (Suc (length v)) (drop j u)) < dg_value v * 2 ^ 32"
    and q: "j < length q"
  shows "\<exists>w d. knuth_step v j u q = (take j u @ w @ drop (Suc (j + length v)) u, q[j := d]) \<and>
    length w = Suc (length v) \<and> unat d = dg_value (take (Suc (length v)) (drop j u)) div dg_value v \<and>
    dg_value w = dg_value (take (Suc (length v)) (drop j u)) mod dg_value v"
proof -
  define n where "n = length v"
  define X where "X = dg_value (take (Suc n) (drop j u))"
  define V where "V = dg_value v"
  define qp where "qp = trial_digit (u ! (j + n)) (u ! (j + n - 1)) (u ! (j + n - 2)) (v ! (n - 1)) (v ! (n - 2))"
  define u0 where "u0 = u ! (j + n)"
  define M where "M = (2 :: int) ^ (32 * n)"
  note tr = trial_digit_range [OF u v W, folded n_def, folded qp_def X_def V_def]
  obtain w b where ms: "mulsub_loop qp (take n (drop j u)) v 0 = (w, b)" by fastforce
  have len: "length (take n (drop j u)) = length v" using u by (simp add: n_def)
  have w: "length w = n" "0 \<le> b" "int (dg_value w) + int (unat qp) * int V = int (dg_value (take n (drop j u))) + M * b"
    using mulsub_loop_value [OF tr(1) len _ _ ms] len by (simp_all add: n_def M_def V_def)
  have "X = dg_value (take n (drop j u)) + 2 ^ (32 * n) * unat u0"
    using window_split(1) [OF u v(1)] by (simp only: n_def X_def u0_def)
  then have "int X = int (dg_value (take n (drop j u)) + 2 ^ (32 * n) * unat u0)" by (simp only:)
  then have X: "int X = int (dg_value (take n (drop j u))) + M * uint u0"
    by (simp only: M_def uint_nat of_nat_add of_nat_mult of_nat_power of_nat_numeral)
  have diff: "int X - int (unat qp) * int V = int (dg_value w) + M * (uint u0 - b)"
    using X w(3) by (simp add: right_diff_distrib)
  have M: "int (dg_value w) < M" using dg_value_less [of w] w(1) by (simp add: M_def flip: of_nat_less_iff)
  have V0: "0 < V" using W by (cases V) (simp_all add: V_def)
  have qp32: "unat (Lo_32 qp) = unat qp" by (rule unat_Lo_small [OF tr(1)])
  define t where "t = u0 - Lo_32 (word_of_int b)"
  have step: "knuth_step v j u q = (if uint u0 < b
      then (take j u @ (fst (addback_loop w v False) @ [t + of_bool (snd (addback_loop w v False))]) @
              drop (Suc (j + n)) u, q[j := Lo_32 qp - 1])
      else (take j u @ (w @ [t]) @ drop (Suc (j + n)) u, q[j := Lo_32 qp]))"
    using q ms unfolding knuth_step_def Let_def n_def [symmetric]
    unfolding qp_def [symmetric] unfolding u0_def [symmetric]
    by (simp add: t_def split: prod.splits)
  show ?thesis
  proof (cases "uint u0 < b")
    case False
    then have "0 \<le> M * (uint u0 - b)" by (simp add: M_def)
    with diff have "int (unat qp * V) \<le> int X" by simp
    then have le: "unat qp * V \<le> X" by (simp only: of_nat_le_iff)
    then have "unat qp \<le> X div V" using V0 by (simp add: less_eq_div_iff_mult_less_eq)
    with tr(2) have quot: "unat qp = X div V" by simp
    have "int (dg_value (w @ [t])) = int (dg_value w) + M * (uint u0 - b)"
      using top_digit [of u0 b] False w(1,2) by (simp add: dg_value_append t_def M_def)
    then have "int (dg_value (w @ [t])) = int (X - unat qp * V)" using diff le by (simp add: of_nat_diff)
    then have "dg_value (w @ [t]) = X mod V" using quot by (simp add: minus_div_mult_eq_mod)
    then show ?thesis using False step quot qp32 w(1)
      by (intro exI [of _ "w @ [t]"] exI [of _ "Lo_32 qp"]) (simp add: n_def X_def V_def)
  next
    case True
    obtain w' c where ab: "addback_loop w v False = (w', c)" by fastforce
    have w': "length w' = n" "dg_value w' + 2 ^ (32 * n) * of_bool c = dg_value w + V"
      using addback_loop_value [OF _ ab] w(1) by (simp_all add: n_def V_def)
    have "M * (uint u0 - b) \<le> M * (- 1)" using True by (intro mult_left_mono) (simp_all add: M_def)
    with diff M have "int X < int (unat qp * V)" by simp
    then have "X < unat qp * V" by (simp only: of_nat_less_iff)
    then have "X div V < unat qp" using V0 by (simp add: less_mult_imp_div_less mult.commute)
    with tr(3) have quot: "unat qp = X div V + 1" by simp
    have "int X - int (X div V) * int V = int (dg_value w') + M * (uint u0 - b + of_bool c)"
    proof -
      have "int (dg_value w' + 2 ^ (32 * n) * of_bool c) = int (dg_value w + V)" by (simp only: w'(2))
      then have "int (dg_value w') + M * of_bool c = int (dg_value w) + int V" by (simp add: M_def)
      then show ?thesis using diff quot by (simp add: algebra_simps)
    qed
    then have rem: "int (X mod V) = int (dg_value w') + M * (uint u0 - b + of_bool c)"
      by (simp only: of_nat_mod of_nat_div minus_div_mult_eq_mod)
    define e where "e = uint u0 - b + of_bool c"
    have "X mod V < V" "V < 2 ^ (32 * n)" "dg_value w' < 2 ^ (32 * n)"
      using V0 dg_value_less [of v] dg_value_less [of w'] w'(1) by (simp_all add: V_def n_def)
    then have r: "int (X mod V) < M" "int (dg_value w') < M"
      unfolding M_def by (simp_all flip: of_nat_less_iff)
    have "e = 0"
    proof (rule ccontr)
      assume "e \<noteq> 0"
      then have "M * 1 \<le> M * e \<or> M * e \<le> M * (- 1)"
      proof (cases "1 \<le> e")
        case True
        then show ?thesis by (intro disjI1 mult_left_mono) (simp_all add: M_def)
      next
        case False
        with \<open>e \<noteq> 0\<close> show ?thesis by (intro disjI2 mult_left_mono) (simp_all add: M_def)
      qed
      then show False using rem [folded e_def] r of_nat_0_le_iff [of "X mod V"] of_nat_0_le_iff [of "dg_value w'"]
        by (elim disjE) linarith+
    qed
    then have "t + of_bool c = word_of_int 0"
      unfolding t_def Lo_32_word_of_int e_def by (metis of_int_add of_int_diff of_int_of_bool word_of_int_uint)
    moreover have "dg_value w' = X mod V" using rem \<open>e = 0\<close> by (simp flip: e_def)
    ultimately have "dg_value (w' @ [t + of_bool c]) = X mod V" by (simp add: dg_value_append)
    moreover have "unat (Lo_32 qp - 1) = X div V"
      using unat_minus_one [of "Lo_32 qp"] qp32 quot by (cases "Lo_32 qp = 0") auto
    ultimately show ?thesis using True step ab w'(1)
      by (intro exI [of _ "w' @ [t + of_bool c]"] exI [of _ "Lo_32 qp - 1"]) (simp add: n_def X_def V_def)
  qed
qed


section \<open>The whole division\<close>

lemma dg_value_take_drop: "dg_value us = dg_value (take j us) + 2 ^ (32 * min j (length us)) * dg_value (drop j us)"
  using dg_value_append [of "take j us" "drop j us"] by (simp add: min.commute)

lemma dg_value_update:
  assumes "j < length q" "q ! j = 0"
  shows "dg_value (q[j := d]) = dg_value q + 2 ^ (32 * j) * unat d"
proof -
  have "q = take j q @ 0 # drop (Suc j) q" using assms by (simp add: id_take_nth_drop [symmetric] flip: assms(2))
  then have "dg_value q = dg_value (take j q @ 0 # drop (Suc j) q)" by simp
  moreover have "q[j := d] = take j q @ d # drop (Suc j) q" using assms(1) by (simp add: upd_conv_take_nth_drop)
  ultimately show ?thesis using assms(1) by (simp add: dg_value_append algebra_simps)
qed

lemma knuth_step_invariant:
  assumes v: "2 \<le> length v" "2 ^ 32 \<le> 2 * unat (v ! (length v - 1))"
    and u: "j + length v < length u" and q: "j < length q"
    and less: "dg_value u < dg_value v * 2 ^ (32 * Suc j)"
  shows "\<exists>u' d. knuth_step v j u q = (u', q[j := d]) \<and> length u' = length u \<and>
    dg_value u = dg_value u' + 2 ^ (32 * j) * unat d * dg_value v \<and> dg_value u' < dg_value v * 2 ^ (32 * j)"
proof -
  let ?n = "length v" and ?V = "dg_value v" and ?J = "2 ^ (32 * j) :: nat"
  let ?X = "dg_value (take (Suc ?n) (drop j u))" and ?H = "dg_value (drop (Suc (j + ?n)) u)"
  have dj: "dg_value u = dg_value (take j u) + ?J * dg_value (drop j u)"
    using dg_value_take_drop [of u j] u by (simp add: min_def)
  have dX: "dg_value (drop j u) = ?X + 2 ^ (32 * Suc ?n) * ?H"
    using dg_value_take_drop [of "drop j u" "Suc ?n"] u by (simp add: min_def add.commute)
  have V: "?V < 2 ^ (32 * ?n)" by (rule dg_value_less)
  have low: "dg_value (take j u) < ?J" using dg_value_less [of "take j u"] u by simp
  have "?V * 2 ^ (32 * Suc j) = ?J * (?V * 2 ^ 32)" by (simp add: power_add)
  then have "?J * dg_value (drop j u) < ?J * (?V * 2 ^ 32)" using less dj by linarith
  then have dless: "dg_value (drop j u) < ?V * 2 ^ 32" by simp
  have "?H = 0"
  proof (rule ccontr)
    assume "?H \<noteq> 0"
    then have "2 ^ (32 * Suc ?n) * 1 \<le> 2 ^ (32 * Suc ?n) * ?H" by (intro mult_le_mono2) simp
    moreover have "?V * 2 ^ 32 < 2 ^ (32 * Suc ?n)" using V by (simp add: power_add)
    ultimately show False using dless dX by linarith
  qed
  then have X: "dg_value (drop j u) = ?X" using dX by simp
  then have "?X < ?V * 2 ^ 32" using dless by simp
  then obtain w d where w: "knuth_step v j u q = (take j u @ w @ drop (Suc (j + ?n)) u, q[j := d])"
      "length w = Suc ?n" "unat d = ?X div ?V" "dg_value w = ?X mod ?V"
    using knuth_step_value [OF u v _ q] by blast
  define u' where "u' = take j u @ w @ drop (Suc (j + ?n)) u"
  have u'v: "dg_value u' = dg_value (take j u) + ?J * (?X mod ?V)"
    using u w(2,4) \<open>?H = 0\<close> by (simp add: u'_def dg_value_append min_def)
  have JX: "?J * ?X = ?J * (?X mod ?V) + ?J * (?X div ?V) * ?V"
  proof -
    have "?J * (?X div ?V * ?V + ?X mod ?V) = ?J * (?X mod ?V) + ?J * (?X div ?V) * ?V"
      by (simp only: distrib_left mult.assoc add.commute)
    then show ?thesis by (simp only: div_mult_mod_eq)
  qed
  have "dg_value u = dg_value u' + ?J * unat d * ?V" by (simp only: dj X u'v w(3) JX add.assoc)
  moreover have "dg_value u' < ?V * ?J"
  proof -
    have "0 < ?V" using \<open>?X < ?V * 2 ^ 32\<close> by (cases ?V) simp_all
    then have "?J * (?X mod ?V + 1) \<le> ?J * ?V" by (intro mult_le_mono2) (simp add: Suc_le_eq)
    then show ?thesis using u'v low by (simp add: algebra_simps)
  qed
  moreover have "length u' = length u" using u w(2) by (simp add: u'_def)
  ultimately show ?thesis using w(1) by (auto simp: u'_def)
qed

lemma knuth_loop_value:
  assumes v: "2 \<le> length v" "2 ^ 32 \<le> 2 * unat (v ! (length v - 1))"
  shows "j + length v < length u \<Longrightarrow> j < length q \<Longrightarrow> (\<forall>i \<le> j. q ! i = 0) \<Longrightarrow>
    dg_value u < dg_value v * 2 ^ (32 * Suc j) \<Longrightarrow> knuth_loop v j u q = (u', q') \<Longrightarrow>
    length q' = length q \<and> length u' = length u \<and> dg_value u' = dg_value u mod dg_value v \<and>
    dg_value q' = dg_value q + dg_value u div dg_value v"
proof (induction j arbitrary: u q)
  case 0
  from knuth_step_invariant [OF v 0(1,2,4)] obtain d where
    d: "q' = q[0 := d]" "length u' = length u" "dg_value u = dg_value u' + unat d * dg_value v" "dg_value u' < dg_value v"
    using 0(5) by auto
  then show ?case using 0(2,3) by (simp add: dg_value_update)
next
  case (Suc j)
  from knuth_step_invariant [OF v Suc.prems(1,2,4)] obtain w d where
    w: "knuth_step v (Suc j) u q = (w, q[Suc j := d])" "length w = length u"
      "dg_value u = dg_value w + 2 ^ (32 * Suc j) * unat d * dg_value v" "dg_value w < dg_value v * 2 ^ (32 * Suc j)"
    by blast
  have "dg_value v \<noteq> 0" using w(4) by (cases "dg_value v") simp_all
  moreover have "length q' = length q \<and> length u' = length u \<and> dg_value u' = dg_value w mod dg_value v \<and>
      dg_value q' = dg_value (q[Suc j := d]) + dg_value w div dg_value v"
    using Suc.IH [of w "q[Suc j := d]"] Suc.prems w by simp
  ultimately show ?case using w(3) Suc.prems(2,3) by (simp add: dg_value_update)
qed


lemma normalise_value:
  assumes "s < 32" "normalise s us = (us', c)"
  shows "length us' = length us" "dg_value us' + 2 ^ (32 * length us) * unat c = dg_value us * 2 ^ s"
  using shl_digits_value [of s 0 us us' c] assms by (auto simp: normalise_def split: if_splits)

lemma unnormalise_value:
  assumes "s < 32"
  shows "length (unnormalise s us) = length us" "dg_value (unnormalise s us) = dg_value us div 2 ^ s"
  using shr_digits_value [OF assms, of 0 0 "rev us"] by (simp_all add: unnormalise_def)

lemma normalised_divisor:
  assumes "0 < length v" "v ! (length v - 1) \<noteq> 0"
  defines "s \<equiv> lead_zeros (unat (v ! (length v - 1))) 32"
  shows "s < 32" "\<exists>v'. normalise s v = (v', 0) \<and> length v' = length v \<and> dg_value v' = dg_value v * 2 ^ s \<and>
    2 ^ 32 \<le> 2 * unat (v' ! (length v - 1))"
proof -
  let ?n = "length v" let ?t = "unat (v ! (?n - 1))" let ?K = "2 ^ (32 * (?n - 1)) :: nat"
  have t: "?t < 2 ^ 32" by (rule unat_digit_less)
  have "0 < ?t" using assms(2) by (simp add: unat_gt_0)
  then have s: "s < 32" using lead_zeros_bounds [OF t] by (cases "s = 32") (simp_all add: s_def lead_zeros_le le_neq_implies_less)
  have b: "2 ^ (31 - s) \<le> ?t" "?t < 2 ^ (32 - s)" using lead_zeros_bounds [OF t] s by (simp_all add: s_def)
  show "s < 32" by (rule s)
  obtain v' c where n: "normalise s v = (v', c)" by fastforce
  note nv = normalise_value [OF s n]
  have top: "dg_value xs = dg_value (take (?n - 1) xs) + ?K * unat (xs ! (?n - 1))" "dg_value (take (?n - 1) xs) < ?K"
    if "length xs = ?n" for xs
  proof -
    have "drop (?n - 1) xs = [xs ! (?n - 1)]" using that assms(1) by (simp add: Cons_nth_drop_Suc [symmetric])
    then show "dg_value xs = dg_value (take (?n - 1) xs) + ?K * unat (xs ! (?n - 1))"
      using dg_value_take_drop [of xs "?n - 1"] that by simp
    have "length (take (?n - 1) xs) = ?n - 1" using that by simp
    then show "dg_value (take (?n - 1) xs) < ?K" using dg_value_less [of "take (?n - 1) xs"] by (simp only:)
  qed
  have n32: "2 ^ (32 * ?n) = ?K * 2 ^ 32" using assms(1) by (cases ?n) (simp_all add: power_add)
  have "dg_value v < ?K * (?t + 1)" using top [of v] by (simp add: algebra_simps)
  also have "\<dots> \<le> ?K * 2 ^ (32 - s)" using b(2) by (intro mult_le_mono2) simp
  finally have "dg_value v * 2 ^ s < ?K * 2 ^ (32 - s) * 2 ^ s" by simp
  also have "\<dots> = ?K * (2 ^ (32 - s) * 2 ^ s)" by (simp only: mult.assoc)
  also have "2 ^ (32 - s) * 2 ^ s = (2 :: nat) ^ 32" using s by (simp flip: power_add)
  finally have "2 ^ (32 * ?n) * unat c < 2 ^ (32 * ?n) * 1" using nv(2) n32 by linarith
  then have c: "unat c = 0" by (simp only: mult_less_cancel1) simp
  then have v': "dg_value v' = dg_value v * 2 ^ s" using nv(2) by simp
  have "(2 :: nat) ^ 31 = 2 ^ (31 - s) * 2 ^ s" using s by (simp flip: power_add)
  then have "2 ^ 31 \<le> ?t * 2 ^ s" using b(1) by (metis mult_le_mono1)
  then have "?K * 2 ^ 31 \<le> ?K * (?t * 2 ^ s)" by (rule mult_le_mono2)
  also have "\<dots> \<le> dg_value v'" unfolding v' top(1) [OF refl] by (simp add: algebra_simps)
  also have "\<dots> < ?K * (unat (v' ! (?n - 1)) + 1)" using top [OF nv(1)] by (simp add: algebra_simps)
  finally have "2 ^ 31 < unat (v' ! (?n - 1)) + 1" by (simp only: mult_less_cancel1)
  then have "2 ^ 32 \<le> 2 * unat (v' ! (?n - 1))" by simp
  with n nv(1) c v' show "\<exists>v'. normalise s v = (v', 0) \<and> length v' = length v \<and> dg_value v' = dg_value v * 2 ^ s \<and>
    2 ^ 32 \<le> 2 * unat (v' ! (length v - 1))"
    by (simp add: unat_eq_0)
qed


text \<open>
  The division: quotient and remainder of the numbers of the digits in use, whatever the
  digits are, as long as the leading digit of the divisor is not zero and the digits of the
  dividend above those in use are.
\<close>

lemma KnuthDiv_value:
  assumes n: "1 < n" "n \<le> length v" "v ! (n - 1) \<noteq> 0"
    and u: "m + n < length u" "dg_value (drop (Suc (m + n)) u) = 0"
    and q: "m < length q" "dg_value q = 0" "\<forall>i \<le> m. q ! i = 0"
  shows "\<exists>q' R. KnuthDiv u v q r (int m) n = Inr (q', map_option (\<lambda>r. R @ drop n r) r) \<and>
    length q' = length q \<and> dg_value q' = dg_value (take (m + n) u) div dg_value (take n v) \<and>
    length R = n \<and> dg_value R = dg_value (take (m + n) u) mod dg_value (take n v)"
proof -
  let ?U = "dg_value (take (m + n) u)" and ?V = "dg_value (take n v)"
  define s where "s = lead_zeros (unat (v ! (n - 1))) 32"
  have tv: "0 < length (take n v)" "take n v ! (length (take n v) - 1) \<noteq> 0" using n by auto
  have "s = lead_zeros (unat (take n v ! (length (take n v) - 1))) 32" using n by (simp add: s_def min_def)
  note nd = normalised_divisor [OF tv, folded this]
  obtain v' where v': "normalise s (take n v) = (v', 0)" "length v' = n" "dg_value v' = ?V * 2 ^ s"
      "2 ^ 32 \<le> 2 * unat (v' ! (n - 1))"
    using nd(2) n(2) by (auto simp: min_absorb2)
  obtain us c where us: "normalise s (take (m + n) u) = (us, c)" by fastforce
  note nu = normalise_value [OF nd(1) us]
  define w where "w = us @ c # drop (Suc (m + n)) u"
  have wl: "length w = length u" "dg_value w = ?U * 2 ^ s"
    using nu u by (simp_all add: w_def dg_value_append)
  have "?U < 2 ^ (32 * (m + n))" using dg_value_less [of "take (m + n) u"] u(1) by simp
  then have "?U * 2 ^ s < 2 ^ (32 * (m + n)) * 2 ^ s" by simp
  also have "\<dots> \<le> 2 ^ (32 * (m + n)) * 2 ^ 31" using nd(1) by (intro mult_le_mono2 power_increasing) auto
  also have "\<dots> \<le> dg_value v' * 2 ^ (32 * Suc m)"
  proof -
    have "take (n - 1) v' @ [v' ! (n - 1)] = v'" using n(1) v'(2) by (metis Suc_diff_1 gr_implies_not0 hd_drop_conv_nth lessI not_gr_zero take_hd_drop take_all le_refl)
    then have "dg_value v' = dg_value (take (n - 1) v') + 2 ^ (32 * (n - 1)) * unat (v' ! (n - 1))"
      using dg_value_append [of "take (n - 1) v'" "[v' ! (n - 1)]"] v'(2) by simp
    moreover have "2 ^ (32 * (n - 1)) * 2 ^ 31 \<le> 2 ^ (32 * (n - 1)) * unat (v' ! (n - 1))"
      using v'(4) by (intro mult_le_mono2) simp
    ultimately have "2 ^ (32 * (n - 1)) * 2 ^ 31 * 2 ^ (32 * Suc m) \<le> dg_value v' * 2 ^ (32 * Suc m)"
      by (intro mult_le_mono1) linarith
    moreover have "2 ^ (32 * (n - 1)) * 2 ^ 31 * 2 ^ (32 * Suc m) = 2 ^ (32 * (m + n)) * (2 :: nat) ^ 31"
    proof -
      have "32 * (n - 1) + 31 + 32 * Suc m = 32 * (m + n) + 31" using n(1) by simp
      then show ?thesis by (simp only: power_add [symmetric])
    qed
    ultimately show ?thesis by (simp only:)
  qed
  finally have less: "dg_value w < dg_value v' * 2 ^ (32 * Suc m)" using wl by simp
  obtain u' q' where l: "knuth_loop v' m w q = (u', q')" by fastforce
  have lv: "length q' = length q" "length u' = length u" "dg_value u' = (?U mod ?V) * 2 ^ s" "dg_value q' = ?U div ?V"
    using knuth_loop_value [of v' m w q u' q'] v' wl less l q u(1) n(1)
    by (simp_all add: mult_mod_left)
  have "dg_value (take n u') = dg_value u'"
  proof -
    have "0 < ?V" using v'(3) less by (cases ?V) simp_all
    then have "(?U mod ?V) * 2 ^ s < ?V * 2 ^ s" by simp
    moreover have "?V * 2 ^ s < 2 ^ (32 * n)" using dg_value_less [of v'] v'(2,3) by simp
    ultimately have "dg_value u' < 2 ^ (32 * n)" using lv(3) by linarith
    moreover have "dg_value u' = dg_value (take n u') + 2 ^ (32 * n) * dg_value (drop n u')"
      using dg_value_take_drop [of u' n] lv(2) u(1) by (simp add: min_absorb1)
    ultimately show ?thesis by (cases "dg_value (drop n u')") simp_all
  qed
  then have R: "length (unnormalise s (take n u')) = n" "dg_value (unnormalise s (take n u')) = ?U mod ?V"
    using unnormalise_value [OF nd(1), of "take n u'"] lv(2,3) u(1) by simp_all
  have "countLeadingZeros (v ! (n - 1)) ZB_Width = Inr s"
    using countLeadingZeros_eq [of "v ! (n - 1)" ZB_Width] by (simp add: s_def)
  then have "KnuthDiv u v q r (int m) n = Inr (q', map_option (\<lambda>r. unnormalise s (take n u') @ drop n r) r)"
    using n u(1) q(1) nd(1) us v'(1) l by (simp add: KnuthDiv_def w_def)
  then show ?thesis using lv R by blast
qed

end
