(* ===== verification/WideDivide.thy ===== *)
theory WideDivide
  imports KnuthDivision
begin

unbundle bit_operations_syntax

text \<open>
  Division of arrays of words: \<open>APInt::divide\<close>, which splits the words into 32-bit digits, drops
  leading zeros, and uses short division for a divisor of one digit and \<open>KnuthDiv\<close> otherwise. The
  temporary arrays lie on the stack or on the heap depending on their size; they do not
  overlap in either case, so the model does not distinguish the two.
\<close>

definition to_digits :: "part list \<Rightarrow> digit list" where
  "to_digits ws = concat (map (\<lambda>tmp. [Lo_32 tmp, Hi_32 tmp]) ws)"

definition of_digits :: "digit list \<Rightarrow> nat \<Rightarrow> part list" where
  "of_digits Q words = map (\<lambda>i. Make_64 (Q ! (i * 2 + 1)) (Q ! (i * 2))) [0..<words]"

text \<open>The number of digits that is left without leading zeros.\<close>

fun trim_loop :: "digit list \<Rightarrow> nat \<Rightarrow> nat" where
  "trim_loop V 0 = 0"
| "trim_loop V (Suc i) = (if V ! i = 0 then trim_loop V i else Suc i)"

definition short_digit :: "digit \<Rightarrow> digit \<Rightarrow> digit \<Rightarrow> digit \<times> digit" where
  "short_digit divisor remainder u =
    (let partial_dividend = Make_64 remainder u
     in if partial_dividend = 0 then (0, 0)
        else if partial_dividend < ucast divisor then (0, Lo_32 partial_dividend)
        else if partial_dividend = ucast divisor then (1, 0)
        else let q = Lo_32 (partial_dividend div ucast divisor)
             in (q, Lo_32 (partial_dividend - ucast (q * divisor))))"

fun short_loop :: "digit \<Rightarrow> digit list \<Rightarrow> nat \<Rightarrow> digit list \<Rightarrow> digit \<Rightarrow> digit list \<times> digit" where
  "short_loop divisor U 0 Q remainder = (Q, remainder)"
| "short_loop divisor U (Suc i) Q remainder =
    (let (q, r) = short_digit divisor remainder (U ! i) in short_loop divisor U i (Q[i := q]) r)"

definition divide_digits :: "digit list \<Rightarrow> digit list \<Rightarrow> digit list \<Rightarrow> digit list option \<Rightarrow> int \<Rightarrow> nat \<Rightarrow>
    (digit list \<times> digit list option) result" where
  "divide_digits U V Q R m n =
    (if n = 1
     then let (Q, remainder) = short_loop (V ! 0) U (nat (m + 1)) Q 0
          in Inr (Q, map_option (\<lambda>R. R[0 := remainder]) R)
     else KnuthDiv U V Q R m n)"

definition ap_divide :: "part list \<Rightarrow> part list \<Rightarrow> part list option \<Rightarrow> part list option \<Rightarrow>
    (part list option \<times> part list option) result" where
  "ap_divide LHS RHS Quot Rem =
    rbind (check_assert (length RHS \<le> length LHS) ''Fractional result'') (\<lambda>_.
    let n = length RHS * 2; m = length LHS * 2 - n;
        U = to_digits LHS @ [0]; V = to_digits RHS; Q = replicate (m + n) 0;
        R = map_option (\<lambda>_. replicate n 0) Rem;
        k = trim_loop U (m + n); n = trim_loop V n; m = int k - int n
    in rbind (check_assert (n \<noteq> 0) ''Divide by zero?'') (\<lambda>_.
       rbind (divide_digits U V Q R m n) (\<lambda>(Q, R).
       Inr (map_option (\<lambda>q. of_digits Q (length LHS) @ drop (length LHS) q) Quot,
            map_option (\<lambda>r. of_digits (the R) (length RHS) @ drop (length RHS) r) Rem))))"

lemma length_to_digits [simp]: "length (to_digits ws) = length ws * 2"
  by (induction ws) (simp_all add: to_digits_def)

lemma dg_value_to_digits: "dg_value (to_digits ws) = tc_value ws"
proof (induction ws)
  case (Cons w ws)
  have "unat w = unat (Lo_32 w) + 2 ^ 32 * unat (Hi_32 w)" by (simp only: unat_Lo_32 unat_Hi_32 mod_mult_div_eq)
  moreover have "dg_value (to_digits (w # ws)) =
      unat (Lo_32 w) + 2 ^ 32 * (unat (Hi_32 w) + 2 ^ 32 * dg_value (to_digits ws))"
    by (simp add: to_digits_def)
  ultimately show ?case using Cons by simp
qed (simp add: to_digits_def)

lemma length_of_digits [simp]: "length (of_digits Q k) = k"
  by (simp add: of_digits_def)

lemma tc_value_of_digits:
  "length Q = k * 2 \<Longrightarrow> tc_value (of_digits Q k) = dg_value Q"
proof (induction k arbitrary: Q)
  case (Suc k)
  then obtain a b R where Q: "Q = a # b # R" "length R = k * 2"
    by (cases Q; cases "tl Q") auto
  have "of_digits Q (Suc k) = Make_64 b a # of_digits R k"
    by (simp add: of_digits_def Q upt_conv_Cons map_Suc_upt [symmetric] comp_def del: upt_Suc)
  with Suc.IH [OF Q(2)] show ?case by (simp add: Q unat_Make_64 algebra_simps)
qed (simp add: of_digits_def)

lemma trim_loop_value:
  assumes "n \<le> length V"
  shows "trim_loop V n \<le> n" "dg_value (take n V) = dg_value (take (trim_loop V n) V)"
    "0 < trim_loop V n \<Longrightarrow> V ! (trim_loop V n - 1) \<noteq> 0"
proof -
  have snoc: "dg_value (take (Suc k) xs) = dg_value (take k xs) + 2 ^ (32 * k) * unat (xs ! k)" if "k < length xs" for k xs
    using that by (simp add: take_Suc_conv_app_nth dg_value_append)
  have "trim_loop V n \<le> n \<and> dg_value (take n V) = dg_value (take (trim_loop V n) V) \<and>
      (0 < trim_loop V n \<longrightarrow> V ! (trim_loop V n - 1) \<noteq> 0)"
    using assms by (induction n) (auto simp: snoc)
  then show "trim_loop V n \<le> n" "dg_value (take n V) = dg_value (take (trim_loop V n) V)"
    "0 < trim_loop V n \<Longrightarrow> V ! (trim_loop V n - 1) \<noteq> 0" by auto
qed


lemma dg_value_take_le: "dg_value (take k V) \<le> dg_value V"
  using dg_value_take_drop [of V k] by simp

lemma dg_value_upper:
  assumes "n \<le> length V" "0 < n" "V ! (n - 1) \<noteq> 0"
  shows "2 ^ (32 * (n - 1)) \<le> dg_value (take n V)"
proof -
  obtain k where n: "n = Suc k" using assms(2) by (cases n) auto
  have "dg_value (take n V) = dg_value (take k V) + 2 ^ (32 * k) * unat (V ! k)"
    using assms(1) by (simp add: n take_Suc_conv_app_nth dg_value_append)
  moreover have "2 ^ (32 * k) \<le> 2 ^ (32 * k) * unat (V ! k)"
    using assms(3) by (simp add: n Suc_le_eq unat_gt_0)
  ultimately have "2 ^ (32 * k) \<le> dg_value (take n V)" by linarith
  then show ?thesis by (simp add: n)
qed

section \<open>Short division\<close>

lemma Lo_32_diff: "Lo_32 (p - ucast x) = of_nat (unat p) - x"
proof -
  have "p - ucast x = word_of_int (uint p - uint x)"
    by (simp add: unsigned_ucast_eq)
  then have "Lo_32 (p - ucast x) = word_of_int (uint p - uint x)" by (simp only: Lo_32_word_of_int)
  also have "\<dots> = word_of_int (int (unat p)) - x" by simp
  finally show ?thesis by (simp only: of_int_of_nat_eq)
qed

lemma short_digit_value:
  assumes "unat r < unat d" "short_digit d r u = (q, r')"
  shows "unat r' < unat d" "unat r * 2 ^ 32 + unat u = unat q * unat d + unat r'"
proof -
  define pd where "pd = Make_64 r u"
  have pd: "unat pd = unat r * 2 ^ 32 + unat u" by (simp only: pd_def unat_Make_64)
  have ud: "unat (ucast d :: 64 word) = unat d" by (rule unat_ucast_digit)
  have d: "0 < unat d" using assms(1) by simp
  have "(unat r + 1) * 2 ^ 32 \<le> unat d * 2 ^ 32" using assms(1) by (intro mult_le_mono1) simp
  then have "unat pd < unat d * 2 ^ 32" using pd unat_digit_less [of u] by (simp add: algebra_simps)
  then have qs: "unat pd div unat d < 2 ^ 32" by (simp add: less_mult_imp_div_less mult.commute)
  consider "unat pd = 0" | "0 < unat pd" "unat pd < unat d" | "unat pd = unat d" | "unat d < unat pd" by linarith
  then have "unat q = unat pd div unat d \<and> unat r' = unat pd mod unat d"
  proof cases
    case 1
    then have "pd = 0" by (simp add: unat_eq_0)
    then have "q = 0" "r' = 0" using assms(2) by (simp_all add: short_digit_def Let_def flip: pd_def)
    then show ?thesis using 1 by simp
  next
    case 2
    then have "pd \<noteq> 0" "pd < ucast d" by (auto simp: word_less_nat_alt ud)
    then have "q = 0" "r' = Lo_32 pd" using assms(2) by (simp_all add: short_digit_def Let_def flip: pd_def)
    moreover have "unat pd < 2 ^ 32" using 2 unat_digit_less [of d] by linarith
    ultimately show ?thesis using 2 by (simp add: unat_Lo_small)
  next
    case 3
    then have "pd = ucast d" by (simp only: word_unat_eq_iff ud)
    moreover from this have "pd \<noteq> 0" using d ud by auto
    ultimately have "q = 1" "r' = 0" using assms(2) by (simp_all add: short_digit_def Let_def flip: pd_def)
    then show ?thesis using 3 d by simp
  next
    case 4
    then have "pd \<noteq> 0" "\<not> pd < ucast d" "pd \<noteq> ucast d" using ud by (auto simp: word_less_nat_alt)
    then have q: "q = Lo_32 (pd div ucast d)" and r: "r' = Lo_32 (pd - ucast (q * d))"
      using assms(2) by (auto simp add: short_digit_def Let_def simp flip: pd_def)
    have uq: "unat q = unat pd div unat d" using qs unfolding q unat_Lo_32 unat_div_distrib ud by simp
    have "r' = of_nat (unat pd) - of_nat (unat q * unat d)" by (simp add: r Lo_32_diff)
    also have "\<dots> = of_nat (unat pd - unat q * unat d)" unfolding uq by (subst of_nat_diff) simp_all
    also have "unat pd - unat q * unat d = unat pd mod unat d" unfolding uq by (rule minus_div_mult_eq_mod)
    finally have "unat r' = unat pd mod unat d mod 2 ^ 32" by (simp add: unsigned_of_nat take_bit_eq_mod)
    moreover have "unat pd mod unat d < 2 ^ 32" using d unat_digit_less [of d] mod_less_divisor [of "unat d" "unat pd"] by linarith
    ultimately show ?thesis using uq by simp
  qed
  then show "unat r' < unat d" "unat r * 2 ^ 32 + unat u = unat q * unat d + unat r'"
    using d pd by simp_all
qed


lemma short_loop_value:
  "unat r < unat d \<Longrightarrow> k \<le> length U \<Longrightarrow> k \<le> length Q \<Longrightarrow> (\<forall>i < k. Q ! i = 0) \<Longrightarrow>
   short_loop d U k Q r = (Q', r') \<Longrightarrow>
   length Q' = length Q \<and> unat r' = (unat r * 2 ^ (32 * k) + dg_value (take k U)) mod unat d \<and>
   dg_value Q' = dg_value Q + (unat r * 2 ^ (32 * k) + dg_value (take k U)) div unat d"
proof (induction k arbitrary: Q r)
  case (Suc k)
  obtain q s where qs: "short_digit d r (U ! k) = (q, s)" by fastforce
  note sd = short_digit_value [OF Suc.prems(1) qs]
  have ih: "length Q' = length Q" "unat r' = (unat s * 2 ^ (32 * k) + dg_value (take k U)) mod unat d"
    "dg_value Q' = dg_value (Q[k := q]) + (unat s * 2 ^ (32 * k) + dg_value (take k U)) div unat d"
    using Suc.IH [OF sd(1), of "Q[k := q]"] Suc.prems qs by simp_all
  have "unat r * 2 ^ (32 * Suc k) + dg_value (take (Suc k) U) =
      (unat r * 2 ^ 32 + unat (U ! k)) * 2 ^ (32 * k) + dg_value (take k U)"
    using Suc.prems(2) by (simp add: take_Suc_conv_app_nth dg_value_append power_add algebra_simps)
  also have "\<dots> = unat s * 2 ^ (32 * k) + dg_value (take k U) + (2 ^ (32 * k) * unat q) * unat d"
    unfolding sd(2) by (simp add: algebra_simps)
  finally have e: "unat r * 2 ^ (32 * Suc k) + dg_value (take (Suc k) U) =
      unat s * 2 ^ (32 * k) + dg_value (take k U) + (2 ^ (32 * k) * unat q) * unat d" .
  have "unat d \<noteq> 0" using Suc.prems(1) by simp
  then have "(unat r * 2 ^ (32 * Suc k) + dg_value (take (Suc k) U)) div unat d =
      2 ^ (32 * k) * unat q + (unat s * 2 ^ (32 * k) + dg_value (take k U)) div unat d"
    "(unat r * 2 ^ (32 * Suc k) + dg_value (take (Suc k) U)) mod unat d =
      (unat s * 2 ^ (32 * k) + dg_value (take k U)) mod unat d"
    unfolding e by simp_all
  then show ?case using ih Suc.prems(3,4) by (simp add: dg_value_update)
qed simp


section \<open>The division of arrays of words\<close>

lemma ap_divide_value:
  assumes len: "length RHS \<le> length LHS" and rhs: "tc_value RHS \<noteq> 0" "tc_value RHS \<le> tc_value LHS"
  shows "\<exists>ql rl. ap_divide LHS RHS Quot Rem =
      Inr (map_option (\<lambda>q. ql @ drop (length LHS) q) Quot, map_option (\<lambda>r. rl @ drop (length RHS) r) Rem) \<and>
    length ql = length LHS \<and> tc_value ql = tc_value LHS div tc_value RHS \<and>
    (Rem \<noteq> None \<longrightarrow> length rl = length RHS \<and> tc_value rl = tc_value LHS mod tc_value RHS)"
proof -
  define U where "U = to_digits LHS @ [0]"
  define V where "V = to_digits RHS"
  define N where "N = length RHS * 2"
  define L where "L = length LHS * 2"
  define k where "k = trim_loop U L"
  define n where "n = trim_loop V N"
  have UV: "length U = Suc L" "length V = N" "dg_value (take L U) = tc_value LHS" "dg_value V = tc_value RHS"
    "dg_value U = tc_value LHS" "N \<le> L"
    using len by (simp_all add: U_def V_def N_def L_def dg_value_to_digits dg_value_append)
  have kU: "k \<le> L" "dg_value (take k U) = tc_value LHS"
    using trim_loop_value [of L U] UV(1,3) by (simp_all add: k_def)
  have nV: "n \<le> N" "dg_value (take n V) = tc_value RHS" "0 < n \<Longrightarrow> V ! (n - 1) \<noteq> 0"
    using trim_loop_value [of N V] UV(2,4) by (simp_all add: n_def)
  have n0: "0 < n" using nV(2) rhs(1) by (cases n) auto
  have "2 ^ (32 * (n - 1)) \<le> tc_value LHS"
    using dg_value_upper [of n V] nV n0 UV(2) rhs(2) by simp
  also have "tc_value LHS < 2 ^ (32 * k)" using dg_value_less [of "take k U"] kU UV(1) by simp
  finally have "32 * (n - 1) < 32 * k" by (simp only: power_strict_increasing_iff)
  then have nk: "n \<le> k" by simp
  define Q where "Q = replicate L (0 :: digit)"
  define R where "R = map_option (\<lambda>_. replicate N (0 :: digit)) Rem"
  have "\<exists>Q' R'. divide_digits U V Q R (int k - int n) n = Inr (Q', map_option (\<lambda>_. R') R) \<and>
    length Q' = L \<and> dg_value Q' = tc_value LHS div tc_value RHS \<and>
    length R' = N \<and> dg_value R' = tc_value LHS mod tc_value RHS"
  proof (cases "n = 1")
    case True
    have d: "unat (V ! 0) = tc_value RHS"
      using nV(2) True nV(1) UV(2) by (simp add: take_Suc_conv_app_nth)
    obtain Q' r where sl: "short_loop (V ! 0) U k Q 0 = (Q', r)" by fastforce
    have v: "length Q' = L" "unat r = tc_value LHS mod tc_value RHS" "dg_value Q' = tc_value LHS div tc_value RHS"
      using short_loop_value [OF _ _ _ _ sl] rhs(1) d kU UV(1) by (simp_all add: Q_def)
    have "nat (int k - int n + 1) = k" using True nk by simp
    moreover have "map_option (\<lambda>R. R[0 := r]) R = map_option (\<lambda>_. (replicate N 0)[0 := r]) R"
      by (cases Rem) (simp_all add: R_def)
    moreover have "dg_value ((replicate N 0)[0 := r]) = unat r"
      using dg_value_update [of 0 "replicate N 0" r] nV(1) True by simp
    ultimately show ?thesis using v sl True
      by (intro exI [of _ Q'] exI [of _ "(replicate N 0)[0 := r]"]) (simp add: divide_digits_def)
  next
    case False
    have "dg_value (drop (Suc k) U) = 0"
    proof -
      have "dg_value U = dg_value (take k U) + 2 ^ (32 * k) * dg_value (drop k U)"
        using dg_value_take_drop [of U k] kU(1) UV(1) by (simp add: min_absorb1)
      then have "dg_value (drop k U) = 0" using UV(5) kU(2) by simp
      then show ?thesis using dg_value_take_drop [of "drop k U" 1] kU(1) UV(1) by simp
    qed
    moreover have "k - n < L" using n0 nk kU(1) by simp
    ultimately obtain Q' R0 where kd: "KnuthDiv U V Q R (int (k - n)) n = Inr (Q', map_option (\<lambda>r. R0 @ drop n r) R)"
        "length Q' = length Q" "dg_value Q' = dg_value (take k U) div dg_value (take n V)"
        "length R0 = n" "dg_value R0 = dg_value (take k U) mod dg_value (take n V)"
      using KnuthDiv_value [of n V "k - n" U Q R] False n0 nV nk kU(1) UV(1,2) by (auto simp: Q_def)
    moreover have "map_option (\<lambda>r. R0 @ drop n r) R = map_option (\<lambda>_. R0 @ replicate (N - n) 0) R"
      by (cases Rem) (simp_all add: R_def)
    ultimately show ?thesis using False nk nV(1,2) kU(2)
      by (intro exI [of _ Q'] exI [of _ "R0 @ replicate (N - n) 0"])
        (simp add: divide_digits_def of_nat_diff Q_def dg_value_append)
  qed
  then obtain Q' R' where QR: "divide_digits U V Q R (int k - int n) n = Inr (Q', map_option (\<lambda>_. R') R)"
    "length Q' = L" "dg_value Q' = tc_value LHS div tc_value RHS"
    "length R' = N" "dg_value R' = tc_value LHS mod tc_value RHS" by blast
  have LN: "L - N + N = L" using UV(6) by simp
  have "ap_divide LHS RHS Quot Rem =
      Inr (map_option (\<lambda>q. of_digits Q' (length LHS) @ drop (length LHS) q) Quot,
           map_option (\<lambda>r. of_digits (the (map_option (\<lambda>_. R') R)) (length RHS) @ drop (length RHS) r) Rem)"
    using len n0 QR(1) LN unfolding ap_divide_def Let_def
    by (simp add: n_def k_def Q_def R_def U_def V_def N_def L_def)
  moreover have "map_option (\<lambda>r. of_digits (the (map_option (\<lambda>_. R') R)) (length RHS) @ drop (length RHS) r) Rem =
      map_option (\<lambda>r. of_digits R' (length RHS) @ drop (length RHS) r) Rem"
    by (cases Rem) (simp_all add: R_def)
  ultimately have "ap_divide LHS RHS Quot Rem =
      Inr (map_option (\<lambda>q. of_digits Q' (length LHS) @ drop (length LHS) q) Quot,
           map_option (\<lambda>r. of_digits R' (length RHS) @ drop (length RHS) r) Rem)" by (simp only:)
  then show ?thesis using QR(2-5) tc_value_of_digits [of Q' "length LHS"] tc_value_of_digits [of R' "length RHS"]
    by (intro exI [of _ "of_digits Q' (length LHS)"] exI [of _ "of_digits R' (length RHS)"]) (simp add: L_def N_def)
qed

end
