(* ===== verification/ApIntDiv.thy ===== *)
theory ApIntDiv
  imports ApIntBits WideDivide "HOL-Library.Signed_Division"
begin

unbundle bit_operations_syntax

text \<open>
  Division and remainder of the class \<open>APInt\<close>, unsigned and signed, with the shortcuts the code
  takes before it calls \<open>divide\<close>.
\<close>

definition getZExtValue :: "APInt \<Rightarrow> part result" where
  "getZExtValue x =
    (if isSingleWord x then Inr (VAL x)
     else rbind (ap_getActiveBits x) (\<lambda>n.
       rbind (check_assert (n \<le> 64) ''Too many bits for uint64_t'') (\<lambda>_. Inr (pVal x ! 0))))"

definition fits_word :: "APInt \<Rightarrow> bool result" where
  "fits_word x = (if isSingleWord x then Inr True else rbind (ap_getActiveBits x) (\<lambda>n. Inr (n \<le> 64)))"

definition ap_equal_word :: "APInt \<Rightarrow> part \<Rightarrow> bool result" where
  "ap_equal_word x Val =
    rbind (fits_word x) (\<lambda>f. if f then rbind (getZExtValue x) (\<lambda>v. Inr (v = Val)) else Inr False)"

definition ap_ult_word :: "APInt \<Rightarrow> part \<Rightarrow> bool result" where
  "ap_ult_word x RHS =
    rbind (fits_word x) (\<lambda>f. if f then rbind (getZExtValue x) (\<lambda>v. Inr (v < RHS)) else Inr False)"

text \<open>A dividend with fewer words than the divisor is smaller.\<close>

definition is_smaller :: "nat \<Rightarrow> nat \<Rightarrow> APInt \<Rightarrow> APInt \<Rightarrow> bool result" where
  "is_smaller lhsWords rhsWords x RHS = (if lhsWords < rhsWords then Inr True else ap_ult x RHS)"

definition ap_udiv :: "APInt \<Rightarrow> APInt \<Rightarrow> APInt result" where
  "ap_udiv x RHS =
    rbind (same_width x RHS) (\<lambda>_.
    if isSingleWord x
    then rbind (check_assert (VAL RHS \<noteq> 0) ''Divide by zero?'') (\<lambda>_.
           new_APInt (BitWidth x) (VAL x div VAL RHS) False)
    else rbind (ap_getActiveBits x) (\<lambda>lhsBits. rbind (ap_getActiveBits RHS) (\<lambda>rhsBits.
      let lhsWords = getNumWords lhsBits; rhsWords = getNumWords rhsBits
      in rbind (check_assert (rhsWords \<noteq> 0) ''Divided by zero???'') (\<lambda>_.
         if lhsWords = 0 then new_APInt (BitWidth x) 0 False
         else if rhsBits = 1 then Inr x
         else rbind (is_smaller lhsWords rhsWords x RHS) (\<lambda>lt.
         if lt then new_APInt (BitWidth x) 0 False
         else rbind (ap_equal x RHS) (\<lambda>eq.
         if eq then new_APInt (BitWidth x) 1 False
         else if lhsWords = 1 then new_APInt (BitWidth x) (pVal x ! 0 div pVal RHS ! 0) False
         else rbind (new_APInt (BitWidth x) 0 False) (\<lambda>Quot.
              rbind (ap_divide (take lhsWords (pVal x)) (take rhsWords (pVal RHS)) (Some (pVal Quot)) None)
                (\<lambda>(q, _). Inr (Quot\<lparr>pVal := the q\<rparr>)))))))))"

definition ap_udiv_word :: "APInt \<Rightarrow> part \<Rightarrow> APInt result" where
  "ap_udiv_word x RHS =
    rbind (check_assert (RHS \<noteq> 0) ''Divide by zero?'') (\<lambda>_.
    if isSingleWord x then new_APInt (BitWidth x) (VAL x div RHS) False
    else rbind (ap_getActiveBits x) (\<lambda>lhsBits.
      let lhsWords = getNumWords lhsBits
      in if lhsWords = 0 then new_APInt (BitWidth x) 0 False
         else if RHS = 1 then Inr x
         else rbind (ap_ult_word x RHS) (\<lambda>lt.
         if lt then new_APInt (BitWidth x) 0 False
         else rbind (ap_equal_word x RHS) (\<lambda>eq.
         if eq then new_APInt (BitWidth x) 1 False
         else if lhsWords = 1 then new_APInt (BitWidth x) (pVal x ! 0 div RHS) False
         else rbind (new_APInt (BitWidth x) 0 False) (\<lambda>Quot.
              rbind (ap_divide (take lhsWords (pVal x)) [RHS] (Some (pVal Quot)) None)
                (\<lambda>(q, _). Inr (Quot\<lparr>pVal := the q\<rparr>)))))))"

definition ap_urem :: "APInt \<Rightarrow> APInt \<Rightarrow> APInt result" where
  "ap_urem x RHS =
    rbind (same_width x RHS) (\<lambda>_.
    if isSingleWord x
    then rbind (check_assert (VAL RHS \<noteq> 0) ''Remainder by zero?'') (\<lambda>_.
           new_APInt (BitWidth x) (VAL x mod VAL RHS) False)
    else rbind (ap_getActiveBits x) (\<lambda>lhsBits. rbind (ap_getActiveBits RHS) (\<lambda>rhsBits.
      let lhsWords = getNumWords lhsBits; rhsWords = getNumWords rhsBits
      in rbind (check_assert (rhsWords \<noteq> 0) ''Performing remainder operation by zero ???'') (\<lambda>_.
         if lhsWords = 0 then new_APInt (BitWidth x) 0 False
         else if rhsBits = 1 then new_APInt (BitWidth x) 0 False
         else rbind (is_smaller lhsWords rhsWords x RHS) (\<lambda>lt.
         if lt then Inr x
         else rbind (ap_equal x RHS) (\<lambda>eq.
         if eq then new_APInt (BitWidth x) 0 False
         else if lhsWords = 1 then new_APInt (BitWidth x) (pVal x ! 0 mod pVal RHS ! 0) False
         else rbind (new_APInt (BitWidth x) 0 False) (\<lambda>Rem.
              rbind (ap_divide (take lhsWords (pVal x)) (take rhsWords (pVal RHS)) None (Some (pVal Rem)))
                (\<lambda>(_, r). Inr (Rem\<lparr>pVal := the r\<rparr>)))))))))"

definition ap_urem_word :: "APInt \<Rightarrow> part \<Rightarrow> part \<Rightarrow> part result" where
  "ap_urem_word x RHS mem =
    rbind (check_assert (RHS \<noteq> 0) ''Remainder by zero?'') (\<lambda>_.
    if isSingleWord x then Inr (VAL x mod RHS)
    else rbind (ap_getActiveBits x) (\<lambda>lhsBits.
      let lhsWords = getNumWords lhsBits
      in if lhsWords = 0 then Inr 0
         else if RHS = 1 then Inr 0
         else rbind (ap_ult_word x RHS) (\<lambda>lt.
         if lt then getZExtValue x
         else rbind (ap_equal_word x RHS) (\<lambda>eq.
         if eq then Inr 0
         else if lhsWords = 1 then Inr (pVal x ! 0 mod RHS)
         else rbind (ap_divide (take lhsWords (pVal x)) [RHS] None (Some [mem]))
                (\<lambda>(_, r). Inr (the r ! 0))))))"

text \<open>The signed operations; the unary minus is a copy that is negated.\<close>

definition ap_sdiv :: "APInt \<Rightarrow> APInt \<Rightarrow> APInt result" where
  "ap_sdiv x RHS =
    rbind (isNegative x) (\<lambda>n. rbind (isNegative RHS) (\<lambda>m.
      if n then if m then ap_udiv (ap_negate x) (ap_negate RHS)
                else rbind (ap_udiv (ap_negate x) RHS) (\<lambda>q. Inr (ap_negate q))
      else if m then rbind (ap_udiv x (ap_negate RHS)) (\<lambda>q. Inr (ap_negate q))
      else ap_udiv x RHS))"

definition ap_srem :: "APInt \<Rightarrow> APInt \<Rightarrow> APInt result" where
  "ap_srem x RHS =
    rbind (isNegative x) (\<lambda>n. rbind (isNegative RHS) (\<lambda>m.
      if n then if m then rbind (ap_urem (ap_negate x) (ap_negate RHS)) (\<lambda>r. Inr (ap_negate r))
                else rbind (ap_urem (ap_negate x) RHS) (\<lambda>r. Inr (ap_negate r))
      else if m then ap_urem x (ap_negate RHS)
      else ap_urem x RHS))"

section \<open>The words in use\<close>

lemma words_of_0: "words_of n 0 = replicate n 0"
  by (induction n) simp_all

lemma getNumWords_0 [simp]: "getNumWords n = 0 \<longleftrightarrow> n = 0"
  by (auto simp: getNumWords_def div_eq_0_iff)

lemma getNumWords_pos [simp]: "0 < getNumWords n \<longleftrightarrow> 0 < n"
  using getNumWords_0 [of n] by (simp only: neq0_conv [symmetric])

lemma active_words:
  assumes x: "ap_ok x"
  obtains n where "ap_getActiveBits x = Inr n" "getNumWords n \<le> length (pVal x)"
    "tc_value (take (getNumWords n) (pVal x)) = ap_val x" "n = 0 \<longleftrightarrow> ap_val x = 0"
    "0 < n \<Longrightarrow> 2 ^ (64 * (getNumWords n - 1)) \<le> ap_val x" "n = 1 \<longleftrightarrow> ap_val x = 1"
    "n \<le> 64 \<longleftrightarrow> ap_val x < 2 ^ 64"
proof -
  obtain n where n: "n \<le> BitWidth x" "ap_getActiveBits x = Inr n" "ap_val x < 2 ^ n"
      "0 < n \<Longrightarrow> 2 ^ (n - 1) \<le> ap_val x"
    using ap_getActiveBits_value [OF x] by blast
  let ?k = "getNumWords n"
  have len: "length (pVal x) = getNumWords (BitWidth x)" using x by (simp add: ap_ok_def ap_shape_def)
  then have k: "?k \<le> length (pVal x)" using getNumWords_mono [OF n(1)] by simp
  have "(2 :: nat) ^ n \<le> 2 ^ (64 * ?k)" using width_le_words [of n] by (intro power_increasing) simp_all
  with n(3) have "ap_val x < 2 ^ (64 * ?k)" by linarith
  then have v: "tc_value (pVal x) < 2 ^ (64 * ?k)" by (simp add: ap_val_def)
  have "tc_value (pVal x) = tc_value (take ?k (pVal x)) + 2 ^ (64 * ?k) * tc_value (drop ?k (pVal x))"
    using tc_value_append [of "take ?k (pVal x)" "drop ?k (pVal x)"] k by simp
  with v have t: "tc_value (take ?k (pVal x)) = ap_val x"
    by (cases "tc_value (drop ?k (pVal x))") (simp_all add: ap_val_def)
  have low: "2 ^ (64 * (?k - 1)) \<le> ap_val x" if "0 < n"
  proof -
    have "64 * (?k - 1) \<le> n - 1" using getNumWords_split(1) [OF that] by simp
    then have "(2 :: nat) ^ (64 * (?k - 1)) \<le> 2 ^ (n - 1)" by (intro power_increasing) simp_all
    with n(4) [OF that] show ?thesis by linarith
  qed
  have one: "n = 1 \<longleftrightarrow> ap_val x = 1"
  proof
    assume "n = 1"
    then show "ap_val x = 1" using n(3,4) by simp
  next
    assume v1: "ap_val x = 1"
    then have "0 < n" using n(3) by (cases n) simp_all
    with n(4) v1 have "(2 :: nat) ^ (n - 1) \<le> 2 ^ 0" by simp
    then have "n - 1 = 0" by (simp only: power_increasing_iff)
    with \<open>0 < n\<close> show "n = 1" by simp
  qed
  have zero: "n = 0 \<longleftrightarrow> ap_val x = 0"
  proof
    assume "ap_val x = 0"
    then show "n = 0" using n(4) by (cases n) simp_all
  qed (use n(3) in simp)
  have fit: "n \<le> 64 \<longleftrightarrow> ap_val x < 2 ^ 64"
  proof
    assume "n \<le> 64"
    then have "(2 :: nat) ^ n \<le> 2 ^ 64" by (intro power_increasing) simp_all
    with n(3) show "ap_val x < 2 ^ 64" by linarith
  next
    assume less: "ap_val x < 2 ^ 64"
    show "n \<le> 64"
    proof (rule ccontr)
      assume big: "\<not> n \<le> 64"
      then have "(2 :: nat) ^ 64 \<le> 2 ^ (n - 1)" by (intro power_increasing) simp_all
      with n(4) less big show False by simp
    qed
  qed
  show ?thesis using that [OF n(2) k t zero low one fit] .
qed


lemma result_object:
  assumes "0 < w" "length ws \<le> getNumWords w" "tc_value ws < 2 ^ w"
  shows "(ap_make w 0)\<lparr>pVal := ws @ drop (length ws) (pVal (ap_make w 0))\<rparr> = ap_make w (tc_value ws)"
proof (rule ap_makeI)
  have "pVal (ap_make w 0) = replicate (getNumWords w) 0" by (simp add: ap_make_def words_of_0)
  then have v: "ap_val ((ap_make w 0)\<lparr>pVal := ws @ drop (length ws) (pVal (ap_make w 0))\<rparr>) = tc_value ws"
    and l: "length (ws @ drop (length ws) (pVal (ap_make w 0))) = getNumWords w"
    using assms(2) by (simp_all add: ap_val_def)
  then show "ap_ok ((ap_make w 0)\<lparr>pVal := ws @ drop (length ws) (pVal (ap_make w 0))\<rparr>)"
    "ap_val ((ap_make w 0)\<lparr>pVal := ws @ drop (length ws) (pVal (ap_make w 0))\<rparr>) = tc_value ws mod 2 ^ w"
    using assms by (simp_all add: ap_ok_def ap_shape_def)
qed simp

lemma single_word_val: "ap_ok x \<Longrightarrow> isSingleWord x \<Longrightarrow> unat (VAL x) = ap_val x"
  using single_word [of x] by (auto simp: ap_val_def ap_ok_def)

text \<open>
  What is left after the shortcuts: the dividend is larger than the divisor, and the words in
  use are those of the two numbers.
\<close>

lemma divide_active:
  assumes x: "ap_ok x" "BitWidth x = w" and l: "l \<le> length (pVal x)" "tc_value (take l (pVal x)) = ap_val x"
    and r: "length RHS \<le> l" "tc_value RHS = d" "d \<noteq> 0" "d \<le> ap_val x"
  shows "\<exists>q. ap_divide (take l (pVal x)) RHS (Some (pVal (ap_make w 0))) None = Inr (Some q, None) \<and>
      (ap_make w 0)\<lparr>pVal := q\<rparr> = ap_make w (ap_val x div d)"
    and "\<exists>q. ap_divide (take l (pVal x)) RHS None (Some (pVal (ap_make w 0))) = Inr (None, Some q) \<and>
      (ap_make w 0)\<lparr>pVal := q\<rparr> = ap_make w (ap_val x mod d)"
    and "\<exists>ws. ap_divide (take l (pVal x)) RHS None (Some mem) = Inr (None, Some (ws @ drop (length RHS) mem)) \<and>
      length ws = length RHS \<and> tc_value ws = ap_val x mod d"
proof -
  have w: "0 < w" "ap_val x < 2 ^ w" "length (pVal x) = getNumWords w"
    using x by (auto simp: ap_ok_def ap_shape_def)
  have len: "length (take l (pVal x)) = l" using l(1) by simp
  have pre: "length RHS \<le> length (take l (pVal x))" "tc_value RHS \<noteq> 0" "tc_value RHS \<le> tc_value (take l (pVal x))"
    using l r by simp_all
  note v = ap_divide_value [OF pre]
  have b: "ap_val x div d < 2 ^ w" "ap_val x mod d < 2 ^ w"
    using w(2) div_le_dividend [of "ap_val x" d] mod_less_eq_dividend [of "ap_val x" d] by linarith+
  obtain ql where ql: "ap_divide (take l (pVal x)) RHS (Some (pVal (ap_make w 0))) None =
      Inr (Some (ql @ drop l (pVal (ap_make w 0))), None)" "length ql = l" "tc_value ql = ap_val x div d"
    using v [of "Some (pVal (ap_make w 0))" None] l r len by auto
  then show "\<exists>q. ap_divide (take l (pVal x)) RHS (Some (pVal (ap_make w 0))) None = Inr (Some q, None) \<and>
      (ap_make w 0)\<lparr>pVal := q\<rparr> = ap_make w (ap_val x div d)"
    using result_object [of w ql] w l b by simp
  have rem: "\<exists>ws. ap_divide (take l (pVal x)) RHS None (Some mem) = Inr (None, Some (ws @ drop (length RHS) mem)) \<and>
      length ws = length RHS \<and> tc_value ws = ap_val x mod d" for mem
    using v [of None "Some mem"] l r by auto
  then show "\<exists>ws. ap_divide (take l (pVal x)) RHS None (Some mem) = Inr (None, Some (ws @ drop (length RHS) mem)) \<and>
      length ws = length RHS \<and> tc_value ws = ap_val x mod d" .
  obtain rl where rl: "ap_divide (take l (pVal x)) RHS None (Some (pVal (ap_make w 0))) =
      Inr (None, Some (rl @ drop (length RHS) (pVal (ap_make w 0))))" "length rl = length RHS" "tc_value rl = ap_val x mod d"
    using rem by blast
  then show "\<exists>q. ap_divide (take l (pVal x)) RHS None (Some (pVal (ap_make w 0))) = Inr (None, Some q) \<and>
      (ap_make w 0)\<lparr>pVal := q\<rparr> = ap_make w (ap_val x mod d)"
    using result_object [of w rl] w l r b by simp
qed


lemma division_facts:
  assumes x: "ap_ok x" and y: "ap_ok y" and w: "BitWidth x = BitWidth y" and y0: "ap_val y \<noteq> 0"
  obtains n m where "ap_getActiveBits x = Inr n" "ap_getActiveBits y = Inr m" "m \<noteq> 0"
    "n = 0 \<longleftrightarrow> ap_val x = 0" "m = 1 \<longleftrightarrow> ap_val y = 1"
    "is_smaller (getNumWords n) (getNumWords m) x y = Inr (ap_val x < ap_val y)"
    "ap_equal x y = Inr (ap_val x = ap_val y)"
    "\<not> ap_val x < ap_val y \<Longrightarrow> getNumWords m \<le> getNumWords n"
    "getNumWords n \<le> length (pVal x)" "tc_value (take (getNumWords n) (pVal x)) = ap_val x"
    "getNumWords m \<le> length (pVal y)" "tc_value (take (getNumWords m) (pVal y)) = ap_val y"
    "getNumWords n = 1 \<Longrightarrow> unat (pVal x ! 0) = ap_val x"
    "getNumWords m = 1 \<Longrightarrow> unat (pVal y ! 0) = ap_val y"
proof -
  obtain n where n: "ap_getActiveBits x = Inr n" "getNumWords n \<le> length (pVal x)"
      "tc_value (take (getNumWords n) (pVal x)) = ap_val x" "n = 0 \<longleftrightarrow> ap_val x = 0"
    using active_words [OF x] by metis
  obtain m where m: "ap_getActiveBits y = Inr m" "getNumWords m \<le> length (pVal y)"
      "tc_value (take (getNumWords m) (pVal y)) = ap_val y" "m = 0 \<longleftrightarrow> ap_val y = 0"
      "0 < m \<Longrightarrow> 2 ^ (64 * (getNumWords m - 1)) \<le> ap_val y" "m = 1 \<longleftrightarrow> ap_val y = 1"
    using active_words [OF y] by metis
  have m0: "m \<noteq> 0" using m(4) y0 by simp
  have less: "ap_val x < ap_val y" if "getNumWords n < getNumWords m"
  proof -
    have "ap_val x < 2 ^ (64 * getNumWords n)"
      using tc_value_less [of "take (getNumWords n) (pVal x)"] n(2,3) by simp
    also have "\<dots> \<le> (2 :: nat) ^ (64 * (getNumWords m - 1))" using that by (intro power_increasing) auto
    also have "\<dots> \<le> ap_val y" using m(5) m0 by simp
    finally show ?thesis .
  qed
  have one: "unat (z ! 0) = v" if "k \<le> length z" "tc_value (take k z) = v" "k = 1" for k v and z :: "part list"
    using that by (cases z) simp_all
  show ?thesis
  proof (rule that [OF n(1) m(1) m0 n(4) m(6)])
    show "is_smaller (getNumWords n) (getNumWords m) x y = Inr (ap_val x < ap_val y)"
      using less ap_ult_value [OF x y w] by (simp add: is_smaller_def)
    show "ap_equal x y = Inr (ap_val x = ap_val y)" by (rule ap_equal_value(1) [OF x y w])
    show "getNumWords m \<le> getNumWords n" if "\<not> ap_val x < ap_val y" using that less by force
  qed (use n m one in blast)+
qed

lemma ap_udiv_make:
  assumes x: "ap_ok x" and y: "ap_ok y" and w: "BitWidth x = w" "BitWidth y = w" and y0: "ap_val y \<noteq> 0"
  shows "ap_udiv x y = Inr (ap_make w (ap_val x div ap_val y))"
proof -
  have w0: "0 < w" using x w by (simp add: ap_ok_def ap_shape_def)
  note new = new_APInt_unsigned [OF w0]
  show ?thesis
  proof (cases "isSingleWord x")
    case True
    then have "isSingleWord y" using w by (simp add: isSingleWord_def)
    then have "unat (VAL y) = ap_val y" "unat (VAL x) = ap_val x" using True x y by (simp_all add: single_word_val)
    moreover from this have "VAL y \<noteq> 0" using y0 by auto
    ultimately show ?thesis using True w new by (simp add: ap_udiv_def same_width_def unat_div_distrib)
  next
    case False
    obtain n m where f: "ap_getActiveBits x = Inr n" "ap_getActiveBits y = Inr m" "m \<noteq> 0"
      "n = 0 \<longleftrightarrow> ap_val x = 0" "m = 1 \<longleftrightarrow> ap_val y = 1"
      "is_smaller (getNumWords n) (getNumWords m) x y = Inr (ap_val x < ap_val y)"
      "ap_equal x y = Inr (ap_val x = ap_val y)"
      "\<not> ap_val x < ap_val y \<Longrightarrow> getNumWords m \<le> getNumWords n"
      "getNumWords n \<le> length (pVal x)" "tc_value (take (getNumWords n) (pVal x)) = ap_val x"
      "getNumWords m \<le> length (pVal y)" "tc_value (take (getNumWords m) (pVal y)) = ap_val y"
      "getNumWords n = 1 \<Longrightarrow> unat (pVal x ! 0) = ap_val x"
      "getNumWords m = 1 \<Longrightarrow> unat (pVal y ! 0) = ap_val y"
      by (rule division_facts [OF x y _ y0]) (use w in simp, rule that)
    have body: "ap_udiv x y =
       (if n = 0 then Inr (ap_make w 0) else if m = 1 then Inr x
        else if ap_val x < ap_val y then Inr (ap_make w 0)
        else if ap_val x = ap_val y then Inr (ap_make w 1)
        else if getNumWords n = 1 then Inr (ap_make w (unat (pVal x ! 0 div pVal y ! 0)))
        else rbind (ap_divide (take (getNumWords n) (pVal x)) (take (getNumWords m) (pVal y)) (Some (pVal (ap_make w 0))) None)
          (\<lambda>(q, _). Inr ((ap_make w 0)\<lparr>pVal := the q\<rparr>)))"
      using False w f(3) by (simp add: ap_udiv_def same_width_def f(1,2,6,7) new Let_def cong: if_cong split del: if_split)
    consider (zero) "n = 0" | (one) "n \<noteq> 0" "m = 1" | (less) "n \<noteq> 0" "m \<noteq> 1" "ap_val x < ap_val y"
      | (same) "n \<noteq> 0" "m \<noteq> 1" "ap_val x = ap_val y"
      | (word) "n \<noteq> 0" "m \<noteq> 1" "ap_val y < ap_val x" "getNumWords n = 1"
      | (long) "n \<noteq> 0" "m \<noteq> 1" "ap_val y < ap_val x" "getNumWords n \<noteq> 1" by linarith
    then show ?thesis
    proof cases
      case zero
      then show ?thesis using body f(4) by simp
    next
      case one
      then show ?thesis using body f(5) ap_make_self [OF x] w by simp
    next
      case less
      then show ?thesis using body by simp
    next
      case same
      then show ?thesis using body y0 by simp
    next
      case word
      then have "getNumWords m = 1" using f(8) f(3) by (simp add: le_Suc_eq)
      then show ?thesis using word f(13,14) body by (simp add: unat_div_distrib)
    next
      case long
      have "length (take (getNumWords m) (pVal y)) \<le> getNumWords n" using f(8) long by simp
      moreover have "ap_val y \<le> ap_val x" using long by simp
      ultimately show ?thesis using divide_active(1) [OF x w(1) f(9,10) _ f(12) y0] long body by auto
    qed
  qed
qed

lemma ap_urem_make:
  assumes x: "ap_ok x" and y: "ap_ok y" and w: "BitWidth x = w" "BitWidth y = w" and y0: "ap_val y \<noteq> 0"
  shows "ap_urem x y = Inr (ap_make w (ap_val x mod ap_val y))"
proof -
  have w0: "0 < w" using x w by (simp add: ap_ok_def ap_shape_def)
  note new = new_APInt_unsigned [OF w0]
  show ?thesis
  proof (cases "isSingleWord x")
    case True
    then have "isSingleWord y" using w by (simp add: isSingleWord_def)
    then have "unat (VAL y) = ap_val y" "unat (VAL x) = ap_val x" using True x y by (simp_all add: single_word_val)
    moreover from this have "VAL y \<noteq> 0" using y0 by auto
    ultimately show ?thesis using True w new by (simp add: ap_urem_def same_width_def unat_mod_distrib)
  next
    case False
    obtain n m where f: "ap_getActiveBits x = Inr n" "ap_getActiveBits y = Inr m" "m \<noteq> 0"
      "n = 0 \<longleftrightarrow> ap_val x = 0" "m = 1 \<longleftrightarrow> ap_val y = 1"
      "is_smaller (getNumWords n) (getNumWords m) x y = Inr (ap_val x < ap_val y)"
      "ap_equal x y = Inr (ap_val x = ap_val y)"
      "\<not> ap_val x < ap_val y \<Longrightarrow> getNumWords m \<le> getNumWords n"
      "getNumWords n \<le> length (pVal x)" "tc_value (take (getNumWords n) (pVal x)) = ap_val x"
      "getNumWords m \<le> length (pVal y)" "tc_value (take (getNumWords m) (pVal y)) = ap_val y"
      "getNumWords n = 1 \<Longrightarrow> unat (pVal x ! 0) = ap_val x"
      "getNumWords m = 1 \<Longrightarrow> unat (pVal y ! 0) = ap_val y"
      by (rule division_facts [OF x y _ y0]) (use w in simp, rule that)
    have body: "ap_urem x y =
       (if n = 0 then Inr (ap_make w 0) else if m = 1 then Inr (ap_make w 0)
        else if ap_val x < ap_val y then Inr x
        else if ap_val x = ap_val y then Inr (ap_make w 0)
        else if getNumWords n = 1 then Inr (ap_make w (unat (pVal x ! 0 mod pVal y ! 0)))
        else rbind (ap_divide (take (getNumWords n) (pVal x)) (take (getNumWords m) (pVal y)) None (Some (pVal (ap_make w 0))))
          (\<lambda>(_, q). Inr ((ap_make w 0)\<lparr>pVal := the q\<rparr>)))"
      using False w f(3) by (simp add: ap_urem_def same_width_def f(1,2,6,7) new Let_def cong: if_cong split del: if_split)
    consider (zero) "n = 0" | (one) "n \<noteq> 0" "m = 1" | (less) "n \<noteq> 0" "m \<noteq> 1" "ap_val x < ap_val y"
      | (same) "n \<noteq> 0" "m \<noteq> 1" "ap_val x = ap_val y"
      | (word) "n \<noteq> 0" "m \<noteq> 1" "ap_val y < ap_val x" "getNumWords n = 1"
      | (long) "n \<noteq> 0" "m \<noteq> 1" "ap_val y < ap_val x" "getNumWords n \<noteq> 1" by linarith
    then show ?thesis
    proof cases
      case zero
      then show ?thesis using body f(4) by simp
    next
      case one
      then show ?thesis using body f(5) by simp
    next
      case less
      then show ?thesis using body ap_make_self [OF x] w by simp
    next
      case same
      then show ?thesis using body y0 by simp
    next
      case word
      then have "getNumWords m = 1" using f(8) f(3) by (simp add: le_Suc_eq)
      then show ?thesis using word f(13,14) body by (simp add: unat_mod_distrib)
    next
      case long
      have "length (take (getNumWords m) (pVal y)) \<le> getNumWords n" using f(8) long by simp
      moreover have "ap_val y \<le> ap_val x" using long by simp
      ultimately show ?thesis using divide_active(2) [OF x w(1) f(9,10) _ f(12) y0] long body by auto
    qed
  qed
qed

text \<open>The variants with a divisor of one word.\<close>

lemma word_facts:
  assumes x: "ap_ok x" and s: "\<not> isSingleWord x"
  obtains n where "ap_getActiveBits x = Inr n" "n = 0 \<longleftrightarrow> ap_val x = 0"
    "getNumWords n \<le> length (pVal x)" "tc_value (take (getNumWords n) (pVal x)) = ap_val x"
    "getNumWords n = 1 \<Longrightarrow> unat (pVal x ! 0) = ap_val x"
    "\<And>v. ap_ult_word x v = Inr (ap_val x < unat v)" "\<And>v. ap_equal_word x v = Inr (ap_val x = unat v)"
    "ap_val x < 2 ^ 64 \<Longrightarrow> \<exists>v. getZExtValue x = Inr v \<and> unat v = ap_val x"
proof -
  obtain n where n: "ap_getActiveBits x = Inr n" "getNumWords n \<le> length (pVal x)"
    "tc_value (take (getNumWords n) (pVal x)) = ap_val x" "n = 0 \<longleftrightarrow> ap_val x = 0"
    "n \<le> 64 \<longleftrightarrow> ap_val x < 2 ^ 64"
    by (rule active_words [OF x]) (rule that)
  have len: "0 < length (pVal x)" using x by (simp add: ap_ok_def ap_shape_def)
  have low: "unat (pVal x ! 0) = ap_val x" if "ap_val x < 2 ^ 64"
  proof -
    obtain p ps where p: "pVal x = p # ps" using len by (cases "pVal x") auto
    then have "ap_val x = unat p + 2 ^ 64 * tc_value ps" by (simp add: ap_val_def)
    then show ?thesis using that p by (cases "tc_value ps") simp_all
  qed
  have z: "getZExtValue x = Inr (pVal x ! 0)" if "ap_val x < 2 ^ 64"
    using that n(1,5) s by (simp add: getZExtValue_def)
  have fits: "fits_word x = Inr (ap_val x < 2 ^ 64)" using n(1,5) s by (simp add: fits_word_def)
  have big: "\<not> ap_val x < unat v" "ap_val x \<noteq> unat v" if "\<not> ap_val x < 2 ^ 64" for v :: part
    using that unat_part_less [of v] by linarith+
  show ?thesis
  proof (rule that [OF n(1,4,2,3)])
    show "unat (pVal x ! 0) = ap_val x" if "getNumWords n = 1"
    proof -
      have "ap_val x < 2 ^ (64 * 1)" using tc_value_less [of "take (getNumWords n) (pVal x)"] n(2,3) that by simp
      then show ?thesis using low by simp
    qed
    show "ap_ult_word x v = Inr (ap_val x < unat v)" for v
      using z fits big(1) [of v] low by (cases "ap_val x < 2 ^ 64") (simp_all add: ap_ult_word_def word_less_nat_alt)
    show "ap_equal_word x v = Inr (ap_val x = unat v)" for v
      using z fits big(2) [of v] low by (cases "ap_val x < 2 ^ 64") (simp_all add: ap_equal_word_def word_unat_eq_iff)
  qed (use z low in blast)
qed

lemma ap_udiv_word_make:
  assumes x: "ap_ok x" and w: "BitWidth x = w" and d: "RHS \<noteq> 0"
  shows "ap_udiv_word x RHS = Inr (ap_make w (ap_val x div unat RHS))"
proof -
  have w0: "0 < w" using x w by (simp add: ap_ok_def ap_shape_def)
  have d0: "unat RHS \<noteq> 0" using d by (simp add: unat_eq_0)
  note new = new_APInt_unsigned [OF w0]
  show ?thesis
  proof (cases "isSingleWord x")
    case True
    then show ?thesis using single_word_val [OF x True] w d new by (simp add: ap_udiv_word_def unat_div_distrib)
  next
    case False
    obtain n where f: "ap_getActiveBits x = Inr n" "n = 0 \<longleftrightarrow> ap_val x = 0"
      "getNumWords n \<le> length (pVal x)" "tc_value (take (getNumWords n) (pVal x)) = ap_val x"
      "getNumWords n = 1 \<Longrightarrow> unat (pVal x ! 0) = ap_val x"
      "\<And>v. ap_ult_word x v = Inr (ap_val x < unat v)" "\<And>v. ap_equal_word x v = Inr (ap_val x = unat v)"
      by (rule word_facts [OF x False]) (rule that)
    have body: "ap_udiv_word x RHS =
       (if n = 0 then Inr (ap_make w 0) else if RHS = 1 then Inr x
        else if ap_val x < unat RHS then Inr (ap_make w 0)
        else if ap_val x = unat RHS then Inr (ap_make w 1)
        else if getNumWords n = 1 then Inr (ap_make w (unat (pVal x ! 0 div RHS)))
        else rbind (ap_divide (take (getNumWords n) (pVal x)) [RHS] (Some (pVal (ap_make w 0))) None)
          (\<lambda>(q, _). Inr ((ap_make w 0)\<lparr>pVal := the q\<rparr>)))"
      using False w d by (simp add: ap_udiv_word_def f(1,6,7) new Let_def cong: if_cong split del: if_split)
    consider (zero) "n = 0" | (one) "n \<noteq> 0" "RHS = 1" | (less) "n \<noteq> 0" "RHS \<noteq> 1" "ap_val x < unat RHS"
      | (same) "n \<noteq> 0" "RHS \<noteq> 1" "ap_val x = unat RHS"
      | (word) "n \<noteq> 0" "RHS \<noteq> 1" "unat RHS < ap_val x" "getNumWords n = 1"
      | (long) "n \<noteq> 0" "RHS \<noteq> 1" "unat RHS < ap_val x" "getNumWords n \<noteq> 1" by linarith
    then show ?thesis
    proof cases
      case zero
      then show ?thesis using body f(2) by simp
    next
      case one
      then show ?thesis using body ap_make_self [OF x] w by simp
    next
      case less
      then show ?thesis using body by simp
    next
      case same
      then show ?thesis using body d0 by simp
    next
      case word
      then show ?thesis using f(5) body by (simp add: unat_div_distrib)
    next
      case long
      have "length [RHS] \<le> getNumWords n" using long(1) getNumWords_pos [of n] by (simp add: Suc_le_eq)
      then show ?thesis using divide_active(1) [OF x w f(3,4) _ _ d0, of "[RHS]"] long body by auto
    qed
  qed
qed

lemma ap_urem_word_value:
  assumes x: "ap_ok x" and d: "RHS \<noteq> 0"
  shows "\<exists>r. ap_urem_word x RHS mem = Inr r \<and> unat r = ap_val x mod unat RHS"
proof (cases "isSingleWord x")
  case True
  then show ?thesis using single_word_val [OF x True] d by (simp add: ap_urem_word_def unat_mod_distrib)
next
  case False
  have d0: "unat RHS \<noteq> 0" using d by (simp add: unat_eq_0)
  obtain n where f: "ap_getActiveBits x = Inr n" "n = 0 \<longleftrightarrow> ap_val x = 0"
    "getNumWords n \<le> length (pVal x)" "tc_value (take (getNumWords n) (pVal x)) = ap_val x"
    "getNumWords n = 1 \<Longrightarrow> unat (pVal x ! 0) = ap_val x"
    "\<And>v. ap_ult_word x v = Inr (ap_val x < unat v)" "\<And>v. ap_equal_word x v = Inr (ap_val x = unat v)"
    "ap_val x < 2 ^ 64 \<Longrightarrow> \<exists>v. getZExtValue x = Inr v \<and> unat v = ap_val x"
    by (rule word_facts [OF x False]) (rule that)
  have body: "ap_urem_word x RHS mem =
     (if n = 0 then Inr 0 else if RHS = 1 then Inr 0
      else if ap_val x < unat RHS then getZExtValue x
      else if ap_val x = unat RHS then Inr 0
      else if getNumWords n = 1 then Inr (pVal x ! 0 mod RHS)
      else rbind (ap_divide (take (getNumWords n) (pVal x)) [RHS] None (Some [mem]))
        (\<lambda>(_, r). Inr (the r ! 0)))"
    using False d by (simp add: ap_urem_word_def f(1,6,7) Let_def cong: if_cong split del: if_split)
  consider (zero) "n = 0" | (one) "n \<noteq> 0" "RHS = 1" | (less) "n \<noteq> 0" "RHS \<noteq> 1" "ap_val x < unat RHS"
    | (same) "n \<noteq> 0" "RHS \<noteq> 1" "ap_val x = unat RHS"
    | (word) "n \<noteq> 0" "RHS \<noteq> 1" "unat RHS < ap_val x" "getNumWords n = 1"
    | (long) "n \<noteq> 0" "RHS \<noteq> 1" "unat RHS < ap_val x" "getNumWords n \<noteq> 1" by linarith
  then show ?thesis
  proof cases
    case zero
    then show ?thesis using body f(2) by simp
  next
    case one
    then show ?thesis using body by simp
  next
    case less
    then have "ap_val x < 2 ^ 64" using unat_part_less [of RHS] by linarith
    then show ?thesis using body f(8) less by auto
  next
    case same
    then show ?thesis using body by simp
  next
    case word
    then show ?thesis using f(5) body by (simp add: unat_mod_distrib)
  next
    case long
    have "length [RHS] \<le> getNumWords n" using long(1) getNumWords_pos [of n] by (simp add: Suc_le_eq)
    then obtain ws where ws: "ap_divide (take (getNumWords n) (pVal x)) [RHS] None (Some [mem]) = Inr (None, Some ws)"
        "length ws = 1" "tc_value ws = ap_val x mod unat RHS"
      using divide_active(3) [OF x refl f(3,4) _ _ d0, of "[RHS]" "[mem]"] long by auto
    from ws(2) obtain r where "ws = [r]" by (cases ws) auto
    then show ?thesis using long body ws by simp
  qed
qed


section \<open>Signed division\<close>

text \<open>
  The signed operations round towards zero, and the remainder has the sign of the dividend;
  the quotient of the smallest number by \<open>-1\<close> wraps around.
\<close>

definition ap_signed :: "nat \<Rightarrow> int \<Rightarrow> APInt" where
  "ap_signed w i = ap_make w (nat (i mod 2 ^ w))"

lemma ap_signed_nat: "ap_make w n = ap_signed w (int n)"
proof -
  have "nat (int n mod 2 ^ w) = n mod 2 ^ w" by (simp add: nat_mod_distrib nat_power_eq)
  then show ?thesis by (simp add: ap_signed_def)
qed

lemma ap_negate_signed:
  assumes "0 < w"
  shows "ap_negate (ap_signed w i) = ap_signed w (- i)"
proof -
  let ?v = "nat (i mod 2 ^ w)"
  have v: "?v < 2 ^ w" "int ?v = i mod 2 ^ w" by (simp_all add: nat_less_iff)
  have "ap_negate (ap_signed w i) = ap_make w (2 ^ w - ?v)"
    using ap_negate_make [of "ap_signed w i" w] assms v(1) by (simp add: ap_signed_def)
  also have "\<dots> = ap_signed w (int (2 ^ w - ?v))" by (rule ap_signed_nat)
  also have "int (2 ^ w - ?v) = int (2 ^ w) - int ?v" using v(1) by (intro of_nat_diff less_imp_le)
  also have "int (2 ^ w) - int ?v = 2 ^ w - i mod 2 ^ w" using v(2) by simp
  also have "ap_signed w (2 ^ w - i mod 2 ^ w) = ap_signed w (- i)"
  proof -
    have "(2 ^ w - i mod 2 ^ w) mod 2 ^ w = (- i) mod 2 ^ w" by (simp add: mod_diff_right_eq mod_minus_eq)
    then show ?thesis by (simp add: ap_signed_def)
  qed
  finally show ?thesis .
qed

lemma ap_abs:
  assumes x: "ap_ok x" and w: "BitWidth x = w"
  shows "isNegative x = Inr (ap_sval x < 0)"
    and "ap_sval x < 0 \<Longrightarrow> ap_ok (ap_negate x) \<and> BitWidth (ap_negate x) = w \<and> int (ap_val (ap_negate x)) = - ap_sval x"
    and "\<not> ap_sval x < 0 \<Longrightarrow> int (ap_val x) = ap_sval x"
proof -
  have w0: "0 < w" "ap_val x < 2 ^ w" using x w by (auto simp: ap_ok_def ap_shape_def)
  show "isNegative x = Inr (ap_sval x < 0)" by (rule isNegative_value(2) [OF x])
  show "\<not> ap_sval x < 0 \<Longrightarrow> int (ap_val x) = ap_sval x"
    using w0 w by (auto simp: ap_sval_def split: if_splits)
  assume neg: "ap_sval x < 0"
  then have s: "ap_sval x = int (ap_val x) - 2 ^ w" using w by (auto simp: ap_sval_def split: if_splits)
  have s0: "0 < ap_val x" using neg by (cases "ap_val x = 0") (simp_all add: ap_sval_def)
  have "ap_negate x = ap_make w (2 ^ w - ap_val x)" by (rule ap_negate_make [OF x w])
  then show "ap_ok (ap_negate x) \<and> BitWidth (ap_negate x) = w \<and> int (ap_val (ap_negate x)) = - ap_sval x"
    using w0 s s0 by (simp add: of_nat_diff)
qed

text \<open>The numbers the signed operations divide: the absolute values.\<close>

definition ap_absolute :: "APInt \<Rightarrow> APInt" where
  "ap_absolute x = (if ap_sval x < 0 then ap_negate x else x)"

lemma ap_absolute_value:
  assumes "ap_ok x" "BitWidth x = w"
  shows "ap_ok (ap_absolute x)" "BitWidth (ap_absolute x) = w" "int (ap_val (ap_absolute x)) = \<bar>ap_sval x\<bar>"
  using ap_abs [OF assms] assms by (auto simp: ap_absolute_def)

lemma ap_sdiv_signed:
  assumes x: "ap_ok x" and y: "ap_ok y" and w: "BitWidth x = w" "BitWidth y = w" and y0: "ap_val y \<noteq> 0"
  shows "ap_sdiv x y = Inr (ap_signed w (ap_sval x sdiv ap_sval y))"
    and "ap_srem x y = Inr (ap_signed w (ap_sval x smod ap_sval y))"
proof -
  note ax = ap_absolute_value [OF x w(1)] and ay = ap_absolute_value [OF y w(2)]
  have w0: "0 < w" using x w by (simp add: ap_ok_def ap_shape_def)
  have sy: "ap_sval y \<noteq> 0" using y0 y by (auto simp: ap_sval_def ap_ok_def split: if_splits)
  then have ay0: "ap_val (ap_absolute y) \<noteq> 0" using ay(3) by auto
  have q: "ap_udiv (ap_absolute x) (ap_absolute y) = Inr (ap_signed w (\<bar>ap_sval x\<bar> div \<bar>ap_sval y\<bar>))"
    using ap_udiv_make [OF ax(1) ay(1) ax(2) ay(2) ay0] ax(3) ay(3) by (simp add: ap_signed_nat zdiv_int)
  have r: "ap_urem (ap_absolute x) (ap_absolute y) = Inr (ap_signed w (\<bar>ap_sval x\<bar> mod \<bar>ap_sval y\<bar>))"
    using ap_urem_make [OF ax(1) ay(1) ax(2) ay(2) ay0] ax(3) ay(3) by (simp add: ap_signed_nat zmod_int)
  have "ap_sdiv x y = Inr (if (ap_sval x < 0) = (ap_sval y < 0) then ap_signed w (\<bar>ap_sval x\<bar> div \<bar>ap_sval y\<bar>)
      else ap_negate (ap_signed w (\<bar>ap_sval x\<bar> div \<bar>ap_sval y\<bar>)))"
    using q ap_abs(1) [OF x w(1)] ap_abs(1) [OF y w(2)]
    by (simp add: ap_sdiv_def ap_absolute_def split: if_splits)
  also have "\<dots> = Inr (ap_signed w (ap_sval x sdiv ap_sval y))"
    using sy by (simp add: ap_negate_signed [OF w0] signed_divide_int_def sgn_if)
  finally show "ap_sdiv x y = Inr (ap_signed w (ap_sval x sdiv ap_sval y))" .
  have "ap_srem x y = Inr (if ap_sval x < 0 then ap_negate (ap_signed w (\<bar>ap_sval x\<bar> mod \<bar>ap_sval y\<bar>))
      else ap_signed w (\<bar>ap_sval x\<bar> mod \<bar>ap_sval y\<bar>))"
    using r ap_abs(1) [OF x w(1)] ap_abs(1) [OF y w(2)]
    by (simp add: ap_srem_def ap_absolute_def split: if_splits)
  also have "\<dots> = Inr (ap_signed w (ap_sval x smod ap_sval y))"
    by (simp add: ap_negate_signed [OF w0] signed_modulo_int_def sgn_if)
  finally show "ap_srem x y = Inr (ap_signed w (ap_sval x smod ap_sval y))" .
qed

end
