(* ===== verification/ApIntDivRem.thy ===== *)
theory ApIntDivRem
  imports ApIntDiv
begin

text \<open>
  \<open>udivrem\<close> computes quotient and remainder at once and writes them to two objects its caller
  passes by reference. They may be the operands themselves, so the model has a store of objects
  by address. Memory that is not initialised is an argument.
\<close>

type_synonym store = "nat \<Rightarrow> APInt"

definition reallocate :: "APInt \<Rightarrow> nat \<Rightarrow> part list \<Rightarrow> APInt" where
  "reallocate x NewBitWidth mem =
    (if getNumWords (BitWidth x) = getNumWords NewBitWidth then x\<lparr>BitWidth := NewBitWidth\<rparr>
     else x\<lparr>BitWidth := NewBitWidth, pVal := mem\<rparr>)"

definition assign_word :: "APInt \<Rightarrow> part \<Rightarrow> APInt" where
  "assign_word x RHS =
    (if isSingleWord x then clearUnusedBits (VAL_update (\<lambda>_. RHS) x)
     else x\<lparr>pVal := RHS # replicate (getNumWords (BitWidth x) - 1) 0\<rparr>)"

definition store_words :: "nat \<Rightarrow> nat \<Rightarrow> nat \<Rightarrow> part \<Rightarrow> part \<Rightarrow> store \<Rightarrow> store result" where
  "store_words w Quot Rem q r st =
    rbind (new_APInt w q False) (\<lambda>a. rbind (new_APInt w r False) (\<lambda>b. Inr (st(Quot := a, Rem := b))))"

definition udivrem_long :: "nat \<Rightarrow> nat \<Rightarrow> nat \<Rightarrow> part list \<Rightarrow> part list \<Rightarrow> nat \<Rightarrow> nat \<Rightarrow> nat \<Rightarrow> nat \<Rightarrow> store \<Rightarrow> store result" where
  "udivrem_long w lhsWords rhsWords memq memr LHS RHS Quot Rem st =
    (let st = st(Quot := reallocate (st Quot) w memq); st = st(Rem := reallocate (st Rem) w memr)
     in if lhsWords = 1
        then let lhsValue = pVal (st LHS) ! 0; rhsValue = pVal (st RHS) ! 0
             in if rhsValue = 0 then Inl (UndefinedBehaviour ''division by zero'')
                else let st = st(Quot := assign_word (st Quot) (lhsValue div rhsValue))
                     in Inr (st(Rem := assign_word (st Rem) (lhsValue mod rhsValue)))
        else rbind (ap_divide (take lhsWords (pVal (st LHS))) (take rhsWords (pVal (st RHS)))
                     (Some (pVal (st Quot))) (Some (pVal (st Rem)))) (\<lambda>(q, r).
          let n = getNumWords w;
              st = st(Quot := (st Quot)\<lparr>pVal := take lhsWords (the q) @ replicate (n - lhsWords) 0\<rparr>)
          in Inr (st(Rem := (st Rem)\<lparr>pVal := take rhsWords (the r) @ replicate (n - rhsWords) 0\<rparr>))))"

definition udivrem :: "part list \<Rightarrow> part list \<Rightarrow> nat \<Rightarrow> nat \<Rightarrow> nat \<Rightarrow> nat \<Rightarrow> store \<Rightarrow> store result" where
  "udivrem memq memr LHS RHS Quot Rem st =
    rbind (same_width (st LHS) (st RHS)) (\<lambda>_.
    let w = BitWidth (st LHS)
    in if isSingleWord (st LHS)
       then rbind (check_assert (VAL (st RHS) \<noteq> 0) ''Divide by zero?'') (\<lambda>_.
              store_words w Quot Rem (VAL (st LHS) div VAL (st RHS)) (VAL (st LHS) mod VAL (st RHS)) st)
       else rbind (ap_getActiveBits (st LHS)) (\<lambda>lhsBits. rbind (ap_getActiveBits (st RHS)) (\<lambda>rhsBits.
         let lhsWords = getNumWords lhsBits; rhsWords = getNumWords rhsBits
         in rbind (check_assert (rhsWords \<noteq> 0) ''Performing divrem operation by zero ???'') (\<lambda>_.
            if lhsWords = 0 then store_words w Quot Rem 0 0 st
            else rbind (if rhsBits = 1
                        then rbind (new_APInt w 0 False) (\<lambda>z. Inr (st(Quot := st LHS, Rem := z)))
                        else Inr st) (\<lambda>st.
                 rbind (is_smaller lhsWords rhsWords (st LHS) (st RHS)) (\<lambda>lt.
                 if lt then rbind (new_APInt w 0 False) (\<lambda>z. Inr (st(Rem := st LHS, Quot := z)))
                 else rbind (ap_equal (st LHS) (st RHS)) (\<lambda>eq.
                 if eq then store_words w Quot Rem 1 0 st
                 else udivrem_long w lhsWords rhsWords memq memr LHS RHS Quot Rem st)))))))"

lemma reallocate_shape:
  assumes "ap_shape x" "0 < w" "length mem = getNumWords w"
  shows "ap_shape (reallocate x w mem)" "BitWidth (reallocate x w mem) = w" "ap_ok x \<Longrightarrow> BitWidth x = w \<Longrightarrow> reallocate x w mem = x"
  using assms by (auto simp: reallocate_def ap_shape_def)

lemma assign_word_make:
  assumes "ap_shape x" "BitWidth x = w" "64 < w"
  shows "assign_word x v = ap_make w (unat v)"
proof (rule ap_makeI)
  have n: "getNumWords w = Suc (getNumWords w - 1)" using getNumWords_split(1) [of w] assms(3) by simp
  have "(2 :: nat) ^ 64 \<le> 2 ^ w" using assms(3) by (intro power_increasing) simp_all
  then have "unat v < 2 ^ w" using unat_part_less [of v] by linarith
  then show "ap_ok (assign_word x v)" "BitWidth (assign_word x v) = w" "ap_val (assign_word x v) = unat v mod 2 ^ w"
    using assms n by (simp_all add: assign_word_def isSingleWord_def ap_ok_def ap_shape_def ap_val_def)
qed

lemma store_words_value:
  assumes "0 < w" "Quot \<noteq> Rem"
  shows "\<exists>st'. store_words w Quot Rem q r st = Inr st' \<and> st' Quot = ap_make w (unat q) \<and> st' Rem = ap_make w (unat r) \<and>
    (\<forall>a. a \<noteq> Quot \<and> a \<noteq> Rem \<longrightarrow> st' a = st a)"
  using assms by (simp add: store_words_def new_APInt_unsigned)

lemma long_object:
  assumes "ap_shape x" "BitWidth x = w" "length ws \<le> getNumWords w" "tc_value ws < 2 ^ w"
  shows "x\<lparr>pVal := ws @ replicate (getNumWords w - length ws) 0\<rparr> = ap_make w (tc_value ws)"
  using assms by (intro ap_makeI) (simp_all add: ap_ok_def ap_shape_def ap_val_def)


lemma udivrem_long_value:
  assumes x: "ap_ok x" "BitWidth x = w" and y: "ap_ok y" "BitWidth y = w" and w: "64 < w"
    and st: "st LHS = x" "st RHS = y" "ap_shape (st Quot)" "ap_shape (st Rem)" "Quot \<noteq> Rem"
    and mem: "length memq = getNumWords w" "length memr = getNumWords w"
    and l: "l \<le> length (pVal x)" "tc_value (take l (pVal x)) = ap_val x" "l = 1 \<Longrightarrow> unat (pVal x ! 0) = ap_val x"
    and r: "r \<le> length (pVal y)" "tc_value (take r (pVal y)) = ap_val y" "r = 1 \<Longrightarrow> unat (pVal y ! 0) = ap_val y"
    and lr: "r \<le> l" "0 < r" "ap_val y \<noteq> 0" "ap_val y \<le> ap_val x"
  shows "\<exists>st'. udivrem_long w l r memq memr LHS RHS Quot Rem st = Inr st' \<and>
    st' Quot = ap_make w (ap_val x div ap_val y) \<and> st' Rem = ap_make w (ap_val x mod ap_val y) \<and>
    (\<forall>a. a \<noteq> Quot \<and> a \<noteq> Rem \<longrightarrow> st' a = st a)"
proof -
  have w0: "0 < w" using w by simp
  define s where "s = st(Quot := reallocate (st Quot) w memq, Rem := reallocate (st Rem) w memr)"
  note rq = reallocate_shape [OF st(3) w0 mem(1)] and rr = reallocate_shape [OF st(4) w0 mem(2)]
  have s: "s LHS = x" "s RHS = y" "ap_shape (s Quot)" "BitWidth (s Quot) = w" "ap_shape (s Rem)" "BitWidth (s Rem) = w"
    "\<And>a. a \<noteq> Quot \<and> a \<noteq> Rem \<Longrightarrow> s a = st a"
    using st rq rr x y by (auto simp: s_def)
  have e: "udivrem_long w l r memq memr LHS RHS Quot Rem st =
    (if l = 1
     then if pVal y ! 0 = 0 then Inl (UndefinedBehaviour ''division by zero'')
          else Inr (s(Quot := assign_word (s Quot) (pVal x ! 0 div pVal y ! 0), Rem := assign_word (s Rem) (pVal x ! 0 mod pVal y ! 0)))
     else rbind (ap_divide (take l (pVal x)) (take r (pVal y)) (Some (pVal (s Quot))) (Some (pVal (s Rem)))) (\<lambda>(q, p).
       Inr (s(Quot := (s Quot)\<lparr>pVal := take l (the q) @ replicate (getNumWords w - l) 0\<rparr>,
              Rem := (s Rem)\<lparr>pVal := take r (the p) @ replicate (getNumWords w - r) 0\<rparr>))))"
    using st(5) s(1,2) unfolding udivrem_long_def Let_def s_def by (simp cong: if_cong split del: if_split)
  show ?thesis
  proof (cases "l = 1")
    case True
    then have "r = 1" using lr by simp
    then have v: "unat (pVal x ! 0) = ap_val x" "unat (pVal y ! 0) = ap_val y" using True l(3) r(3) by simp_all
    then have "pVal y ! 0 \<noteq> 0" using lr(3) by auto
    then show ?thesis using e True st(5) s(7) v assign_word_make [OF s(3,4) w] assign_word_make [OF s(5,6) w]
      by (simp add: unat_div_distrib unat_mod_distrib)
  next
    case False
    have pre: "length (take r (pVal y)) \<le> length (take l (pVal x))" "tc_value (take r (pVal y)) \<noteq> 0"
      "tc_value (take r (pVal y)) \<le> tc_value (take l (pVal x))" using l r lr by simp_all
    obtain ql rl where v: "ap_divide (take l (pVal x)) (take r (pVal y)) (Some (pVal (s Quot))) (Some (pVal (s Rem))) =
        Inr (Some (ql @ drop l (pVal (s Quot))), Some (rl @ drop r (pVal (s Rem))))"
        "length ql = l" "tc_value ql = ap_val x div ap_val y" "length rl = r" "tc_value rl = ap_val x mod ap_val y"
      using ap_divide_value [OF pre, of "Some (pVal (s Quot))" "Some (pVal (s Rem))"] l r by (auto simp: min_absorb2)
    have len: "l \<le> getNumWords w" "r \<le> getNumWords w"
      using l(1) r(1) x y by (simp_all add: ap_ok_def ap_shape_def)
    have "ap_val x < 2 ^ w" using x by (simp add: ap_ok_def)
    then have b: "tc_value ql < 2 ^ w" "tc_value rl < 2 ^ w"
      using v(3,5) div_le_dividend [of "ap_val x" "ap_val y"] mod_less_eq_dividend [of "ap_val x" "ap_val y"] by linarith+
    have "(s Quot)\<lparr>pVal := ql @ replicate (getNumWords w - l) 0\<rparr> = ap_make w (ap_val x div ap_val y)"
      "(s Rem)\<lparr>pVal := rl @ replicate (getNumWords w - r) 0\<rparr> = ap_make w (ap_val x mod ap_val y)"
      using long_object [OF s(3,4) _ b(1)] long_object [OF s(5,6) _ b(2)] v len by simp_all
    then show ?thesis using e False v(1,2,4) st(5) s(7) by simp
  qed
qed

lemma udivrem_value:
  assumes x: "ap_ok (st LHS)" "BitWidth (st LHS) = w" and y: "ap_ok (st RHS)" "BitWidth (st RHS) = w"
    and y0: "ap_val (st RHS) \<noteq> 0"
    and out: "ap_shape (st Quot)" "ap_shape (st Rem)" "Quot \<noteq> Rem"
    and mem: "length memq = getNumWords w" "length memr = getNumWords w"
    and apart: "isSingleWord (st LHS) \<or> ap_val (st RHS) \<noteq> 1 \<or> Rem \<noteq> LHS \<and> Quot \<noteq> RHS \<and> Rem \<noteq> RHS"
  shows "\<exists>st'. udivrem memq memr LHS RHS Quot Rem st = Inr st' \<and>
    st' Quot = ap_make w (ap_val (st LHS) div ap_val (st RHS)) \<and>
    st' Rem = ap_make w (ap_val (st LHS) mod ap_val (st RHS)) \<and>
    (\<forall>a. a \<noteq> Quot \<and> a \<noteq> Rem \<longrightarrow> st' a = st a)"
proof -
  define X where "X = st LHS"
  define Y where "Y = st RHS"
  have w0: "0 < w" using x by (simp add: ap_ok_def ap_shape_def)
  note new = new_APInt_unsigned [OF w0]
  show ?thesis
  proof (cases "isSingleWord X")
    case True
    then have "isSingleWord Y" using x y by (simp add: isSingleWord_def X_def Y_def)
    then have v: "unat (VAL Y) = ap_val Y" "unat (VAL X) = ap_val X"
      using True x y by (simp_all add: single_word_val X_def Y_def)
    moreover from this have "VAL Y \<noteq> 0" using y0 by (auto simp: Y_def)
    ultimately have "udivrem memq memr LHS RHS Quot Rem st = store_words w Quot Rem (VAL X div VAL Y) (VAL X mod VAL Y) st"
      using True x y by (simp add: udivrem_def same_width_def X_def Y_def)
    then show ?thesis using store_words_value [OF w0 out(3), of "VAL X div VAL Y" "VAL X mod VAL Y" st] v
      by (simp add: unat_div_distrib unat_mod_distrib X_def Y_def)
  next
    case False
    then have w64: "64 < w" using x by (simp add: isSingleWord_def X_def)
    have ww: "BitWidth X = BitWidth Y" "ap_val Y \<noteq> 0" using x y y0 by (simp_all add: X_def Y_def)
    obtain n m where f: "ap_getActiveBits X = Inr n" "ap_getActiveBits Y = Inr m" "m \<noteq> 0"
      "n = 0 \<longleftrightarrow> ap_val X = 0" "m = 1 \<longleftrightarrow> ap_val Y = 1"
      "is_smaller (getNumWords n) (getNumWords m) X Y = Inr (ap_val X < ap_val Y)"
      "ap_equal X Y = Inr (ap_val X = ap_val Y)"
      "\<not> ap_val X < ap_val Y \<Longrightarrow> getNumWords m \<le> getNumWords n"
      "getNumWords n \<le> length (pVal X)" "tc_value (take (getNumWords n) (pVal X)) = ap_val X"
      "getNumWords m \<le> length (pVal Y)" "tc_value (take (getNumWords m) (pVal Y)) = ap_val Y"
      "getNumWords n = 1 \<Longrightarrow> unat (pVal X ! 0) = ap_val X"
      "getNumWords m = 1 \<Longrightarrow> unat (pVal Y ! 0) = ap_val Y"
      by (rule division_facts [of X Y]) (use x y in \<open>simp add: X_def\<close>, use y in \<open>simp add: Y_def\<close>, rule ww, rule ww, rule that)
    define s where "s = (if m = 1 then st(Quot := X, Rem := ap_make w 0) else st)"
    have s: "s LHS = X" "s RHS = Y" "ap_shape (s Quot)" "ap_shape (s Rem)" "\<And>a. a \<noteq> Quot \<and> a \<noteq> Rem \<Longrightarrow> s a = st a"
      using apart False f(5) out x ap_make_ok [OF w0, of 0] unfolding s_def X_def Y_def
      by (auto simp: ap_shapeI)
    have body: "udivrem memq memr LHS RHS Quot Rem st =
      (if n = 0 then store_words w Quot Rem 0 0 st
       else if ap_val X < ap_val Y then Inr (s(Rem := X, Quot := ap_make w 0))
       else if ap_val X = ap_val Y then store_words w Quot Rem 1 0 s
       else udivrem_long w (getNumWords n) (getNumWords m) memq memr LHS RHS Quot Rem s)"
    proof -
      have "(if m = 1 then rbind (new_APInt w 0 False) (\<lambda>z. Inr (st(Quot := st LHS, Rem := z))) else Inr st) = Inr s"
        by (simp add: s_def new X_def)
      then show ?thesis using False f(1-3,6,7) s(1,2) x y unfolding udivrem_def X_def [symmetric] Y_def [symmetric]
        by (simp add: same_width_def new Let_def X_def [symmetric] Y_def [symmetric] cong: if_cong split del: if_split)
    qed
    have xs: "ap_make w (ap_val X) = X" using ap_make_self [OF x(1)] x(2) by (simp add: X_def)
    consider (zero) "n = 0" | (less) "n \<noteq> 0" "ap_val X < ap_val Y" | (same) "n \<noteq> 0" "ap_val X = ap_val Y"
      | (long) "n \<noteq> 0" "ap_val Y < ap_val X" by linarith
    then show ?thesis
    proof cases
      case zero
      then show ?thesis using body f(4) store_words_value [OF w0 out(3), of 0 0 st] by (simp add: X_def)
    next
      case less
      then show ?thesis using body out(3) s(5) xs by (simp add: X_def Y_def)
    next
      case same
      then show ?thesis using body store_words_value [OF w0 out(3), of 1 0 s] s(5) y0 by (simp add: X_def Y_def)
    next
      case long
      have "\<exists>st'. udivrem_long w (getNumWords n) (getNumWords m) memq memr LHS RHS Quot Rem s = Inr st' \<and>
          st' Quot = ap_make w (ap_val X div ap_val Y) \<and> st' Rem = ap_make w (ap_val X mod ap_val Y) \<and>
          (\<forall>a. a \<noteq> Quot \<and> a \<noteq> Rem \<longrightarrow> st' a = s a)"
        using long f(3,8) x y y0
        by (intro udivrem_long_value [OF _ _ _ _ w64 s(1-4) out(3) mem f(9,10,13,11,12,14)]) (simp_all add: X_def Y_def)
      then show ?thesis using body long s(5) by (simp add: X_def Y_def)
    qed
  qed
qed


text \<open>A divisor that is zero is caught by the assertions.\<close>

lemma zero_divisor:
  assumes x: "ap_ok x" and y: "ap_ok y" and w: "BitWidth x = BitWidth y" and y0: "ap_val y = 0"
  shows "(\<exists>msg. ap_udiv x y = Inl (AssertFailed msg)) \<and> (\<exists>msg. ap_urem x y = Inl (AssertFailed msg)) \<and>
    (\<forall>memq memr LHS RHS Quot Rem st. st LHS = x \<and> st RHS = y \<longrightarrow>
       (\<exists>msg. udivrem memq memr LHS RHS Quot Rem st = Inl (AssertFailed msg)))"
proof (cases "isSingleWord x")
  case True
  then have "isSingleWord y" using w by (simp add: isSingleWord_def)
  then have "VAL y = 0" using single_word_val [OF y] y0 by (simp add: unat_eq_0)
  then show ?thesis using True w
    by (auto simp: ap_udiv_def ap_urem_def udivrem_def same_width_def)
next
  case False
  obtain n where n: "ap_getActiveBits x = Inr n" by (rule active_words [OF x]) (rule that)
  obtain m where m: "ap_getActiveBits y = Inr m" "m = 0 \<longleftrightarrow> ap_val y = 0"
    by (rule active_words [OF y]) (rule that)
  show ?thesis using False w y0 n m
    by (auto simp: ap_udiv_def ap_urem_def udivrem_def same_width_def)
qed

text \<open>
  The case of a divisor 1 writes its results and does not return. When the remainder is
  to go to the object of the dividend, the dividend is zero in what follows, and the quotient is
  overwritten with zero.
\<close>

lemma udivrem_by_one_aliased:
  assumes x: "ap_ok (st LHS)" "BitWidth (st LHS) = w" "ap_val (st LHS) \<noteq> 0"
    and y: "ap_ok (st RHS)" "BitWidth (st RHS) = w" "ap_val (st RHS) = 1"
    and w: "64 < w" and addr: "Quot \<noteq> LHS" "Quot \<noteq> RHS" "RHS \<noteq> LHS"
  shows "\<exists>st'. udivrem memq memr LHS RHS Quot LHS st = Inr st' \<and> ap_val (st' Quot) = 0"
proof -
  have w0: "0 < w" "\<not> isSingleWord (st LHS)" using w x by (simp_all add: isSingleWord_def)
  obtain n where n: "ap_getActiveBits (st LHS) = Inr n" "n = 0 \<longleftrightarrow> ap_val (st LHS) = 0"
    by (rule active_words [OF x(1)]) (rule that)
  obtain m where m: "ap_getActiveBits (st RHS) = Inr m" "m = 1 \<longleftrightarrow> ap_val (st RHS) = 1"
    by (rule active_words [OF y(1)]) (rule that)
  have "getNumWords m = 1" using m(2) y(3) by (simp add: getNumWords_def)
  moreover have "\<not> getNumWords n < 1" using n(2) x(3) by simp
  moreover have "ap_ult (ap_make w 0) (st RHS) = Inr True"
    using ap_ult_value [of "ap_make w 0" "st RHS"] w0 y by simp
  ultimately have "is_smaller (getNumWords n) (getNumWords m) (ap_make w 0) (st RHS) = Inr True"
    by (simp add: is_smaller_def)
  then have "udivrem memq memr LHS RHS Quot LHS st =
      Inr (st(LHS := ap_make w 0, Quot := ap_make w 0))"
    using n m x y w0 addr new_APInt_unsigned [OF w0(1)]
    by (simp add: udivrem_def same_width_def fun_upd_twist)
  then show ?thesis by simp
qed

end
