(* ===== verification/ApIntGcd.thy ===== *)
theory ApIntGcd
  imports ApIntBits
begin

text \<open>
  \<open>APIntOps::GreatestCommonDivisor\<close>, Stein's algorithm on \<open>APInt\<close>. The loop has no counter; it is a
  partial function, for which not ending is the value \<open>None\<close>, and it is shown to end.
\<close>

definition ap_not :: "APInt \<Rightarrow> bool result" where
  "ap_not x = (if isSingleWord x then Inr (VAL x = 0)
     else rbind (countLeadingZerosSlowCase x) (\<lambda>n. Inr (n = BitWidth x)))"

definition ap_ugt :: "APInt \<Rightarrow> APInt \<Rightarrow> bool result" where
  "ap_ugt x y = rbind (ap_compare x y) (\<lambda>c. Inr (\<not> c \<le> 0))"

text \<open>Subtraction of the smaller number and removal of the powers of two it leaves.\<close>

definition gcd_reduce :: "nat \<Rightarrow> APInt \<Rightarrow> APInt \<Rightarrow> APInt result" where
  "gcd_reduce Pow2 A B =
    rbind (ap_minus A B) (\<lambda>A. rbind (ap_countTrailingZeros A) (\<lambda>n. ap_lshr A (n - Pow2)))"

text \<open>A round of the loop: the result when the numbers agree, the next numbers otherwise.\<close>

definition gcd_round :: "nat \<Rightarrow> APInt \<Rightarrow> APInt \<Rightarrow> (APInt + APInt \<times> APInt) result" where
  "gcd_round Pow2 A B =
    rbind (ap_equal A B) (\<lambda>eq.
    if eq then Inr (Inl A)
    else rbind (ap_ugt A B) (\<lambda>gt.
      if gt then rbind (gcd_reduce Pow2 A B) (\<lambda>A. Inr (Inr (A, B)))
      else rbind (gcd_reduce Pow2 B A) (\<lambda>B. Inr (Inr (A, B)))))"

definition round_result :: "(APInt + APInt \<times> APInt) result \<Rightarrow> APInt result option" where
  "round_result r = (case r of Inl e \<Rightarrow> Some (Inl e) | Inr (Inl A) \<Rightarrow> Some (Inr A) | Inr (Inr _) \<Rightarrow> None)"

definition round_next :: "(APInt + APInt \<times> APInt) result \<Rightarrow> APInt \<times> APInt" where
  "round_next r = projr (projr r)"

partial_function (option) gcd_loop :: "nat \<Rightarrow> APInt \<Rightarrow> APInt \<Rightarrow> APInt result option" where
  "gcd_loop Pow2 A B =
    (let r = gcd_round Pow2 A B
     in if round_result r \<noteq> None then round_result r
        else gcd_loop Pow2 (fst (round_next r)) (snd (round_next r)))"

definition gcd_shift :: "APInt \<Rightarrow> APInt \<Rightarrow> (nat \<times> APInt \<times> APInt) result" where
  "gcd_shift A B =
    rbind (ap_countTrailingZeros A) (\<lambda>Pow2_A. rbind (ap_countTrailingZeros B) (\<lambda>Pow2_B.
      if Pow2_B < Pow2_A then rbind (ap_lshr A (Pow2_A - Pow2_B)) (\<lambda>A. Inr (Pow2_B, A, B))
      else if Pow2_A < Pow2_B then rbind (ap_lshr B (Pow2_B - Pow2_A)) (\<lambda>B. Inr (Pow2_A, A, B))
      else Inr (Pow2_A, A, B)))"

definition gcd_start :: "APInt \<Rightarrow> APInt \<Rightarrow> (APInt + nat \<times> APInt \<times> APInt) result" where
  "gcd_start A B =
    rbind (ap_equal A B) (\<lambda>eq. if eq then Inr (Inl A)
    else rbind (ap_not A) (\<lambda>a. if a then Inr (Inl B)
    else rbind (ap_not B) (\<lambda>b. if b then Inr (Inl A)
    else rbind (gcd_shift A B) (\<lambda>s. Inr (Inr s)))))"

definition GreatestCommonDivisor :: "APInt \<Rightarrow> APInt \<Rightarrow> APInt result option" where
  "GreatestCommonDivisor A B =
    (case gcd_start A B of Inl e \<Rightarrow> Some (Inl e) | Inr (Inl A) \<Rightarrow> Some (Inr A)
      | Inr (Inr (Pow2, A, B)) \<Rightarrow> gcd_loop Pow2 A B)"

section \<open>Odd multiples of a power of two\<close>

lemma trail_zeros_odd_multiple:
  assumes "0 < v" "v < 2 ^ k"
  obtains a where "v = a * 2 ^ trail_zeros v k" "odd a" "trail_zeros v k < k"
proof -
  from trail_zeros_spec [OF assms] have t: "trail_zeros v k < k" "bit v (trail_zeros v k)" "2 ^ trail_zeros v k dvd v" by auto
  then obtain a where a: "v = 2 ^ trail_zeros v k * a" by (auto elim: dvdE)
  then have "odd a" using t(2) by (metis bit_iff_odd nonzero_mult_div_cancel_left power_not_zero zero_neq_numeral)
  with a t(1) that show ?thesis by (metis mult.commute)
qed

lemma gcd_odd_part: "odd b \<Longrightarrow> gcd (a * 2 ^ i) b = gcd a (b :: nat)"
  by (intro gcd_mult_left_right_cancel) simp


lemma gcd_reduce_value:
  assumes A: "ap_ok A" "BitWidth A = w" "ap_val A = a * 2 ^ p" "odd a"
    and B: "ap_ok B" "BitWidth B = w" "ap_val B = b * 2 ^ p" "odd b" and less: "b < a"
  shows "\<exists>c. gcd_reduce p A B = Inr (ap_make w (c * 2 ^ p)) \<and> odd c \<and> c < a \<and> c * 2 ^ p < 2 ^ w \<and> gcd c b = gcd a b"
proof -
  have w: "0 < w" "a * 2 ^ p < 2 ^ w" using A by (auto simp: ap_ok_def ap_shape_def)
  define d where "d = (a - b) * 2 ^ p"
  have d: "0 < d" "d < 2 ^ w" using less w(2) by (auto simp: d_def intro: le_less_trans [rotated])
  have "ap_minus A B = Inr (ap_make w (ap_val A + 2 ^ w - ap_val B))" by (rule ap_minus_make [OF A(1) B(1) A(2) B(2)])
  also have "ap_make w (ap_val A + 2 ^ w - ap_val B) = ap_make w d"
  proof (rule ap_make_cong)
    have "b * 2 ^ p \<le> a * 2 ^ p" using less by simp
    then have "ap_val A + 2 ^ w - ap_val B = d + 2 ^ w" using A(3) B(3) by (simp add: d_def diff_mult_distrib)
    then show "(ap_val A + 2 ^ w - ap_val B) mod 2 ^ w = d mod 2 ^ w" by simp
  qed
  finally have sub: "ap_minus A B = Inr (ap_make w d)" .
  define t where "t = trail_zeros d w"
  obtain c where c: "d = c * 2 ^ t" "odd c" "t < w" using trail_zeros_odd_multiple [OF d] by (auto simp: t_def)
  have ctz: "ap_countTrailingZeros (ap_make w d) = Inr t"
    using ap_countTrailingZeros_value [of "ap_make w d"] w(1) d(2) by (simp add: t_def)
  have pt: "p < t"
  proof (rule ccontr)
    assume "\<not> p < t"
    then have "(a - b) * 2 ^ (p - t) * 2 ^ t = c * 2 ^ t" using c(1) by (simp add: d_def mult.assoc flip: power_add)
    then have "(a - b) * 2 ^ (p - t) = c" by simp
    then show False using A(4) B(4) c(2) less by auto
  qed
  then have e: "(a - b) = c * 2 ^ (t - p)"
  proof -
    have "c * 2 ^ t = c * 2 ^ (t - p) * 2 ^ p" using pt by (simp add: mult.assoc flip: power_add)
    then have "(a - b) * 2 ^ p = c * 2 ^ (t - p) * 2 ^ p" using c(1) by (simp add: d_def)
    then show ?thesis by simp
  qed
  have dd: "d div 2 ^ (t - p) = c * 2 ^ p"
  proof -
    have "d = (c * 2 ^ p) * 2 ^ (t - p)" using c(1) pt by (simp add: mult.assoc flip: power_add)
    then show ?thesis by simp
  qed
  have sh: "ap_lshr (ap_make w d) (t - p) = Inr (ap_make w (c * 2 ^ p))"
    using ap_lshr_make [of "ap_make w d" w "t - p"] w(1) d(2) c(3) dd by simp
  have "c \<le> a - b" unfolding e by simp
  then have "c < a" using B(4) less by (cases b) auto
  moreover have "c * 2 ^ p < 2 ^ w"
  proof -
    have "c * 2 ^ p \<le> a * 2 ^ p" using \<open>c < a\<close> by simp
    with w(2) show ?thesis by linarith
  qed
  moreover have "gcd c b = gcd a b"
  proof -
    have "gcd c b = gcd (a - b) b" unfolding e using B(4) by (rule gcd_odd_part [symmetric])
    also have "\<dots> = gcd a b" using less by (simp add: gcd_diff1_nat)
    finally show ?thesis .
  qed
  ultimately show ?thesis using sub ctz sh c(2) by (auto simp: gcd_reduce_def)
qed

lemma ap_ugt_value:
  "ap_ok x \<Longrightarrow> ap_ok y \<Longrightarrow> BitWidth x = BitWidth y \<Longrightarrow> ap_ugt x y = Inr (ap_val y < ap_val x)"
  by (simp add: ap_ugt_def ap_compare_value sgn_if)

lemma ap_not_value:
  assumes "ap_ok x"
  shows "ap_not x = Inr (ap_val x = 0)"
proof (cases "isSingleWord x")
  case True
  then show ?thesis using single_word [of x] assms by (auto simp: ap_not_def ap_val_def ap_ok_def unat_eq_0)
next
  case False
  have v: "ap_val x < 2 ^ BitWidth x" using assms by (simp add: ap_ok_def)
  have "countLeadingZerosSlowCase x = Inr (lead_zeros (ap_val x) (BitWidth x))"
    using ap_countLeadingZeros_value [OF assms] False by (simp add: ap_countLeadingZeros_def)
  moreover have "lead_zeros (ap_val x) (BitWidth x) = BitWidth x \<longleftrightarrow> ap_val x = 0"
    using lead_zeros_bounds [OF v] by auto
  ultimately show ?thesis using False by (simp add: ap_not_def)
qed

lemma gcd_loop_value:
  "ap_ok A \<Longrightarrow> BitWidth A = w \<Longrightarrow> ap_val A = a * 2 ^ p \<Longrightarrow> odd a \<Longrightarrow>
   ap_ok B \<Longrightarrow> BitWidth B = w \<Longrightarrow> ap_val B = b * 2 ^ p \<Longrightarrow> odd b \<Longrightarrow>
   gcd_loop p A B = Some (Inr (ap_make w (gcd a b * 2 ^ p)))"
proof (induction "a + b" arbitrary: A B a b rule: less_induct)
  case less
  note A = less.prems(1-4) and B = less.prems(5-8)
  have w0: "0 < w" using A by (auto simp: ap_ok_def ap_shape_def)
  have eq: "ap_equal A B = Inr (a = b)" using ap_equal_value(1) [OF A(1) B(1)] A(2,3) B(2,3) by simp
  have gt: "ap_ugt A B = Inr (b < a)" using ap_ugt_value [OF A(1) B(1)] A(2,3) B(2,3) by simp
  consider (same) "a = b" | (gt) "b < a" | (lt) "a < b" by linarith
  then show ?case
  proof cases
    case same
    then have "gcd_round p A B = Inr (Inl A)" using eq by (simp add: gcd_round_def)
    then show ?thesis using same ap_make_self [OF A(1)] A(2,3)
      by (subst gcd_loop.simps) (simp add: round_result_def)
  next
    case gt
    obtain c where c: "gcd_reduce p A B = Inr (ap_make w (c * 2 ^ p))" "odd c" "c < a" "c * 2 ^ p < 2 ^ w" "gcd c b = gcd a b"
      using gcd_reduce_value [OF A B gt] by blast
    have "gcd_round p A B = Inr (Inr (ap_make w (c * 2 ^ p), B))"
      using gt eq \<open>ap_ugt A B = _\<close> c(1) by (simp add: gcd_round_def)
    then have "gcd_loop p A B = gcd_loop p (ap_make w (c * 2 ^ p)) B"
      by (subst gcd_loop.simps) (simp add: round_result_def round_next_def)
    also have "\<dots> = Some (Inr (ap_make w (gcd c b * 2 ^ p)))"
      using c w0 B by (intro less.hyps) simp_all
    finally show ?thesis using c(5) by simp
  next
    case lt
    obtain c where c: "gcd_reduce p B A = Inr (ap_make w (c * 2 ^ p))" "odd c" "c < b" "c * 2 ^ p < 2 ^ w" "gcd c a = gcd b a"
      using gcd_reduce_value [OF B A lt] by blast
    have "gcd_round p A B = Inr (Inr (A, ap_make w (c * 2 ^ p)))"
      using lt eq gt c(1) by (simp add: gcd_round_def)
    then have "gcd_loop p A B = gcd_loop p A (ap_make w (c * 2 ^ p))"
      by (subst gcd_loop.simps) (simp add: round_result_def round_next_def)
    also have "\<dots> = Some (Inr (ap_make w (gcd a c * 2 ^ p)))"
      using c w0 A by (intro less.hyps) simp_all
    finally show ?thesis using c(5) by (simp add: gcd.commute)
  qed
qed


lemma gcd_odd_multiples:
  assumes "odd a" "odd b" "p \<le> q"
  shows "gcd (a * 2 ^ q) (b * 2 ^ p) = gcd a b * (2 :: nat) ^ p"
proof -
  have e: "a * 2 ^ q = 2 ^ p * (a * 2 ^ (q - p))" using assms(3) by (simp add: mult.left_commute flip: power_add)
  have "gcd (a * 2 ^ q) (b * 2 ^ p) = gcd (2 ^ p * (a * 2 ^ (q - p))) (2 ^ p * b)" unfolding e by (simp only: mult.commute [of b])
  also have "\<dots> = 2 ^ p * gcd (a * 2 ^ (q - p)) b" by (rule gcd_mult_distrib_nat [symmetric])
  finally have "gcd (a * 2 ^ q) (b * 2 ^ p) = gcd (a * 2 ^ (q - p)) b * 2 ^ p" by (simp only: mult.commute)
  then show ?thesis using gcd_odd_part [OF assms(2)] by simp
qed

lemma gcd_shift_value:
  assumes A: "ap_ok A" "BitWidth A = w" "ap_val A \<noteq> 0" and B: "ap_ok B" "BitWidth B = w" "ap_val B \<noteq> 0"
  shows "\<exists>p a b A' B'. gcd_shift A B = Inr (p, A', B') \<and> ap_ok A' \<and> BitWidth A' = w \<and> ap_val A' = a * 2 ^ p \<and> odd a \<and>
    ap_ok B' \<and> BitWidth B' = w \<and> ap_val B' = b * 2 ^ p \<and> odd b \<and> gcd (ap_val A) (ap_val B) = gcd a b * 2 ^ p"
proof -
  have w: "0 < w" "ap_val A < 2 ^ w" "ap_val B < 2 ^ w" using A B by (auto simp: ap_ok_def ap_shape_def)
  define p where "p = trail_zeros (ap_val A) w"
  define q where "q = trail_zeros (ap_val B) w"
  obtain a where a: "ap_val A = a * 2 ^ p" "odd a" "p < w"
    by (rule trail_zeros_odd_multiple [of "ap_val A" w]) (use A(3) w(2) in \<open>auto simp: p_def\<close>)
  obtain b where b: "ap_val B = b * 2 ^ q" "odd b" "q < w"
    by (rule trail_zeros_odd_multiple [of "ap_val B" w]) (use B(3) w(3) in \<open>auto simp: q_def\<close>)
  have c: "ap_countTrailingZeros A = Inr p" "ap_countTrailingZeros B = Inr q"
    using ap_countTrailingZeros_value [OF A(1)] ap_countTrailingZeros_value [OF B(1)] A(2) B(2) by (simp_all add: p_def q_def)
  have sh: "\<exists>Y. ap_lshr X (i - j) = Inr Y \<and> ap_ok Y \<and> BitWidth Y = w \<and> ap_val Y = x * 2 ^ j"
    if "ap_ok X" "BitWidth X = w" "ap_val X = x * 2 ^ i" "j < i" "i < w" for X x i j
  proof -
    have "x * 2 ^ i = x * 2 ^ j * 2 ^ (i - j)" using that(4) by (simp add: mult.assoc flip: power_add)
    then have "ap_val X = x * 2 ^ j * 2 ^ (i - j)" using that(3) by (simp only:)
    then have quot: "ap_val X div 2 ^ (i - j) = x * 2 ^ j" by simp
    have "x * 2 ^ j \<le> x * 2 ^ i" using that(4) by (intro mult_le_mono2 power_increasing) simp_all
    moreover have "x * 2 ^ i < 2 ^ w" using that(1-3) by (auto simp: ap_ok_def)
    ultimately have "x * 2 ^ j < 2 ^ w" by linarith
    then show ?thesis using quot ap_lshr_make [OF that(1,2), of "i - j"] that(5) w(1) by simp
  qed
  consider (gt) "q < p" | (lt) "p < q" | (same) "p = q" by linarith
  then show ?thesis
  proof cases
    case gt
    obtain A' where "ap_lshr A (p - q) = Inr A'" "ap_ok A'" "BitWidth A' = w" "ap_val A' = a * 2 ^ q"
      using sh [OF A(1,2) a(1) gt a(3)] by blast
    then show ?thesis using gt c a b B gcd_odd_multiples [OF a(2) b(2), of q p]
      by (intro exI [of _ q] exI [of _ a] exI [of _ b] exI [of _ A'] exI [of _ B]) (simp add: gcd_shift_def)
  next
    case lt
    obtain B' where "ap_lshr B (q - p) = Inr B'" "ap_ok B'" "BitWidth B' = w" "ap_val B' = b * 2 ^ p"
      using sh [OF B(1,2) b(1) lt b(3)] by blast
    then show ?thesis using lt c a b A gcd_odd_multiples [OF b(2) a(2), of p q]
      by (intro exI [of _ p] exI [of _ a] exI [of _ b] exI [of _ A] exI [of _ B']) (simp add: gcd_shift_def gcd.commute)
  next
    case same
    then show ?thesis using c a b A B gcd_odd_multiples [OF a(2) b(2), of p p]
      by (intro exI [of _ p] exI [of _ a] exI [of _ b] exI [of _ A] exI [of _ B]) (simp add: gcd_shift_def)
  qed
qed

lemma GreatestCommonDivisor_value:
  assumes A: "ap_ok A" "BitWidth A = w" and B: "ap_ok B" "BitWidth B = w"
  shows "GreatestCommonDivisor A B = Some (Inr (ap_make w (gcd (ap_val A) (ap_val B))))"
proof -
  have eq: "ap_equal A B = Inr (ap_val A = ap_val B)" using ap_equal_value(1) [OF A(1) B(1)] A(2) B(2) by simp
  have self: "ap_make w (ap_val A) = A" "ap_make w (ap_val B) = B"
    using ap_make_self [OF A(1)] ap_make_self [OF B(1)] A(2) B(2) by simp_all
  note z = ap_not_value [OF A(1)] ap_not_value [OF B(1)]
  consider (same) "ap_val A = ap_val B" | (a) "ap_val A \<noteq> ap_val B" "ap_val A = 0"
    | (b) "ap_val A \<noteq> ap_val B" "ap_val A \<noteq> 0" "ap_val B = 0"
    | (loop) "ap_val A \<noteq> ap_val B" "ap_val A \<noteq> 0" "ap_val B \<noteq> 0" by blast
  then show ?thesis
  proof cases
    case same
    show ?thesis using eq self(1) same [symmetric] by (simp add: GreatestCommonDivisor_def gcd_start_def)
  next
    case a
    then have "ap_equal A B = Inr False" "ap_not A = Inr True" by (simp_all only: eq z refl if_False simp_thms)
    then show ?thesis using a(2) self(2) by (simp add: GreatestCommonDivisor_def gcd_start_def)
  next
    case b
    then have "ap_equal A B = Inr False" "ap_not A = Inr False" "ap_not B = Inr True" by (simp_all only: eq z simp_thms)
    then show ?thesis using b(3) self(1) by (simp add: GreatestCommonDivisor_def gcd_start_def)
  next
    case loop
    obtain p a b A' B' where s: "gcd_shift A B = Inr (p, A', B')" "ap_ok A'" "BitWidth A' = w" "ap_val A' = a * 2 ^ p" "odd a"
        "ap_ok B'" "BitWidth B' = w" "ap_val B' = b * 2 ^ p" "odd b" "gcd (ap_val A) (ap_val B) = gcd a b * 2 ^ p"
      using gcd_shift_value [OF A loop(2) B loop(3)] by blast
    have "ap_equal A B = Inr False" "ap_not A = Inr False" "ap_not B = Inr False" using loop by (simp_all only: eq z simp_thms)
    then show ?thesis using s(1,10) gcd_loop_value [OF s(2-9)]
      by (simp add: GreatestCommonDivisor_def gcd_start_def)
  qed
qed

end
