(* ===== verification/ApIntDivProperties.thy ===== *)
theory ApIntDivProperties
  imports ApIntDivRem ApIntGcd
begin

unbundle bit_operations_syntax

text \<open>
  Properties of division: Algorithm D on 32-bit digits, the division operations of \<open>APInt\<close> in all
  their variants, division with shared objects, and the greatest common divisor.
\<close>

text \<open>
  C28: Algorithm D computes quotient and remainder: for a divisor of at least two digits with a
  leading digit that is not zero, and any dividend, \<open>KnuthDiv\<close> ends with the digits of the
  quotient and, when asked for it, of the remainder of the two numbers.
\<close>

theorem knuth_division:
  assumes "1 < n" "n \<le> length v" "v ! (n - 1) \<noteq> 0"
    and "m + n < length u" "dg_value (drop (Suc (m + n)) u) = 0" "m < length q" "\<forall>i < length q. q ! i = 0"
  shows "\<exists>q' r'. KnuthDiv u v q (Some r) (int m) n = Inr (q', Some r') \<and> length q' = length q \<and>
    dg_value q' = dg_value (take (m + n) u) div dg_value (take n v) \<and>
    dg_value (take n r') = dg_value (take (m + n) u) mod dg_value (take n v)"
proof -
  have "q = replicate (length q) 0" using assms(7) by (auto intro: nth_equalityI)
  then have q0: "dg_value q = 0" by (metis dg_value_replicate_0)
  have "\<forall>i \<le> m. q ! i = 0" using assms(6,7) by simp
  from KnuthDiv_value [OF assms(1-6) q0 this, of "Some r"] obtain q' R where
    "KnuthDiv u v q (Some r) (int m) n = Inr (q', Some (R @ drop n r))" "length q' = length q"
    "dg_value q' = dg_value (take (m + n) u) div dg_value (take n v)"
    "length R = n" "dg_value R = dg_value (take (m + n) u) mod dg_value (take n v)" by auto
  then show ?thesis by (intro exI [of _ q'] exI [of _ "R @ drop n r"]) simp
qed

theorem knuth_division_witness:
  "\<exists>q' r'. KnuthDiv [5, 7, 9, 0] [3, 4] [0, 0] (Some [1, 1]) 1 2 = Inr (q', Some r') \<and>
    dg_value q' = dg_value [5, 7, 9] div dg_value [3, 4] \<and> dg_value (take 2 r') = dg_value [5, 7, 9] mod dg_value [3, 4]"
proof -
  have "\<exists>q' r'. KnuthDiv [5, 7, 9, 0] [3, 4] [0, 0] (Some [1, 1]) (int 1) 2 = Inr (q', Some r') \<and> length q' = length [0 :: digit, 0] \<and>
    dg_value q' = dg_value (take (1 + 2) [5, 7, 9, 0]) div dg_value (take 2 [3, 4]) \<and>
    dg_value (take 2 r') = dg_value (take (1 + 2) [5, 7, 9, 0]) mod dg_value (take 2 [3, 4])"
    by (rule knuth_division) (simp_all add: nth_Cons')
  then show ?thesis by auto
qed

text \<open>
  C27: division of \<open>APInt\<close> is division of the numbers, for every width: the unsigned operations
  give quotient and remainder of the unsigned values; the signed ones round towards zero and
  wrap around modulo two to the width, so the smallest number divided by \<open>-1\<close> is itself.
\<close>

theorem apint_division:
  assumes "ap_ok x" "ap_ok y" "BitWidth x = w" "BitWidth y = w" "ap_val y \<noteq> 0"
  shows "ap_udiv x y = Inr (ap_make w (ap_val x div ap_val y)) \<and>
    ap_urem x y = Inr (ap_make w (ap_val x mod ap_val y)) \<and>
    ap_sdiv x y = Inr (ap_make w (nat ((ap_sval x sdiv ap_sval y) mod 2 ^ w))) \<and>
    ap_srem x y = Inr (ap_make w (nat ((ap_sval x smod ap_sval y) mod 2 ^ w)))"
  using ap_udiv_make [OF assms] ap_urem_make [OF assms] ap_sdiv_signed [OF assms] by (simp add: ap_signed_def)

theorem apint_division_witness:
  "ap_udiv (ap_make 256 (10 ^ 60 + 7)) (ap_make 256 (10 ^ 30)) = Inr (ap_make 256 (10 ^ 30)) \<and>
   ap_urem (ap_make 256 (10 ^ 60 + 7)) (ap_make 256 (10 ^ 30)) = Inr (ap_make 256 7) \<and>
   ap_sdiv (ap_make 256 (2 ^ 255)) (ap_make 256 (2 ^ 256 - 1)) = Inr (ap_make 256 (2 ^ 255))"
proof -
  have "ap_sval (ap_make 256 (2 ^ 255)) = - (2 ^ 255)" "ap_sval (ap_make 256 (2 ^ 256 - 1)) = - 1"
    by (simp_all add: ap_sval_def)
  then have "ap_sdiv (ap_make 256 (2 ^ 255)) (ap_make 256 (2 ^ 256 - 1)) = Inr (ap_make 256 (2 ^ 255))"
    using apint_division [of "ap_make 256 (2 ^ 255)" "ap_make 256 (2 ^ 256 - 1)" 256]
    by (simp add: signed_divide_int_def)
  then show ?thesis using apint_division [of "ap_make 256 (10 ^ 60 + 7)" "ap_make 256 (10 ^ 30)" 256] by simp
qed

text \<open>
  C31: a division of an \<open>APInt\<close> by zero never gives a number: \<open>udiv\<close>, \<open>urem\<close>, \<open>sdiv\<close>, \<open>srem\<close>
  and \<open>udivrem\<close> by an \<open>APInt\<close> and \<open>udiv\<close> and \<open>urem\<close> by a word all end in an assertion, for one
  word and for many, whatever the dividend is and whatever objects the results go to.
\<close>

theorem apint_division_by_zero:
  assumes "ap_ok x" "ap_ok y" "BitWidth x = BitWidth y" "ap_val y = 0"
  shows "(\<exists>msg. ap_udiv x y = Inl (AssertFailed msg)) \<and> (\<exists>msg. ap_urem x y = Inl (AssertFailed msg)) \<and>
    (\<exists>msg. ap_sdiv x y = Inl (AssertFailed msg)) \<and> (\<exists>msg. ap_srem x y = Inl (AssertFailed msg)) \<and>
    (\<forall>memq memr LHS RHS Quot Rem st. st LHS = x \<and> st RHS = y \<longrightarrow>
       (\<exists>msg. udivrem memq memr LHS RHS Quot Rem st = Inl (AssertFailed msg))) \<and>
    (\<exists>msg. ap_udiv_word x 0 = Inl (AssertFailed msg)) \<and> (\<exists>msg. ap_urem_word x 0 mem = Inl (AssertFailed msg))"
proof -
  have u: "(\<exists>msg. ap_udiv z y = Inl (AssertFailed msg)) \<and> (\<exists>msg. ap_urem z y = Inl (AssertFailed msg)) \<and>
      (\<forall>memq memr LHS RHS Quot Rem st. st LHS = z \<and> st RHS = y \<longrightarrow>
         (\<exists>msg. udivrem memq memr LHS RHS Quot Rem st = Inl (AssertFailed msg)))"
    if z: "ap_ok z" "BitWidth z = BitWidth y" for z
    by (rule zero_divisor [OF z(1) assms(2) z(2) assms(4)])
  have n: "ap_ok (ap_negate x)" "BitWidth (ap_negate x) = BitWidth y" if "ap_sval x < 0"
    using ap_abs(2) [OF assms(1,3) that] by simp_all
  have "ap_sval y = 0" using assms(2,4) by (auto simp: ap_sval_def)
  then have s: "isNegative y = Inr False" "isNegative x = Inr (ap_sval x < 0)"
    using isNegative_value(2) [OF assms(2)] isNegative_value(2) [OF assms(1)] by simp_all
  have "(\<exists>msg. ap_sdiv x y = Inl (AssertFailed msg)) \<and> (\<exists>msg. ap_srem x y = Inl (AssertFailed msg))"
    using u [OF n] u [OF assms(1,3)] by (cases "ap_sval x < 0") (auto simp: ap_sdiv_def ap_srem_def s)
  moreover have "(\<exists>msg. ap_udiv_word x 0 = Inl (AssertFailed msg)) \<and> (\<exists>msg. ap_urem_word x 0 mem = Inl (AssertFailed msg))"
    by (simp add: ap_udiv_word_def ap_urem_word_def)
  ultimately show ?thesis using u [OF assms(1,3)] by blast
qed

theorem apint_division_by_zero_witness:
  "(\<exists>msg. ap_udiv (ap_make 128 7) (ap_make 128 0) = Inl (AssertFailed msg)) \<and>
   (\<exists>msg. ap_srem (ap_make 128 7) (ap_make 128 0) = Inl (AssertFailed msg)) \<and>
   (\<exists>msg. udivrem [] [] 0 1 0 2 (\<lambda>a. if a = 0 then ap_make 128 7 else ap_make 128 0) = Inl (AssertFailed msg))"
proof -
  have z: "ap_ok (ap_make 128 7)" "ap_ok (ap_make 128 0)" "BitWidth (ap_make 128 7) = BitWidth (ap_make 128 0)"
    "ap_val (ap_make 128 0) = 0" by simp_all
  show ?thesis using apint_division_by_zero [OF z] by simp
qed

text \<open>
  C30: \<open>udivrem\<close> writes quotient and remainder to its two result objects and to nothing else, also
  when they are the operands themselves. The exception is a divisor 1 of more than one word of
  width: then the remainder must not go to an operand, nor the quotient to the divisor.
\<close>

theorem udivrem_shared_objects:
  assumes "ap_ok (st LHS)" "BitWidth (st LHS) = w" "ap_ok (st RHS)" "BitWidth (st RHS) = w" "ap_val (st RHS) \<noteq> 0"
    and "ap_shape (st Quot)" "ap_shape (st Rem)" "Quot \<noteq> Rem"
    and "length memq = getNumWords w" "length memr = getNumWords w"
    and "w \<le> 64 \<or> ap_val (st RHS) \<noteq> 1 \<or> Rem \<noteq> LHS \<and> Quot \<noteq> RHS \<and> Rem \<noteq> RHS"
  shows "\<exists>st'. udivrem memq memr LHS RHS Quot Rem st = Inr st' \<and>
    st' Quot = ap_make w (ap_val (st LHS) div ap_val (st RHS)) \<and>
    st' Rem = ap_make w (ap_val (st LHS) mod ap_val (st RHS)) \<and>
    (\<forall>a. a \<noteq> Quot \<and> a \<noteq> Rem \<longrightarrow> st' a = st a)"
  using udivrem_value [OF assms(1-10)] assms(2,11) by (simp add: isSingleWord_def)

theorem udivrem_shared_objects_witness:
  "\<exists>st'. udivrem [0, 0] [0, 0] 0 1 0 1 (\<lambda>a. if a = 0 then ap_make 100 17 else ap_make 100 5) = Inr st' \<and>
    st' 0 = ap_make 100 3 \<and> st' 1 = ap_make 100 2"
  using udivrem_shared_objects [of "\<lambda>a. if a = 0 then ap_make 100 17 else ap_make 100 5" 0 100 1 0 1 "[0, 0]" "[0, 0]"]
  by (auto simp: ap_shapeI getNumWords_def)

text \<open>
  C29: Stein's algorithm ends for every two numbers of the same width, with their greatest common
  divisor.
\<close>

theorem gcd_terminates:
  assumes "ap_ok A" "BitWidth A = w" "ap_ok B" "BitWidth B = w"
  shows "GreatestCommonDivisor A B = Some (Inr (ap_make w (gcd (ap_val A) (ap_val B))))"
  by (rule GreatestCommonDivisor_value [OF assms])

theorem gcd_terminates_witness:
  "GreatestCommonDivisor (ap_make 80 (12 * 2 ^ 64)) (ap_make 80 18) = Some (Inr (ap_make 80 6))"
proof -
  have "gcd (12 * 2 ^ 64) 18 = (6 :: nat)" by (simp add: gcd_non_0_nat)
  then show ?thesis using gcd_terminates [of "ap_make 80 (12 * 2 ^ 64)" 80 "ap_make 80 18"] by simp
qed

end
