(* ===== verification/ApIntOverflow.thy ===== *)
theory ApIntOverflow
  imports ApIntDiv
begin

unbundle bit_operations_syntax

text \<open>
  Arithmetic of \<open>APInt\<close> that reports an overflow, and arithmetic that saturates. A result comes with
  the value of the reference parameter \<open>Overflow\<close>. Memory for a product, which is not initialised,
  is an argument.
\<close>

definition isNonNegative :: "APInt \<Rightarrow> bool result" where
  "isNonNegative x = rbind (isNegative x) (\<lambda>n. Inr (\<not> n))"

definition sadd_ov :: "APInt \<Rightarrow> APInt \<Rightarrow> (APInt \<times> bool) result" where
  "sadd_ov x RHS =
    rbind (ap_plus x RHS) (\<lambda>Res. rbind (isNonNegative x) (\<lambda>a. rbind (isNonNegative RHS) (\<lambda>b.
    rbind (isNonNegative Res) (\<lambda>c. Inr (Res, a = b \<and> c \<noteq> a)))))"

definition uadd_ov :: "APInt \<Rightarrow> APInt \<Rightarrow> (APInt \<times> bool) result" where
  "uadd_ov x RHS = rbind (ap_plus x RHS) (\<lambda>Res. rbind (ap_ult Res RHS) (\<lambda>Overflow. Inr (Res, Overflow)))"

definition ssub_ov :: "APInt \<Rightarrow> APInt \<Rightarrow> (APInt \<times> bool) result" where
  "ssub_ov x RHS =
    rbind (ap_minus x RHS) (\<lambda>Res. rbind (isNonNegative x) (\<lambda>a. rbind (isNonNegative RHS) (\<lambda>b.
    rbind (isNonNegative Res) (\<lambda>c. Inr (Res, a \<noteq> b \<and> c \<noteq> a)))))"

definition usub_ov :: "APInt \<Rightarrow> APInt \<Rightarrow> (APInt \<times> bool) result" where
  "usub_ov x RHS = rbind (ap_minus x RHS) (\<lambda>Res. rbind (ap_compare Res x) (\<lambda>c. Inr (Res, \<not> c \<le> 0)))"

definition smul_ov :: "part list \<Rightarrow> APInt \<Rightarrow> APInt \<Rightarrow> (APInt \<times> bool) result" where
  "smul_ov mem x RHS =
    rbind (ap_times mem x RHS) (\<lambda>Res.
    rbind (ap_equal_word x 0) (\<lambda>zx. rbind (if zx then Inr True else ap_equal_word RHS 0) (\<lambda>z.
    if \<not> z
    then rbind (ap_sdiv Res RHS) (\<lambda>q. rbind (ap_equal q x) (\<lambda>e.
         if \<not> e then Inr (Res, True)
         else rbind (ap_sdiv Res x) (\<lambda>q. rbind (ap_equal q RHS) (\<lambda>e. Inr (Res, \<not> e)))))
    else Inr (Res, False))))"

definition umul_ov :: "part list \<Rightarrow> APInt \<Rightarrow> APInt \<Rightarrow> (APInt \<times> bool) result" where
  "umul_ov mem x RHS =
    rbind (ap_countLeadingZeros x) (\<lambda>a. rbind (ap_countLeadingZeros RHS) (\<lambda>b.
    if (a + b + 2) mod 2 ^ 32 \<le> BitWidth x
    then rbind (ap_times mem x RHS) (\<lambda>Res. Inr (Res, True))
    else rbind (ap_lshr x 1) (\<lambda>half. rbind (ap_times mem half RHS) (\<lambda>Res.
         rbind (isNegative Res) (\<lambda>Overflow. rbind (ap_shl Res 1) (\<lambda>Res.
         rbind (ap_bit x 0) (\<lambda>odd.
         if odd
         then rbind (ap_plus Res RHS) (\<lambda>Res. rbind (ap_ult Res RHS) (\<lambda>lt. Inr (Res, Overflow \<or> lt)))
         else Inr (Res, Overflow))))))))"

section \<open>Numbers of a width\<close>

definition in_srange :: "nat \<Rightarrow> int \<Rightarrow> bool" where
  "in_srange w i \<longleftrightarrow> - (2 ^ (w - 1)) \<le> i \<and> i < 2 ^ (w - 1)"

lemma double_half: "0 < w \<Longrightarrow> (2 :: int) ^ w = 2 * 2 ^ (w - 1)"
  by (simp flip: power_Suc)

lemma ap_signed_ok [simp]: "0 < w \<Longrightarrow> ap_ok (ap_signed w i)" "BitWidth (ap_signed w i) = w"
  by (simp_all add: ap_signed_def)

lemma ap_signed_cong: "i mod 2 ^ w = j mod 2 ^ w \<Longrightarrow> ap_signed w i = ap_signed w j"
  by (simp add: ap_signed_def)

lemma ap_signed_val: "int (ap_val (ap_signed w i)) = i mod 2 ^ w"
proof -
  have "nat (i mod 2 ^ w) < 2 ^ w" by (simp add: nat_less_iff)
  then show ?thesis by (simp add: ap_signed_def)
qed

lemma ap_signed_eq_iff: "ap_signed w i = ap_signed w j \<longleftrightarrow> i mod 2 ^ w = j mod 2 ^ w"
  using ap_signed_val [of w i] ap_signed_val [of w j] ap_signed_cong [of i w j] by metis

lemma ap_signed_sval: "ap_ok x \<Longrightarrow> BitWidth x = w \<Longrightarrow> ap_signed w (ap_sval x) = x"
  using ap_sval_bounds(3) [of x] ap_make_self [of x] by (simp add: ap_signed_def)

lemma ap_sval_signed:
  assumes "0 < w" "in_srange w i"
  shows "ap_sval (ap_signed w i) = i"
proof -
  let ?z = "ap_signed w i"
  have z: "in_srange w (ap_sval ?z)" "ap_sval ?z mod 2 ^ w = i mod 2 ^ w"
    using ap_sval_bounds [of ?z] assms(1) ap_signed_val [of w i] by (simp_all add: in_srange_def)
  then have "(ap_sval ?z - i) mod 2 ^ w = 0" by (metis mod_diff_cong diff_self mod_0)
  then have "2 ^ w dvd ap_sval ?z - i" by (rule mod_0_imp_dvd)
  moreover have "\<bar>ap_sval ?z - i\<bar> < 2 ^ w" using z(1) assms by (auto simp: in_srange_def double_half)
  ultimately show ?thesis using dvd_imp_le_int [of "ap_sval ?z - i" "2 ^ w"] by auto
qed

text \<open>A number that is out of range by less than the size of the range wraps around once.\<close>

lemma ap_sval_wrap:
  assumes w: "0 < w" and i: "- (2 ^ w) \<le> i" "i < 2 ^ w"
  shows "ap_sval (ap_signed w i) = (if in_srange w i then i else if i < 0 then i + 2 ^ w else i - 2 ^ w)"
proof -
  have "ap_signed w i = ap_signed w (i + 2 ^ w)" "ap_signed w i = ap_signed w (i - 2 ^ w)"
    by (auto intro: ap_signed_cong)
  then show ?thesis using ap_sval_signed [OF w, of i] ap_sval_signed [OF w, of "i + 2 ^ w"]
      ap_sval_signed [OF w, of "i - 2 ^ w"] i double_half [OF w] by (auto simp: in_srange_def)
qed

text \<open>The operations in terms of the signed values.\<close>

lemma signed_arithmetic:
  assumes x: "ap_ok x" and y: "ap_ok y" and w: "BitWidth x = w" "BitWidth y = w"
  shows "ap_plus x y = Inr (ap_signed w (ap_sval x + ap_sval y))"
    and "ap_minus x y = Inr (ap_signed w (ap_sval x - ap_sval y))"
    and "isSingleWord x \<or> length mem = getNumWords w \<Longrightarrow> ap_times mem x y = Inr (ap_signed w (ap_sval x * ap_sval y))"
proof -
  have v: "int (ap_val x) = ap_sval x mod 2 ^ w" "int (ap_val y) = ap_sval y mod 2 ^ w"
    using ap_sval_bounds(3) [OF x] ap_sval_bounds(3) [OF y] w by simp_all
  have yl: "ap_val y \<le> 2 ^ w" using y w by (simp add: ap_ok_def)
  have "ap_make w (ap_val x + ap_val y) = ap_signed w (ap_sval x + ap_sval y)"
    unfolding ap_signed_nat by (rule ap_signed_cong) (simp add: v mod_add_eq)
  then show "ap_plus x y = Inr (ap_signed w (ap_sval x + ap_sval y))" using ap_plus_make [OF x y w] by simp
  have "int (ap_val x + 2 ^ w - ap_val y) = (ap_sval x mod 2 ^ w - ap_sval y mod 2 ^ w) + 2 ^ w"
    using yl v by (simp add: of_nat_diff)
  then have "ap_make w (ap_val x + 2 ^ w - ap_val y) = ap_signed w (ap_sval x - ap_sval y)"
    unfolding ap_signed_nat by (intro ap_signed_cong) (simp add: mod_diff_eq)
  then show "ap_minus x y = Inr (ap_signed w (ap_sval x - ap_sval y))" using ap_minus_make [OF x y w] by simp
  have "ap_make w (ap_val x * ap_val y) = ap_signed w (ap_sval x * ap_sval y)"
    unfolding ap_signed_nat by (rule ap_signed_cong) (simp add: v mod_mult_eq)
  then show "isSingleWord x \<or> length mem = getNumWords w \<Longrightarrow> ap_times mem x y = Inr (ap_signed w (ap_sval x * ap_sval y))"
    using ap_times_make [OF x y w] by simp
qed

lemma isNonNegative_value: "ap_ok x \<Longrightarrow> isNonNegative x = Inr (0 \<le> ap_sval x)"
  using isNegative_value(2) [of x] by (simp add: isNonNegative_def not_less)

lemma equal_word_zero:
  assumes x: "ap_ok x"
  shows "ap_equal_word x 0 = Inr (ap_val x = 0)"
proof (cases "isSingleWord x")
  case True
  then show ?thesis using single_word_val [OF x True]
    by (simp add: ap_equal_word_def fits_word_def getZExtValue_def unat_eq_0 [symmetric])
next
  case False
  obtain n where "\<And>v. ap_equal_word x v = Inr (ap_val x = unat v)"
    by (rule word_facts [OF x False]) (rule that)
  then show ?thesis by simp
qed

section \<open>Sums and differences\<close>

lemma sum_overflow:
  assumes x: "ap_ok x" and y: "ap_ok y" and w: "BitWidth x = w" "BitWidth y = w"
  shows "sadd_ov x y = Inr (ap_signed w (ap_sval x + ap_sval y), \<not> in_srange w (ap_sval x + ap_sval y))"
    and "ssub_ov x y = Inr (ap_signed w (ap_sval x - ap_sval y), \<not> in_srange w (ap_sval x - ap_sval y))"
proof -
  have w0: "0 < w" using x w by (simp add: ap_ok_def ap_shape_def)
  note b = ap_sval_bounds(1,2) [OF x] ap_sval_bounds(1,2) [OF y]
  have nn: "isNonNegative (ap_signed w i) = Inr (0 \<le> ap_sval (ap_signed w i))" for i
    using w0 by (simp add: isNonNegative_value)
  have d: "(2 :: int) ^ w = 2 * 2 ^ (w - 1)" by (rule double_half [OF w0])
  have "ap_sval (ap_signed w (ap_sval x + ap_sval y)) =
      (if in_srange w (ap_sval x + ap_sval y) then ap_sval x + ap_sval y
       else if ap_sval x + ap_sval y < 0 then ap_sval x + ap_sval y + 2 ^ w else ap_sval x + ap_sval y - 2 ^ w)"
    using b d w by (intro ap_sval_wrap [OF w0]) simp_all
  then show "sadd_ov x y = Inr (ap_signed w (ap_sval x + ap_sval y), \<not> in_srange w (ap_sval x + ap_sval y))"
    using signed_arithmetic(1) [OF x y w] b d w nn isNonNegative_value [OF x] isNonNegative_value [OF y]
    by (auto simp: sadd_ov_def in_srange_def)
  have "ap_sval (ap_signed w (ap_sval x - ap_sval y)) =
      (if in_srange w (ap_sval x - ap_sval y) then ap_sval x - ap_sval y
       else if ap_sval x - ap_sval y < 0 then ap_sval x - ap_sval y + 2 ^ w else ap_sval x - ap_sval y - 2 ^ w)"
    using b d w by (intro ap_sval_wrap [OF w0]) simp_all
  then show "ssub_ov x y = Inr (ap_signed w (ap_sval x - ap_sval y), \<not> in_srange w (ap_sval x - ap_sval y))"
    using signed_arithmetic(2) [OF x y w] b d w nn isNonNegative_value [OF x] isNonNegative_value [OF y]
    by (auto simp: ssub_ov_def in_srange_def)
qed

lemma unsigned_sum_overflow:
  assumes x: "ap_ok x" and y: "ap_ok y" and w: "BitWidth x = w" "BitWidth y = w"
  shows "uadd_ov x y = Inr (ap_make w (ap_val x + ap_val y), 2 ^ w \<le> ap_val x + ap_val y)"
    and "usub_ov x y = Inr (ap_signed w (int (ap_val x) - int (ap_val y)), ap_val x < ap_val y)"
proof -
  have v: "0 < w" "ap_val x < 2 ^ w" "ap_val y < 2 ^ w" using x y w by (auto simp: ap_ok_def ap_shape_def)
  have "(ap_val x + ap_val y) mod 2 ^ w = (if 2 ^ w \<le> ap_val x + ap_val y then ap_val x + ap_val y - 2 ^ w else ap_val x + ap_val y)"
    using v by (simp add: mod_if le_mod_geq)
  then show "uadd_ov x y = Inr (ap_make w (ap_val x + ap_val y), 2 ^ w \<le> ap_val x + ap_val y)"
    using ap_plus_make [OF x y w] ap_ult_value [of "ap_make w (ap_val x + ap_val y)" y] y v w
    by (auto simp: uadd_ov_def)
  let ?m = "ap_val x + 2 ^ w - ap_val y"
  have m: "?m mod 2 ^ w = (if ap_val x < ap_val y then ?m else ap_val x - ap_val y)"
    using v by (auto simp: mod_if le_mod_geq)
  have "int ?m = (int (ap_val x) - int (ap_val y)) + 2 ^ w" using v(3) by (simp add: of_nat_diff less_imp_le)
  then have "ap_make w ?m = ap_signed w (int (ap_val x) - int (ap_val y))"
    unfolding ap_signed_nat by (intro ap_signed_cong) (simp only: mod_add_self2)
  moreover have "usub_ov x y = Inr (ap_make w ?m, ap_val x < ap_val y)"
    using ap_minus_make [OF x y w] ap_compare_value [of "ap_make w ?m" x] x v w m
    by (auto simp: usub_ov_def sgn_if)
  ultimately show "usub_ov x y = Inr (ap_signed w (int (ap_val x) - int (ap_val y)), ap_val x < ap_val y)" by simp
qed

section \<open>Products\<close>

text \<open>
  If the wrapped product divided by a factor gives the other factor without wrapping around, it is
  the product: it differs from it by less than the divisor, and by a multiple of the modulus.
\<close>

lemma sdiv_recovers:
  assumes "(R - x * y) mod 2 ^ w = (0 :: int)" and "y \<noteq> 0" and "R sdiv y = x" and "\<bar>y\<bar> \<le> 2 ^ w"
  shows "R = x * y"
proof -
  have r: "R - x * y = R smod y" using minus_sdiv_mult_eq_smod [of R y] assms(3) by simp
  have "\<bar>R smod y\<bar> < \<bar>y\<bar>" using assms(2) smod_int_range [of y R] by auto
  then have "\<bar>R - x * y\<bar> < 2 ^ w" using r assms(4) by simp
  moreover have "2 ^ w dvd R - x * y" using assms(1) by (rule mod_0_imp_dvd)
  ultimately show ?thesis using dvd_imp_le_int [of "R - x * y" "2 ^ w"] by auto
qed

lemma sdiv_range:
  assumes "in_srange w R" and "R \<noteq> - (2 ^ (w - 1)) \<or> y \<noteq> - 1"
  shows "in_srange w (R sdiv y)"
proof (cases "R = - (2 ^ (w - 1))")
  case True
  then have "R sdiv y \<noteq> - R" using assms(2) int_sdiv_negated_is_minus1 [of R y] by auto
  then show ?thesis using True sdiv_int_range [of R y] by (auto simp: in_srange_def)
next
  case False
  then show ?thesis using assms(1) sdiv_int_range [of R y] by (auto simp: in_srange_def)
qed

lemma sdiv_exact: "y \<noteq> 0 \<Longrightarrow> (x * y) sdiv y = (x :: int)"
  by (simp add: signed_divide_int_eq_divide_int)

text \<open>The check by two divisions is exact for more than one bit.\<close>

lemma product_check:
  assumes w: "1 < w" and x: "in_srange w x" and y: "in_srange w y" and R: "in_srange w R"
    and P: "(R - x * y) mod 2 ^ w = 0" and nz: "x \<noteq> 0" "y \<noteq> 0"
    and dy: "(R sdiv y) mod 2 ^ w = x mod 2 ^ w" and dx: "(R sdiv x) mod 2 ^ w = y mod 2 ^ w"
  shows "R = x * y"
proof -
  have w0: "0 < w" using w by simp
  have inj: "i = j" if "in_srange w i" "in_srange w j" "i mod 2 ^ w = j mod 2 ^ w" for i j
    using ap_sval_signed [OF w0 that(1)] ap_sval_signed [OF w0 that(2)] ap_signed_cong [OF that(3)] by metis
  have b: "\<bar>x\<bar> \<le> 2 ^ w" "\<bar>y\<bar> \<le> 2 ^ w" using x y double_half [OF w0] by (auto simp: in_srange_def)
  have one: "R = u * v"
    if "in_srange w u" "v \<noteq> 0" "\<bar>v\<bar> \<le> 2 ^ w" "(R - u * v) mod 2 ^ w = 0" "(R sdiv v) mod 2 ^ w = u mod 2 ^ w"
      "R \<noteq> - (2 ^ (w - 1)) \<or> v \<noteq> - 1" for u v
    using inj [OF sdiv_range [OF R that(6)] that(1,5)] by (intro sdiv_recovers [OF that(4,2) _ that(3)])
  show ?thesis
  proof (cases "R \<noteq> - (2 ^ (w - 1)) \<or> y \<noteq> - 1")
    case True
    then show ?thesis by (rule one [OF x nz(2) b(2) P dy])
  next
    case False
    show ?thesis
    proof (cases "x = - 1")
      case True
      have "2 * 2 ^ (w - 1) dvd - (2 ^ (w - 1)) - (1 :: int)"
        using P False True double_half [OF w0] by (auto intro: mod_0_imp_dvd)
      moreover have "(2 :: int) ^ (w - 1) = 2 * 2 ^ (w - 2)" using w by (simp flip: power_Suc add: Suc_diff_Suc numeral_2_eq_2)
      ultimately have "2 dvd - (2 ^ (w - 1)) - (1 :: int)" "even ((2 :: int) ^ (w - 1))"
        by (metis dvd_mult_left, simp)
      then show ?thesis by simp
    next
      case x1: False
      have "(R - y * x) mod 2 ^ w = 0" using P by (simp add: mult.commute)
      then have "R = y * x" using one [OF y nz(1) b(1) _ dx] x1 by simp
      then show ?thesis by (simp add: mult.commute)
    qed
  qed
qed

lemma signed_product_overflow:
  assumes x: "ap_ok x" and y: "ap_ok y" and w: "BitWidth x = w" "BitWidth y = w" "1 < w"
    and mem: "isSingleWord x \<or> length mem = getNumWords w"
  shows "smul_ov mem x y = Inr (ap_signed w (ap_sval x * ap_sval y), \<not> in_srange w (ap_sval x * ap_sval y))"
proof -
  let ?P = "ap_sval x * ap_sval y"
  let ?R = "ap_signed w ?P"
  have w0: "0 < w" using w by simp
  have R: "ap_ok ?R" "BitWidth ?R = w" using w0 by simp_all
  have r: "in_srange w (ap_sval x)" "in_srange w (ap_sval y)" "in_srange w (ap_sval ?R)"
    using ap_sval_bounds [OF x] ap_sval_bounds [OF y] ap_sval_bounds [OF R(1)] w by (simp_all add: in_srange_def)
  have zero: "ap_val z = 0 \<longleftrightarrow> ap_sval z = 0" if "ap_ok z" for z
    using ap_sval_bounds(3) [OF that] that by (cases "ap_val z = 0") (auto simp: ap_sval_def ap_ok_def)
  have eqw: "ap_equal_word z 0 = Inr (ap_sval z = 0)" if "ap_ok z" for z
    using equal_word_zero [OF that] zero [OF that] by simp
  have P: "(ap_sval ?R - ?P) mod 2 ^ w = 0"
    using ap_sval_bounds(3) [OF R(1)] ap_signed_val [of w ?P] by (simp add: mod_diff_cong [of _ _ _ ?P])
  show ?thesis
  proof (cases "ap_sval x = 0 \<or> ap_sval y = 0")
    case True
    then show ?thesis using eqw [OF x] eqw [OF y] signed_arithmetic(3) [OF x y w(1,2) mem]
      by (auto simp: smul_ov_def in_srange_def)
  next
    case False
    then have nz: "ap_sval x \<noteq> 0" "ap_sval y \<noteq> 0" by simp_all
    then have vz: "ap_val x \<noteq> 0" "ap_val y \<noteq> 0" using zero x y by simp_all
    have d: "ap_sdiv ?R y = Inr (ap_signed w (ap_sval ?R sdiv ap_sval y))"
      "ap_sdiv ?R x = Inr (ap_signed w (ap_sval ?R sdiv ap_sval x))"
      using ap_sdiv_signed(1) [OF R(1) y R(2) w(2) vz(2)] ap_sdiv_signed(1) [OF R(1) x R(2) w(1) vz(1)] by simp_all
    have e: "ap_equal (ap_signed w i) z = Inr (i mod 2 ^ w = ap_sval z mod 2 ^ w)" if "ap_ok z" "BitWidth z = w" for i z
      using ap_equal_value(2) [of "ap_signed w i" z] that w0 ap_signed_eq_iff [of w i "ap_sval z"] ap_signed_sval [OF that]
      by simp
    have s: "smul_ov mem x y = Inr (?R, \<not> ((ap_sval ?R sdiv ap_sval y) mod 2 ^ w = ap_sval x mod 2 ^ w \<and>
        (ap_sval ?R sdiv ap_sval x) mod 2 ^ w = ap_sval y mod 2 ^ w))"
      using signed_arithmetic(3) [OF x y w(1,2) mem] eqw [OF x] eqw [OF y] nz d e [OF x w(1)] e [OF y w(2)]
      by (simp add: smul_ov_def)
    have "(ap_sval ?R sdiv ap_sval y) mod 2 ^ w = ap_sval x mod 2 ^ w \<and>
        (ap_sval ?R sdiv ap_sval x) mod 2 ^ w = ap_sval y mod 2 ^ w \<longleftrightarrow> in_srange w ?P"
    proof
      assume "in_srange w ?P"
      then have "ap_sval ?R = ?P" by (rule ap_sval_signed [OF w0])
      then show "(ap_sval ?R sdiv ap_sval y) mod 2 ^ w = ap_sval x mod 2 ^ w \<and>
          (ap_sval ?R sdiv ap_sval x) mod 2 ^ w = ap_sval y mod 2 ^ w"
        using sdiv_exact [OF nz(2), of "ap_sval x"] sdiv_exact [OF nz(1), of "ap_sval y"] by (simp add: mult.commute)
    next
      assume "(ap_sval ?R sdiv ap_sval y) mod 2 ^ w = ap_sval x mod 2 ^ w \<and>
        (ap_sval ?R sdiv ap_sval x) mod 2 ^ w = ap_sval y mod 2 ^ w"
      then have "ap_sval ?R = ?P" using product_check [OF w(3) r P nz] by blast
      then show "in_srange w ?P" using r(3) by simp
    qed
    then show ?thesis using s by simp
  qed
qed

text \<open>
  The unsigned product is computed by halves: the product of half of the first factor fits the
  width unless the leading zeros alone show an overflow.
\<close>

lemma unsigned_product_overflow:
  assumes x: "ap_ok x" and y: "ap_ok y" and w: "BitWidth x = w" "BitWidth y = w" "w < 2 ^ 30"
    and mem: "isSingleWord x \<or> length mem = getNumWords w"
  shows "umul_ov mem x y = Inr (ap_make w (ap_val x * ap_val y), 2 ^ w \<le> ap_val x * ap_val y)"
proof -
  let ?u = "ap_val x" and ?v = "ap_val y"
  let ?a = "lead_zeros ?u w" and ?b = "lead_zeros ?v w"
  have w0: "0 < w" "?u < 2 ^ w" "?v < 2 ^ w" using x y w by (auto simp: ap_ok_def ap_shape_def)
  note a = lead_zeros_bounds [OF w0(2)] and b = lead_zeros_bounds [OF w0(3)]
  have z: "ap_countLeadingZeros x = Inr ?a" "ap_countLeadingZeros y = Inr ?b"
    using ap_countLeadingZeros_value [OF x] ap_countLeadingZeros_value [OF y] w by simp_all
  have m: "(?a + ?b + 2) mod 2 ^ 32 = ?a + ?b + 2" using a b w(3) by (intro mod_less) simp
  show ?thesis
  proof (cases "?a + ?b + 2 \<le> w")
    case True
    have "(2 :: nat) ^ w \<le> 2 ^ ((w - ?a - 1) + (w - ?b - 1))" using True by (intro power_increasing) simp_all
    also have "\<dots> \<le> ?u * ?v" unfolding power_add using a b True by (intro mult_le_mono) simp_all
    finally show ?thesis using True m z ap_times_make [OF x y w(1,2) mem] w by (simp add: umul_ov_def)
  next
    case False
    let ?h = "?u div 2" and ?p = "?u div 2 * ?v"
    have "?u * ?v < 2 ^ (w - ?a) * 2 ^ (w - ?b)" using a b by (intro mult_strict_mono) simp_all
    also have "\<dots> \<le> 2 ^ Suc w" unfolding power_add [symmetric] using False a b by (intro power_increasing) simp_all
    finally have uv: "?u * ?v < 2 * 2 ^ w" by simp
    have split: "?u * ?v = 2 * ?p + ?u mod 2 * ?v"
      by (metis distrib_right mult.assoc mult_div_mod_eq)
    then have p: "?p < 2 ^ w" using uv by linarith
    have hx: "ap_lshr x 1 = Inr (ap_make w ?h)" using ap_lshr_make [OF x w(1), of 1] w0(1) by simp
    have h: "?h < 2 ^ w" using w0(2) by simp
    have t: "ap_times mem (ap_make w ?h) y = Inr (ap_make w ?p)"
      using ap_times_make [of "ap_make w ?h" y w mem] y w w0(1) mem h by (simp add: isSingleWord_def)
    have n: "isNegative (ap_make w ?p) = Inr (2 ^ (w - 1) \<le> ?p)"
      using isNegative_value(1) [of "ap_make w ?p"] w0(1) p by simp
    have s: "ap_shl (ap_make w ?p) 1 = Inr (ap_make w (?p * 2))"
      using ap_shl_make [of "ap_make w ?p" w 1] w0(1) p by (simp add: Suc_leI)
    have o: "ap_bit x 0 = Inr (odd ?u)" using ap_bit_value [OF x, of 0] w0(1) w by (simp add: bit_0)
    have half: "2 ^ (w - 1) \<le> ?p \<longleftrightarrow> 2 ^ w \<le> 2 * ?p" using w0(1) by (cases w) simp_all
    have body: "umul_ov mem x y = (if odd ?u
        then rbind (ap_plus (ap_make w (?p * 2)) y) (\<lambda>Res. rbind (ap_ult Res y) (\<lambda>lt. Inr (Res, 2 ^ w \<le> 2 * ?p \<or> lt)))
        else Inr (ap_make w (?p * 2), 2 ^ w \<le> 2 * ?p))"
      using False m z hx t n s o half w by (simp add: umul_ov_def cong: if_cong split del: if_split)
    show ?thesis
    proof (cases "odd ?u")
      case False
      then have e: "?u * ?v = ?p * 2" using split by (simp add: even_iff_mod_2_eq_zero)
      have "umul_ov mem x y = Inr (ap_make w (?p * 2), 2 ^ w \<le> ?p * 2)"
        using body False by (simp add: mult.commute [of 2])
      then show ?thesis by (simp only: e)
    next
      case True
      then have e: "?u * ?v = ?p * 2 + ?v" using split by (simp add: odd_iff_mod_2_eq_one)
      have "ap_make w ((?p * 2) mod 2 ^ w + ?v) = ap_make w (?u * ?v)"
        unfolding e by (rule ap_make_cong) (simp add: mod_add_left_eq)
      then have "ap_plus (ap_make w (?p * 2)) y = Inr (ap_make w (?u * ?v))"
        using ap_plus_make [of "ap_make w (?p * 2)" y w] y w w0(1) by simp
      moreover have "ap_ult (ap_make w (?u * ?v)) y = Inr ((?u * ?v) mod 2 ^ w < ?v)"
        using ap_ult_value [of "ap_make w (?u * ?v)" y] y w w0(1) by simp
      ultimately have r: "umul_ov mem x y = Inr (ap_make w (?u * ?v), 2 ^ w \<le> 2 * ?p \<or> (?u * ?v) mod 2 ^ w < ?v)"
        using body True by simp
      have "2 ^ w \<le> 2 * ?p \<or> (?u * ?v) mod 2 ^ w < ?v \<longleftrightarrow> 2 ^ w \<le> ?u * ?v"
      proof (cases "2 ^ w \<le> 2 * ?p")
        case False
        have "(?u * ?v) mod 2 ^ w = (if 2 ^ w \<le> ?u * ?v then ?u * ?v - 2 ^ w else ?u * ?v)"
          using uv by (simp add: mod_if le_mod_geq)
        then show ?thesis using False e w0(3) by auto
      qed (use e in simp)
      then show ?thesis using r by simp
    qed
  qed
qed

section \<open>Saturation\<close>

definition getAllOnesValue :: "nat \<Rightarrow> APInt result" where
  "getAllOnesValue numBits = new_APInt numBits (- 1) True"

definition getMaxValue :: "nat \<Rightarrow> APInt result" where
  "getMaxValue numBits = getAllOnesValue numBits"

definition getSignedMaxValue :: "nat \<Rightarrow> APInt result" where
  "getSignedMaxValue numBits = rbind (getAllOnesValue numBits) (\<lambda>API. ap_clearBit API (numBits - 1))"

definition getSignedMinValue :: "nat \<Rightarrow> APInt result" where
  "getSignedMinValue numBits = rbind (new_APInt numBits 0 False) (\<lambda>API. ap_setBit API (numBits - 1))"

definition sadd_sat :: "APInt \<Rightarrow> APInt \<Rightarrow> APInt result" where
  "sadd_sat x RHS = rbind (sadd_ov x RHS) (\<lambda>(Res, Overflow).
    if \<not> Overflow then Inr Res
    else rbind (isNegative x) (\<lambda>n. if n then getSignedMinValue (BitWidth x) else getSignedMaxValue (BitWidth x)))"

definition uadd_sat :: "APInt \<Rightarrow> APInt \<Rightarrow> APInt result" where
  "uadd_sat x RHS = rbind (uadd_ov x RHS) (\<lambda>(Res, Overflow).
    if \<not> Overflow then Inr Res else getMaxValue (BitWidth x))"

definition ssub_sat :: "APInt \<Rightarrow> APInt \<Rightarrow> APInt result" where
  "ssub_sat x RHS = rbind (ssub_ov x RHS) (\<lambda>(Res, Overflow).
    if \<not> Overflow then Inr Res
    else rbind (isNegative x) (\<lambda>n. if n then getSignedMinValue (BitWidth x) else getSignedMaxValue (BitWidth x)))"

definition usub_sat :: "APInt \<Rightarrow> APInt \<Rightarrow> APInt result" where
  "usub_sat x RHS = rbind (usub_ov x RHS) (\<lambda>(Res, Overflow).
    if \<not> Overflow then Inr Res else new_APInt (BitWidth x) 0 False)"

definition smul_sat :: "part list \<Rightarrow> APInt \<Rightarrow> APInt \<Rightarrow> APInt result" where
  "smul_sat mem x RHS = rbind (smul_ov mem x RHS) (\<lambda>(Res, Overflow).
    if \<not> Overflow then Inr Res
    else rbind (isNegative x) (\<lambda>a. rbind (isNegative RHS) (\<lambda>b.
      if a \<noteq> b then getSignedMinValue (BitWidth x) else getSignedMaxValue (BitWidth x))))"

definition umul_sat :: "part list \<Rightarrow> APInt \<Rightarrow> APInt \<Rightarrow> APInt result" where
  "umul_sat mem x RHS = rbind (umul_ov mem x RHS) (\<lambda>(Res, Overflow).
    if \<not> Overflow then Inr Res else getMaxValue (BitWidth x))"

text \<open>The extreme numbers of a width.\<close>

lemma extreme_values:
  assumes w: "0 < w"
  shows "getMaxValue w = Inr (ap_signed w (2 ^ w - 1))"
    and "getSignedMaxValue w = Inr (ap_signed w (2 ^ (w - 1) - 1))"
    and "getSignedMinValue w = Inr (ap_signed w (- (2 ^ (w - 1))))"
proof -
  have ones: "getAllOnesValue w = Inr (ap_make w (2 ^ w - 1))"
  proof -
    have "ap_signed w (- 1) = ap_signed w (int (2 ^ w - 1))"
      by (rule ap_signed_cong) (simp add: of_nat_diff zmod_minus1)
    then show ?thesis using new_APInt_signed [OF w, of "- 1"]
      by (simp add: getAllOnesValue_def ap_signed_nat) (simp add: ap_signed_def)
  qed
  then show "getMaxValue w = Inr (ap_signed w (2 ^ w - 1))"
    by (simp add: getMaxValue_def ap_signed_nat of_nat_diff)
  let ?n = "w - 1"
  have wn: "w = Suc ?n" using w by simp
  have "unset_bit ?n ((2 :: nat) ^ w - 1) = 2 ^ ?n - 1"
    by (subst (1 2) mask_eq_exp_minus_1 [symmetric], rule bit_eqI) (use wn in \<open>auto simp: bit_unset_bit_iff bit_mask_iff\<close>)
  then have "getSignedMaxValue w = Inr (ap_make w (2 ^ ?n - 1))"
    using ones ap_setBit_make(2) [of "ap_make w (2 ^ w - 1)" w ?n] w
    by (simp add: getSignedMaxValue_def)
  then show "getSignedMaxValue w = Inr (ap_signed w (2 ^ (w - 1) - 1))"
    by (simp add: ap_signed_nat of_nat_diff)
  have "set_bit ?n (0 :: nat) = 2 ^ ?n" by (simp add: set_bit_eq_or)
  then have "getSignedMinValue w = Inr (ap_make w (2 ^ ?n))"
    using new_APInt_unsigned [OF w, of 0] ap_setBit_make(1) [of "ap_make w 0" w ?n] w
    by (simp add: getSignedMinValue_def)
  then have "getSignedMinValue w = Inr (ap_signed w (2 ^ ?n))" by (simp add: ap_signed_nat)
  moreover have "ap_signed w (2 ^ ?n) = ap_signed w (2 ^ ?n - 2 ^ w)" by (rule ap_signed_cong) simp
  moreover have "(2 :: int) ^ ?n - 2 ^ w = - (2 ^ ?n)" using double_half [OF w] by simp
  ultimately show "getSignedMinValue w = Inr (ap_signed w (- (2 ^ (w - 1))))" by metis
qed

definition clamp :: "int \<Rightarrow> int \<Rightarrow> int \<Rightarrow> int" where
  "clamp lo hi i = max lo (min hi i)"

lemma signed_saturation:
  assumes x: "ap_ok x" and y: "ap_ok y" and w: "BitWidth x = w" "BitWidth y = w"
  shows "sadd_sat x y = Inr (ap_signed w (clamp (- (2 ^ (w - 1))) (2 ^ (w - 1) - 1) (ap_sval x + ap_sval y)))"
    and "ssub_sat x y = Inr (ap_signed w (clamp (- (2 ^ (w - 1))) (2 ^ (w - 1) - 1) (ap_sval x - ap_sval y)))"
    and "1 < w \<Longrightarrow> isSingleWord x \<or> length mem = getNumWords w \<Longrightarrow>
      smul_sat mem x y = Inr (ap_signed w (clamp (- (2 ^ (w - 1))) (2 ^ (w - 1) - 1) (ap_sval x * ap_sval y)))"
proof -
  have w0: "0 < w" using x w by (simp add: ap_ok_def ap_shape_def)
  note b = ap_sval_bounds(1,2) [OF x] ap_sval_bounds(1,2) [OF y]
  note n = isNegative_value(2) [OF x] isNegative_value(2) [OF y]
  show "sadd_sat x y = Inr (ap_signed w (clamp (- (2 ^ (w - 1))) (2 ^ (w - 1) - 1) (ap_sval x + ap_sval y)))"
    using sum_overflow(1) [OF x y w] b w n extreme_values(2,3) [OF w0]
    by (auto simp: sadd_sat_def in_srange_def clamp_def)
  show "ssub_sat x y = Inr (ap_signed w (clamp (- (2 ^ (w - 1))) (2 ^ (w - 1) - 1) (ap_sval x - ap_sval y)))"
    using sum_overflow(2) [OF x y w] b w n extreme_values(2,3) [OF w0]
    by (auto simp: ssub_sat_def in_srange_def clamp_def)
  assume m: "1 < w" "isSingleWord x \<or> length mem = getNumWords w"
  let ?P = "ap_sval x * ap_sval y"
  have sg: "?P < 0 \<Longrightarrow> (ap_sval x < 0) \<noteq> (ap_sval y < 0)" "0 < ?P \<Longrightarrow> (ap_sval x < 0) = (ap_sval y < 0)"
    by (auto simp: mult_less_0_iff zero_less_mult_iff)
  have h: "0 < (2 :: int) ^ (w - 1)" by simp
  show "smul_sat mem x y = Inr (ap_signed w (clamp (- (2 ^ (w - 1))) (2 ^ (w - 1) - 1) ?P))"
  proof (cases "in_srange w ?P")
    case True
    then show ?thesis using signed_product_overflow [OF x y w m]
      by (auto simp: smul_sat_def in_srange_def clamp_def)
  next
    case False
    then consider "?P < - (2 ^ (w - 1))" | "2 ^ (w - 1) \<le> ?P" unfolding in_srange_def by linarith
    then show ?thesis
    proof cases
      case 1
      then have "?P < 0" using h by linarith
      with 1 sg(1) False show ?thesis using signed_product_overflow [OF x y w m] extreme_values(2,3) [OF w0] n w
        by (simp add: smul_sat_def clamp_def)
    next
      case 2
      then have "0 < ?P" using h by linarith
      with 2 sg(2) False show ?thesis using signed_product_overflow [OF x y w m] extreme_values(2,3) [OF w0] n w
        by (simp add: smul_sat_def clamp_def)
    qed
  qed
qed

lemma unsigned_saturation:
  assumes x: "ap_ok x" and y: "ap_ok y" and w: "BitWidth x = w" "BitWidth y = w"
  shows "uadd_sat x y = Inr (ap_signed w (clamp 0 (2 ^ w - 1) (int (ap_val x) + int (ap_val y))))"
    and "usub_sat x y = Inr (ap_signed w (clamp 0 (2 ^ w - 1) (int (ap_val x) - int (ap_val y))))"
    and "w < 2 ^ 30 \<Longrightarrow> isSingleWord x \<or> length mem = getNumWords w \<Longrightarrow>
      umul_sat mem x y = Inr (ap_signed w (clamp 0 (2 ^ w - 1) (int (ap_val x) * int (ap_val y))))"
proof -
  have v: "0 < w" "int (ap_val x) < 2 ^ w" using x w by (auto simp: ap_ok_def ap_shape_def)
  have le: "2 ^ w \<le> n \<longleftrightarrow> (2 :: int) ^ w \<le> int n" for n by simp
  show "uadd_sat x y = Inr (ap_signed w (clamp 0 (2 ^ w - 1) (int (ap_val x) + int (ap_val y))))"
    using unsigned_sum_overflow(1) [OF x y w] extreme_values(1) [OF v(1)] w
    by (auto simp: uadd_sat_def clamp_def le ap_signed_nat simp del: of_nat_power)
  have "int (ap_val x) - int (ap_val y) \<le> 2 ^ w - 1" using v(2) by linarith
  then show "usub_sat x y = Inr (ap_signed w (clamp 0 (2 ^ w - 1) (int (ap_val x) - int (ap_val y))))"
    using unsigned_sum_overflow(2) [OF x y w] new_APInt_unsigned [OF v(1), of 0] w
    by (auto simp: usub_sat_def clamp_def ap_signed_nat min_absorb2 max_absorb1)
  assume "w < 2 ^ 30" "isSingleWord x \<or> length mem = getNumWords w"
  then show "umul_sat mem x y = Inr (ap_signed w (clamp 0 (2 ^ w - 1) (int (ap_val x) * int (ap_val y))))"
    using unsigned_product_overflow [OF x y w] extreme_values(1) [OF v(1)] w
    by (auto simp: umul_sat_def clamp_def le ap_signed_nat simp del: of_nat_power)
qed

text \<open>One bit is an exception: the product of \<open>-1\<close> and \<open>-1\<close> is 1, but no overflow is reported.\<close>

lemma one_bit_product_not_reported:
  assumes "m = ap_signed 1 (- 1)"
  shows "smul_ov mem m m = Inr (m, False)" "\<not> in_srange 1 (ap_sval m * ap_sval m)"
proof -
  have m: "ap_ok m" "BitWidth m = 1" "isSingleWord m" using assms by (simp_all add: isSingleWord_def)
  have v: "ap_sval m = - 1" unfolding assms by (rule ap_sval_signed) (simp_all add: in_srange_def)
  then have nz: "ap_val m \<noteq> 0" using ap_sval_bounds(3) [OF m(1)] m(2) by auto
  have one: "ap_signed 1 1 = m" unfolding assms by (rule ap_signed_cong) simp
  have "ap_times mem m m = Inr m" using signed_arithmetic(3) [OF m(1,1,2,2), of mem] m(3) v one by simp
  moreover have "ap_sdiv m m = Inr m" using ap_sdiv_signed(1) [OF m(1,1,2,2) nz] v one by simp
  ultimately show "smul_ov mem m m = Inr (m, False)"
    using equal_word_zero [OF m(1)] nz ap_equal_value(2) [OF m(1,1)] by (simp add: smul_ov_def)
  show "\<not> in_srange 1 (ap_sval m * ap_sval m)" using v by (simp add: in_srange_def)
qed

section \<open>Properties\<close>

text \<open>
  C32: the arithmetic of \<open>APInt\<close> that reports overflow gives the result modulo two to the width and a
  flag that is set exactly when the result is out of range: \<open>sadd_ov\<close>, \<open>ssub_ov\<close> and, for more
  than one bit of width, \<open>smul_ov\<close> for the signed range, \<open>uadd_ov\<close>, \<open>usub_ov\<close> and, for a width
  below two to the 30, \<open>umul_ov\<close> for the unsigned one. Both operands have the same width, and
  the memory allocated for a product has the length its width needs.
\<close>

theorem apint_overflow_flags:
  assumes "ap_ok x" "ap_ok y" "BitWidth x = w" "BitWidth y = w" "length mem = getNumWords w"
  shows "sadd_ov x y = Inr (ap_signed w (ap_sval x + ap_sval y), \<not> in_srange w (ap_sval x + ap_sval y)) \<and>
    ssub_ov x y = Inr (ap_signed w (ap_sval x - ap_sval y), \<not> in_srange w (ap_sval x - ap_sval y)) \<and>
    (1 < w \<longrightarrow> smul_ov mem x y = Inr (ap_signed w (ap_sval x * ap_sval y), \<not> in_srange w (ap_sval x * ap_sval y))) \<and>
    uadd_ov x y = Inr (ap_make w (ap_val x + ap_val y), 2 ^ w \<le> ap_val x + ap_val y) \<and>
    usub_ov x y = Inr (ap_signed w (int (ap_val x) - int (ap_val y)), ap_val x < ap_val y) \<and>
    (w < 2 ^ 30 \<longrightarrow> umul_ov mem x y = Inr (ap_make w (ap_val x * ap_val y), 2 ^ w \<le> ap_val x * ap_val y))"
  using sum_overflow [OF assms(1-4)] unsigned_sum_overflow [OF assms(1-4)]
    signed_product_overflow [OF assms(1-4), of mem] unsigned_product_overflow [OF assms(1-4), of mem] assms(5) by blast

theorem apint_overflow_flags_witness:
  "umul_ov [0, 0, 0, 0] (ap_make 256 (2 ^ 200)) (ap_make 256 (2 ^ 56)) = Inr (ap_make 256 0, True) \<and>
   umul_ov [0, 0, 0, 0] (ap_make 256 (2 ^ 200)) (ap_make 256 (2 ^ 55)) = Inr (ap_make 256 (2 ^ 255), False) \<and>
   sadd_ov (ap_make 256 (2 ^ 254)) (ap_make 256 (2 ^ 254)) = Inr (ap_signed 256 (2 ^ 255), True)"
proof -
  have n: "length [0 :: part, 0, 0, 0] = getNumWords 256" by (simp add: getNumWords_def)
  have c: "ap_make 256 (2 ^ 256) = ap_make 256 0" by (rule ap_make_cong) simp
  have "umul_ov [0, 0, 0, 0] (ap_make 256 (2 ^ 200)) (ap_make 256 (2 ^ 56)) = Inr (ap_make 256 0, True)"
    using apint_overflow_flags [OF _ _ _ _ n, of "ap_make 256 (2 ^ 200)" "ap_make 256 (2 ^ 56)"] c by simp
  moreover have "umul_ov [0, 0, 0, 0] (ap_make 256 (2 ^ 200)) (ap_make 256 (2 ^ 55)) = Inr (ap_make 256 (2 ^ 255), False)"
    using apint_overflow_flags [OF _ _ _ _ n, of "ap_make 256 (2 ^ 200)" "ap_make 256 (2 ^ 55)"] by simp
  moreover have "sadd_ov (ap_make 256 (2 ^ 254)) (ap_make 256 (2 ^ 254)) = Inr (ap_signed 256 (2 ^ 255), True)"
    using apint_overflow_flags [OF _ _ _ _ n, of "ap_make 256 (2 ^ 254)" "ap_make 256 (2 ^ 254)"]
    by (simp add: ap_sval_def in_srange_def)
  ultimately show ?thesis by blast
qed

text \<open>
  C33: saturating arithmetic of \<open>APInt\<close> gives the number of the width that is nearest to the exact
  result: \<open>sadd_sat\<close>, \<open>ssub_sat\<close> and, for more than one bit of width, \<open>smul_sat\<close> in the signed
  range, \<open>uadd_sat\<close>, \<open>usub_sat\<close> and, for a width below two to the 30, \<open>umul_sat\<close> in the
  unsigned one. Both operands have the same width, and the memory allocated for a product has the
  length its width needs.
\<close>

theorem apint_saturation:
  assumes "ap_ok x" "ap_ok y" "BitWidth x = w" "BitWidth y = w" "length mem = getNumWords w"
    and "lo = - (2 ^ (w - 1))" "hi = 2 ^ (w - 1) - 1" "umax = 2 ^ w - 1"
  shows "sadd_sat x y = Inr (ap_signed w (clamp lo hi (ap_sval x + ap_sval y))) \<and>
    ssub_sat x y = Inr (ap_signed w (clamp lo hi (ap_sval x - ap_sval y))) \<and>
    (1 < w \<longrightarrow> smul_sat mem x y = Inr (ap_signed w (clamp lo hi (ap_sval x * ap_sval y)))) \<and>
    uadd_sat x y = Inr (ap_signed w (clamp 0 umax (int (ap_val x) + int (ap_val y)))) \<and>
    usub_sat x y = Inr (ap_signed w (clamp 0 umax (int (ap_val x) - int (ap_val y)))) \<and>
    (w < 2 ^ 30 \<longrightarrow> umul_sat mem x y = Inr (ap_signed w (clamp 0 umax (int (ap_val x) * int (ap_val y)))))"
  unfolding assms(6-8) using assms(5) signed_saturation(1,2) [OF assms(1-4)] signed_saturation(3) [OF assms(1-4), of mem]
    unsigned_saturation(1,2) [OF assms(1-4)] unsigned_saturation(3) [OF assms(1-4), of mem] by blast

theorem apint_saturation_witness:
  "usub_sat (ap_make 100 3) (ap_make 100 5) = Inr (ap_signed 100 0) \<and>
   uadd_sat (ap_make 100 3) (ap_make 100 5) = Inr (ap_signed 100 8) \<and>
   umul_sat [0, 0] (ap_make 100 (2 ^ 60)) (ap_make 100 (2 ^ 60)) = Inr (ap_signed 100 (2 ^ 100 - 1)) \<and>
   smul_sat [0, 0] (ap_make 100 (2 ^ 60)) (ap_make 100 (2 ^ 60)) = Inr (ap_signed 100 (2 ^ 99 - 1))"
proof -
  have n: "length [0 :: part, 0] = getNumWords 100" by (simp add: getNumWords_def)
  note sat = apint_saturation [OF _ _ _ _ n refl refl refl]
  have "usub_sat (ap_make 100 3) (ap_make 100 5) = Inr (ap_signed 100 0) \<and>
      uadd_sat (ap_make 100 3) (ap_make 100 5) = Inr (ap_signed 100 8)"
    using sat [of "ap_make 100 3" "ap_make 100 5"] by (simp add: clamp_def)
  moreover have "umul_sat [0, 0] (ap_make 100 (2 ^ 60)) (ap_make 100 (2 ^ 60)) = Inr (ap_signed 100 (2 ^ 100 - 1)) \<and>
      smul_sat [0, 0] (ap_make 100 (2 ^ 60)) (ap_make 100 (2 ^ 60)) = Inr (ap_signed 100 (2 ^ 99 - 1))"
    using sat [of "ap_make 100 (2 ^ 60)" "ap_make 100 (2 ^ 60)"] by (simp add: clamp_def ap_sval_def)
  ultimately show ?thesis by blast
qed

end
