(* ===== verification/Spec2Isabelle.thy ===== *)
theory Spec2Isabelle
  imports PipelineProperties AllocatorProperties CodegenProperties SelectionProperties
    AssemblyProperties WideIntProperties ApIntDivProperties ApIntOverflow
begin

text \<open>
  \<^bold>\<open>The EVM code generator\<close>

  The repository is a copy of LLVM with a back end for the Ethereum virtual machine, a stack
  machine with 256-bit words. This development models that back end, \<open>src/lib/Target/EVM\<close>,
  the parts of \<open>src/lib/MC\<close> that emit its code, and the integers of arbitrary width it computes
  with, \<open>APInt\<close> of \<open>src/lib/Support\<close>. The rest of the generic
  compiler is not modelled: what the back end reads of it (live intervals, generated tables,
  offsets of stack objects) is an argument of the definitions that use it.

  \<^bold>\<open>How the parts work together\<close>

  Instruction selection turns the graph of a basic block into instructions on virtual
  registers. Two passes prepare the entry block and the frame pointer. Then the registers
  are given places: with optimisation the stack allocator keeps registers with a single
  definition and local uses on the operand stack and everything else in memory slots, and
  inserts the \<open>DUP\<close>, \<open>SWAP\<close>, \<open>POP\<close>, \<open>pGETLOCAL\<close> and \<open>pPUTLOCAL\<close> instructions that bring operands
  to the top; without optimisation every register gets a memory slot. The following passes
  expand the pseudo instructions, replace the register form of every instruction by the
  stack form and emit the calling sequence, shorten constants, and mark the beginnings of
  blocks. The machine code layer turns instructions into bytes and patches addresses.

  Constants of the program are \<open>APInt\<close> values: the 256-bit words of the machine do not fit a
  host word. An \<open>APInt\<close> is one word or an array of words together with a width; its operations
  are built from static functions on arrays of words and from the bit counting functions of
  \<open>MathExtras.h\<close>, which the shortening of constants uses as well.

  \<^bold>\<open>Conventions\<close>

  A failed assertion, \<open>llvm_unreachable\<close>, undefined behaviour and a fatal error are values of the
  type \<open>failure\<close> of \<open>Prelude\<close>; a function that can end in one returns \<open>failure + 'a\<close> and is composed
  with \<open>rbind\<close>, loops over lists are \<open>foldM\<close>. State the code mutates is a record that is
  passed and returned. Insertions around an instruction go to the two lists \<open>pre\<close> and \<open>post\<close> of
  the allocator's state, in the order they have in the code. \<open>unsigned\<close> is \<open>nat\<close> where it
  counts elements of a container and a word where it is computed with. An array of words is a
  list, least significant word first; memory from \<open>getMemory\<close>, which is not initialised, is an
  argument of the operation that asks for it. The loops of the
  model are total functions and no fuel is used; the one loop whose end depends on an invariant,
  that of the greatest common divisor, is a partial function that is shown to return.

  \<^bold>\<open>Theories and sources\<close>

  \<^item> \<open>Prelude\<close>: results, monadic folds, positions in a list, big-endian bytes.
  \<^item> \<open>MachineIR\<close>: registers, operands, instructions, blocks, and the opcodes of
    \<open>EVMInstrInfo.td\<close> with the mapping \<open>getStackOpcode\<close>.
  \<^item> \<open>StackStatus\<close>, \<open>EdgeSets\<close>: the classes \<open>EVMStackStatus\<close> and \<open>EdgeSets\<close> of
    \<open>EVMStackAllocAnalysis.h\<close>.
  \<^item> \<open>StackAlloc\<close>: the class \<open>EVMStackAlloc\<close>, all of \<open>EVMStackAllocAnalysis.cpp\<close> that can be
    reached. Its lemmas are in \<open>StackAllocUses\<close> (the code inserted for operands is a
    simulation), \<open>StackAllocTotal\<close> (when the handling of operands succeeds), \<open>StackAllocSlots\<close>
    (memory slots), \<open>StackAllocFrame\<close> (the frame has room for every local the code accesses),
    \<open>StackAllocBlock\<close> (simulation of whole blocks) and \<open>StackAllocRegion\<close> (the
    region that would be kept across blocks stays empty).
  \<^item> \<open>FunctionInfo\<close>: \<open>EVMMachineFunctionInfo.h\<close>, \<open>EVMSubtarget.h\<close>, \<open>EVMUtils.cpp\<close>.
  \<^item> \<open>EvmMachine\<close>: the reference machine, the EVM instructions the emitted sequences use, on a
    stack of 256-bit words and a word-addressed view of memory. It is the specification
    the passes below are verified against.
  \<^item> \<open>ExpandPseudos\<close>, \<open>ConvertRegToStack\<close>, \<open>ShrinkPush\<close>, \<open>Finalization\<close>, \<open>ExpandFramePointer\<close>,
    \<open>ArgumentMove\<close>, \<open>VRegToMem\<close>: the passes of the same names, the last one with
    \<open>EVMPrepareForLiveIntervals.cpp\<close>. \<open>CallingSequence\<close> verifies the code of a call,
    \<open>LoweringRefinement\<close> composes expansion and conversion.
  \<^item> \<open>InstrInfo\<close>: the hooks of \<open>EVMInstrInfo.cpp\<close>, \<open>EVMRegisterInfo.cpp\<close> and
    \<open>EVMFrameLowering.cpp\<close>.
  \<^item> \<open>InstructionSelection\<close>, \<open>SelectCC\<close>: \<open>EVMISelLowering.cpp\<close> and \<open>EVMISelDAGToDAG.cpp\<close>; the
    generated matcher \<open>SelectCode\<close> is an argument.
  \<^item> \<open>MCLayer\<close>: \<open>EVMMCInstLower.cpp\<close>, \<open>EVMMCCodeEmitter.cpp\<close>, \<open>MCEVMStreamer.cpp\<close>,
    \<open>EVMAsmBackend.cpp\<close>, the printers and the disassembler. \<open>AssemblyCorrect\<close> shows that the
    bytes decode to the instructions, \<open>AssemblyTotal\<close> when assembling succeeds and that the
    bytes, run by a machine that knows only EVM opcode numbers, do what the instructions do.
  \<^item> \<open>BlockCompile\<close> composes the allocator with all passes behind it and with the assembler for
    a run of value-computing instructions; \<open>Pipeline\<close> is the list of passes of
    \<open>EVMTargetMachine.cpp\<close> on whole functions.
  \<^item> \<open>MathExtras\<close>: counting of zeros and ones of \<open>MathExtras.h\<close>, the bisection shown equal to
    counting one by one.
  \<^item> \<open>WideInt\<close>, \<open>WideIntShift\<close>, \<open>WideIntMul\<close>: the functions \<open>tcSet\<close> to
    \<open>tcSetLeastSignificantBits\<close> of \<open>APInt.cpp\<close> on arrays of words, each with what it does to the
    number the array stands for (\<open>tc_value\<close>).
  \<^item> \<open>FixedWidth\<close>: the contract of unsigned integers of a fixed width as a locale, with the laws
    of arithmetic that follow; arrays of words and \<open>APInt\<close> are its two instances.
  \<^item> \<open>ApInt\<close>, \<open>ApIntBits\<close>: the class \<open>APInt\<close> of \<open>APInt.h\<close> and \<open>APInt.cpp\<close>. \<open>ap_ok\<close> is its
    invariant (enough words, unused bits zero), \<open>ap_val\<close> and \<open>ap_sval\<close> the unsigned and the signed
    value, and \<open>ap_make\<close> the one object with a given width and value.
  \<^item> \<open>KnuthEstimate\<close>, \<open>KnuthDivision\<close>: the function \<open>KnuthDiv\<close> of \<open>APInt.cpp\<close>, long division by
    Knuth's algorithm D on 32-bit digits. The first theory holds the arithmetic of the guessed
    digit (at most two too large, at most one after the correction), the second the code and that
    it computes quotient and remainder. \<open>WideDivide\<close>: \<open>APInt::divide\<close>, which splits words into
    digits and calls it.
  \<^item> \<open>ApIntDiv\<close>: the divisions of \<open>APInt\<close>, signed and unsigned, by an \<open>APInt\<close> and by a word.
    \<open>ApIntDivRem\<close>: \<open>udivrem\<close>, which assigns to two reference parameters; objects live in a store
    by address, so that a result may be the same object as an operand. \<open>ApIntGcd\<close>:
    \<open>GreatestCommonDivisor\<close>, Stein's algorithm. \<open>ApIntOverflow\<close>: addition, subtraction and
    multiplication that report an overflow or saturate, with their properties.
  \<^item> \<open>AllocatorProperties\<close>, \<open>CodegenProperties\<close>, \<open>SelectionProperties\<close>, \<open>AssemblyProperties\<close>,
    \<open>PipelineProperties\<close>, \<open>WideIntProperties\<close>, \<open>ApIntDivProperties\<close>: the other
    properties, each with an instance on concrete code.

  \<^bold>\<open>Not modelled\<close>

  The branches for the transfer stack in \<open>handleDef\<close> and \<open>tryToAnalyzeStackArgs\<close> are disabled
  in the source by \<open>false &&\<close>; the passes \<open>EVMCallTransformation\<close> and \<open>EVMPrepareStackification\<close>
  are not added to the pipeline; \<open>EVMStackStatus.h\<close> is an unused copy. The assembly parser is
  a stub that accepts nothing. The tables of legal operations in the constructor of
  \<open>EVMTargetLowering\<close>, the registration of the target, debug output and the writers of object
  files and of the function metadata have no behaviour to verify here. Of \<open>APInt\<close> the
  conversions to strings and to floating point are left out.
\<close>

end
